(* ===== verification/Prelude.thy ===== *)
theory Prelude
  imports Main "HOL-Library.Word" "HOL-Library.Monad_Syntax"
begin

text \<open>
  Shared ground of the development: the names of the machine types the C++ sources use, the
  collections of rewrite rules the component theories fill, and generic facts on words, lists
  and options.

  A \<^verbatim>\<open>std::string\<close> or a \<^verbatim>\<open>Slice\<close> of the sources is a list of bytes; a string literal of the
  sources that takes part in byte-level work is written \<open>str ''abc''\<close>. An operation that may
  run forever, or that blocks, returns an option: \<^const>\<open>None\<close> means that it does not return.
\<close>

unbundle bit_operations_syntax

type_synonym byte = "8 word"
type_synonym u16 = "16 word"
type_synonym u32 = "32 word"
type_synonym u64 = "64 word"
type_synonym bytes = "byte list"

abbreviation str :: "string \<Rightarrow> bytes" where
  "str s \<equiv> map of_char s"

named_theorems codec_simps \<open>decoders applied to the output of their encoders\<close>
named_theorems zone_simps \<open>unfolding of the zone predicates\<close>
named_theorems frame_simps \<open>fields an operation leaves alone\<close>

section \<open>Words as natural numbers\<close>

text \<open>The order and the wrap-around arithmetic of words, read as natural numbers.\<close>

lemmas word_nat = word_less_nat_alt word_le_nat_alt unat_plus_if' unat_sub_if' word_unat_eq_iff

lemma unat_add_no_wrap:
  fixes a b :: "'a::len word"
  assumes "unat a + unat b < 2 ^ LENGTH('a)"
  shows "unat (a + b) = unat a + unat b"
  using assms by (simp add: unat_plus_if')

lemma unat_sub_no_wrap:
  fixes a b :: "'a::len word"
  assumes "b \<le> a"
  shows "unat (a - b) = unat a - unat b"
  using assms by (simp add: unat_sub)

lemma unat_ucast_small:
  fixes a :: "'a::len word"
  assumes "unat a < 2 ^ LENGTH('b::len)"
  shows "unat (ucast a :: 'b word) = unat a"
  using assms by (simp add: unsigned_ucast_eq take_bit_nat_eq_self)

lemma unat_u32_less: "unat (v :: u32) < 4294967296"
  using unsigned_less [of v, where 'a = nat] by simp

lemma unat_u64_less: "unat (v :: u64) < 18446744073709551616"
  using unsigned_less [of v, where 'a = nat] by simp

lemma unat_ucast_u32_u64 [simp]: "unat (ucast (v :: u32) :: u64) = unat v"
  using unat_u32_less [of v] by (intro unat_ucast_small) simp

lemma unat_of_nat_small:
  assumes "n < 2 ^ LENGTH('a::len)"
  shows "unat (of_nat n :: 'a word) = n"
  using assms by (simp add: unat_of_nat take_bit_nat_eq_self)

lemma unat_exp:
  assumes "k < LENGTH('a::len)"
  shows "unat (2 ^ k :: 'a word) = 2 ^ k"
  using unat_of_nat_small [of "2 ^ k", where 'a = 'a] assms by simp

lemma unat_drop_bit_less:
  fixes v :: "'a::len word"
  assumes "2 ^ n \<le> unat v" and "0 < n"
  shows "unat (drop_bit n v) < unat v"
proof -
  have "(1::nat) < 2 ^ n"
    using assms(2) by (intro one_less_power) auto
  moreover from this have "0 < unat v"
    using assms(1) by linarith
  ultimately have "unat v div 2 ^ n < unat v"
    by (intro div_less_dividend)
  then show ?thesis
    by (simp only: unat_drop_bit_eq drop_bit_eq_div [of n "unat v"])
qed

text \<open>The bits of the masks and the continuation flag that the varint code uses.\<close>

lemma bit_masks_nat [simp]:
  "bit (255 :: nat) n \<longleftrightarrow> n < 8" "bit (127 :: nat) n \<longleftrightarrow> n < 7" "bit (128 :: nat) n \<longleftrightarrow> n = 7"
proof -
  have "(255 :: nat) = mask 8" "(127 :: nat) = mask 7" "(128 :: nat) = 2 ^ 7"
    by (simp_all add: mask_eq_exp_minus_1)
  then show "bit (255 :: nat) n \<longleftrightarrow> n < 8" "bit (127 :: nat) n \<longleftrightarrow> n < 7"
    "bit (128 :: nat) n \<longleftrightarrow> n = 7"
    by (simp_all only: bit_mask_iff bit_exp_iff) auto
qed

lemma bit_masks_int [simp]:
  "bit (255 :: int) n \<longleftrightarrow> n < 8" "bit (127 :: int) n \<longleftrightarrow> n < 7" "bit (128 :: int) n \<longleftrightarrow> n = 7"
proof -
  have "(255 :: int) = mask 8" "(127 :: int) = mask 7" "(128 :: int) = 2 ^ 7"
    by (simp_all add: mask_eq_exp_minus_1)
  then show "bit (255 :: int) n \<longleftrightarrow> n < 8" "bit (127 :: int) n \<longleftrightarrow> n < 7"
    "bit (128 :: int) n \<longleftrightarrow> n = 7"
    by (simp_all only: bit_mask_iff bit_exp_iff) auto
qed

text \<open>A word below a power of two has no bit from that position on.\<close>

lemma bit_below_exp:
  fixes v :: "'a::len word"
  assumes "v < 2 ^ k" and "k < LENGTH('a)" and "bit v n"
  shows "n < k"
proof (rule ccontr)
  assume "\<not> n < k"
  then have "2 ^ k \<le> (2 :: nat) ^ n" by simp
  moreover have "unat v < 2 ^ k"
    using assms(1,2) by (simp add: word_less_nat_alt unat_exp)
  ultimately have "unat v < 2 ^ n" by (rule less_le_trans [rotated])
  then have "\<not> bit (unat v) n"
    by (simp add: bit_iff_odd)
  then show False
    using assms(3) by (simp add: bit_unsigned_iff)
qed

lemma and_128_eq_0: "(v :: 'a::len word) AND 128 = 0 \<longleftrightarrow> \<not> bit v 7"
proof
  assume "v AND 128 = 0"
  then have "\<not> bit (v AND 128) 7" by simp
  then show "\<not> bit v 7"
    using bit_imp_le_length [of v 7] by (auto simp: bit_and_iff)
next
  assume "\<not> bit v 7"
  then show "v AND 128 = 0"
    by (intro bit_word_eqI) (auto simp: bit_and_iff)
qed

section \<open>Lists\<close>

lemma sum_list_update:
  fixes f :: "'a \<Rightarrow> nat"
  assumes "i < length xs"
  shows "(\<Sum>x\<leftarrow>xs[i := y]. f x) + f (xs ! i) = (\<Sum>x\<leftarrow>xs. f x) + f y"
  using assms
proof (induction xs arbitrary: i)
  case Nil
  then show ?case by simp
next
  case (Cons x xs)
  then show ?case by (cases i) auto
qed

lemma list_update_same_fun:
  assumes "f y = f (xs ! i)"
  shows "map f (xs[i := y]) = map f xs"
proof (cases "i < length xs")
  case True
  with assms show ?thesis by (simp add: map_update list_update_same_conv)
qed (simp add: list_update_beyond)

lemma list_all_update:
  assumes "list_all P xs" and "P y"
  shows "list_all P (xs[i := y])"
  using assms by (auto simp: list_all_iff dest!: set_update_subset_insert [THEN subsetD])

lemma take_drop_append_length [simp]:
  "take (length xs) (xs @ ys) = xs" "drop (length xs) (xs @ ys) = ys"
  by simp_all

lemma filter_list_update_count:
  assumes "i < length xs"
  shows "length (filter P (xs[i := y])) + (if P (xs ! i) then 1 else 0)
         = length (filter P xs) + (if P y then 1 else 0)"
  using assms
proof (induction xs arbitrary: i)
  case Nil
  then show ?case by simp
next
  case (Cons x xs)
  then show ?case by (cases i) auto
qed

end
