(* ===== verification/Coding.thy ===== *)
theory Coding
  imports Prelude
begin

text \<open>
  The byte-level encodings of \<^verbatim>\<open>util/coding_lean.h\<close>, \<^verbatim>\<open>util/coding.h\<close> and \<^verbatim>\<open>util/coding.cc\<close>, on
  which every on-disk structure of the file system rests: little-endian fixed-width integers,
  varints, zigzag integers and length-prefixed slices.

  An encoder that appends to \<^verbatim>\<open>dst\<close> is a function of \<open>dst\<close>. A decoder that advances its input
  and reports failure returns an option of the value and the rest of the input; \<^const>\<open>None\<close> is the
  source's \<^verbatim>\<open>false\<close> or null pointer. On a little-endian host the sources copy the object
  representation, on a big-endian host they shift bytes out one by one: both write the bytes
  given here.
\<close>

section \<open>Fixed-width integers\<close>

definition EncodeFixed16 :: "u16 \<Rightarrow> bytes" where
  "EncodeFixed16 value = [ucast (value AND 0xff), ucast (drop_bit 8 value AND 0xff)]"

definition EncodeFixed32 :: "u32 \<Rightarrow> bytes" where
  "EncodeFixed32 value =
     [ucast (value AND 0xff), ucast (drop_bit 8 value AND 0xff),
      ucast (drop_bit 16 value AND 0xff), ucast (drop_bit 24 value AND 0xff)]"

definition EncodeFixed64 :: "u64 \<Rightarrow> bytes" where
  "EncodeFixed64 value =
     [ucast (value AND 0xff), ucast (drop_bit 8 value AND 0xff),
      ucast (drop_bit 16 value AND 0xff), ucast (drop_bit 24 value AND 0xff),
      ucast (drop_bit 32 value AND 0xff), ucast (drop_bit 40 value AND 0xff),
      ucast (drop_bit 48 value AND 0xff), ucast (drop_bit 56 value AND 0xff)]"

definition DecodeFixed16 :: "bytes \<Rightarrow> u16" where
  "DecodeFixed16 ptr = ucast (ptr ! 0) OR push_bit 8 (ucast (ptr ! 1))"

definition DecodeFixed32 :: "bytes \<Rightarrow> u32" where
  "DecodeFixed32 ptr =
     ucast (ptr ! 0) OR push_bit 8 (ucast (ptr ! 1)) OR
     push_bit 16 (ucast (ptr ! 2)) OR push_bit 24 (ucast (ptr ! 3))"

definition DecodeFixed64 :: "bytes \<Rightarrow> u64" where
  "DecodeFixed64 ptr =
     (let lo = ucast (DecodeFixed32 ptr); hi = ucast (DecodeFixed32 (drop 4 ptr))
      in push_bit 32 hi OR lo)"

definition PutFixed16 :: "bytes \<Rightarrow> u16 \<Rightarrow> bytes" where
  "PutFixed16 dst value = dst @ EncodeFixed16 value"

definition PutFixed32 :: "bytes \<Rightarrow> u32 \<Rightarrow> bytes" where
  "PutFixed32 dst value = dst @ EncodeFixed32 value"

definition PutFixed64 :: "bytes \<Rightarrow> u64 \<Rightarrow> bytes" where
  "PutFixed64 dst value = dst @ EncodeFixed64 value"

definition GetFixed16 :: "bytes \<Rightarrow> (u16 \<times> bytes) option" where
  "GetFixed16 input =
     (if length input < 2 then None else Some (DecodeFixed16 input, drop 2 input))"

definition GetFixed32 :: "bytes \<Rightarrow> (u32 \<times> bytes) option" where
  "GetFixed32 input =
     (if length input < 4 then None else Some (DecodeFixed32 input, drop 4 input))"

definition GetFixed64 :: "bytes \<Rightarrow> (u64 \<times> bytes) option" where
  "GetFixed64 input =
     (if length input < 8 then None else Some (DecodeFixed64 input, drop 8 input))"

section \<open>Varints\<close>

definition kMaxVarint64Length :: nat where
  "kMaxVarint64Length = 10"

text \<open>The unrolled encoder: each store truncates to the low eight bits.\<close>

definition EncodeVarint32 :: "u32 \<Rightarrow> bytes" where
  "EncodeVarint32 v =
     (if v < 2 ^ 7 then [ucast v]
      else if v < 2 ^ 14 then [ucast (v OR 128), ucast (drop_bit 7 v)]
      else if v < 2 ^ 21 then
        [ucast (v OR 128), ucast (drop_bit 7 v OR 128), ucast (drop_bit 14 v)]
      else if v < 2 ^ 28 then
        [ucast (v OR 128), ucast (drop_bit 7 v OR 128), ucast (drop_bit 14 v OR 128),
         ucast (drop_bit 21 v)]
      else
        [ucast (v OR 128), ucast (drop_bit 7 v OR 128), ucast (drop_bit 14 v OR 128),
         ucast (drop_bit 21 v OR 128), ucast (drop_bit 28 v)])"

function EncodeVarint64 :: "u64 \<Rightarrow> bytes" where
  "EncodeVarint64 v =
     (if v \<ge> 128 then ucast ((v AND 127) OR 128) # EncodeVarint64 (drop_bit 7 v)
      else [ucast v])"
  by pat_completeness auto
termination
proof (relation "measure unat")
  fix v :: u64
  assume "v \<ge> 128"
  then show "(drop_bit 7 v, v) \<in> measure unat"
    by (simp add: unat_drop_bit_less word_le_nat_alt)
qed simp

declare EncodeVarint64.simps [simp del]

definition PutVarint32 :: "bytes \<Rightarrow> u32 \<Rightarrow> bytes" where
  "PutVarint32 dst v = dst @ EncodeVarint32 v"

definition PutVarint64 :: "bytes \<Rightarrow> u64 \<Rightarrow> bytes" where
  "PutVarint64 dst v = dst @ EncodeVarint64 v"

definition PutVarint32Varint32 :: "bytes \<Rightarrow> u32 \<Rightarrow> u32 \<Rightarrow> bytes" where
  "PutVarint32Varint32 dst v1 v2 = dst @ (EncodeVarint32 v1 @ EncodeVarint32 v2)"

definition PutVarint32Varint32Varint32 :: "bytes \<Rightarrow> u32 \<Rightarrow> u32 \<Rightarrow> u32 \<Rightarrow> bytes" where
  "PutVarint32Varint32Varint32 dst v1 v2 v3 =
     dst @ (EncodeVarint32 v1 @ EncodeVarint32 v2 @ EncodeVarint32 v3)"

definition PutVarint64Varint64 :: "bytes \<Rightarrow> u64 \<Rightarrow> u64 \<Rightarrow> bytes" where
  "PutVarint64Varint64 dst v1 v2 = dst @ (EncodeVarint64 v1 @ EncodeVarint64 v2)"

definition PutVarint32Varint64 :: "bytes \<Rightarrow> u32 \<Rightarrow> u64 \<Rightarrow> bytes" where
  "PutVarint32Varint64 dst v1 v2 = dst @ (EncodeVarint32 v1 @ EncodeVarint64 v2)"

definition PutVarint32Varint32Varint64 :: "bytes \<Rightarrow> u32 \<Rightarrow> u32 \<Rightarrow> u64 \<Rightarrow> bytes" where
  "PutVarint32Varint32Varint64 dst v1 v2 v3 =
     dst @ (EncodeVarint32 v1 @ EncodeVarint32 v2 @ EncodeVarint64 v3)"

function VarintLength_loop :: "u64 \<Rightarrow> nat \<Rightarrow> nat" where
  "VarintLength_loop v len =
     (if v \<ge> 128 then VarintLength_loop (drop_bit 7 v) (len + 1) else len)"
  by pat_completeness auto
termination
proof (relation "measure (\<lambda>(v, len). unat v)")
  fix v :: u64 and len :: nat
  assume "v \<ge> 128"
  then show "((drop_bit 7 v, len + 1), v, len) \<in> measure (\<lambda>(v, len). unat v)"
    by (simp add: unat_drop_bit_less word_le_nat_alt)
qed simp

declare VarintLength_loop.simps [simp del]

definition VarintLength :: "u64 \<Rightarrow> nat" where
  "VarintLength v = VarintLength_loop v 1"

text \<open>The decoding loops; \<open>p\<close> is what lies between the source's \<^verbatim>\<open>p\<close> and \<^verbatim>\<open>limit\<close>.\<close>

fun GetVarint32PtrFallback_loop :: "bytes \<Rightarrow> nat \<Rightarrow> u32 \<Rightarrow> (u32 \<times> bytes) option" where
  "GetVarint32PtrFallback_loop [] shift result = None"
| "GetVarint32PtrFallback_loop (b # p) shift result =
     (if shift \<le> 28 then
        (let byte = ucast b :: u32
         in if byte AND 128 \<noteq> 0
            then GetVarint32PtrFallback_loop p (shift + 7)
                   (result OR push_bit shift (byte AND 127))
            else Some (result OR push_bit shift byte, p))
      else None)"

definition GetVarint32PtrFallback :: "bytes \<Rightarrow> (u32 \<times> bytes) option" where
  "GetVarint32PtrFallback p = GetVarint32PtrFallback_loop p 0 0"

definition GetVarint32Ptr :: "bytes \<Rightarrow> (u32 \<times> bytes) option" where
  "GetVarint32Ptr p =
     (case p of
        b # q \<Rightarrow>
          (let result = ucast b :: u32
           in if result AND 128 = 0 then Some (result, q) else GetVarint32PtrFallback p)
      | [] \<Rightarrow> GetVarint32PtrFallback p)"

fun GetVarint64Ptr_loop :: "bytes \<Rightarrow> nat \<Rightarrow> u64 \<Rightarrow> (u64 \<times> bytes) option" where
  "GetVarint64Ptr_loop [] shift result = None"
| "GetVarint64Ptr_loop (b # p) shift result =
     (if shift \<le> 63 then
        (let byte = ucast b :: u64
         in if byte AND 128 \<noteq> 0
            then GetVarint64Ptr_loop p (shift + 7) (result OR push_bit shift (byte AND 127))
            else Some (result OR push_bit shift byte, p))
      else None)"

definition GetVarint64Ptr :: "bytes \<Rightarrow> (u64 \<times> bytes) option" where
  "GetVarint64Ptr p = GetVarint64Ptr_loop p 0 0"

definition GetVarint32 :: "bytes \<Rightarrow> (u32 \<times> bytes) option" where
  "GetVarint32 input = GetVarint32Ptr input"

definition GetVarint64 :: "bytes \<Rightarrow> (u64 \<times> bytes) option" where
  "GetVarint64 input = GetVarint64Ptr input"

section \<open>Signed varints\<close>

definition i64ToZigzag :: "u64 \<Rightarrow> u64" where
  "i64ToZigzag l = push_bit 1 l XOR signed_drop_bit 63 l"

definition zigzagToI64 :: "u64 \<Rightarrow> u64" where
  "zigzagToI64 n = drop_bit 1 n XOR (- (n AND 1))"

definition PutVarsignedint64 :: "bytes \<Rightarrow> u64 \<Rightarrow> bytes" where
  "PutVarsignedint64 dst v = dst @ EncodeVarint64 (i64ToZigzag v)"

definition GetVarsignedint64 :: "bytes \<Rightarrow> (u64 \<times> bytes) option" where
  "GetVarsignedint64 input =
     (case GetVarint64Ptr input of None \<Rightarrow> None | Some (u, q) \<Rightarrow> Some (zigzagToI64 u, q))"

section \<open>Length-prefixed slices\<close>

definition PutLengthPrefixedSlice :: "bytes \<Rightarrow> bytes \<Rightarrow> bytes" where
  "PutLengthPrefixedSlice dst value = PutVarint32 dst (of_nat (length value)) @ value"

definition PutLengthPrefixedSliceParts :: "bytes \<Rightarrow> nat \<Rightarrow> bytes list \<Rightarrow> bytes" where
  "PutLengthPrefixedSliceParts dst total_bytes parts =
     PutVarint32 dst (of_nat (foldl (\<lambda>n part. n + length part) total_bytes parts)) @ concat parts"

definition PutLengthPrefixedSlicePartsWithPadding :: "bytes \<Rightarrow> bytes list \<Rightarrow> nat \<Rightarrow> bytes" where
  "PutLengthPrefixedSlicePartsWithPadding dst parts pad_sz =
     PutLengthPrefixedSliceParts dst pad_sz parts @ replicate pad_sz 0"

definition GetLengthPrefixedSlice :: "bytes \<Rightarrow> (bytes \<times> bytes) option" where
  "GetLengthPrefixedSlice input =
     (case GetVarint32 input of
        None \<Rightarrow> None
      | Some (len, rest) \<Rightarrow>
          if length rest \<ge> unat len then Some (take (unat len) rest, drop (unat len) rest)
          else None)"

fun GetSliceUntil :: "bytes \<Rightarrow> byte \<Rightarrow> bytes \<times> bytes" where
  "GetSliceUntil [] delimiter = ([], [])"
| "GetSliceUntil (b # bs) delimiter =
     (if b = delimiter then ([], bs)
      else (let (ret, rest) = GetSliceUntil bs delimiter in (b # ret, rest)))"

section \<open>The codec interface\<close>

text \<open>
  What a client of the encoders relies on: decoding the encoding of a valid value, followed by
  anything, gives the value back and leaves what followed. The lemmas of the interface are the
  ones the record formats need: an encoding determines its value and its own length, and a
  sequence of encodings decodes element by element.
\<close>

primrec decode_n :: "(bytes \<Rightarrow> ('a \<times> bytes) option) \<Rightarrow> nat \<Rightarrow> bytes \<Rightarrow> ('a list \<times> bytes) option"
where
  "decode_n dec 0 input = Some ([], input)"
| "decode_n dec (Suc n) input =
     (case dec input of
        None \<Rightarrow> None
      | Some (v, rest) \<Rightarrow>
          (case decode_n dec n rest of
             None \<Rightarrow> None
           | Some (vs, rest') \<Rightarrow> Some (v # vs, rest')))"

locale codec =
  fixes enc :: "'a \<Rightarrow> bytes"
    and dec :: "bytes \<Rightarrow> ('a \<times> bytes) option"
    and valid :: "'a \<Rightarrow> bool"
  assumes dec_enc: "valid v \<Longrightarrow> dec (enc v @ rest) = Some (v, rest)"
begin

lemma dec_enc_all: "valid v \<Longrightarrow> dec (enc v) = Some (v, [])"
  using dec_enc [of v "[]"] by simp

lemma enc_prefix_free:
  assumes "valid v" and "valid w" and "enc v @ r = enc w @ s"
  shows "v = w \<and> r = s"
proof -
  have "Some (v, r) = dec (enc w @ s)"
    using dec_enc [OF assms(1), of r] unfolding assms(3) by (rule sym)
  also have "\<dots> = Some (w, s)"
    by (rule dec_enc [OF assms(2)])
  finally show ?thesis by simp
qed

lemma decode_n_enc:
  "list_all valid vs \<Longrightarrow> decode_n dec (length vs) (concat (map enc vs) @ rest) = Some (vs, rest)"
  by (induction vs) (simp_all add: dec_enc)

end

section \<open>Fixed-width round trips\<close>

lemma length_EncodeFixed [simp]:
  "length (EncodeFixed16 a) = 2" "length (EncodeFixed32 b) = 4" "length (EncodeFixed64 c) = 8"
  by (simp_all add: EncodeFixed16_def EncodeFixed32_def EncodeFixed64_def)

lemma DecodeFixed16_Encode: "DecodeFixed16 (EncodeFixed16 v @ r) = v"
  by (rule bit_word_eqI) (auto simp add: DecodeFixed16_def EncodeFixed16_def bit_simps)

lemma DecodeFixed32_Encode: "DecodeFixed32 (EncodeFixed32 v @ r) = v"
proof (rule bit_word_eqI)
  fix n
  assume "n < LENGTH(32)"
  then consider "n < 8" | "8 \<le> n" "n < 16" | "16 \<le> n" "n < 24" | "24 \<le> n" "n < 32"
    by force
  then show "bit (DecodeFixed32 (EncodeFixed32 v @ r)) n = bit v n"
    by cases
      (simp_all add: DecodeFixed32_def EncodeFixed32_def bit_simps less_diff_conv2)
qed

lemma EncodeFixed64_split:
  "EncodeFixed64 v = EncodeFixed32 (ucast v) @ EncodeFixed32 (ucast (drop_bit 32 v))"
  by (auto simp: EncodeFixed64_def EncodeFixed32_def intro!: bit_word_eqI simp: bit_simps)

lemma DecodeFixed64_Encode: "DecodeFixed64 (EncodeFixed64 v @ r) = v"
proof -
  have "DecodeFixed64 (EncodeFixed64 v @ r) =
     push_bit 32 (ucast (ucast (drop_bit 32 v) :: u32)) OR ucast (ucast v :: u32)"
    by (simp add: DecodeFixed64_def EncodeFixed64_split DecodeFixed32_Encode)
  also have "\<dots> = v"
    by (rule bit_word_eqI) (auto simp: bit_simps)
  finally show ?thesis .
qed

interpretation fixed16: codec EncodeFixed16 GetFixed16 "\<lambda>_. True"
  by unfold_locales (simp add: GetFixed16_def DecodeFixed16_Encode)

interpretation fixed32: codec EncodeFixed32 GetFixed32 "\<lambda>_. True"
  by unfold_locales (simp add: GetFixed32_def DecodeFixed32_Encode)

interpretation fixed64: codec EncodeFixed64 GetFixed64 "\<lambda>_. True"
  by unfold_locales (simp add: GetFixed64_def DecodeFixed64_Encode)

lemmas fixed_codec [codec_simps, simp] =
  fixed16.dec_enc [OF TrueI] fixed32.dec_enc [OF TrueI] fixed64.dec_enc [OF TrueI]
  fixed16.dec_enc_all [OF TrueI] fixed32.dec_enc_all [OF TrueI] fixed64.dec_enc_all [OF TrueI]

section \<open>Varint round trips\<close>

lemma varint_byte_more:
  fixes v :: u64
  defines "b \<equiv> ucast ((v AND 127) OR 128) :: byte"
  shows "(ucast b :: u64) AND 128 \<noteq> 0" "(ucast b :: u64) AND 127 = v AND 127"
    and "(ucast b :: u32) AND 128 \<noteq> 0" "(ucast b :: u32) AND 127 = ucast v AND 127"
proof -
  show "(ucast b :: u64) AND 128 \<noteq> 0" "(ucast b :: u32) AND 128 \<noteq> 0"
    by (simp_all add: and_128_eq_0 b_def bit_simps)
  show "(ucast b :: u64) AND 127 = v AND 127"
    by (rule bit_word_eqI) (auto simp: b_def bit_simps)
  show "(ucast b :: u32) AND 127 = ucast v AND 127"
    by (rule bit_word_eqI) (auto simp: b_def bit_simps)
qed

lemma varint_byte_last:
  fixes v :: u64
  assumes "\<not> 128 \<le> v"
  shows "(ucast (ucast v :: byte) :: u64) = v" "v AND 128 = 0"
    and "(ucast (ucast v :: byte) :: u32) = ucast v" "(ucast v :: u32) AND 128 = 0"
proof -
  have low: "bit v n \<Longrightarrow> n < 7" for n
    using bit_below_exp [of v 7 n] assms by simp
  show "(ucast (ucast v :: byte) :: u64) = v" "(ucast (ucast v :: byte) :: u32) = ucast v"
    by (rule bit_word_eqI; auto simp: bit_simps dest: low)+
  show "v AND 128 = 0" "(ucast v :: u32) AND 128 = 0"
    by (auto simp: and_128_eq_0 bit_simps dest: low)
qed

lemma varint_join:
  fixes v :: "'a::len word"
  assumes "s + 7 \<le> LENGTH('a)"
  shows "push_bit s (v AND 127) OR push_bit (s + 7) (drop_bit 7 v) = push_bit s v"
proof (rule bit_word_eqI)
  fix n
  assume n: "n < LENGTH('a)"
  consider "n < s" | "s \<le> n" "n < s + 7" | "s + 7 \<le> n" by linarith
  then show "bit (push_bit s (v AND 127) OR push_bit (s + 7) (drop_bit 7 v)) n
      = bit (push_bit s v) n"
    using n by cases (auto simp: bit_simps)
qed

lemma varint_next_bound:
  fixes v :: u64
  assumes "unat v < 2 ^ (w - s)" and "128 \<le> v"
  shows "s + 7 < w" and "unat (drop_bit 7 v) < 2 ^ (w - (s + 7))"
proof -
  have "(2::nat) ^ 7 < 2 ^ (w - s)"
    using assms by (simp add: word_le_nat_alt)
  then have "7 < w - s"
    by (rule power_less_imp_less_exp [rotated]) simp
  then show "s + 7 < w" by simp
  then have "w - s = 7 + (w - (s + 7))" by simp
  with assms(1) have "unat v < 2 ^ 7 * 2 ^ (w - (s + 7))"
    by (simp only: power_add)
  then have "unat v div 2 ^ 7 < 2 ^ (w - (s + 7))"
    by (intro less_mult_imp_div_less) (simp only: mult.commute)
  then show "unat (drop_bit 7 v) < 2 ^ (w - (s + 7))"
    by (simp only: unat_drop_bit_eq drop_bit_eq_div [of 7 "unat v"])
qed

lemma GetVarint64Ptr_loop_Encode:
  "unat v < 2 ^ (64 - shift) \<Longrightarrow> shift \<le> 63 \<Longrightarrow>
   GetVarint64Ptr_loop (EncodeVarint64 v @ rest) shift result
   = Some (result OR push_bit shift v, rest)"
proof (induction v arbitrary: shift result rule: EncodeVarint64.induct)
  case (1 v)
  show ?case
  proof (cases "128 \<le> v")
    case True
    from varint_next_bound [OF "1.prems"(1) True]
    have s: "shift + 7 < 64" and b: "unat (drop_bit 7 v) < 2 ^ (64 - (shift + 7))" .
    have "GetVarint64Ptr_loop (EncodeVarint64 (drop_bit 7 v) @ rest) (shift + 7)
            (result OR push_bit shift (v AND 127))
          = Some ((result OR push_bit shift (v AND 127)) OR push_bit (shift + 7) (drop_bit 7 v),
                  rest)"
      using True b s by (intro "1.IH") auto
    with True "1.prems"(2) s varint_join [of shift v] show ?thesis
      by (simp add: EncodeVarint64.simps [of v] varint_byte_more or.assoc Let_def)
  next
    case False
    with "1.prems"(2) varint_byte_last [OF False] show ?thesis
      by (simp add: EncodeVarint64.simps [of v] Let_def)
  qed
qed

lemma ucast_drop_bit_32:
  fixes v :: u64
  assumes "unat v < 2 ^ (32 - s)"
  shows "ucast (drop_bit k v) = drop_bit k (ucast v :: u32)"
proof -
  have "unat v < 2 ^ 32"
    using assms power_increasing [of "32 - s" 32 "2 :: nat"] by simp
  then have low: "bit v n \<Longrightarrow> n < 32" for n
    using bit_below_exp [of v 32 n] by (simp add: word_less_nat_alt)
  show ?thesis
    by (rule bit_word_eqI) (use low in \<open>fastforce simp: bit_simps\<close>)
qed

lemma GetVarint32PtrFallback_loop_Encode:
  "unat v < 2 ^ (32 - shift) \<Longrightarrow> shift \<le> 28 \<Longrightarrow> 7 dvd shift \<Longrightarrow>
   GetVarint32PtrFallback_loop (EncodeVarint64 v @ rest) shift result
   = Some (result OR push_bit shift (ucast v), rest)"
proof (induction v arbitrary: shift result rule: EncodeVarint64.induct)
  case (1 v)
  show ?case
  proof (cases "128 \<le> v")
    case True
    from varint_next_bound [OF "1.prems"(1) True]
    have s: "shift + 7 < 32" and b: "unat (drop_bit 7 v) < 2 ^ (32 - (shift + 7))" .
    have s28: "shift + 7 \<le> 28"
      using s "1.prems"(3) by presburger
    have cast: "ucast (drop_bit 7 v) = drop_bit 7 (ucast v :: u32)"
      using "1.prems"(1) by (rule ucast_drop_bit_32)
    have "GetVarint32PtrFallback_loop (EncodeVarint64 (drop_bit 7 v) @ rest) (shift + 7)
            (result OR push_bit shift (ucast v AND 127))
          = Some ((result OR push_bit shift (ucast v AND 127))
                    OR push_bit (shift + 7) (ucast (drop_bit 7 v)), rest)"
      using True b s28 "1.prems"(3) by (intro "1.IH") simp_all
    with True "1.prems"(2) s cast varint_join [of shift "ucast v :: u32"] show ?thesis
      by (simp add: EncodeVarint64.simps [of v] varint_byte_more or.assoc Let_def)
  next
    case False
    with "1.prems"(2) varint_byte_last [OF False] show ?thesis
      by (simp add: EncodeVarint64.simps [of v] Let_def)
  qed
qed

section \<open>The unrolled encoder is the loop\<close>

lemma unat_drop_bit_word: "unat (drop_bit k (v :: 'a::len word)) = unat v div 2 ^ k"
  by (simp only: unat_drop_bit_eq drop_bit_eq_div [of k "unat v"])

lemma ucast_byte_of_u64: "(ucast (ucast (v :: u32) :: u64) :: byte) = ucast v"
  by (rule bit_word_eqI) (auto simp: bit_simps)

lemma ucast_byte_flag:
  "(ucast ((ucast (v :: u32) AND (127 :: u64)) OR 128) :: byte) = ucast (v OR 128)"
  by (rule bit_word_eqI) (auto simp: bit_simps)

lemma drop_bit_ucast_u64: "drop_bit k (ucast (v :: u32) :: u64) = ucast (drop_bit k v)"
  by (rule bit_word_eqI) (auto simp: bit_simps dest: bit_imp_le_length)

lemma EncodeVarint64_ucast:
  "EncodeVarint64 (ucast (v :: u32)) =
     (if 128 \<le> v then ucast (v OR 128) # EncodeVarint64 (ucast (drop_bit 7 v)) else [ucast v])"
proof -
  have "(128 :: u64) \<le> ucast v \<longleftrightarrow> 128 \<le> v"
    by (simp add: word_le_nat_alt)
  then show ?thesis
    by (simp add: EncodeVarint64.simps [of "ucast v"] ucast_byte_of_u64 ucast_byte_flag
        drop_bit_ucast_u64)
qed

lemma varint32_threshold:
  "128 \<le> drop_bit k (v :: u32) \<longleftrightarrow> 128 * 2 ^ k \<le> unat v"
  by (simp add: word_le_nat_alt unat_drop_bit_word less_eq_div_iff_mult_less_eq)

lemma EncodeVarint32_eq_EncodeVarint64: "EncodeVarint32 v = EncodeVarint64 (ucast v)"
proof -
  have lim: "unat v < 128 * 2 ^ 28"
    using unat_u32_less [of v] by simp
  have "128 \<le> v \<longleftrightarrow> 128 \<le> unat v"
    by (simp add: word_le_nat_alt)
  with lim show ?thesis
    by (simp add: EncodeVarint32_def EncodeVarint64_ucast varint32_threshold word_less_nat_alt
        del: drop_bit_eq_div)
qed

section \<open>Varint and slice codecs\<close>

text \<open>The one-byte fast path agrees with the general loop.\<close>

lemma GetVarint32Ptr_eq_fallback: "GetVarint32Ptr p = GetVarint32PtrFallback p"
  by (auto simp: GetVarint32Ptr_def GetVarint32PtrFallback_def Let_def split: list.split)

interpretation varint64: codec EncodeVarint64 GetVarint64 "\<lambda>_. True"
  using GetVarint64Ptr_loop_Encode [of _ 0 _ 0] unsigned_less [where 'b = 64 and 'a = nat]
  by unfold_locales (simp add: GetVarint64_def GetVarint64Ptr_def)

interpretation varint32: codec EncodeVarint32 GetVarint32 "\<lambda>_. True"
proof unfold_locales
  fix v :: u32 and rest
  have "unat (ucast v :: u64) < 2 ^ (32 - 0)"
    using unat_u32_less [of v] by simp
  then have "GetVarint32PtrFallback_loop (EncodeVarint64 (ucast v) @ rest) 0 0
      = Some (0 OR push_bit 0 (ucast (ucast v :: u64)), rest)"
    by (rule GetVarint32PtrFallback_loop_Encode) simp_all
  then show "GetVarint32 (EncodeVarint32 v @ rest) = Some (v, rest)"
    by (simp add: GetVarint32_def GetVarint32Ptr_eq_fallback GetVarint32PtrFallback_def
        EncodeVarint32_eq_EncodeVarint64 ucast_up_ucast_id is_up)
qed

lemmas varint_codec [codec_simps, simp] =
  varint32.dec_enc [OF TrueI] varint64.dec_enc [OF TrueI]
  varint32.dec_enc_all [OF TrueI] varint64.dec_enc_all [OF TrueI]

definition EncodeSlice :: "bytes \<Rightarrow> bytes" where
  "EncodeSlice value = PutLengthPrefixedSlice [] value"

lemma PutLengthPrefixedSlice_append: "PutLengthPrefixedSlice dst v = dst @ EncodeSlice v"
  by (simp add: EncodeSlice_def PutLengthPrefixedSlice_def PutVarint32_def)

text \<open>A slice is encodable when its length fits the 32-bit length prefix.\<close>

definition slice_ok :: "bytes \<Rightarrow> bool" where
  "slice_ok v \<longleftrightarrow> length v < 2 ^ 32"

interpretation slice: codec EncodeSlice GetLengthPrefixedSlice slice_ok
proof unfold_locales
  fix v rest :: bytes
  assume "slice_ok v"
  then have "unat (of_nat (length v) :: u32) = length v"
    by (simp add: slice_ok_def unat_of_nat_small)
  then show "GetLengthPrefixedSlice (EncodeSlice v @ rest) = Some (v, rest)"
    by (simp add: EncodeSlice_def PutLengthPrefixedSlice_def PutVarint32_def
        GetLengthPrefixedSlice_def)
qed

lemmas slice_codec [codec_simps, simp] = slice.dec_enc slice.dec_enc_all

lemma bit_double: "bit (l * 2 :: u64) n \<longleftrightarrow> 0 < n \<and> n < 64 \<and> bit l (n - 1)"
proof -
  have "l * 2 = push_bit 1 l" by (simp add: push_bit_eq_mult)
  then have "bit (l * 2) n \<longleftrightarrow> bit (push_bit 1 l) n" by simp
  also have "\<dots> \<longleftrightarrow> 0 < n \<and> n < 64 \<and> bit l (n - 1)"
    unfolding bit_push_bit_iff by auto
  finally show ?thesis .
qed

lemma signed_drop_bit_63: "signed_drop_bit 63 (l :: u64) = (if bit l 63 then -1 else 0)"
proof (rule bit_word_eqI)
  fix n
  assume "n < LENGTH(64)"
  then show "bit (signed_drop_bit 63 l) n = bit (if bit l 63 then -1 else 0 :: u64) n"
    by (cases n) (simp_all add: bit_signed_drop_bit_iff)
qed

lemma zigzag_inverse: "zigzagToI64 (i64ToZigzag l) = l"
proof -
  have z: "i64ToZigzag l = (if bit l 63 then NOT (l * 2) else l * 2)"
    by (simp add: i64ToZigzag_def signed_drop_bit_63 push_bit_eq_mult)
  have one: "i64ToZigzag l AND 1 = (if bit l 63 then 1 else 0)"
    by (rule bit_word_eqI) (auto simp: z bit_simps bit_1_iff bit_double)
  show ?thesis
  proof (rule bit_word_eqI)
    fix n
    assume n: "n < LENGTH(64)"
    show "bit (zigzagToI64 (i64ToZigzag l)) n = bit l n"
    proof (cases "n = 63")
      case True
      then show ?thesis
        unfolding zigzagToI64_def one by (auto simp: z bit_simps bit_double)
    next
      case False
      with n show ?thesis
        unfolding zigzagToI64_def one by (auto simp: z bit_simps bit_double)
    qed
  qed
qed

section \<open>Lengths of varints\<close>

lemma VarintLength_loop_Encode: "VarintLength_loop v (Suc n) = n + length (EncodeVarint64 v)"
proof (induction v arbitrary: n rule: EncodeVarint64.induct)
  case (1 v)
  then show ?case
    by (subst VarintLength_loop.simps, subst EncodeVarint64.simps) simp
qed

lemma length_EncodeVarint64:
  "unat v < 2 ^ (7 * Suc k) \<Longrightarrow> length (EncodeVarint64 v) \<le> Suc k"
proof (induction k arbitrary: v)
  case 0
  then have "\<not> 128 \<le> v" by (simp add: word_le_nat_alt)
  then show ?case by (subst EncodeVarint64.simps) simp
next
  case (Suc k)
  have "unat v < 128 * 2 ^ (7 * Suc k)"
    using Suc.prems by (simp add: power_add)
  then have "unat (drop_bit 7 v) < 2 ^ (7 * Suc k)"
    by (simp only: unat_drop_bit_word) (simp add: less_mult_imp_div_less mult.commute)
  from Suc.IH [OF this] show ?case
    by (subst EncodeVarint64.simps) simp
qed

section \<open>Properties\<close>

text \<open>
  (C22) The unrolled 32-bit varint encoder writes, for every value, the bytes that the 64-bit
  encoding loop writes for the widened value. The decoders read the value back and stop at the
  first byte after it. \<^verbatim>\<open>VarintLength\<close> is the length of the encoding, which fits the buffer of
  \<^verbatim>\<open>kMaxVarint64Length\<close> bytes that \<^verbatim>\<open>PutVarint64\<close> encodes into.
\<close>

theorem varint_correct:
  "EncodeVarint32 v = EncodeVarint64 (ucast v) \<and>
   GetVarint32 (EncodeVarint32 v @ rest) = Some (v, rest) \<and>
   GetVarint64 (EncodeVarint64 w @ rest) = Some (w, rest) \<and>
   VarintLength w = length (EncodeVarint64 w) \<and>
   length (EncodeVarint64 w) \<le> kMaxVarint64Length"
proof -
  have "length (EncodeVarint64 w) \<le> Suc 9"
    using unat_u64_less [of w] by (intro length_EncodeVarint64) simp
  then show ?thesis
    using VarintLength_loop_Encode [of w 0]
    by (simp add: EncodeVarint32_eq_EncodeVarint64 [symmetric] VarintLength_def
        kMaxVarint64Length_def)
qed

text \<open>
  (C23) A signed 64-bit integer written by \<^verbatim>\<open>PutVarsignedint64\<close> is read back by
  \<^verbatim>\<open>GetVarsignedint64\<close>, whatever follows it in the input.
\<close>

theorem varsignedint64_roundtrip:
  "GetVarsignedint64 (PutVarsignedint64 [] v @ rest) = Some (v, rest)"
proof -
  have "GetVarint64Ptr (EncodeVarint64 u @ rest) = Some (u, rest)" for u
    using varint64.dec_enc [of u rest] by (simp add: GetVarint64_def)
  then show ?thesis
    by (simp add: GetVarsignedint64_def PutVarsignedint64_def zigzag_inverse)
qed

end
