(* ===== verification/Crc32c.thy ===== *)
theory Crc32c
  imports Coding
begin

text \<open>
  CRC-32C of byte strings: \<^verbatim>\<open>util/crc32c.h\<close> and \<^verbatim>\<open>util/crc32c.cc\<close>, the portable implementation that reads
  four bytes at a time through four tables, the masking of stored checksums, and the combination of
  the checksums of two strings into that of their concatenation. The implementations with machine
  instructions are not modelled. All of it is compared with the definition of the checksum by division, one
  bit at a time.
\<close>

section \<open>Tables\<close>

definition table0 :: "u32 list" where
  "table0 =
    [0x00000000, 0xf26b8303, 0xe13b70f7, 0x1350f3f4, 0xc79a971f, 0x35f1141c, 0x26a1e7e8, 0xd4ca64eb,
     0x8ad958cf, 0x78b2dbcc, 0x6be22838, 0x9989ab3b, 0x4d43cfd0, 0xbf284cd3, 0xac78bf27, 0x5e133c24,
     0x105ec76f, 0xe235446c, 0xf165b798, 0x030e349b, 0xd7c45070, 0x25afd373, 0x36ff2087, 0xc494a384,
     0x9a879fa0, 0x68ec1ca3, 0x7bbcef57, 0x89d76c54, 0x5d1d08bf, 0xaf768bbc, 0xbc267848, 0x4e4dfb4b,
     0x20bd8ede, 0xd2d60ddd, 0xc186fe29, 0x33ed7d2a, 0xe72719c1, 0x154c9ac2, 0x061c6936, 0xf477ea35,
     0xaa64d611, 0x580f5512, 0x4b5fa6e6, 0xb93425e5, 0x6dfe410e, 0x9f95c20d, 0x8cc531f9, 0x7eaeb2fa,
     0x30e349b1, 0xc288cab2, 0xd1d83946, 0x23b3ba45, 0xf779deae, 0x05125dad, 0x1642ae59, 0xe4292d5a,
     0xba3a117e, 0x4851927d, 0x5b016189, 0xa96ae28a, 0x7da08661, 0x8fcb0562, 0x9c9bf696, 0x6ef07595,
     0x417b1dbc, 0xb3109ebf, 0xa0406d4b, 0x522bee48, 0x86e18aa3, 0x748a09a0, 0x67dafa54, 0x95b17957,
     0xcba24573, 0x39c9c670, 0x2a993584, 0xd8f2b687, 0x0c38d26c, 0xfe53516f, 0xed03a29b, 0x1f682198,
     0x5125dad3, 0xa34e59d0, 0xb01eaa24, 0x42752927, 0x96bf4dcc, 0x64d4cecf, 0x77843d3b, 0x85efbe38,
     0xdbfc821c, 0x2997011f, 0x3ac7f2eb, 0xc8ac71e8, 0x1c661503, 0xee0d9600, 0xfd5d65f4, 0x0f36e6f7,
     0x61c69362, 0x93ad1061, 0x80fde395, 0x72966096, 0xa65c047d, 0x5437877e, 0x4767748a, 0xb50cf789,
     0xeb1fcbad, 0x197448ae, 0x0a24bb5a, 0xf84f3859, 0x2c855cb2, 0xdeeedfb1, 0xcdbe2c45, 0x3fd5af46,
     0x7198540d, 0x83f3d70e, 0x90a324fa, 0x62c8a7f9, 0xb602c312, 0x44694011, 0x5739b3e5, 0xa55230e6,
     0xfb410cc2, 0x092a8fc1, 0x1a7a7c35, 0xe811ff36, 0x3cdb9bdd, 0xceb018de, 0xdde0eb2a, 0x2f8b6829,
     0x82f63b78, 0x709db87b, 0x63cd4b8f, 0x91a6c88c, 0x456cac67, 0xb7072f64, 0xa457dc90, 0x563c5f93,
     0x082f63b7, 0xfa44e0b4, 0xe9141340, 0x1b7f9043, 0xcfb5f4a8, 0x3dde77ab, 0x2e8e845f, 0xdce5075c,
     0x92a8fc17, 0x60c37f14, 0x73938ce0, 0x81f80fe3, 0x55326b08, 0xa759e80b, 0xb4091bff, 0x466298fc,
     0x1871a4d8, 0xea1a27db, 0xf94ad42f, 0x0b21572c, 0xdfeb33c7, 0x2d80b0c4, 0x3ed04330, 0xccbbc033,
     0xa24bb5a6, 0x502036a5, 0x4370c551, 0xb11b4652, 0x65d122b9, 0x97baa1ba, 0x84ea524e, 0x7681d14d,
     0x2892ed69, 0xdaf96e6a, 0xc9a99d9e, 0x3bc21e9d, 0xef087a76, 0x1d63f975, 0x0e330a81, 0xfc588982,
     0xb21572c9, 0x407ef1ca, 0x532e023e, 0xa145813d, 0x758fe5d6, 0x87e466d5, 0x94b49521, 0x66df1622,
     0x38cc2a06, 0xcaa7a905, 0xd9f75af1, 0x2b9cd9f2, 0xff56bd19, 0x0d3d3e1a, 0x1e6dcdee, 0xec064eed,
     0xc38d26c4, 0x31e6a5c7, 0x22b65633, 0xd0ddd530, 0x0417b1db, 0xf67c32d8, 0xe52cc12c, 0x1747422f,
     0x49547e0b, 0xbb3ffd08, 0xa86f0efc, 0x5a048dff, 0x8ecee914, 0x7ca56a17, 0x6ff599e3, 0x9d9e1ae0,
     0xd3d3e1ab, 0x21b862a8, 0x32e8915c, 0xc083125f, 0x144976b4, 0xe622f5b7, 0xf5720643, 0x07198540,
     0x590ab964, 0xab613a67, 0xb831c993, 0x4a5a4a90, 0x9e902e7b, 0x6cfbad78, 0x7fab5e8c, 0x8dc0dd8f,
     0xe330a81a, 0x115b2b19, 0x020bd8ed, 0xf0605bee, 0x24aa3f05, 0xd6c1bc06, 0xc5914ff2, 0x37faccf1,
     0x69e9f0d5, 0x9b8273d6, 0x88d28022, 0x7ab90321, 0xae7367ca, 0x5c18e4c9, 0x4f48173d, 0xbd23943e,
     0xf36e6f75, 0x0105ec76, 0x12551f82, 0xe03e9c81, 0x34f4f86a, 0xc69f7b69, 0xd5cf889d, 0x27a40b9e,
     0x79b737ba, 0x8bdcb4b9, 0x988c474d, 0x6ae7c44e, 0xbe2da0a5, 0x4c4623a6, 0x5f16d052, 0xad7d5351]"

definition table1 :: "u32 list" where
  "table1 =
    [0x00000000, 0x13a29877, 0x274530ee, 0x34e7a899, 0x4e8a61dc, 0x5d28f9ab, 0x69cf5132, 0x7a6dc945,
     0x9d14c3b8, 0x8eb65bcf, 0xba51f356, 0xa9f36b21, 0xd39ea264, 0xc03c3a13, 0xf4db928a, 0xe7790afd,
     0x3fc5f181, 0x2c6769f6, 0x1880c16f, 0x0b225918, 0x714f905d, 0x62ed082a, 0x560aa0b3, 0x45a838c4,
     0xa2d13239, 0xb173aa4e, 0x859402d7, 0x96369aa0, 0xec5b53e5, 0xfff9cb92, 0xcb1e630b, 0xd8bcfb7c,
     0x7f8be302, 0x6c297b75, 0x58ced3ec, 0x4b6c4b9b, 0x310182de, 0x22a31aa9, 0x1644b230, 0x05e62a47,
     0xe29f20ba, 0xf13db8cd, 0xc5da1054, 0xd6788823, 0xac154166, 0xbfb7d911, 0x8b507188, 0x98f2e9ff,
     0x404e1283, 0x53ec8af4, 0x670b226d, 0x74a9ba1a, 0x0ec4735f, 0x1d66eb28, 0x298143b1, 0x3a23dbc6,
     0xdd5ad13b, 0xcef8494c, 0xfa1fe1d5, 0xe9bd79a2, 0x93d0b0e7, 0x80722890, 0xb4958009, 0xa737187e,
     0xff17c604, 0xecb55e73, 0xd852f6ea, 0xcbf06e9d, 0xb19da7d8, 0xa23f3faf, 0x96d89736, 0x857a0f41,
     0x620305bc, 0x71a19dcb, 0x45463552, 0x56e4ad25, 0x2c896460, 0x3f2bfc17, 0x0bcc548e, 0x186eccf9,
     0xc0d23785, 0xd370aff2, 0xe797076b, 0xf4359f1c, 0x8e585659, 0x9dface2e, 0xa91d66b7, 0xbabffec0,
     0x5dc6f43d, 0x4e646c4a, 0x7a83c4d3, 0x69215ca4, 0x134c95e1, 0x00ee0d96, 0x3409a50f, 0x27ab3d78,
     0x809c2506, 0x933ebd71, 0xa7d915e8, 0xb47b8d9f, 0xce1644da, 0xddb4dcad, 0xe9537434, 0xfaf1ec43,
     0x1d88e6be, 0x0e2a7ec9, 0x3acdd650, 0x296f4e27, 0x53028762, 0x40a01f15, 0x7447b78c, 0x67e52ffb,
     0xbf59d487, 0xacfb4cf0, 0x981ce469, 0x8bbe7c1e, 0xf1d3b55b, 0xe2712d2c, 0xd69685b5, 0xc5341dc2,
     0x224d173f, 0x31ef8f48, 0x050827d1, 0x16aabfa6, 0x6cc776e3, 0x7f65ee94, 0x4b82460d, 0x5820de7a,
     0xfbc3faf9, 0xe861628e, 0xdc86ca17, 0xcf245260, 0xb5499b25, 0xa6eb0352, 0x920cabcb, 0x81ae33bc,
     0x66d73941, 0x7575a136, 0x419209af, 0x523091d8, 0x285d589d, 0x3bffc0ea, 0x0f186873, 0x1cbaf004,
     0xc4060b78, 0xd7a4930f, 0xe3433b96, 0xf0e1a3e1, 0x8a8c6aa4, 0x992ef2d3, 0xadc95a4a, 0xbe6bc23d,
     0x5912c8c0, 0x4ab050b7, 0x7e57f82e, 0x6df56059, 0x1798a91c, 0x043a316b, 0x30dd99f2, 0x237f0185,
     0x844819fb, 0x97ea818c, 0xa30d2915, 0xb0afb162, 0xcac27827, 0xd960e050, 0xed8748c9, 0xfe25d0be,
     0x195cda43, 0x0afe4234, 0x3e19eaad, 0x2dbb72da, 0x57d6bb9f, 0x447423e8, 0x70938b71, 0x63311306,
     0xbb8de87a, 0xa82f700d, 0x9cc8d894, 0x8f6a40e3, 0xf50789a6, 0xe6a511d1, 0xd242b948, 0xc1e0213f,
     0x26992bc2, 0x353bb3b5, 0x01dc1b2c, 0x127e835b, 0x68134a1e, 0x7bb1d269, 0x4f567af0, 0x5cf4e287,
     0x04d43cfd, 0x1776a48a, 0x23910c13, 0x30339464, 0x4a5e5d21, 0x59fcc556, 0x6d1b6dcf, 0x7eb9f5b8,
     0x99c0ff45, 0x8a626732, 0xbe85cfab, 0xad2757dc, 0xd74a9e99, 0xc4e806ee, 0xf00fae77, 0xe3ad3600,
     0x3b11cd7c, 0x28b3550b, 0x1c54fd92, 0x0ff665e5, 0x759baca0, 0x663934d7, 0x52de9c4e, 0x417c0439,
     0xa6050ec4, 0xb5a796b3, 0x81403e2a, 0x92e2a65d, 0xe88f6f18, 0xfb2df76f, 0xcfca5ff6, 0xdc68c781,
     0x7b5fdfff, 0x68fd4788, 0x5c1aef11, 0x4fb87766, 0x35d5be23, 0x26772654, 0x12908ecd, 0x013216ba,
     0xe64b1c47, 0xf5e98430, 0xc10e2ca9, 0xd2acb4de, 0xa8c17d9b, 0xbb63e5ec, 0x8f844d75, 0x9c26d502,
     0x449a2e7e, 0x5738b609, 0x63df1e90, 0x707d86e7, 0x0a104fa2, 0x19b2d7d5, 0x2d557f4c, 0x3ef7e73b,
     0xd98eedc6, 0xca2c75b1, 0xfecbdd28, 0xed69455f, 0x97048c1a, 0x84a6146d, 0xb041bcf4, 0xa3e32483]"

definition table2 :: "u32 list" where
  "table2 =
    [0x00000000, 0xa541927e, 0x4f6f520d, 0xea2ec073, 0x9edea41a, 0x3b9f3664, 0xd1b1f617, 0x74f06469,
     0x38513ec5, 0x9d10acbb, 0x773e6cc8, 0xd27ffeb6, 0xa68f9adf, 0x03ce08a1, 0xe9e0c8d2, 0x4ca15aac,
     0x70a27d8a, 0xd5e3eff4, 0x3fcd2f87, 0x9a8cbdf9, 0xee7cd990, 0x4b3d4bee, 0xa1138b9d, 0x045219e3,
     0x48f3434f, 0xedb2d131, 0x079c1142, 0xa2dd833c, 0xd62de755, 0x736c752b, 0x9942b558, 0x3c032726,
     0xe144fb14, 0x4405696a, 0xae2ba919, 0x0b6a3b67, 0x7f9a5f0e, 0xdadbcd70, 0x30f50d03, 0x95b49f7d,
     0xd915c5d1, 0x7c5457af, 0x967a97dc, 0x333b05a2, 0x47cb61cb, 0xe28af3b5, 0x08a433c6, 0xade5a1b8,
     0x91e6869e, 0x34a714e0, 0xde89d493, 0x7bc846ed, 0x0f382284, 0xaa79b0fa, 0x40577089, 0xe516e2f7,
     0xa9b7b85b, 0x0cf62a25, 0xe6d8ea56, 0x43997828, 0x37691c41, 0x92288e3f, 0x78064e4c, 0xdd47dc32,
     0xc76580d9, 0x622412a7, 0x880ad2d4, 0x2d4b40aa, 0x59bb24c3, 0xfcfab6bd, 0x16d476ce, 0xb395e4b0,
     0xff34be1c, 0x5a752c62, 0xb05bec11, 0x151a7e6f, 0x61ea1a06, 0xc4ab8878, 0x2e85480b, 0x8bc4da75,
     0xb7c7fd53, 0x12866f2d, 0xf8a8af5e, 0x5de93d20, 0x29195949, 0x8c58cb37, 0x66760b44, 0xc337993a,
     0x8f96c396, 0x2ad751e8, 0xc0f9919b, 0x65b803e5, 0x1148678c, 0xb409f5f2, 0x5e273581, 0xfb66a7ff,
     0x26217bcd, 0x8360e9b3, 0x694e29c0, 0xcc0fbbbe, 0xb8ffdfd7, 0x1dbe4da9, 0xf7908dda, 0x52d11fa4,
     0x1e704508, 0xbb31d776, 0x511f1705, 0xf45e857b, 0x80aee112, 0x25ef736c, 0xcfc1b31f, 0x6a802161,
     0x56830647, 0xf3c29439, 0x19ec544a, 0xbcadc634, 0xc85da25d, 0x6d1c3023, 0x8732f050, 0x2273622e,
     0x6ed23882, 0xcb93aafc, 0x21bd6a8f, 0x84fcf8f1, 0xf00c9c98, 0x554d0ee6, 0xbf63ce95, 0x1a225ceb,
     0x8b277743, 0x2e66e53d, 0xc448254e, 0x6109b730, 0x15f9d359, 0xb0b84127, 0x5a968154, 0xffd7132a,
     0xb3764986, 0x1637dbf8, 0xfc191b8b, 0x595889f5, 0x2da8ed9c, 0x88e97fe2, 0x62c7bf91, 0xc7862def,
     0xfb850ac9, 0x5ec498b7, 0xb4ea58c4, 0x11abcaba, 0x655baed3, 0xc01a3cad, 0x2a34fcde, 0x8f756ea0,
     0xc3d4340c, 0x6695a672, 0x8cbb6601, 0x29faf47f, 0x5d0a9016, 0xf84b0268, 0x1265c21b, 0xb7245065,
     0x6a638c57, 0xcf221e29, 0x250cde5a, 0x804d4c24, 0xf4bd284d, 0x51fcba33, 0xbbd27a40, 0x1e93e83e,
     0x5232b292, 0xf77320ec, 0x1d5de09f, 0xb81c72e1, 0xccec1688, 0x69ad84f6, 0x83834485, 0x26c2d6fb,
     0x1ac1f1dd, 0xbf8063a3, 0x55aea3d0, 0xf0ef31ae, 0x841f55c7, 0x215ec7b9, 0xcb7007ca, 0x6e3195b4,
     0x2290cf18, 0x87d15d66, 0x6dff9d15, 0xc8be0f6b, 0xbc4e6b02, 0x190ff97c, 0xf321390f, 0x5660ab71,
     0x4c42f79a, 0xe90365e4, 0x032da597, 0xa66c37e9, 0xd29c5380, 0x77ddc1fe, 0x9df3018d, 0x38b293f3,
     0x7413c95f, 0xd1525b21, 0x3b7c9b52, 0x9e3d092c, 0xeacd6d45, 0x4f8cff3b, 0xa5a23f48, 0x00e3ad36,
     0x3ce08a10, 0x99a1186e, 0x738fd81d, 0xd6ce4a63, 0xa23e2e0a, 0x077fbc74, 0xed517c07, 0x4810ee79,
     0x04b1b4d5, 0xa1f026ab, 0x4bdee6d8, 0xee9f74a6, 0x9a6f10cf, 0x3f2e82b1, 0xd50042c2, 0x7041d0bc,
     0xad060c8e, 0x08479ef0, 0xe2695e83, 0x4728ccfd, 0x33d8a894, 0x96993aea, 0x7cb7fa99, 0xd9f668e7,
     0x9557324b, 0x3016a035, 0xda386046, 0x7f79f238, 0x0b899651, 0xaec8042f, 0x44e6c45c, 0xe1a75622,
     0xdda47104, 0x78e5e37a, 0x92cb2309, 0x378ab177, 0x437ad51e, 0xe63b4760, 0x0c158713, 0xa954156d,
     0xe5f54fc1, 0x40b4ddbf, 0xaa9a1dcc, 0x0fdb8fb2, 0x7b2bebdb, 0xde6a79a5, 0x3444b9d6, 0x91052ba8]"

definition table3 :: "u32 list" where
  "table3 =
    [0x00000000, 0xdd45aab8, 0xbf672381, 0x62228939, 0x7b2231f3, 0xa6679b4b, 0xc4451272, 0x1900b8ca,
     0xf64463e6, 0x2b01c95e, 0x49234067, 0x9466eadf, 0x8d665215, 0x5023f8ad, 0x32017194, 0xef44db2c,
     0xe964b13d, 0x34211b85, 0x560392bc, 0x8b463804, 0x924680ce, 0x4f032a76, 0x2d21a34f, 0xf06409f7,
     0x1f20d2db, 0xc2657863, 0xa047f15a, 0x7d025be2, 0x6402e328, 0xb9474990, 0xdb65c0a9, 0x06206a11,
     0xd725148b, 0x0a60be33, 0x6842370a, 0xb5079db2, 0xac072578, 0x71428fc0, 0x136006f9, 0xce25ac41,
     0x2161776d, 0xfc24ddd5, 0x9e0654ec, 0x4343fe54, 0x5a43469e, 0x8706ec26, 0xe524651f, 0x3861cfa7,
     0x3e41a5b6, 0xe3040f0e, 0x81268637, 0x5c632c8f, 0x45639445, 0x98263efd, 0xfa04b7c4, 0x27411d7c,
     0xc805c650, 0x15406ce8, 0x7762e5d1, 0xaa274f69, 0xb327f7a3, 0x6e625d1b, 0x0c40d422, 0xd1057e9a,
     0xaba65fe7, 0x76e3f55f, 0x14c17c66, 0xc984d6de, 0xd0846e14, 0x0dc1c4ac, 0x6fe34d95, 0xb2a6e72d,
     0x5de23c01, 0x80a796b9, 0xe2851f80, 0x3fc0b538, 0x26c00df2, 0xfb85a74a, 0x99a72e73, 0x44e284cb,
     0x42c2eeda, 0x9f874462, 0xfda5cd5b, 0x20e067e3, 0x39e0df29, 0xe4a57591, 0x8687fca8, 0x5bc25610,
     0xb4868d3c, 0x69c32784, 0x0be1aebd, 0xd6a40405, 0xcfa4bccf, 0x12e11677, 0x70c39f4e, 0xad8635f6,
     0x7c834b6c, 0xa1c6e1d4, 0xc3e468ed, 0x1ea1c255, 0x07a17a9f, 0xdae4d027, 0xb8c6591e, 0x6583f3a6,
     0x8ac7288a, 0x57828232, 0x35a00b0b, 0xe8e5a1b3, 0xf1e51979, 0x2ca0b3c1, 0x4e823af8, 0x93c79040,
     0x95e7fa51, 0x48a250e9, 0x2a80d9d0, 0xf7c57368, 0xeec5cba2, 0x3380611a, 0x51a2e823, 0x8ce7429b,
     0x63a399b7, 0xbee6330f, 0xdcc4ba36, 0x0181108e, 0x1881a844, 0xc5c402fc, 0xa7e68bc5, 0x7aa3217d,
     0x52a0c93f, 0x8fe56387, 0xedc7eabe, 0x30824006, 0x2982f8cc, 0xf4c75274, 0x96e5db4d, 0x4ba071f5,
     0xa4e4aad9, 0x79a10061, 0x1b838958, 0xc6c623e0, 0xdfc69b2a, 0x02833192, 0x60a1b8ab, 0xbde41213,
     0xbbc47802, 0x6681d2ba, 0x04a35b83, 0xd9e6f13b, 0xc0e649f1, 0x1da3e349, 0x7f816a70, 0xa2c4c0c8,
     0x4d801be4, 0x90c5b15c, 0xf2e73865, 0x2fa292dd, 0x36a22a17, 0xebe780af, 0x89c50996, 0x5480a32e,
     0x8585ddb4, 0x58c0770c, 0x3ae2fe35, 0xe7a7548d, 0xfea7ec47, 0x23e246ff, 0x41c0cfc6, 0x9c85657e,
     0x73c1be52, 0xae8414ea, 0xcca69dd3, 0x11e3376b, 0x08e38fa1, 0xd5a62519, 0xb784ac20, 0x6ac10698,
     0x6ce16c89, 0xb1a4c631, 0xd3864f08, 0x0ec3e5b0, 0x17c35d7a, 0xca86f7c2, 0xa8a47efb, 0x75e1d443,
     0x9aa50f6f, 0x47e0a5d7, 0x25c22cee, 0xf8878656, 0xe1873e9c, 0x3cc29424, 0x5ee01d1d, 0x83a5b7a5,
     0xf90696d8, 0x24433c60, 0x4661b559, 0x9b241fe1, 0x8224a72b, 0x5f610d93, 0x3d4384aa, 0xe0062e12,
     0x0f42f53e, 0xd2075f86, 0xb025d6bf, 0x6d607c07, 0x7460c4cd, 0xa9256e75, 0xcb07e74c, 0x16424df4,
     0x106227e5, 0xcd278d5d, 0xaf050464, 0x7240aedc, 0x6b401616, 0xb605bcae, 0xd4273597, 0x09629f2f,
     0xe6264403, 0x3b63eebb, 0x59416782, 0x8404cd3a, 0x9d0475f0, 0x4041df48, 0x22635671, 0xff26fcc9,
     0x2e238253, 0xf36628eb, 0x9144a1d2, 0x4c010b6a, 0x5501b3a0, 0x88441918, 0xea669021, 0x37233a99,
     0xd867e1b5, 0x05224b0d, 0x6700c234, 0xba45688c, 0xa345d046, 0x7e007afe, 0x1c22f3c7, 0xc167597f,
     0xc747336e, 0x1a0299d6, 0x782010ef, 0xa565ba57, 0xbc65029d, 0x6120a825, 0x0302211c, 0xde478ba4,
     0x31035088, 0xec46fa30, 0x8e647309, 0x5321d9b1, 0x4a21617b, 0x9764cbc3, 0xf54642fa, 0x2803e842]"

section \<open>Computing a checksum\<close>

text \<open>
  The running value is 64 bits wide. The pointer is what is left of the string, with the bytes already
  read dropped; \<open>pval\<close> is the address of the string, on which the order of the steps depends.
\<close>

definition LE_LOAD32 :: "bytes \<Rightarrow> u32" where
  "LE_LOAD32 p = DecodeFixed32 p"

definition crc_word :: "u64 \<Rightarrow> bytes \<Rightarrow> u64" where
  "crc_word l p =
     (let c = ucast (l XOR ucast (LE_LOAD32 p)) :: u32
      in ucast (table3 ! unat (c AND 0xff) XOR table2 ! unat (drop_bit 8 c AND 0xff) XOR
           table1 ! unat (drop_bit 16 c AND 0xff) XOR table0 ! unat (drop_bit 24 c)))"

definition DefaultCRC32 :: "u64 \<Rightarrow> bytes \<Rightarrow> u64 \<times> bytes" where
  "DefaultCRC32 l p = (crc_word (crc_word l p) (drop 4 p), drop 8 p)"

definition STEP1 :: "u64 \<Rightarrow> byte \<Rightarrow> u64" where
  "STEP1 l b = ucast (table0 ! unat ((l AND 0xff) XOR ucast b)) XOR drop_bit 8 l"

function loop16 :: "u64 \<Rightarrow> bytes \<Rightarrow> u64 \<times> bytes" where
  "loop16 l p =
     (if 16 \<le> length p
      then (let (l1, p1) = DefaultCRC32 l p; (l2, p2) = DefaultCRC32 l1 p1 in loop16 l2 p2)
      else (l, p))"
  by pat_completeness auto
termination
  by (relation "measure (\<lambda>(l, p). length p)") (auto simp: DefaultCRC32_def)

function loop8 :: "u64 \<Rightarrow> bytes \<Rightarrow> u64 \<times> bytes" where
  "loop8 l p = (if 8 \<le> length p then (let (l1, p1) = DefaultCRC32 l p in loop8 l1 p1) else (l, p))"
  by pat_completeness auto
termination
  by (relation "measure (\<lambda>(l, p). length p)") (auto simp: DefaultCRC32_def)

declare loop16.simps [simp del] loop8.simps [simp del]

definition ExtendImpl :: "nat \<Rightarrow> u32 \<Rightarrow> bytes \<Rightarrow> u32" where
  "ExtendImpl pval crc buf =
     (let l = ucast (crc XOR 0xffffffff) :: u64;
          x = (pval + 15) div 16 * 16;
          n = (if x \<le> pval + length buf then x - pval else 0);
          l1 = foldl STEP1 l (take n buf);
          (l2, p2) = loop16 l1 (drop n buf);
          (l3, p3) = loop8 l2 p2
      in ucast (foldl STEP1 l3 p3 XOR 0xffffffff))"

definition Extend :: "nat \<Rightarrow> u32 \<Rightarrow> bytes \<Rightarrow> u32" where
  "Extend pval crc buf = ExtendImpl pval crc buf"

definition Crc32c_Value :: "nat \<Rightarrow> bytes \<Rightarrow> u32" where
  "Crc32c_Value pval data = Extend pval 0 data"

definition kMaskDelta :: u32 where "kMaskDelta = 0xa282ead8"

definition Mask :: "u32 \<Rightarrow> u32" where
  "Mask crc = (drop_bit 15 crc OR push_bit 17 crc) + kMaskDelta"

definition Unmask :: "u32 \<Rightarrow> u32" where
  "Unmask masked_crc = (let rot = masked_crc - kMaskDelta in drop_bit 17 rot OR push_bit 15 rot)"

section \<open>Combining two checksums\<close>

lemma unat_pred_less:
  fixes v :: u64
  assumes "v \<noteq> 0"
  shows "unat (v - 1) < unat v"
proof -
  have "1 \<le> v" using assms by (simp add: word_le_nat_alt unat_gt_0 Suc_le_eq)
  then show ?thesis using assms by (simp add: unat_sub_no_wrap unat_gt_0)
qed

lemma unat_drop_less:
  fixes v :: u64
  assumes "v \<noteq> 0" and "0 < k"
  shows "unat (drop_bit k v) < unat v"
proof -
  have "0 < unat v" using assms by (simp add: unat_gt_0)
  moreover have "1 < (2 :: nat) ^ k" using assms(2) by (intro one_less_power) simp_all
  ultimately show ?thesis
    by (simp only: unat_drop_bit_eq drop_bit_eq_div [of k "unat v"] div_less_dividend)
qed

function gf_multiply_sw_1 :: "u64 \<Rightarrow> u32 \<Rightarrow> u32 \<Rightarrow> u32 \<Rightarrow> u32 \<Rightarrow> u32" where
  "gf_multiply_sw_1 i p a b m =
     (if i = 32 then p
      else gf_multiply_sw_1 (i + 1) (p XOR ((0 - (drop_bit 31 b AND 1)) AND a))
             (drop_bit 1 a XOR ((0 - (a AND 1)) AND m)) (push_bit 1 b) m)"
  by pat_completeness auto
termination
proof (relation "measure (\<lambda>(i, p, a, b, m). unat (32 - i))")
  fix i :: u64 and p a b m :: u32
  assume "i \<noteq> 32"
  then have "unat (32 - i - 1) < unat (32 - i)" by (intro unat_pred_less) simp
  then show "((i + 1, p XOR ((0 - (drop_bit 31 b AND 1)) AND a), drop_bit 1 a XOR ((0 - (a AND 1)) AND m),
      push_bit 1 b, m), i, p, a, b, m) \<in> measure (\<lambda>(i, p, a, b, m). unat (32 - i))"
    by (simp add: diff_diff_eq)
qed simp

declare gf_multiply_sw_1.simps [simp del]

definition gf_multiply_sw :: "u32 \<Rightarrow> u32 \<Rightarrow> u32 \<Rightarrow> u32" where
  "gf_multiply_sw a b m = gf_multiply_sw_1 0 0 a b m"

definition gf_square_sw :: "u32 \<Rightarrow> u32 \<Rightarrow> u32" where
  "gf_square_sw a m = gf_multiply_sw a a m"

fun gf_powers_memo :: "nat \<Rightarrow> u32 \<Rightarrow> u32" where
  "gf_powers_memo 0 m = m"
| "gf_powers_memo (Suc i) m = gf_square_sw (gf_powers_memo i m) m"

definition crc32c_m :: u32 where "crc32c_m = 0x82f63b78"

definition crc32c_powers :: "u32 list" where
  "crc32c_powers = map (\<lambda>i. gf_powers_memo i crc32c_m) [0..<62]"

text \<open>The number of trailing zero bits; the argument is not zero.\<close>

function CountTrailingZeroBits :: "u64 \<Rightarrow> nat" where
  "CountTrailingZeroBits v = (if v = 0 \<or> bit v 0 then 0 else Suc (CountTrailingZeroBits (drop_bit 1 v)))"
  by pat_completeness auto
termination
proof (relation "measure unat")
  fix v :: u64
  assume "\<not> (v = 0 \<or> bit v 0)"
  then show "(drop_bit 1 v, v) \<in> measure unat" using unat_drop_less [of v 1] by simp
qed simp

declare CountTrailingZeroBits.simps [simp del]

function Crc32AppendZeroes_loop :: "u32 \<Rightarrow> u64 \<Rightarrow> u32 \<Rightarrow> u32 list \<Rightarrow> u32" where
  "Crc32AppendZeroes_loop crc len_bits polynomial powers =
     (if len_bits = 0 then crc
      else
        (let r = CountTrailingZeroBits len_bits
         in Crc32AppendZeroes_loop (gf_multiply_sw crc (drop r powers ! 0) polynomial)
              (drop_bit 1 (drop_bit r len_bits)) polynomial (drop 1 (drop r powers))))"
  by pat_completeness auto
termination
proof (relation "measure (\<lambda>(crc, v, m, ps). unat v)")
  fix crc m :: u32 and v :: u64 and ps :: "u32 list" and k
  assume "v \<noteq> 0"
  then show "((gf_multiply_sw crc (drop k ps ! 0) m, drop_bit 1 (drop_bit k v), m, drop 1 (drop k ps)), crc, v, m, ps)
      \<in> measure (\<lambda>(crc, v, m, ps). unat v)"
    using unat_drop_less [of v "Suc k"] by simp
qed simp

declare Crc32AppendZeroes_loop.simps [simp del]

definition Crc32AppendZeroes :: "u32 \<Rightarrow> u64 \<Rightarrow> u32 \<Rightarrow> u32 list \<Rightarrow> u32" where
  "Crc32AppendZeroes crc len_over_4 polynomial powers_array =
     Crc32AppendZeroes_loop crc len_over_4 polynomial powers_array"

definition InvertedToPure :: "u32 \<Rightarrow> u32" where "InvertedToPure crc = NOT crc"

definition PureToInverted :: "u32 \<Rightarrow> u32" where "PureToInverted crc = NOT crc"

definition PureExtend :: "nat \<Rightarrow> u32 \<Rightarrow> bytes \<Rightarrow> u32" where
  "PureExtend pval crc buf = InvertedToPure (Extend pval (PureToInverted crc) buf)"

definition Crc32cCombine :: "nat \<Rightarrow> u32 \<Rightarrow> u32 \<Rightarrow> u64 \<Rightarrow> u32" where
  "Crc32cCombine pval crc1 crc2 crc2len =
     (let pure_crc1_with_init = InvertedToPure crc1; pure_crc2_with_init = InvertedToPure crc2;
          pure_crc2_init = - 1;
          len = crc2len AND 3;
          tmp = pure_crc1_with_init XOR pure_crc2_init;
          tmp1 = (if len \<noteq> 0 then PureExtend pval tmp (replicate (unat len) 0) else tmp)
      in PureToInverted (Crc32AppendZeroes tmp1 (crc2len div 4) crc32c_m crc32c_powers XOR
           pure_crc2_with_init))"

section \<open>The checksum as division, one bit at a time\<close>

text \<open>
  Bit 31 is the coefficient of the lowest power, so multiplying by \<open>x\<close> shifts to the right.
\<close>

definition crc_shift :: "u32 \<Rightarrow> u32" where
  "crc_shift v = drop_bit 1 v XOR (if bit v 0 then crc32c_m else 0)"

abbreviation crc_shifts :: "nat \<Rightarrow> u32 \<Rightarrow> u32" where
  "crc_shifts n \<equiv> crc_shift ^^ n"

definition crc_byte :: "u32 \<Rightarrow> byte \<Rightarrow> u32" where
  "crc_byte c b = crc_shifts 8 (c XOR ucast b)"

definition crc_ref :: "u32 \<Rightarrow> bytes \<Rightarrow> u32" where
  "crc_ref c bs = foldl crc_byte c bs"

lemma crc_ref_simps [simp]:
  "crc_ref c [] = c" "crc_ref c (b # bs) = crc_ref (crc_byte c b) bs"
  "crc_ref c (bs @ bs') = crc_ref (crc_ref c bs) bs'"
  by (simp_all add: crc_ref_def)

lemma crc_shift_xor: "crc_shift (a XOR b) = crc_shift a XOR crc_shift b"
  unfolding crc_shift_def by (auto simp: drop_bit_xor bit_xor_iff xor.assoc xor.left_commute xor.commute)

lemma crc_shift_0 [simp]: "crc_shift 0 = 0"
  by (simp add: crc_shift_def)

lemma crc_shifts_xor: "crc_shifts n (a XOR b) = crc_shifts n a XOR crc_shifts n b"
  by (induction n) (simp_all add: crc_shift_xor)

lemma crc_shifts_0 [simp]: "crc_shifts n 0 = 0"
  by (induction n) simp_all

lemma crc_shifts_add: "crc_shifts (m + n) v = crc_shifts m (crc_shifts n v)"
  by (simp add: funpow_add)

lemma crc_shift_push:
  assumes "\<not> bit v 31"
  shows "crc_shift (push_bit 1 v) = v"
proof -
  have "drop_bit m (push_bit m v) = v" if *: "\<And>k. 32 - m \<le> k \<Longrightarrow> \<not> bit v k" for m
  proof (rule bit_word_eqI)
    fix n assume "n < LENGTH(32)"
    then show "bit (drop_bit m (push_bit m v)) n = bit v n"
      using * [of n] by (cases "32 - m \<le> n") (auto simp: bit_drop_bit_eq bit_push_bit_iff)
  qed
  moreover have "\<not> bit v k" if "32 - 1 \<le> k" for k
    using that assms bit_imp_le_length [of v k] by (cases "k = 31") auto
  ultimately have "drop_bit 1 (push_bit 1 v) = v" by blast
  moreover have "\<not> bit (push_bit 1 v) 0" by (simp only: bit_push_bit_iff) simp
  ultimately show ?thesis by (simp only: crc_shift_def if_False xor.right_neutral)
qed

lemma crc_shifts_push:
  assumes "n \<le> 32" and "\<And>k. 32 - n \<le> k \<Longrightarrow> \<not> bit v k"
  shows "crc_shifts n (push_bit n v) = v"
  using assms
proof (induction n)
  case (Suc n)
  have "crc_shifts (Suc n) (push_bit (Suc n) v) = crc_shifts n (crc_shift (push_bit 1 (push_bit n v)))"
    by (simp add: funpow_swap1)
  also have "crc_shift (push_bit 1 (push_bit n v)) = push_bit n v"
    using Suc.prems by (intro crc_shift_push) (auto simp: bit_push_bit_iff)
  finally show ?case using Suc by simp
qed simp

text \<open>Eight shifts: the low byte is divided out, the rest moves down.\<close>

lemma word_split8: "v = take_bit 8 v XOR push_bit 8 (drop_bit 8 v)" for v :: u32
  by (rule bit_word_eqI) (auto simp: bit_simps)

lemma crc_shifts_8: "crc_shifts 8 v = crc_shifts 8 (take_bit 8 v) XOR drop_bit 8 v"
proof -
  have "crc_shifts 8 (push_bit 8 (drop_bit 8 v)) = drop_bit 8 v"
    by (rule crc_shifts_push) (auto simp: bit_simps dest: bit_imp_le_length)
  then show ?thesis
    using crc_shifts_xor [of 8 "take_bit 8 v" "push_bit 8 (drop_bit 8 v)"] word_split8 [of v] by simp
qed

lemma crc_shifts_8n: "crc_shifts (n + 8) v = crc_shifts (n + 8) (take_bit 8 v) XOR crc_shifts n (drop_bit 8 v)"
  using crc_shifts_8 [of v] by (simp add: crc_shifts_add crc_shifts_xor)

section \<open>The tables\<close>

text \<open>The values of a linear function below a power of two, from its values on the powers of two.\<close>

fun span :: "u32 list \<Rightarrow> u32 list" where
  "span [] = [0]"
| "span (b # bs) = (let r = span bs in r @ map (\<lambda>v. b XOR v) r)"

lemma length_span [simp]: "length (span bs) = 2 ^ length bs"
  by (induction bs) (simp_all add: Let_def)

lemma span_linear:
  fixes f :: "u32 \<Rightarrow> u32"
  assumes "\<And>a b. f (a XOR b) = f a XOR f b" and "i < 2 ^ n" and "n \<le> 32"
  shows "span (map (\<lambda>k. f (2 ^ k)) (rev [0..<n])) ! i = f (of_nat i)"
  using assms(2,3)
proof (induction n arbitrary: i)
  case 0
  have "f 0 = f 0 XOR f 0" using assms(1) [of 0 0] by simp
  with 0 show ?case by simp
next
  case (Suc n)
  show ?case
  proof (cases "i < 2 ^ n")
    case True
    with Suc show ?thesis by (simp add: Let_def nth_append)
  next
    case False
    define j where "j = i - 2 ^ n"
    have j: "j < 2 ^ n" "i = 2 ^ n + j" using False Suc.prems(1) by (auto simp: j_def)
    have "of_nat i = (2 ^ n :: u32) XOR of_nat j"
    proof -
      have "j < 2 ^ 32" using j(1) Suc.prems(2) power_increasing [of n 32 "2 :: nat"] by simp
      have "of_nat j < (2 ^ n :: u32)"
        using j(1) Suc.prems(2) \<open>j < 2 ^ 32\<close> by (simp add: word_less_nat_alt unat_of_nat_small unat_exp)
      then have "(2 ^ n :: u32) AND of_nat j = 0"
        using Suc.prems(2) by (intro bit_word_eqI) (auto simp: bit_simps dest!: bit_below_exp)
      then have "(2 ^ n :: u32) + of_nat j = 2 ^ n XOR of_nat j"
        by (simp add: disjunctive_add_eq_xor)
      with j(2) show ?thesis by simp
    qed
    with Suc j False assms(1) show ?thesis by (simp add: Let_def nth_append)
  qed
qed

lemma crc_shifts_8_unfold:
  "crc_shifts 8 v =
     crc_shift (crc_shift (crc_shift (crc_shift (crc_shift (crc_shift (crc_shift (crc_shift v)))))))"
  by (simp add: numeral_eq_Suc)

lemma upt_8: "rev [0..<8] = [7, 6, 5, 4, 3, 2, 1, 0 :: nat]"
  by (simp add: upt_rec)

text \<open>The basis of every table: eight shifts applied to the basis of the table before it.\<close>

lemma basis0:
  "map (crc_shifts 8) [128, 64, 32, 16, 8, 4, 2, 1] =
     ([0x82f63b78, 0x417b1dbc, 0x20bd8ede, 0x105ec76f, 0x8ad958cf, 0xc79a971f, 0xe13b70f7, 0xf26b8303] :: u32 list)"
  by (simp add: crc_shifts_8_unfold crc_shift_def crc32c_m_def)

lemma table0_span:
  "table0 = span [0x82f63b78, 0x417b1dbc, 0x20bd8ede, 0x105ec76f, 0x8ad958cf, 0xc79a971f, 0xe13b70f7, 0xf26b8303]"
  by (simp add: table0_def Let_def)

lemma basis1:
  "map (crc_shifts 8) [0x82f63b78, 0x417b1dbc, 0x20bd8ede, 0x105ec76f, 0x8ad958cf, 0xc79a971f, 0xe13b70f7, 0xf26b8303] =
     ([0xfbc3faf9, 0xff17c604, 0x7f8be302, 0x3fc5f181, 0x9d14c3b8, 0x4e8a61dc, 0x274530ee, 0x13a29877] :: u32 list)"
  by (simp add: crc_shifts_8_unfold crc_shift_def crc32c_m_def)

lemma table1_span:
  "table1 = span [0xfbc3faf9, 0xff17c604, 0x7f8be302, 0x3fc5f181, 0x9d14c3b8, 0x4e8a61dc, 0x274530ee, 0x13a29877]"
  by (simp add: table1_def Let_def)

lemma basis2:
  "map (crc_shifts 8) [0xfbc3faf9, 0xff17c604, 0x7f8be302, 0x3fc5f181, 0x9d14c3b8, 0x4e8a61dc, 0x274530ee, 0x13a29877] =
     ([0x8b277743, 0xc76580d9, 0xe144fb14, 0x70a27d8a, 0x38513ec5, 0x9edea41a, 0x4f6f520d, 0xa541927e] :: u32 list)"
  by (simp add: crc_shifts_8_unfold crc_shift_def crc32c_m_def)

lemma table2_span:
  "table2 = span [0x8b277743, 0xc76580d9, 0xe144fb14, 0x70a27d8a, 0x38513ec5, 0x9edea41a, 0x4f6f520d, 0xa541927e]"
  by (simp add: table2_def Let_def)

lemma basis3:
  "map (crc_shifts 8) [0x8b277743, 0xc76580d9, 0xe144fb14, 0x70a27d8a, 0x38513ec5, 0x9edea41a, 0x4f6f520d, 0xa541927e] =
     ([0x52a0c93f, 0xaba65fe7, 0xd725148b, 0xe964b13d, 0xf64463e6, 0x7b2231f3, 0xbf672381, 0xdd45aab8] :: u32 list)"
  by (simp add: crc_shifts_8_unfold crc_shift_def crc32c_m_def)

lemma table3_span:
  "table3 = span [0x52a0c93f, 0xaba65fe7, 0xd725148b, 0xe964b13d, 0xf64463e6, 0x7b2231f3, 0xbf672381, 0xdd45aab8]"
  by (simp add: table3_def Let_def)

lemma span_shifts:
  assumes "map (crc_shifts n) [128, 64, 32, 16, 8, 4, 2, 1] = bs" and "i < 256"
  shows "span bs ! i = crc_shifts n (of_nat i)"
proof -
  have "span (map (\<lambda>k. crc_shifts n (2 ^ k)) (rev [0..<8])) ! i = crc_shifts n (of_nat i)"
    using assms(2) by (intro span_linear) (simp_all add: crc_shifts_xor)
  moreover have "map (\<lambda>k. crc_shifts n (2 ^ k)) (rev [0..<8]) = bs"
    unfolding assms(1) [symmetric] upt_8 by simp
  ultimately show ?thesis by simp
qed

lemma map_shifts:
  assumes "map (crc_shifts n) vs = bs" and "map (crc_shifts 8) bs = bs'" and "m = n + 8"
  shows "map (crc_shifts m) vs = bs'"
  unfolding assms(1) [symmetric] assms(2) [symmetric] assms(3)
  by (simp add: crc_shifts_add [symmetric] add.commute)

lemma tables:
  assumes "i < 256"
  shows "table0 ! i = crc_shifts 8 (of_nat i)" "table1 ! i = crc_shifts 16 (of_nat i)"
    "table2 ! i = crc_shifts 24 (of_nat i)" "table3 ! i = crc_shifts 32 (of_nat i)"
proof -
  have b1: "map (crc_shifts 16) [128, 64, 32, 16, 8, 4, 2, 1] = map (crc_shifts 8) (map (crc_shifts 8) [128, 64, 32, 16, 8, 4, 2, 1])"
    by (rule map_shifts [OF refl refl]) simp
  have b2: "map (crc_shifts 24) [128, 64, 32, 16, 8, 4, 2, 1] = map (crc_shifts 8) (map (crc_shifts 16) [128, 64, 32, 16, 8, 4, 2, 1])"
    by (rule map_shifts [OF refl refl]) simp
  have b3: "map (crc_shifts 32) [128, 64, 32, 16, 8, 4, 2, 1] = map (crc_shifts 8) (map (crc_shifts 24) [128, 64, 32, 16, 8, 4, 2, 1])"
    by (rule map_shifts [OF refl refl]) simp
  show "table0 ! i = crc_shifts 8 (of_nat i)"
    unfolding table0_span by (rule span_shifts [OF basis0 assms])
  show "table1 ! i = crc_shifts 16 (of_nat i)"
    unfolding table1_span by (rule span_shifts [OF b1 [unfolded basis0 basis1] assms])
  show "table2 ! i = crc_shifts 24 (of_nat i)"
    unfolding table2_span by (rule span_shifts [OF b2 [unfolded b1 basis0 basis1 basis2] assms])
  show "table3 ! i = crc_shifts 32 (of_nat i)"
    unfolding table3_span by (rule span_shifts [OF b3 [unfolded b2 b1 basis0 basis1 basis2 basis3] assms])
qed

section \<open>The portable implementation\<close>

lemma low_byte: "v AND 0xff = take_bit 8 v" for v :: u32
  by (rule bit_word_eqI) (auto simp: bit_simps)

lemma unat_low_byte: "unat (take_bit 8 v) < 256" for v :: u32
  using take_bit_nat_less_exp [of 8 "unat v"] by (simp add: unsigned_take_bit_eq)

lemma unat_high_byte: "unat (drop_bit 24 v) < 256" for v :: u32
  using unat_u32_less [of v] by (simp add: unat_drop_bit_eq drop_bit_nat_def)

lemma ucast_u64_xor: "(ucast (a XOR b) :: u64) = ucast a XOR ucast b" for a b :: u32
  by (rule bit_word_eqI) (auto simp: bit_simps dest: bit_imp_le_length)

text \<open>One word is four bytes: the tables divide them out at once.\<close>

lemma crc_word_shifts: "crc_word (ucast c) p = ucast (crc_shifts 32 (c XOR LE_LOAD32 p))"
proof -
  let ?c = "c XOR LE_LOAD32 p"
  have cast: "(ucast (ucast c XOR ucast (LE_LOAD32 p) :: u64) :: u32) = ?c"
    by (rule bit_word_eqI) (auto simp: bit_simps)
  have "crc_shifts 32 ?c = crc_shifts 32 (take_bit 8 ?c) XOR crc_shifts 24 (drop_bit 8 ?c)"
    using crc_shifts_8n [of 24 ?c] by simp
  also have "crc_shifts 24 (drop_bit 8 ?c)
      = crc_shifts 24 (take_bit 8 (drop_bit 8 ?c)) XOR crc_shifts 16 (drop_bit 16 ?c)"
    using crc_shifts_8n [of 16 "drop_bit 8 ?c"] by simp
  also have "crc_shifts 16 (drop_bit 16 ?c)
      = crc_shifts 16 (take_bit 8 (drop_bit 16 ?c)) XOR crc_shifts 8 (drop_bit 24 ?c)"
    using crc_shifts_8n [of 8 "drop_bit 16 ?c"] by simp
  finally have "crc_shifts 32 ?c = crc_shifts 32 (take_bit 8 ?c) XOR (crc_shifts 24 (take_bit 8 (drop_bit 8 ?c)) XOR
      (crc_shifts 16 (take_bit 8 (drop_bit 16 ?c)) XOR crc_shifts 8 (drop_bit 24 ?c)))" .
  then show ?thesis
    by (simp add: crc_word_def cast Let_def tables unat_low_byte unat_high_byte low_byte xor.assoc
        del: drop_bit_drop_bit drop_bit_xor take_bit_xor)
qed

lemma STEP1_byte: "STEP1 (ucast c) b = ucast (crc_byte c b)"
proof -
  have idx: "unat ((ucast c AND 0xff) XOR ucast b :: u64) = unat (take_bit 8 (c XOR ucast b))"
  proof -
    have "((ucast c AND 0xff) XOR ucast b :: u64) = ucast (take_bit 8 (c XOR ucast b))"
      by (rule bit_word_eqI) (auto simp: bit_simps dest: bit_imp_le_length)
    then show ?thesis by (simp del: take_bit_xor)
  qed
  have "drop_bit 8 (c XOR ucast b) = drop_bit 8 c"
    by (rule bit_word_eqI) (auto simp: bit_simps dest: bit_imp_le_length)
  then have "crc_byte c b = crc_shifts 8 (take_bit 8 (c XOR ucast b)) XOR drop_bit 8 c"
    using crc_shifts_8 [of "c XOR ucast b"] by (simp add: crc_byte_def del: take_bit_xor)
  moreover have "drop_bit 8 (ucast c :: u64) = ucast (drop_bit 8 c)"
    by (rule bit_word_eqI) (auto simp: bit_simps dest: bit_imp_le_length)
  ultimately show ?thesis
    by (simp add: STEP1_def idx tables unat_low_byte low_byte ucast_u64_xor del: take_bit_xor)
qed

lemma foldl_STEP1: "foldl STEP1 (ucast c) bs = ucast (crc_ref c bs)"
  by (induction bs arbitrary: c) (simp_all add: STEP1_byte)

lemma crc_ref_xor: "crc_ref (c XOR d) bs = crc_ref c bs XOR crc_shifts (8 * length bs) d"
proof (induction bs arbitrary: c d)
  case (Cons b bs)
  have "crc_byte (c XOR d) b = crc_byte c b XOR crc_shifts 8 d"
    using crc_shifts_xor [of 8 "c XOR ucast b" d] by (simp add: crc_byte_def xor.assoc xor.commute xor.left_commute)
  then have "crc_ref (c XOR d) (b # bs) = crc_ref (crc_byte c b) bs XOR crc_shifts (8 * length bs) (crc_shifts 8 d)"
    using Cons.IH by simp
  then show ?case by (simp add: crc_shifts_add [symmetric] add.commute)
qed simp

lemma shifts_byte:
  assumes "n \<le> 24"
  shows "crc_shifts (m + n) (push_bit n (ucast (b :: byte))) = crc_shifts m (ucast b)"
proof -
  have "crc_shifts n (push_bit n (ucast b)) = ucast b"
    using assms by (intro crc_shifts_push) (auto simp: bit_simps dest: bit_imp_le_length)
  then show ?thesis by (simp add: crc_shifts_add)
qed

lemma crc_ref_word: "crc_ref c [b0, b1, b2, b3] = crc_shifts 32 (c XOR LE_LOAD32 ([b0, b1, b2, b3] @ bs))"
proof -
  have le: "LE_LOAD32 ([b0, b1, b2, b3] @ bs) = ucast b0 XOR (push_bit 8 (ucast b1) XOR
      (push_bit 16 (ucast b2) XOR push_bit 24 (ucast b3)))"
  proof (rule bit_word_eqI)
    have high: "\<not> bit b n" if "8 \<le> n" for n and b :: byte
      using bit_imp_le_length [of b n] that by auto
    fix n
    assume "n < LENGTH(32)"
    then consider "n < 8" | "8 \<le> n" "n < 16" | "16 \<le> n" "n < 24" | "24 \<le> n" "n < 32" by force
    then show "bit (LE_LOAD32 ([b0, b1, b2, b3] @ bs)) n = bit (ucast b0 XOR (push_bit 8 (ucast b1) XOR
        (push_bit 16 (ucast b2) XOR push_bit 24 (ucast b3))) :: u32) n"
      by cases (simp_all add: LE_LOAD32_def DecodeFixed32_def bit_simps less_diff_conv2 high)
  qed
  have "crc_shifts 32 (push_bit 8 (ucast b1)) = crc_shifts 24 (ucast b1)"
    "crc_shifts 32 (push_bit 16 (ucast b2)) = crc_shifts 16 (ucast b2)"
    "crc_shifts 32 (push_bit 24 (ucast b3)) = crc_shifts 8 (ucast b3)"
    using shifts_byte [of 8 24] shifts_byte [of 16 16] shifts_byte [of 24 8] by simp_all
  then have "crc_shifts 32 (c XOR LE_LOAD32 ([b0, b1, b2, b3] @ bs)) = crc_shifts 32 c XOR crc_shifts 32 (ucast b0) XOR
      crc_shifts 24 (ucast b1) XOR crc_shifts 16 (ucast b2) XOR crc_shifts 8 (ucast b3)"
    unfolding le by (simp add: crc_shifts_xor xor.assoc)
  moreover have "crc_ref c [b0, b1, b2, b3] = crc_shifts 32 c XOR crc_shifts 32 (ucast b0) XOR
      crc_shifts 24 (ucast b1) XOR crc_shifts 16 (ucast b2) XOR crc_shifts 8 (ucast b3)"
    by (simp add: crc_byte_def crc_shifts_xor crc_shifts_add [symmetric] xor.assoc)
  ultimately show ?thesis by simp
qed

lemma crc_word_ref:
  assumes "4 \<le> length p"
  shows "crc_word (ucast c) p = ucast (crc_ref c (take 4 p))"
proof -
  obtain b0 b1 b2 b3 bs where "p = [b0, b1, b2, b3] @ bs"
    using assms by (auto simp: numeral_eq_Suc Suc_le_length_iff)
  then show ?thesis using crc_ref_word [of c b0 b1 b2 b3 bs] by (simp add: crc_word_shifts)
qed

lemma DefaultCRC32_ref:
  assumes "8 \<le> length p"
  shows "DefaultCRC32 (ucast c) p = (ucast (crc_ref c (take 8 p)), drop 8 p)"
proof -
  have "take 8 p = take 4 p @ take 4 (drop 4 p)" using take_add [of 4 4 p] by simp
  with assms show ?thesis by (simp add: DefaultCRC32_def crc_word_ref)
qed

lemma loop16_ref: "\<exists>n\<le>length p. loop16 (ucast c) p = (ucast (crc_ref c (take n p)), drop n p)"
proof (induction "length p" arbitrary: p c rule: less_induct)
  case less
  show ?case
  proof (cases "16 \<le> length p")
    case True
    let ?c = "crc_ref (crc_ref c (take 8 p)) (take 8 (drop 8 p))"
    have step: "loop16 (ucast c) p = loop16 (ucast ?c) (drop 16 p)"
      using True by (subst loop16.simps) (simp add: DefaultCRC32_ref)
    have shorter: "length (drop 16 p) < length p" using True by simp
    obtain n where n: "n \<le> length (drop 16 p)"
      "loop16 (ucast ?c) (drop 16 p) = (ucast (crc_ref ?c (take n (drop 16 p))), drop n (drop 16 p))"
      using less [of "drop 16 p" ?c, OF shorter] by blast
    have "take (16 + n) p = take 8 p @ take 8 (drop 8 p) @ take n (drop 16 p)"
      using take_add [of 16 n p] take_add [of 8 8 p] by simp
    with step n True show ?thesis by (intro exI [of _ "16 + n"]) (simp add: add.commute)
  next
    case False
    then show ?thesis by (subst loop16.simps) (auto intro!: exI [of _ 0])
  qed
qed

lemma loop8_ref: "\<exists>n\<le>length p. loop8 (ucast c) p = (ucast (crc_ref c (take n p)), drop n p)"
proof (induction "length p" arbitrary: p c rule: less_induct)
  case less
  show ?case
  proof (cases "8 \<le> length p")
    case True
    let ?c = "crc_ref c (take 8 p)"
    have step: "loop8 (ucast c) p = loop8 (ucast ?c) (drop 8 p)"
      using True by (subst loop8.simps) (simp add: DefaultCRC32_ref)
    have shorter: "length (drop 8 p) < length p" using True by simp
    obtain n where n: "n \<le> length (drop 8 p)"
      "loop8 (ucast ?c) (drop 8 p) = (ucast (crc_ref ?c (take n (drop 8 p))), drop n (drop 8 p))"
      using less [of "drop 8 p" ?c, OF shorter] by blast
    have "take (8 + n) p = take 8 p @ take n (drop 8 p)"
      by (simp add: take_add)
    with step n True show ?thesis by (intro exI [of _ "8 + n"]) (simp add: add.commute)
  next
    case False
    then show ?thesis by (subst loop8.simps) (auto intro!: exI [of _ 0])
  qed
qed

lemma ExtendImpl_ref: "ExtendImpl pval crc buf = NOT (crc_ref (NOT crc) buf)"
proof -
  define k where "k = (if (pval + 15) div 16 * 16 \<le> pval + length buf then (pval + 15) div 16 * 16 - pval else 0)"
  have ones: "(0xffffffff :: u32) = mask 32" "(0xffffffff :: u64) = mask 32"
    by (simp_all add: mask_eq_exp_minus_1)
  have neg: "v XOR 0xffffffff = NOT v" for v :: u32
    unfolding ones by (rule bit_word_eqI) (simp add: bit_simps)
  let ?c1 = "crc_ref (NOT crc) (take k buf)"
  obtain n where n: "n \<le> length (drop k buf)"
    "loop16 (ucast ?c1) (drop k buf) = (ucast (crc_ref ?c1 (take n (drop k buf))), drop n (drop k buf))"
    using loop16_ref [of "drop k buf" ?c1] by blast
  let ?c2 = "crc_ref ?c1 (take n (drop k buf))" and ?p = "drop n (drop k buf)"
  obtain m where m: "m \<le> length ?p" "loop8 (ucast ?c2) ?p = (ucast (crc_ref ?c2 (take m ?p)), drop m ?p)"
    using loop8_ref [of ?p ?c2] by blast
  have buf: "buf = take k buf @ take n (drop k buf) @ take m ?p @ drop m ?p"
    by (simp only: append_take_drop_id)
  have "ucast (ucast v XOR 0xffffffff :: u64) = NOT v" for v :: u32
    unfolding ones by (rule bit_word_eqI) (simp add: bit_simps)
  then have "ExtendImpl pval crc buf = NOT (crc_ref (crc_ref ?c2 (take m ?p)) (drop m ?p))"
    by (simp add: ExtendImpl_def Let_def k_def [symmetric] neg foldl_STEP1 n(2) m(2) del: drop_drop)
  also have "crc_ref (crc_ref ?c2 (take m ?p)) (drop m ?p) = crc_ref (NOT crc) buf"
    by (subst (5) buf) simp
  finally show ?thesis .
qed

lemma Value_ref: "Crc32c_Value pval bs = NOT (crc_ref (- 1) bs)"
  by (simp add: Crc32c_Value_def Extend_def ExtendImpl_ref)

section \<open>Multiplication of polynomials\<close>

text \<open>
  \<open>gfm n a b\<close> adds up the products of \<open>a\<close> with the \<open>n\<close> lowest powers that occur in \<open>b\<close>; with all 32 it is the
  product modulo the polynomial of the checksum.
\<close>

fun gfm :: "nat \<Rightarrow> u32 \<Rightarrow> u32 \<Rightarrow> u32" where
  "gfm 0 a b = 0"
| "gfm (Suc n) a b = (if bit b 31 then a else 0) XOR gfm n (crc_shift a) (push_bit 1 b)"

lemma neg_bit_and: "(0 - (v AND 1)) AND w = (if bit v 0 then w else 0)" for v w :: u32
  by (simp add: and_one_eq mod2_eq_if bit_0)

lemma gf_multiply_sw_1_gfm:
  "n \<le> 32 \<Longrightarrow> gf_multiply_sw_1 (32 - of_nat n) p a b crc32c_m = p XOR gfm n a b"
proof (induction n arbitrary: p a b)
  case 0
  show ?case by (subst gf_multiply_sw_1.simps) simp
next
  case (Suc n)
  have "of_nat (Suc n) \<noteq> (0 :: u64)"
  proof -
    have "unat (of_nat (Suc n) :: u64) = Suc n" using Suc.prems by (intro unat_of_nat_small) simp
    then show ?thesis by (metis Zero_not_Suc unat_0)
  qed
  then have ne: "32 - of_nat (Suc n) \<noteq> (32 :: u64)" by (simp del: of_nat_Suc)
  have nxt: "32 - of_nat (Suc n) + 1 = (32 - of_nat n :: u64)" by simp
  have top: "(0 - (drop_bit 31 b AND 1)) AND a = (if bit b 31 then a else 0)"
    using neg_bit_and [of "drop_bit 31 b" a] by (simp add: bit_drop_bit_eq)
  have sh: "drop_bit 1 a XOR ((0 - (a AND 1)) AND crc32c_m) = crc_shift a"
    by (simp only: crc_shift_def neg_bit_and)
  have "gf_multiply_sw_1 (32 - of_nat (Suc n)) p a b crc32c_m
      = gf_multiply_sw_1 (32 - of_nat n) (p XOR (if bit b 31 then a else 0)) (crc_shift a) (push_bit 1 b) crc32c_m"
    using ne by (subst gf_multiply_sw_1.simps) (simp only: nxt top sh if_False)
  with Suc show ?case by (simp add: xor.assoc)
qed

lemma gf_multiply_gfm: "gf_multiply_sw a b crc32c_m = gfm 32 a b"
  using gf_multiply_sw_1_gfm [of 32 0 a b] by (simp add: gf_multiply_sw_def)

lemma gfm_0 [simp]: "gfm n 0 b = 0"
  by (induction n arbitrary: b) simp_all

lemma gfm_linear:
  assumes "\<And>a b. f (a XOR b) = f a XOR f b" and "\<And>a. f (crc_shift a) = crc_shift (f a)"
  shows "f (gfm n a b) = gfm n (f a) b"
proof -
  have f0: "f 0 = 0" using assms(1) [of 0 0] by simp
  show ?thesis
    by (induction n arbitrary: a b) (simp_all add: f0 assms)
qed

lemma gfm_xor_right: "gfm n a (b XOR c) = gfm n a b XOR gfm n a c"
proof (induction n arbitrary: a b c)
  case (Suc n)
  then show ?case
    using push_bit_xor [of 1 b c]
    by (auto simp: bit_xor_iff xor.assoc xor.left_commute xor.commute simp del: push_bit_xor One_nat_def)
qed simp

lemma gfm_xor_left: "gfm n (a XOR b) c = gfm n a c XOR gfm n b c"
  by (induction n arbitrary: a b c) (simp_all add: crc_shift_xor xor.assoc xor.left_commute)

lemma gfm_shift: "gfm n (crc_shift a) b = crc_shift (gfm n a b)"
  using gfm_linear [of crc_shift n a b] by (simp add: crc_shift_xor)

lemma gfm_basis:
  assumes "0 < n" and "n \<le> 32"
  shows "gfm n (2 ^ (n - 1)) b = drop_bit (32 - n) b"
  using assms
proof (induction n arbitrary: b)
  case (Suc n)
  show ?case
  proof (cases "n = 0")
    case True
    have "drop_bit 31 b = (if bit b 31 then 1 else 0)"
    proof (rule bit_word_eqI)
      fix k show "bit (drop_bit 31 b) k = bit (if bit b 31 then 1 else 0 :: u32) k"
        using bit_imp_le_length [of b "31 + k"] by (cases "k = 0") (auto simp: bit_simps)
    qed
    with True show ?thesis by simp
  next
    case False
    have "crc_shift (2 ^ n) = 2 ^ (n - 1)"
    proof -
      have "drop_bit 1 (2 ^ n :: u32) = 2 ^ (n - 1)"
        using False Suc.prems by (intro bit_word_eqI) (auto simp: bit_simps)
      moreover have "\<not> bit (2 ^ n :: u32) 0" using False by (simp add: bit_simps)
      ultimately show ?thesis by (simp only: crc_shift_def if_False xor.right_neutral)
    qed
    moreover have "gfm n (2 ^ (n - 1)) (push_bit 1 b) = drop_bit (32 - n) (push_bit 1 b)"
      using Suc False by simp
    moreover have "(if bit b 31 then 2 ^ n else 0) XOR drop_bit (32 - n) (push_bit 1 b) = drop_bit (32 - Suc n) b"
    proof (rule bit_word_eqI)
      fix k
      consider "k < n" | "k = n" | "n < k" by linarith
      then show "bit ((if bit b 31 then 2 ^ n else 0) XOR drop_bit (32 - n) (push_bit 1 b)) k
          = bit (drop_bit (32 - Suc n) b) k"
        using Suc.prems bit_imp_le_length [of b "32 - Suc n + k"]
        by cases (auto simp: bit_xor_iff bit_exp_iff bit_drop_bit_eq bit_push_bit_iff Suc_diff_le simp del: One_nat_def)
    qed
    ultimately show ?thesis by (simp del: One_nat_def)
  qed
qed simp

lemma gfm_0_right [simp]: "gfm n a 0 = 0"
  using gfm_xor_right [of n a 0 0] by simp

lemma gfm_one: "gfm 32 (2 ^ 31) b = b"
  using gfm_basis [of 32 b] by simp

lemma gfm_cong:
  assumes "\<And>k. 32 - n \<le> k \<Longrightarrow> bit b k = bit c k" and "n \<le> 32"
  shows "gfm n a b = gfm n a c"
  using assms
proof (induction n arbitrary: a b c)
  case (Suc n)
  have "bit (push_bit 1 b) k = bit (push_bit 1 c) k" if "32 - n \<le> k" for k
    using Suc.prems(1) [of "k - 1"] Suc.prems(2) that by (auto simp: bit_push_bit_iff simp del: One_nat_def)
  then show ?case
    using Suc.IH [of "push_bit 1 b" "push_bit 1 c"] Suc.prems(1) [of 31] Suc.prems(2) by simp
qed simp

lemma gfm_last:
  assumes "n < 32"
  shows "gfm (Suc n) a b = gfm n a b XOR (if bit b (31 - n) then crc_shifts n a else 0)"
  using assms
proof (induction n arbitrary: a b)
  case (Suc n)
  have "gfm (Suc (Suc n)) a b = (if bit b 31 then a else 0) XOR gfm (Suc n) (crc_shift a) (push_bit 1 b)"
    by (rule gfm.simps(2))
  also have "gfm (Suc n) (crc_shift a) (push_bit 1 b) = gfm n (crc_shift a) (push_bit 1 b) XOR
      (if bit (push_bit 1 b) (31 - n) then crc_shifts n (crc_shift a) else 0)"
    by (rule Suc.IH) (use Suc.prems in simp)
  also have "bit (push_bit 1 b) (31 - n) = bit b (31 - Suc n)"
    using Suc.prems by (auto simp: bit_push_bit_iff simp del: One_nat_def)
  also have "crc_shifts n (crc_shift a) = crc_shifts (Suc n) a" by (simp add: funpow_swap1)
  finally show ?case by (simp only: gfm.simps xor.assoc)
qed simp

lemma gfm_drop: "gfm 32 a (drop_bit 1 b) = gfm 31 (crc_shift a) b"
proof -
  have "\<not> bit (drop_bit 1 b) 31" using bit_imp_le_length [of b 32] by (auto simp: bit_drop_bit_eq)
  then have "gfm (Suc 31) a (drop_bit 1 b) = gfm 31 (crc_shift a) (push_bit 1 (drop_bit 1 b))"
    by (simp only: gfm.simps if_False xor.left_neutral)
  also have "\<dots> = gfm 31 (crc_shift a) b"
    using bit_imp_le_length [of b] by (intro gfm_cong) (auto simp: bit_push_bit_iff bit_drop_bit_eq simp del: One_nat_def)
  finally show ?thesis by simp
qed

lemma crc_shifts_one: "crc_shifts 32 (2 ^ 31) = crc32c_m"
proof -
  have "crc_shifts 31 (push_bit 31 1) = 1" by (rule crc_shifts_push) (auto simp: bit_simps)
  then have "crc_shifts 31 (2 ^ 31) = 1" by simp
  moreover have "crc_shift 1 = crc32c_m" by (simp add: crc_shift_def)
  ultimately show ?thesis using funpow.simps(2) [of 31 crc_shift] by simp
qed

lemma crc_shifts_swap: "crc_shifts n (crc_shift a) = crc_shift (crc_shifts n a)"
  by (simp add: funpow_swap1)

text \<open>The polynomial itself is the 32nd power: multiplying by it shifts 32 times.\<close>

lemma gfm_m: "gfm 32 a crc32c_m = crc_shifts 32 a"
proof -
  have "gfm 32 a crc32c_m = gfm 32 (gfm 32 (2 ^ 31) a) crc32c_m" by (simp only: gfm_one)
  also have "\<dots> = gfm 32 (gfm 32 (2 ^ 31) crc32c_m) a"
    by (rule gfm_linear [of "\<lambda>v. gfm 32 v crc32c_m"]) (simp_all only: gfm_xor_left gfm_shift)
  also have "\<dots> = gfm 32 (crc_shifts 32 (2 ^ 31)) a" by (simp only: gfm_one crc_shifts_one)
  also have "\<dots> = crc_shifts 32 (gfm 32 (2 ^ 31) a)"
    by (rule gfm_linear [of "crc_shifts 32", symmetric]) (simp_all only: crc_shifts_xor crc_shifts_swap)
  finally show ?thesis by (simp only: gfm_one)
qed

lemma gfm_shift_right: "gfm 32 a (crc_shift b) = crc_shift (gfm 32 a b)"
proof -
  have "gfm (Suc 31) (crc_shift a) b = gfm 31 (crc_shift a) b XOR (if bit b 0 then crc_shifts 31 (crc_shift a) else 0)"
    using gfm_last [of 31 "crc_shift a" b] by simp
  moreover have "crc_shifts 31 (crc_shift a) = crc_shifts 32 a"
    using funpow.simps(2) [of 31 crc_shift] by (simp add: crc_shifts_swap)
  ultimately have "gfm 32 (crc_shift a) b = gfm 31 (crc_shift a) b XOR (if bit b 0 then crc_shifts 32 a else 0)" by simp
  then have "gfm 31 (crc_shift a) b = gfm 32 (crc_shift a) b XOR (if bit b 0 then crc_shifts 32 a else 0)"
    by (simp add: xor.assoc)
  then have "gfm 32 a (drop_bit 1 b) = crc_shift (gfm 32 a b) XOR (if bit b 0 then crc_shifts 32 a else 0)"
    by (simp only: gfm_drop gfm_shift)
  then show ?thesis
    unfolding crc_shift_def [of b] gfm_xor_right
    by (cases "bit b 0") (simp_all add: gfm_m xor.assoc del: One_nat_def)
qed

lemma gfm_power: "gfm 32 a (crc_shifts n (2 ^ 31)) = crc_shifts n a"
proof (induction n)
  case 0
  have "gfm 32 a (2 ^ 31) = a"
  proof -
    have "gfm 32 (gfm 32 (2 ^ 31) a) (2 ^ 31) = gfm 32 (gfm 32 (2 ^ 31) (2 ^ 31)) a"
      by (rule gfm_linear [of "\<lambda>v. gfm 32 v (2 ^ 31)"]) (simp_all only: gfm_xor_left gfm_shift)
    then show ?thesis by (simp only: gfm_one)
  qed
  then show ?case by simp
next
  case (Suc n)
  then show ?case by (simp add: gfm_shift_right)
qed

section \<open>Appending zeroes and combining\<close>

lemma gf_powers: "gf_powers_memo i crc32c_m = crc_shifts (32 * 2 ^ i) (2 ^ 31)"
proof (induction i)
  case 0
  show ?case using crc_shifts_one by simp
next
  case (Suc i)
  then have "gf_powers_memo (Suc i) crc32c_m = crc_shifts (32 * 2 ^ i) (crc_shifts (32 * 2 ^ i) (2 ^ 31))"
    by (simp only: gf_powers_memo.simps gf_square_sw_def gf_multiply_gfm gfm_power)
  then show ?case by (simp add: crc_shifts_add [symmetric] mult_2 [symmetric])
qed

lemma ctz:
  assumes "v \<noteq> 0"
  shows "\<exists>q. unat v = 2 ^ CountTrailingZeroBits v * (1 + 2 * q) \<and>
    unat (drop_bit 1 (drop_bit (CountTrailingZeroBits v) v)) = q"
  using assms
proof (induction v rule: CountTrailingZeroBits.induct)
  case (1 v)
  have parity: "bit v 0 \<longleftrightarrow> odd (unat v)"
    using bit_unsigned_iff [of v 0, where 'a = nat] by (simp add: bit_0)
  show ?case
  proof (cases "bit v 0")
    case True
    then have "unat v = 1 + 2 * (unat v div 2)"
      using parity odd_two_times_div_two_succ [of "unat v"] by simp
    with True show ?thesis
      by (intro exI [of _ "unat v div 2"])
        (simp add: CountTrailingZeroBits.simps [of v] unat_drop_bit_eq drop_bit_eq_div [of _ "unat v"])
  next
    case False
    let ?w = "drop_bit 1 v"
    have uw: "unat ?w = unat v div 2" using unat_drop_bit_eq [of 1 v] by (simp add: drop_bit_eq_div [of _ "unat v"])
    have ev: "unat v = 2 * unat ?w" using False uw parity by simp
    then have "?w \<noteq> 0" using 1(2) by (metis mult_0_right unat_0 unat_eq_0)
    then obtain q where q: "unat ?w = 2 ^ CountTrailingZeroBits ?w * (1 + 2 * q)"
      "unat (drop_bit 1 (drop_bit (CountTrailingZeroBits ?w) ?w)) = q"
      using 1(1) False 1(2) by blast
    have c: "CountTrailingZeroBits v = Suc (CountTrailingZeroBits ?w)"
      using False 1(2) by (simp add: CountTrailingZeroBits.simps [of v])
    have "drop_bit (CountTrailingZeroBits v) v = drop_bit (CountTrailingZeroBits ?w) ?w"
      unfolding c by (simp add: drop_bit_drop_bit)
    with q ev c show ?thesis by (intro exI [of _ q]) simp
  qed
qed

lemma Crc32AppendZeroes_loop_shifts:
  assumes "unat v < 2 ^ (62 - k)" and "k \<le> 62"
  shows "Crc32AppendZeroes_loop crc v crc32c_m (drop k crc32c_powers) = crc_shifts (32 * (2 ^ k * unat v)) crc"
  using assms
proof (induction "unat v" arbitrary: v k crc rule: less_induct)
  case less
  show ?case
  proof (cases "v = 0")
    case True
    then show ?thesis by (subst Crc32AppendZeroes_loop.simps) simp
  next
    case False
    let ?r = "CountTrailingZeroBits v"
    let ?w = "drop_bit 1 (drop_bit ?r v)"
    obtain q where q: "unat v = 2 ^ ?r * (1 + 2 * q)" "unat ?w = q" using ctz [OF False] by blast
    have "2 ^ ?r * (1 + 2 * q) < 2 ^ (62 - k)" using less.prems(1) q(1) by simp
    moreover have "(2 :: nat) ^ ?r \<le> 2 ^ ?r * (1 + 2 * q)" by simp
    ultimately have "(2 :: nat) ^ ?r < 2 ^ (62 - k)" by linarith
    then have r: "?r < 62 - k" by simp
    have pw: "drop ?r (drop k crc32c_powers) ! 0 = crc_shifts (32 * 2 ^ (k + ?r)) (2 ^ 31)"
    proof -
      have "k + ?r < 62" using r by simp
      then show ?thesis by (simp add: crc32c_powers_def gf_powers add.commute del: upt_Suc)
    qed
    have bound: "unat ?w < 2 ^ (62 - (k + ?r + 1))"
    proof (rule ccontr)
      assume "\<not> unat ?w < 2 ^ (62 - (k + ?r + 1))"
      then have "2 ^ ?r * (2 * 2 ^ (62 - (k + ?r + 1))) \<le> 2 ^ ?r * (2 * q)"
        using q(2) by simp
      moreover have "2 ^ ?r * (2 * 2 ^ (62 - (k + ?r + 1))) = (2 :: nat) ^ (62 - k)"
        using r by (simp flip: power_Suc power_add)
      moreover have "2 ^ ?r * (1 + 2 * q) = 2 ^ ?r + 2 ^ ?r * (2 * q)" by simp
      ultimately show False using less.prems(1) q(1) by linarith
    qed
    have "Crc32AppendZeroes_loop crc v crc32c_m (drop k crc32c_powers)
        = Crc32AppendZeroes_loop (crc_shifts (32 * 2 ^ (k + ?r)) crc) ?w crc32c_m (drop (k + ?r + 1) crc32c_powers)"
      using False pw
      by (subst Crc32AppendZeroes_loop.simps) (simp add: Let_def gf_multiply_gfm gfm_power [simplified] add.commute add.left_commute)
    also have "\<dots> = crc_shifts (32 * (2 ^ (k + ?r + 1) * q)) (crc_shifts (32 * 2 ^ (k + ?r)) crc)"
      using less.hyps [of ?w "k + ?r + 1"] bound r unat_drop_less [OF False, of "Suc ?r"] q(2) by simp
    also have "\<dots> = crc_shifts (32 * (2 ^ k * unat v)) crc"
      unfolding q(1) crc_shifts_add [symmetric] by (simp add: power_add algebra_simps)
    finally show ?thesis .
  qed
qed

lemma Crc32AppendZeroes_shifts:
  assumes "unat v < 2 ^ 62"
  shows "Crc32AppendZeroes crc v crc32c_m crc32c_powers = crc_shifts (32 * unat v) crc"
  using Crc32AppendZeroes_loop_shifts [of v 0 crc] assms by (simp add: Crc32AppendZeroes_def)

lemma crc_ref_zeroes: "crc_ref c (replicate n 0) = crc_shifts (8 * n) c"
proof (induction n arbitrary: c)
  case (Suc n)
  have "crc_ref c (replicate (Suc n) 0) = crc_shifts (8 * n) (crc_shifts 8 c)"
    using Suc by (simp add: crc_byte_def)
  then show ?case by (simp add: crc_shifts_add [symmetric] add.commute)
qed simp

section \<open>Properties\<close>

text \<open>
  (C18) The portable checksum routine, which starts with single bytes up to an aligned address and then
  takes sixteen, eight and single bytes through the four tables, computes the CRC-32C by definition: it
  divides by the polynomial one bit at a time. The result does not depend on the address, and
  extending the checksum of a string by another gives the checksum of the concatenation.
\<close>

theorem Extend_correct:
  "Extend pval crc buf = NOT (crc_ref (NOT crc) buf) \<and>
   Extend pval (Crc32c_Value pval' a) b = Crc32c_Value pval'' (a @ b)"
  by (simp add: Extend_def ExtendImpl_ref Value_ref)

text \<open>
  (C19) \<^verbatim>\<open>Crc32cCombine\<close> is correct: from the checksums of two strings and the length of the second, it computes
  the checksum of their concatenation, by multiplying with powers of two of the polynomial.
\<close>

theorem Crc32cCombine_correct:
  assumes "length b < 2 ^ 64"
  shows "Crc32cCombine pval (Crc32c_Value pval' a) (Crc32c_Value pval'' b) (of_nat (length b))
    = Crc32c_Value pval''' (a @ b)"
proof -
  let ?n = "of_nat (length b) :: u64" and ?d = "crc_ref (- 1) a XOR (- 1)"
  have n: "unat ?n = length b" using assms by (intro unat_of_nat_small) simp
  have low: "unat (?n AND 3) = length b mod 4"
  proof -
    have "?n AND 3 = take_bit 2 ?n" by (rule bit_word_eqI) (auto simp: bit_simps numeral_eq_Suc less_Suc_eq)
    then show ?thesis using n by (simp add: unsigned_take_bit_eq take_bit_eq_mod unat_mod_distrib)
  qed
  have high: "unat (?n div 4) = length b div 4" using n by (simp add: unat_div_distrib)
  have "(if ?n AND 3 \<noteq> 0 then PureExtend pval ?d (replicate (unat (?n AND 3)) 0) else ?d)
      = crc_shifts (8 * (length b mod 4)) ?d"
  proof (cases "?n AND 3 = 0")
    case True
    then show ?thesis using low by simp
  next
    case False
    then show ?thesis
      by (simp add: low PureExtend_def InvertedToPure_def PureToInverted_def Extend_def ExtendImpl_ref
          crc_ref_zeroes del: replicate.simps)
  qed
  then have "Crc32cCombine pval (Crc32c_Value pval' a) (Crc32c_Value pval'' b) ?n
      = NOT (crc_shifts (32 * (length b div 4)) (crc_shifts (8 * (length b mod 4)) ?d) XOR crc_ref (- 1) b)"
    using high assms
    by (simp add: Crc32cCombine_def Let_def Value_ref InvertedToPure_def PureToInverted_def
        Crc32AppendZeroes_shifts)
  also have "crc_shifts (32 * (length b div 4)) (crc_shifts (8 * (length b mod 4)) ?d) = crc_shifts (8 * length b) ?d"
  proof -
    have "32 * (length b div 4) + 8 * (length b mod 4) = 8 * length b"
      using mult_div_mod_eq [of 4 "length b"] by linarith
    then show ?thesis by (metis crc_shifts_add)
  qed
  also have "crc_shifts (8 * length b) ?d XOR crc_ref (- 1) b = crc_ref (- 1 XOR ?d) b"
    by (simp only: crc_ref_xor xor.commute)
  also have "- 1 XOR ?d = crc_ref (- 1) a" by (simp add: xor.commute xor.left_commute)
  finally show ?thesis by (simp add: Value_ref)
qed

theorem Crc32cCombine_correct_witness:
  "Crc32cCombine 7 (Crc32c_Value 3 [1, 2, 3]) (Crc32c_Value 5 [4, 5, 6, 7, 8]) 5
    = Crc32c_Value 0 [1, 2, 3, 4, 5, 6, 7, 8]"
  using Crc32cCombine_correct [of "[4, 5, 6, 7, 8]" 7 3 "[1, 2, 3]" 5 0] by simp

lemma Mask_inverse [simp]: "Unmask (Mask crc) = crc" "Mask (Unmask masked_crc) = masked_crc"
proof -
  have a: "drop_bit 17 (drop_bit 15 v OR push_bit 17 v) OR push_bit 15 (drop_bit 15 v OR push_bit 17 v) = v"
    for v :: u32
  proof (rule bit_word_eqI)
    fix n assume "n < LENGTH(32)"
    then show "bit (drop_bit 17 (drop_bit 15 v OR push_bit 17 v) OR push_bit 15 (drop_bit 15 v OR push_bit 17 v)) n
        = bit v n"
      using bit_imp_le_length [of v "n + 32"] by (cases "n < 15") (auto simp: bit_simps)
  qed
  have b: "drop_bit 15 (drop_bit 17 v OR push_bit 15 v) OR push_bit 17 (drop_bit 17 v OR push_bit 15 v) = v"
    for v :: u32
  proof (rule bit_word_eqI)
    fix n assume "n < LENGTH(32)"
    then show "bit (drop_bit 15 (drop_bit 17 v OR push_bit 15 v) OR push_bit 17 (drop_bit 17 v OR push_bit 15 v)) n
        = bit v n"
      using bit_imp_le_length [of v "n + 32"] by (cases "n < 17") (auto simp: bit_simps)
  qed
  show "Unmask (Mask crc) = crc" "Mask (Unmask masked_crc) = masked_crc"
    by (simp_all only: Mask_def Unmask_def Let_def add_diff_cancel diff_add_cancel a b)
qed

text \<open>
  (C20) Masking a checksum loses nothing: \<^verbatim>\<open>Unmask\<close> inverts \<^verbatim>\<open>Mask\<close>, on all values and in both directions,
  so two checksums agree exactly when their masked values do.
\<close>

theorem Mask_roundtrip:
  "Unmask (Mask crc) = crc \<and> Mask (Unmask masked_crc) = masked_crc \<and> (Mask crc = Mask crc' \<longleftrightarrow> crc = crc')"
  using Mask_inverse [of crc] Mask_inverse(1) [of crc'] Mask_inverse(2) by metis

end
