(* ===== verification/Status.thy ===== *)
theory Status
  imports Prelude
begin

text \<open>
  The result type of every fallible operation: \<^verbatim>\<open>Status\<close> of \<^verbatim>\<open>include/rocksdb/status.h\<close> and
  \<^verbatim>\<open>IOStatus\<close> of \<^verbatim>\<open>include/rocksdb/io_status.h\<close>. A status is a code, a subcode and a message.
  The retry, data-loss and scope flags are never set by the code modelled here and are left out.

  Two statuses compare equal when their codes agree, whatever the subcode: \<open>NoSpace\<close> is an
  \<open>IOError\<close> with a subcode, so the test \<^verbatim>\<open>s == IOStatus::NoSpace()\<close> accepts every I/O error.
\<close>

datatype Code = kOk | kNotFound | kCorruption | kNotSupported | kInvalidArgument | kIOError
  | kMergeInProgress | kIncomplete | kShutdownInProgress | kTimedOut | kAborted | kBusy
  | kExpired | kTryAgain | kCompactionTooLarge | kColumnFamilyDropped

datatype SubCode = kNone | kMutexTimeout | kLockTimeout | kLockLimit | kNoSpace | kDeadlock
  | kStaleFile | kMemoryLimit | kSpaceLimit | kPathNotFound
  | KMergeOperandsInsufficientCapacity | kManualCompactionPaused | kOverwritten
  | kTxnNotPrepared | kIOFenced | kMergeOperatorFailed | kMergeOperandThresholdExceeded

record IOStatus =
  st_code :: Code
  st_subcode :: SubCode
  st_state :: string

definition OK :: IOStatus where
  "OK = \<lparr>st_code = kOk, st_subcode = kNone, st_state = []\<rparr>"

text \<open>The two-part message of the constructors: the parts are joined by a colon and a blank.\<close>

definition join_msg :: "string \<Rightarrow> string \<Rightarrow> string" where
  "join_msg msg msg2 = msg @ (if msg2 \<noteq> [] then '': '' @ msg2 else [])"

definition NotSupported :: "string \<Rightarrow> string \<Rightarrow> IOStatus" where
  "NotSupported msg msg2 = \<lparr>st_code = kNotSupported, st_subcode = kNone, st_state = join_msg msg msg2\<rparr>"

definition NotFound :: "string \<Rightarrow> string \<Rightarrow> IOStatus" where
  "NotFound msg msg2 = \<lparr>st_code = kNotFound, st_subcode = kNone, st_state = join_msg msg msg2\<rparr>"

definition Corruption :: "string \<Rightarrow> string \<Rightarrow> IOStatus" where
  "Corruption msg msg2 = \<lparr>st_code = kCorruption, st_subcode = kNone, st_state = join_msg msg msg2\<rparr>"

definition InvalidArgument :: "string \<Rightarrow> string \<Rightarrow> IOStatus" where
  "InvalidArgument msg msg2 =
     \<lparr>st_code = kInvalidArgument, st_subcode = kNone, st_state = join_msg msg msg2\<rparr>"

definition IOError :: "string \<Rightarrow> string \<Rightarrow> IOStatus" where
  "IOError msg msg2 = \<lparr>st_code = kIOError, st_subcode = kNone, st_state = join_msg msg msg2\<rparr>"

definition NoSpace :: "string \<Rightarrow> string \<Rightarrow> IOStatus" where
  "NoSpace msg msg2 = \<lparr>st_code = kIOError, st_subcode = kNoSpace, st_state = join_msg msg msg2\<rparr>"

definition Aborted :: "string \<Rightarrow> string \<Rightarrow> IOStatus" where
  "Aborted msg msg2 = \<lparr>st_code = kAborted, st_subcode = kNone, st_state = join_msg msg msg2\<rparr>"

definition ok :: "IOStatus \<Rightarrow> bool" where
  "ok s \<longleftrightarrow> st_code s = kOk"

definition IsNotFound :: "IOStatus \<Rightarrow> bool" where
  "IsNotFound s \<longleftrightarrow> st_code s = kNotFound"

definition status_eq :: "IOStatus \<Rightarrow> IOStatus \<Rightarrow> bool" where
  "status_eq s rhs \<longleftrightarrow> st_code s = st_code rhs"

lemmas status_defs = NotSupported_def NotFound_def Corruption_def InvalidArgument_def IOError_def
  NoSpace_def Aborted_def

lemma ok_simps [simp]:
  "ok OK" "\<not> ok (NotSupported m n)" "\<not> ok (NotFound m n)" "\<not> ok (Corruption m n)"
  "\<not> ok (InvalidArgument m n)" "\<not> ok (IOError m n)" "\<not> ok (NoSpace m n)" "\<not> ok (Aborted m n)"
  by (simp_all add: ok_def OK_def status_defs)

lemma status_eq_OK [simp]: "status_eq s OK \<longleftrightarrow> ok s"
  by (simp add: status_eq_def ok_def OK_def)

lemma status_eq_NoSpace [simp]: "status_eq s (NoSpace m n) \<longleftrightarrow> st_code s = kIOError"
  by (simp add: status_eq_def NoSpace_def)

lemma code_IO [simp]:
  "st_code (IOError m n) = kIOError" "st_code (NoSpace m n) = kIOError" "st_code OK = kOk"
  "st_code (Corruption m n) = kCorruption" "st_code (NotFound m n) = kNotFound"
  by (simp_all add: IOError_def NoSpace_def OK_def Corruption_def NotFound_def)

lemma IsNotFound_simps [simp]:
  "IsNotFound (NotFound m n)" "\<not> IsNotFound (Corruption m n)" "\<not> IsNotFound OK"
  "\<not> IsNotFound (IOError m n)"
  by (simp_all add: IsNotFound_def)

end
