(* ===== verification/Zone.thy ===== *)
theory Zone
  imports Status
begin

text \<open>
  The zones of a zoned block device: class \<^verbatim>\<open>Zone\<close> of \<^verbatim>\<open>plugin/zenfs/fs/zbd_zenfs.h\<close> and
  \<^verbatim>\<open>zbd_zenfs.cc\<close>, over the backend interface \<^verbatim>\<open>ZonedBlockDeviceBackend\<close>.

  The code works with any backend, so a backend is a parameter of the model: a record of functions on an abstract
  device state (\<^theory_text>\<open>ZoneFs\<close> models one of the two that there are). What the code relies on is
  stated by named predicates: \<open>write_progress\<close> (a write transfers at least one and at most all of
  the bytes it is given, or fails), \<open>write_media\<close> (the bytes it transfers are on the media
  afterwards and no others change) and \<open>read_media\<close> (a read returns bytes of the media).
  Logging and metrics are left out. The assertions of the sources are compiled out in the release
  build that is modelled; they reappear as invariants.
\<close>

section \<open>Write life time hints and the I/O types of a file\<close>

type_synonym WriteLifeTimeHint = u32

definition WLTH_NOT_SET :: WriteLifeTimeHint where "WLTH_NOT_SET = 0"

definition WLTH_NONE :: WriteLifeTimeHint where "WLTH_NONE = 1"

definition WLTH_SHORT :: WriteLifeTimeHint where "WLTH_SHORT = 2"

definition WLTH_MEDIUM :: WriteLifeTimeHint where "WLTH_MEDIUM = 3"

definition WLTH_LONG :: WriteLifeTimeHint where "WLTH_LONG = 4"

definition WLTH_EXTREME :: WriteLifeTimeHint where "WLTH_EXTREME = 5"

datatype IOType = kData | kFilter | kIndex | kMetadata | kWAL | kManifest | kLog | kUnknown
  | kInvalid

section \<open>The backend interface\<close>

text \<open>
  What \<^verbatim>\<open>ListZones\<close> reports of one zone, as the accessors \<^verbatim>\<open>ZoneIsSwr\<close>, \<^verbatim>\<open>ZoneIsOffline\<close>,
  \<^verbatim>\<open>ZoneIsWritable\<close>, \<^verbatim>\<open>ZoneIsActive\<close>, \<^verbatim>\<open>ZoneIsOpen\<close>, \<^verbatim>\<open>ZoneStart\<close>, \<^verbatim>\<open>ZoneMaxCapacity\<close> and
  \<^verbatim>\<open>ZoneWp\<close> read it.
\<close>

record zone_rep =
  ZoneIsSwr :: bool
  ZoneIsOffline :: bool
  ZoneIsWritable :: bool
  ZoneIsActive :: bool
  ZoneIsOpen :: bool
  ZoneStart :: u64
  ZoneMaxCapacity :: u64
  ZoneWp :: u64

text \<open>What \<^verbatim>\<open>Open\<close> of a backend reports: the geometry and the two limits.\<close>

record open_info =
  oi_block_sz :: u32
  oi_zone_sz :: u64
  oi_nr_zones :: u32
  oi_max_active_zones :: u32
  oi_max_open_zones :: u32

text \<open>
  A read returns the bytes it has read (a count of zero is the empty list), or fails with an
  error number. A write returns a count, negative on failure.
\<close>

datatype read_result = ReadBytes bytes | ReadError int

record 'd backend =
  be_Open :: "bool \<Rightarrow> bool \<Rightarrow> 'd \<Rightarrow> IOStatus \<times> open_info \<times> 'd"
  be_ListZones :: "'d \<Rightarrow> zone_rep list option \<times> 'd"
  be_Reset :: "u64 \<Rightarrow> 'd \<Rightarrow> IOStatus \<times> bool \<times> u64 \<times> 'd"
  be_Finish :: "u64 \<Rightarrow> 'd \<Rightarrow> IOStatus \<times> 'd"
  be_Close :: "u64 \<Rightarrow> 'd \<Rightarrow> IOStatus \<times> 'd"
  be_Read :: "nat \<Rightarrow> u64 \<Rightarrow> bool \<Rightarrow> 'd \<Rightarrow> read_result \<times> 'd"
  be_Write :: "bytes \<Rightarrow> u64 \<Rightarrow> 'd \<Rightarrow> int \<times> 'd"
  be_InvalidateCache :: "u64 \<Rightarrow> u64 \<Rightarrow> 'd \<Rightarrow> int \<times> 'd"
  be_strerror :: "'d \<Rightarrow> string"

section \<open>Zones\<close>

record Zone =
  z_busy :: bool
  z_start :: u64
  z_capacity :: u64
  z_max_capacity :: u64
  z_wp :: u64
  z_lifetime :: WriteLifeTimeHint
  z_used_capacity :: u64

definition new_Zone :: "zone_rep \<Rightarrow> Zone" where
  "new_Zone zr =
     \<lparr>z_busy = False, z_start = ZoneStart zr,
      z_capacity =
        (if ZoneIsWritable zr then ZoneMaxCapacity zr - (ZoneWp zr - ZoneStart zr) else 0),
      z_max_capacity = ZoneMaxCapacity zr, z_wp = ZoneWp zr, z_lifetime = WLTH_NOT_SET,
      z_used_capacity = 0\<rparr>"

definition IsUsed :: "Zone \<Rightarrow> bool" where
  "IsUsed z \<longleftrightarrow> z_used_capacity z > 0"

definition GetCapacityLeft :: "Zone \<Rightarrow> u64" where
  "GetCapacityLeft z = z_capacity z"

definition IsFull :: "Zone \<Rightarrow> bool" where
  "IsFull z \<longleftrightarrow> z_capacity z = 0"

definition IsEmpty :: "Zone \<Rightarrow> bool" where
  "IsEmpty z \<longleftrightarrow> z_wp z = z_start z"

definition GetZoneNr :: "u64 \<Rightarrow> Zone \<Rightarrow> u64" where
  "GetZoneNr zone_sz z = z_start z div zone_sz"

definition IsBusy :: "Zone \<Rightarrow> bool" where
  "IsBusy z \<longleftrightarrow> z_busy z"

definition Acquire :: "Zone \<Rightarrow> bool \<times> Zone" where
  "Acquire z = (if z_busy z then (False, z) else (True, z\<lparr>z_busy := True\<rparr>))"

definition Release :: "Zone \<Rightarrow> bool \<times> Zone" where
  "Release z = (if z_busy z then (True, z\<lparr>z_busy := False\<rparr>) else (False, z))"

fun to_string :: "nat \<Rightarrow> string" where
  "to_string n =
     (if n < 10 then [char_of (48 + n)] else to_string (n div 10) @ [char_of (48 + n mod 10)])"

declare to_string.simps [simp del]

definition CheckRelease :: "u64 \<Rightarrow> Zone \<Rightarrow> IOStatus \<times> Zone" where
  "CheckRelease zone_sz z =
     (let (released, z') = Release z
      in if \<not> released
         then (Corruption (''Failed to unset busy flag of zone '' @
                 to_string (unat (GetZoneNr zone_sz z'))) [], z')
         else (OK, z'))"

definition Zone_Reset :: "'d backend \<Rightarrow> Zone \<Rightarrow> 'd \<Rightarrow> IOStatus \<times> Zone \<times> 'd" where
  "Zone_Reset be z dev =
     (let (ios, offline, max_capacity, dev') = be_Reset be (z_start z) dev
      in if \<not> status_eq ios OK then (ios, z, dev')
         else
           (let z' = (if offline then z\<lparr>z_capacity := 0\<rparr>
                      else z\<lparr>z_capacity := max_capacity, z_max_capacity := max_capacity\<rparr>)
            in (OK, z'\<lparr>z_wp := z_start z, z_lifetime := WLTH_NOT_SET\<rparr>, dev')))"

definition Zone_Finish :: "'d backend \<Rightarrow> u64 \<Rightarrow> Zone \<Rightarrow> 'd \<Rightarrow> IOStatus \<times> Zone \<times> 'd" where
  "Zone_Finish be zone_sz z dev =
     (let (ios, dev') = be_Finish be (z_start z) dev
      in if \<not> status_eq ios OK then (ios, z, dev')
         else (OK, z\<lparr>z_capacity := 0, z_wp := z_start z + zone_sz\<rparr>, dev'))"

definition Zone_Close :: "'d backend \<Rightarrow> Zone \<Rightarrow> 'd \<Rightarrow> IOStatus \<times> Zone \<times> 'd" where
  "Zone_Close be z dev =
     (if \<not> (IsEmpty z \<or> IsFull z)
      then (let (ios, dev') = be_Close be (z_start z) dev
            in if \<not> status_eq ios OK then (ios, z, dev') else (OK, z, dev'))
      else (OK, z, dev))"

text \<open>
  The write loop of \<^verbatim>\<open>Append\<close>. \<open>written\<close> is what the calls of \<^verbatim>\<open>AddBytesWritten\<close> add up to. A
  device that keeps accepting zero bytes keeps the loop going: then there is no result.
\<close>

partial_function (option) Zone_Append_loop ::
  "'d backend \<Rightarrow> bytes \<Rightarrow> u32 \<Rightarrow> Zone \<Rightarrow> 'd \<Rightarrow> u64 \<Rightarrow> (IOStatus \<times> Zone \<times> 'd \<times> u64) option"
where
  "Zone_Append_loop be ptr left z dev written =
     (if left = 0 then Some (OK, z, dev, written)
      else
        (let (ret, dev') = be_Write be (take (unat left) ptr) (z_wp z) dev
         in if ret < 0 then Some (IOError (be_strerror be dev') [], z, dev', written)
            else Zone_Append_loop be (drop (nat ret) ptr) (left - of_int ret)
                   (z\<lparr>z_wp := z_wp z + of_int ret, z_capacity := z_capacity z - of_int ret\<rparr>)
                   dev' (written + of_int ret)))"

definition Zone_Append ::
  "'d backend \<Rightarrow> Zone \<Rightarrow> bytes \<Rightarrow> u32 \<Rightarrow> 'd \<Rightarrow> (IOStatus \<times> Zone \<times> 'd \<times> u64) option"
where
  "Zone_Append be z data sz dev =
     (if z_capacity z < ucast sz
      then Some (NoSpace ''Not enough capacity for append'' [], z, dev, 0)
      else Zone_Append_loop be data sz z dev 0)"

section \<open>What the code relies on of a backend\<close>

definition write_progress :: "'d backend \<Rightarrow> bool" where
  "write_progress be \<longleftrightarrow>
     (\<forall>data pos dev. data \<noteq> [] \<longrightarrow>
        (let ret = fst (be_Write be data pos dev)
         in ret < 0 \<or> 0 < ret \<and> ret \<le> int (length data)))"

text \<open>
  \<open>media dev a\<close> is the byte at address \<open>a\<close>. A write leaves every address outside the range it was
  asked to write alone, and the bytes it reports as transferred are in place; what a failed or
  short write leaves in the rest of the range is not known.
\<close>

definition write_media :: "'d backend \<Rightarrow> ('d \<Rightarrow> u64 \<Rightarrow> byte) \<Rightarrow> bool" where
  "write_media be media \<longleftrightarrow>
     (\<forall>data pos dev.
        (let (ret, dev') = be_Write be data pos dev
         in (\<forall>a. length data \<le> unat (a - pos) \<longrightarrow> media dev' a = media dev a) \<and>
            (\<forall>i < nat ret. media dev' (pos + of_nat i) = data ! i)))"

definition read_media :: "'d backend \<Rightarrow> ('d \<Rightarrow> u64 \<Rightarrow> byte) \<Rightarrow> bool" where
  "read_media be media \<longleftrightarrow>
     (\<forall>n pos direct dev.
        (let (res, dev') = be_Read be n pos direct dev
         in media dev' = media dev \<and>
            (\<forall>bs. res = ReadBytes bs \<longrightarrow>
               length bs \<le> n \<and> (\<forall>i < length bs. bs ! i = media dev (pos + of_nat i)))))"

text \<open>Closing or finishing a zone keeps its data; a reset discards the data of that zone only.\<close>

definition manage_media :: "'d backend \<Rightarrow> u64 \<Rightarrow> ('d \<Rightarrow> u64 \<Rightarrow> byte) \<Rightarrow> bool" where
  "manage_media be zone_sz media \<longleftrightarrow>
     (\<forall>start dev. media (snd (be_Finish be start dev)) = media dev \<and>
        media (snd (be_Close be start dev)) = media dev \<and>
        (\<forall>a. unat zone_sz \<le> unat (a - start) \<longrightarrow>
           media (snd (snd (snd (be_Reset be start dev)))) a = media dev a))"

text \<open>A reset reports a capacity that fits the zone.\<close>

definition reset_capacity :: "'d backend \<Rightarrow> u64 \<Rightarrow> bool" where
  "reset_capacity be zone_sz \<longleftrightarrow>
     (\<forall>start dev. fst (snd (snd (be_Reset be start dev))) \<le> zone_sz)"

text \<open>\<open>stored media dev pos bs\<close>: the bytes \<open>bs\<close> are on the media from \<open>pos\<close> on.\<close>

definition stored :: "('d \<Rightarrow> u64 \<Rightarrow> byte) \<Rightarrow> 'd \<Rightarrow> u64 \<Rightarrow> bytes \<Rightarrow> bool" where
  "stored media dev pos bs \<longleftrightarrow> (\<forall>i < length bs. media dev (pos + of_nat i) = bs ! i)"

lemma write_progressD:
  assumes "write_progress be" and "data \<noteq> []" and "be_Write be data pos dev = (ret, dev')"
  shows "ret < 0 \<or> 0 < ret \<and> ret \<le> int (length data)"
  using assms by (metis (no_types, lifting) write_progress_def fst_conv)

lemma write_mediaD:
  assumes "write_media be media" and "be_Write be data pos dev = (ret, dev')"
  shows "length data \<le> unat (a - pos) \<Longrightarrow> media dev' a = media dev a"
    and "i < nat ret \<Longrightarrow> media dev' (pos + of_nat i) = data ! i"
proof -
  have "case be_Write be data pos dev of (ret, dev') \<Rightarrow>
      (\<forall>a. length data \<le> unat (a - pos) \<longrightarrow> media dev' a = media dev a) \<and>
      (\<forall>i < nat ret. media dev' (pos + of_nat i) = data ! i)"
    using assms(1) by (simp add: write_media_def)
  with assms(2) show "length data \<le> unat (a - pos) \<Longrightarrow> media dev' a = media dev a"
    and "i < nat ret \<Longrightarrow> media dev' (pos + of_nat i) = data ! i"
    by simp_all
qed

section \<open>Address arithmetic\<close>

text \<open>Offsets from a position, where no offset reaches half of the address space.\<close>

lemma offset_after:
  fixes a pos :: u64
  assumes "k \<le> n" and "n < 2 ^ 63" and "n \<le> unat (a - pos)"
  shows "n - k \<le> unat (a - (pos + of_nat k))"
proof -
  have "unat (of_nat k :: u64) = k"
    using assms(1,2) by (intro unat_of_nat_small) simp
  then have "unat (a - pos - of_nat k) = unat (a - pos) - k"
    using assms by (simp add: unat_sub_if')
  then show ?thesis
    using assms(3) by (simp add: diff_diff_eq)
qed

lemma offset_before:
  fixes pos :: u64
  assumes "i < k" and "k < 2 ^ 63" and "n < 2 ^ 63"
  shows "n \<le> unat (pos + of_nat i - (pos + of_nat k))"
proof -
  have "unat (of_nat k :: u64) = k" "unat (of_nat i :: u64) = i"
    using assms(1,2) by (auto intro!: unat_of_nat_small)
  then have "unat (of_nat i - of_nat k :: u64) = 2 ^ 64 + i - k"
    using assms(1) by (simp add: unat_sub_if')
  then have "unat (pos + of_nat i - (pos + of_nat k)) = 2 ^ 64 + i - k"
    by simp
  then show ?thesis using assms by simp
qed

lemma offset_within:
  fixes pos :: u64
  assumes "i < 2 ^ 63"
  shows "unat (pos + of_nat i - pos) = i"
  using assms by (simp add: unat_of_nat_small)

section \<open>Appending to a zone\<close>

definition advance :: "nat \<Rightarrow> Zone \<Rightarrow> Zone" where
  "advance k z = z\<lparr>z_wp := z_wp z + of_nat k, z_capacity := z_capacity z - of_nat k\<rparr>"

lemma advance_0 [simp]: "advance 0 z = z"
  by (simp add: advance_def)

lemma advance_add: "advance j (advance k z) = advance (k + j) z"
  by (simp add: advance_def algebra_simps)

lemma advance_sel [simp]:
  "z_busy (advance k z) = z_busy z" "z_start (advance k z) = z_start z"
  "z_max_capacity (advance k z) = z_max_capacity z" "z_lifetime (advance k z) = z_lifetime z"
  "z_used_capacity (advance k z) = z_used_capacity z"
  "z_wp (advance k z) = z_wp z + of_nat k" "z_capacity (advance k z) = z_capacity z - of_nat k"
  by (simp_all add: advance_def)

text \<open>
  One iteration of the loop, with the count the device reports read as a natural number.
\<close>

lemma Zone_Append_loop_step:
  assumes "left \<noteq> 0" and "be_Write be (take (unat left) ptr) (z_wp z) dev = (int k, dev')"
  shows "Zone_Append_loop be ptr left z dev written
    = Zone_Append_loop be (drop k ptr) (left - of_nat k) (advance k z) dev' (written + of_nat k)"
  using assms by (subst Zone_Append_loop.simps) (simp add: advance_def)

text \<open>
  What an append of \<open>n\<close> bytes has done when \<open>k\<close> of them were accepted: they are on the media at
  the old write pointer, and no address outside the range asked for has changed.
\<close>

definition appended :: "('d \<Rightarrow> u64 \<Rightarrow> byte) \<Rightarrow> u64 \<Rightarrow> bytes \<Rightarrow> nat \<Rightarrow> nat \<Rightarrow> 'd \<Rightarrow> 'd \<Rightarrow> bool" where
  "appended media pos data n k dev dev' \<longleftrightarrow>
     stored media dev' pos (take k data) \<and>
     (\<forall>a. n \<le> unat (a - pos) \<longrightarrow> media dev' a = media dev a)"

lemma appended_0: "appended media pos data 0 0 dev dev"
  by (simp add: appended_def stored_def)

lemma appended_write:
  assumes "write_media be media" and "be_Write be (take n data) pos dev = (ret, dev')"
    and "n \<le> length data" and "nat ret \<le> n"
  shows "appended media pos data n (nat ret) dev dev'"
  using write_mediaD [OF assms(1,2)] assms(3,4)
  by (auto simp: appended_def stored_def)

lemma appended_trans:
  assumes first: "appended media pos data n k dev dev1"
    and rest: "appended media (pos + of_nat k) (drop k data) (n - k) j dev1 dev2"
    and bounds: "k \<le> n" "n < 2 ^ 63" "j \<le> n - k" "n \<le> length data"
  shows "appended media pos data n (k + j) dev dev2"
proof -
  have "media dev2 (pos + of_nat i) = data ! i" if i: "i < k + j" for i
  proof (cases "i < k")
    case True
    then have "n - k \<le> unat (pos + of_nat i - (pos + of_nat k))"
      using bounds by (intro offset_before) auto
    then have "media dev2 (pos + of_nat i) = media dev1 (pos + of_nat i)"
      using rest by (simp add: appended_def)
    with True first bounds show ?thesis
      by (simp add: appended_def stored_def)
  next
    case False
    have "media dev2 (pos + of_nat k + of_nat m) = drop k data ! m" if "m < j" for m
      using rest that bounds by (simp add: appended_def stored_def)
    from this [of "i - k"]
    have "media dev2 (pos + of_nat k + of_nat (i - k)) = drop k data ! (i - k)"
      using False i by simp
    moreover have "pos + of_nat k + of_nat (i - k) = pos + of_nat i"
      using False by (simp add: add.assoc flip: of_nat_add)
    ultimately show ?thesis
      using False i bounds by simp
  qed
  moreover have "media dev2 a = media dev a" if "n \<le> unat (a - pos)" for a
    using that first rest offset_after [OF bounds(1,2) that] by (simp add: appended_def)
  ultimately show ?thesis
    by (simp add: appended_def stored_def)
qed

text \<open>
  The loop returns; \<open>k\<close> is the number of bytes the device has accepted, all of them when the
  status is OK.
\<close>

lemma Zone_Append_loop_spec:
  assumes wp: "write_progress be" and len: "unat left \<le> length ptr"
  shows "\<exists>s k dev'. Zone_Append_loop be ptr left z dev written
      = Some (s, advance k z, dev', written + of_nat k) \<and> k \<le> unat left \<and>
      (s = OK \<and> k = unat left \<or> (\<exists>msg. s = IOError msg []) \<and> k < unat left) \<and>
      (\<forall>media. write_media be media \<longrightarrow> appended media (z_wp z) ptr (unat left) k dev dev')"
  using len
proof (induction "unat left" arbitrary: ptr left z dev written rule: less_induct)
  case less
  show ?case
  proof (cases "left = 0")
    case True
    then show ?thesis
      by (subst Zone_Append_loop.simps) (auto simp: appended_0 intro!: exI [of _ "0::nat"])
  next
    case False
    then have pos: "0 < unat left"
      by (simp add: unat_gt_0)
    obtain ret dev1 where w: "be_Write be (take (unat left) ptr) (z_wp z) dev = (ret, dev1)"
      by (cases "be_Write be (take (unat left) ptr) (z_wp z) dev")
    have ret: "ret < 0 \<or> 0 < ret \<and> ret \<le> int (unat left)"
      using write_progressD [OF wp _ w] pos less.prems by fastforce
    show ?thesis
    proof (cases "ret < 0")
      case True
      have "\<forall>media. write_media be media \<longrightarrow> appended media (z_wp z) ptr (unat left) 0 dev dev1"
        using True appended_write [OF _ w less.prems] by fastforce
      with False True w pos show ?thesis
        by (subst Zone_Append_loop.simps) (auto intro!: exI [of _ "0::nat"])
    next
      case nonneg: False
      define k where "k = nat ret"
      have k: "0 < k" "k \<le> unat left" and rk: "ret = int k"
        using nonneg ret by (auto simp: k_def nat_le_iff)
      have uk: "unat (of_nat k :: u32) = k"
        using k(2) unat_u32_less [of left] by (intro unat_of_nat_small) simp
      have left': "unat (left - of_nat k) = unat left - k"
        using k uk by (simp add: unat_sub_if')
      have "unat (left - of_nat k) < unat left" and "unat (left - of_nat k) \<le> length (drop k ptr)"
        using k left' less.prems by auto
      from less.hyps [OF this, of "advance k z" dev1 "written + of_nat k"] obtain s j dev2 where
        loop: "Zone_Append_loop be (drop k ptr) (left - of_nat k) (advance k z) dev1
            (written + of_nat k) = Some (s, advance j (advance k z), dev2, written + of_nat k + of_nat j)"
        and j: "j \<le> unat left - k"
        and s: "s = OK \<and> j = unat left - k \<or> (\<exists>msg. s = IOError msg []) \<and> j < unat left - k"
        and app: "\<And>media. write_media be media \<Longrightarrow>
            appended media (z_wp z + of_nat k) (drop k ptr) (unat left - k) j dev1 dev2"
        by (auto simp: left')
      have "appended media (z_wp z) ptr (unat left) (k + j) dev dev2"
        if m: "write_media be media" for media
        using appended_write [OF m w less.prems] k j rk app [OF m] less.prems unat_u32_less [of left]
        by (intro appended_trans) auto
      moreover have "Zone_Append_loop be ptr left z dev written
          = Some (s, advance (k + j) z, dev2, written + of_nat (k + j))"
        using Zone_Append_loop_step [OF False, of be ptr z dev k dev1 written] w rk loop
        by (simp add: advance_add add.assoc)
      ultimately show ?thesis
        using s j k(2) by (intro exI [of _ s] exI [of _ "k + j"] exI [of _ dev2]) auto
    qed
  qed
qed

text \<open>
  Zones are well formed when the write pointer and the capacity left stay inside the zone, the
  valid data fits below the write pointer, and the zone does not wrap around the address space.
\<close>

definition zone_wf :: "u64 \<Rightarrow> Zone \<Rightarrow> bool" where
  "zone_wf zone_sz z \<longleftrightarrow>
     unat (z_start z) + unat zone_sz < 2 ^ 64 \<and>
     unat (z_start z) \<le> unat (z_wp z) \<and>
     unat (z_wp z) + unat (z_capacity z) \<le> unat (z_start z) + unat zone_sz \<and>
     unat (z_max_capacity z) \<le> unat zone_sz \<and>
     unat (z_start z) + unat (z_used_capacity z) \<le> unat (z_wp z)"

lemma zone_wf_advance:
  assumes "zone_wf zone_sz z" and "k \<le> unat (z_capacity z)"
  shows "zone_wf zone_sz (advance k z)"
    and "unat (z_wp (advance k z)) = unat (z_wp z) + k"
    and "unat (z_capacity (advance k z)) = unat (z_capacity z) - k"
proof -
  have k: "unat (of_nat k :: u64) = k"
    using assms(2) unat_u64_less [of "z_capacity z"] by (intro unat_of_nat_small) simp
  show wp: "unat (z_wp (advance k z)) = unat (z_wp z) + k"
    using assms k by (simp add: unat_plus_if' zone_wf_def)
  show cap: "unat (z_capacity (advance k z)) = unat (z_capacity z) - k"
    using assms k by (simp add: unat_sub_if')
  show "zone_wf zone_sz (advance k z)"
    using assms wp cap by (simp add: zone_wf_def)
qed

lemma Zone_Append_spec:
  assumes "write_progress be" and "unat sz \<le> length data"
  shows "\<exists>s k dev'. Zone_Append be z data sz dev = Some (s, advance k z, dev', of_nat k) \<and>
      (z_capacity z < ucast sz \<and> s = NoSpace ''Not enough capacity for append'' [] \<and> k = 0 \<and> dev' = dev
       \<or> \<not> z_capacity z < ucast sz \<and> k \<le> unat sz \<and>
         (s = OK \<and> k = unat sz \<or> (\<exists>msg. s = IOError msg []) \<and> k < unat sz) \<and>
         (\<forall>media. write_media be media \<longrightarrow>
            appended media (z_wp z) data (unat sz) k dev dev'))"
proof (cases "z_capacity z < ucast sz")
  case True
  then show ?thesis
    by (auto simp: Zone_Append_def intro!: exI [of _ "0::nat"])
next
  case False
  obtain s k dev' where "Zone_Append_loop be data sz z dev 0 = Some (s, advance k z, dev', 0 + of_nat k)"
    and "k \<le> unat sz" and "s = OK \<and> k = unat sz \<or> (\<exists>msg. s = IOError msg []) \<and> k < unat sz"
    and "\<forall>media. write_media be media \<longrightarrow> appended media (z_wp z) data (unat sz) k dev dev'"
    using Zone_Append_loop_spec [OF assms, of z dev 0] by blast
  with False show ?thesis
    by (auto simp: Zone_Append_def)
qed

section \<open>Managing a zone\<close>

lemma Acquire_simps [simp]:
  "z_busy z \<Longrightarrow> Acquire z = (False, z)" "\<not> z_busy z \<Longrightarrow> Acquire z = (True, z\<lparr>z_busy := True\<rparr>)"
  by (simp_all add: Acquire_def)

lemma CheckRelease_busy [simp]: "z_busy z \<Longrightarrow> CheckRelease zone_sz z = (OK, z\<lparr>z_busy := False\<rparr>)"
  by (simp add: CheckRelease_def Release_def)

lemma CheckRelease_idle:
  "\<not> z_busy z \<Longrightarrow> \<not> ok (fst (CheckRelease zone_sz z)) \<and> snd (CheckRelease zone_sz z) = z"
  by (simp add: CheckRelease_def Release_def)

lemma zone_busy_cancel [simp]: "\<not> z_busy z \<Longrightarrow> z\<lparr>z_busy := False\<rparr> = z"
  by (cases z) simp

lemma zone_preds_busy [simp]:
  "IsUsed (z\<lparr>z_busy := b\<rparr>) = IsUsed z" "IsFull (z\<lparr>z_busy := b\<rparr>) = IsFull z"
  "IsEmpty (z\<lparr>z_busy := b\<rparr>) = IsEmpty z" "zone_wf zone_sz (z\<lparr>z_busy := b\<rparr>) = zone_wf zone_sz z"
  by (simp_all add: IsUsed_def IsFull_def IsEmpty_def zone_wf_def)

text \<open>The outcome of the three management commands, on every branch.\<close>

lemma Zone_Finish_cases:
  obtains (fail) s dev' where "Zone_Finish be zone_sz z dev = (s, z, dev')" "\<not> ok s"
      "dev' = snd (be_Finish be (z_start z) dev)"
  | (fin) dev' where
      "Zone_Finish be zone_sz z dev = (OK, z\<lparr>z_capacity := 0, z_wp := z_start z + zone_sz\<rparr>, dev')"
      "dev' = snd (be_Finish be (z_start z) dev)"
proof -
  obtain s d where b: "be_Finish be (z_start z) dev = (s, d)"
    by (cases "be_Finish be (z_start z) dev")
  show thesis
    by (cases "ok s") (use b in \<open>auto simp: Zone_Finish_def intro: fin fail\<close>)
qed

lemma Zone_Reset_cases:
  obtains (fail) s dev' where "Zone_Reset be z dev = (s, z, dev')" "\<not> ok s"
      "dev' = snd (snd (snd (be_Reset be (z_start z) dev)))"
  | (offline) dev' where
      "Zone_Reset be z dev =
         (OK, z\<lparr>z_capacity := 0, z_wp := z_start z, z_lifetime := WLTH_NOT_SET\<rparr>, dev')"
      "dev' = snd (snd (snd (be_Reset be (z_start z) dev)))"
  | (reset) cap dev' where
      "Zone_Reset be z dev =
         (OK, z\<lparr>z_capacity := cap, z_max_capacity := cap, z_wp := z_start z,
                z_lifetime := WLTH_NOT_SET\<rparr>, dev')"
      "cap = fst (snd (snd (be_Reset be (z_start z) dev)))"
      "dev' = snd (snd (snd (be_Reset be (z_start z) dev)))"
proof -
  obtain s off cap d where b: "be_Reset be (z_start z) dev = (s, off, cap, d)"
    by (cases "be_Reset be (z_start z) dev")
  show thesis
    by (cases "ok s"; cases off)
      (use b in \<open>auto simp: Zone_Reset_def Let_def intro: fail offline reset\<close>)
qed

lemma Zone_Close_zone: "fst (snd (Zone_Close be z dev)) = z"
  by (auto simp: Zone_Close_def split: prod.splits)

lemma zone_wf_Finish:
  assumes "zone_wf zone_sz z"
  shows "zone_wf zone_sz (fst (snd (Zone_Finish be zone_sz z dev)))"
proof (cases rule: Zone_Finish_cases [of be zone_sz z dev])
  case (fin dev')
  have "unat (z_start z + zone_sz) = unat (z_start z) + unat zone_sz"
    using assms by (simp add: unat_plus_if' zone_wf_def)
  with assms fin show ?thesis by (simp add: zone_wf_def)
qed (use assms in simp)

lemma zone_wf_Reset:
  assumes "zone_wf zone_sz z" and "\<not> IsUsed z" and "reset_capacity be zone_sz"
  shows "zone_wf zone_sz (fst (snd (Zone_Reset be z dev)))"
proof -
  have "fst (snd (snd (be_Reset be (z_start z) dev))) \<le> zone_sz"
    using assms(3) by (simp add: reset_capacity_def)
  moreover have "z_used_capacity z = 0"
    using assms(2) by (simp add: IsUsed_def word_gt_0)
  ultimately show ?thesis
    using assms(1)
    by (cases rule: Zone_Reset_cases [of be z dev]) (simp_all add: zone_wf_def word_le_nat_alt)
qed

section \<open>A device in memory\<close>

text \<open>
  A backend for concrete runs: the device is its media. A write transfers what one call of the
  kernel transfers at most, a read is complete, every zone has the capacity \<open>cap\<close>.
\<close>

definition rw_max :: nat where "rw_max = 0x7ffff000"

definition ram_write :: "bytes \<Rightarrow> u64 \<Rightarrow> (u64 \<Rightarrow> byte) \<Rightarrow> int \<times> (u64 \<Rightarrow> byte)" where
  "ram_write data pos d =
     (let k = min (length data) rw_max
      in (int k, \<lambda>a. if unat (a - pos) < k then data ! unat (a - pos) else d a))"

definition ram_read :: "nat \<Rightarrow> u64 \<Rightarrow> bool \<Rightarrow> (u64 \<Rightarrow> byte) \<Rightarrow> read_result \<times> (u64 \<Rightarrow> byte)" where
  "ram_read n pos direct d = (ReadBytes (map (\<lambda>i. d (pos + of_nat i)) [0..<n]), d)"

definition ram_backend :: "open_info \<Rightarrow> zone_rep list \<Rightarrow> u64 \<Rightarrow> (u64 \<Rightarrow> byte) backend" where
  "ram_backend info zrs cap =
     \<lparr>be_Open = (\<lambda>_ _ d. (OK, info, d)), be_ListZones = (\<lambda>d. (Some zrs, d)),
      be_Reset = (\<lambda>_ d. (OK, False, cap, d)), be_Finish = (\<lambda>_ d. (OK, d)),
      be_Close = (\<lambda>_ d. (OK, d)), be_Read = ram_read, be_Write = ram_write,
      be_InvalidateCache = (\<lambda>_ _ d. (0, d)), be_strerror = (\<lambda>_. [])\<rparr>"

lemma ram_backend_sel [simp]:
  "be_Open (ram_backend info zrs cap) ro ex d = (OK, info, d)"
  "be_ListZones (ram_backend info zrs cap) d = (Some zrs, d)"
  "be_Reset (ram_backend info zrs cap) start d = (OK, False, cap, d)"
  "be_Finish (ram_backend info zrs cap) start d = (OK, d)"
  "be_Close (ram_backend info zrs cap) start d = (OK, d)"
  "be_Read (ram_backend info zrs cap) = ram_read"
  "be_Write (ram_backend info zrs cap) = ram_write"
  "be_InvalidateCache (ram_backend info zrs cap) pos sz d = (0, d)"
  by (simp_all add: ram_backend_def)

lemma ram_write_progress [simp]: "write_progress (ram_backend info zrs cap)"
  by (simp add: write_progress_def ram_write_def Let_def rw_max_def)

lemma ram_write_media [simp]: "write_media (ram_backend info zrs cap) id"
  by (auto simp: write_media_def ram_write_def Let_def rw_max_def unat_of_nat_small)

lemma ram_read_media [simp]: "read_media (ram_backend info zrs cap) id"
  by (simp add: read_media_def ram_read_def)

lemma ram_manage_media [simp]: "manage_media (ram_backend info zrs cap) zone_sz id"
  by (simp add: manage_media_def)

lemma ram_reset_capacity [simp]: "cap \<le> zone_sz \<Longrightarrow> reset_capacity (ram_backend info zrs cap) zone_sz"
  by (simp add: reset_capacity_def)

definition info0 :: open_info where
  "info0 = \<lparr>oi_block_sz = 4, oi_zone_sz = 64, oi_nr_zones = 32, oi_max_active_zones = 5,
            oi_max_open_zones = 4\<rparr>"

abbreviation be0 :: "(u64 \<Rightarrow> byte) backend" where
  "be0 \<equiv> ram_backend info0 [] 48"

section \<open>Properties\<close>

text \<open>
  (C14) An append to a well-formed zone returns on a device whose writes make progress. Without
  the capacity it fails with NoSpace and does nothing. Otherwise the zone stays well formed, the
  write pointer and the capacity move by the number \<open>k\<close> of bytes that the device has accepted, which
  is also the number reported for the write statistics. These bytes are on the media at
  the old write pointer, nothing outside the range of the request has changed, and the status is
  OK only if the whole request was accepted.
\<close>

theorem Zone_Append_correct:
  assumes "write_progress be" and "write_media be media" and "zone_wf zone_sz z"
    and "unat sz \<le> length data"
  shows "\<exists>st z' dev' k. Zone_Append be z data sz dev = Some (st, z', dev', of_nat k) \<and>
    (z_capacity z < ucast sz \<longrightarrow>
       st = NoSpace ''Not enough capacity for append'' [] \<and> z' = z \<and> dev' = dev \<and> k = 0) \<and>
    zone_wf zone_sz z' \<and> k \<le> unat sz \<and>
    unat (z_wp z') = unat (z_wp z) + k \<and> unat (z_capacity z') = unat (z_capacity z) - k \<and>
    stored media dev' (z_wp z) (take k data) \<and>
    (\<forall>a. unat sz \<le> unat (a - z_wp z) \<longrightarrow> media dev' a = media dev a) \<and>
    (ok st \<longleftrightarrow> \<not> z_capacity z < ucast sz \<and> k = unat sz)"
proof -
  obtain st k dev' where app: "Zone_Append be z data sz dev = Some (st, advance k z, dev', of_nat k)"
    and cases: "z_capacity z < ucast sz \<and> st = NoSpace ''Not enough capacity for append'' [] \<and>
        k = 0 \<and> dev' = dev
       \<or> \<not> z_capacity z < ucast sz \<and> k \<le> unat sz \<and>
         (st = OK \<and> k = unat sz \<or> (\<exists>msg. st = IOError msg []) \<and> k < unat sz) \<and>
         appended media (z_wp z) data (unat sz) k dev dev'"
    using Zone_Append_spec [OF assms(1,4), of z dev] assms(2) by blast
  have "k \<le> unat (z_capacity z)"
    using cases by (auto simp: word_less_nat_alt)
  note adv = zone_wf_advance [OF assms(3) this]
  have "stored media dev' (z_wp z) (take k data)"
    and "\<forall>a. unat sz \<le> unat (a - z_wp z) \<longrightarrow> media dev' a = media dev a"
    using cases by (auto simp: appended_def stored_def)
  with app cases adv show ?thesis
    by (intro exI [of _ st] exI [of _ "advance k z"] exI [of _ dev'] exI [of _ k])
      (elim disjE; force)
qed

definition zone0 :: Zone where
  "zone0 = \<lparr>z_busy = False, z_start = 64, z_capacity = 40, z_max_capacity = 48, z_wp = 72,
            z_lifetime = 3, z_used_capacity = 6\<rparr>"

lemma zone0_wf: "zone_wf 64 zone0"
  by (simp add: zone_wf_def zone0_def)

theorem Zone_Append_correct_witness:
  "\<exists>z' dev'. Zone_Append be0 zone0 [1, 2, 3, 4] 4 (\<lambda>_. 0) = Some (OK, z', dev', 4) \<and>
     zone_wf 64 z' \<and> z_wp z' = 76 \<and> z_capacity z' = 36 \<and> map dev' [72, 73, 74, 75, 76] = [1, 2, 3, 4, 0]"
proof -
  obtain st z' dev' k where
    "Zone_Append be0 zone0 [1, 2, 3, 4] 4 (\<lambda>_. 0) = Some (st, z', dev', of_nat k)" "zone_wf 64 z'"
    using Zone_Append_correct [of be0 id 64 zone0 4 "[1, 2, 3, 4]" "\<lambda>_. 0"] zone0_wf by auto
  then show ?thesis
    by (auto simp add: Zone_Append_def zone0_def Zone_Append_loop.simps ram_write_def rw_max_def)
qed

end
