(* ===== verification/ZBD.thy ===== *)
theory ZBD
  imports Zone
begin

text \<open>
  The zoned block device: class \<^verbatim>\<open>ZonedBlockDevice\<close> of \<^verbatim>\<open>plugin/zenfs/fs/zbd_zenfs.h\<close> and
  \<^verbatim>\<open>zbd_zenfs.cc\<close>. The record keeps the members of the class, the geometry members of its backend
  and the state of the device behind it. A zone pointer is an index into the vector that holds
  the zone, \<^const>\<open>None\<close> the null pointer. The record is extensible: the file and file system theories
  add their members to it, and every operation here works on any extension.

  The operations run one at a time, as they do under the locks that the sources take. A wait on a
  condition variable that would block is the result \<^const>\<open>None\<close>, and so is a loop that spins.
\<close>

section \<open>State\<close>

record 'd ZBD =
  block_sz :: u32
  zone_sz :: u64
  nr_zones :: u32
  dev :: 'd
  io_zones :: "Zone list"
  meta_zones :: "Zone list"
  finish_threshold :: u32
  bytes_written :: u64
  gc_bytes_written :: u64
  active_io_zones :: int
  open_io_zones :: int
  zone_deferred_status :: IOStatus
  migrating :: bool
  max_nr_active_io_zones :: u32
  max_nr_open_io_zones :: u32

definition ZENFS_META_ZONES :: nat where "ZENFS_META_ZONES = 3"

definition ZENFS_MIN_ZONES :: u32 where "ZENFS_MIN_ZONES = 32"

definition upd_io :: "nat \<Rightarrow> Zone \<Rightarrow> ('d, 'm) ZBD_scheme \<Rightarrow> ('d, 'm) ZBD_scheme" where
  "upd_io i z s = s\<lparr>io_zones := (io_zones s)[i := z]\<rparr>"

definition upd_meta :: "nat \<Rightarrow> Zone \<Rightarrow> ('d, 'm) ZBD_scheme \<Rightarrow> ('d, 'm) ZBD_scheme" where
  "upd_meta i z s = s\<lparr>meta_zones := (meta_zones s)[i := z]\<rparr>"

text \<open>Release of a zone of either vector, with its status.\<close>

definition release_io :: "nat \<Rightarrow> ('d, 'm) ZBD_scheme \<Rightarrow> IOStatus \<times> ('d, 'm) ZBD_scheme" where
  "release_io i s = (let (st, z) = CheckRelease (zone_sz s) (io_zones s ! i) in (st, upd_io i z s))"

definition release_meta :: "nat \<Rightarrow> ('d, 'm) ZBD_scheme \<Rightarrow> IOStatus \<times> ('d, 'm) ZBD_scheme" where
  "release_meta i s =
     (let (st, z) = CheckRelease (zone_sz s) (meta_zones s ! i) in (st, upd_meta i z s))"

section \<open>Opening the device\<close>

text \<open>The first three sequential zones hold metadata; those of them that are online are used.\<close>

fun open_meta_zones :: "zone_rep list \<Rightarrow> nat \<Rightarrow> Zone list \<times> zone_rep list" where
  "open_meta_zones [] m = ([], [])"
| "open_meta_zones (zr # zrs) m =
     (if m < ZENFS_META_ZONES
      then
        (let (zs, rest) = open_meta_zones zrs (if ZoneIsSwr zr then m + 1 else m)
         in (if ZoneIsSwr zr \<and> \<not> ZoneIsOffline zr then new_Zone zr # zs else zs, rest))
      else ([], zr # zrs))"

definition open_io_zone ::
  "'d backend \<Rightarrow> bool \<Rightarrow> zone_rep \<Rightarrow> ('d, 'm) ZBD_scheme \<Rightarrow> IOStatus \<times> ('d, 'm) ZBD_scheme"
where
  "open_io_zone be readonly zr s =
     (if ZoneIsSwr zr \<and> \<not> ZoneIsOffline zr
      then
        (let (acquired, z) = Acquire (new_Zone zr)
         in if \<not> acquired
            then (Corruption (''Failed to set busy flag of zone '' @
                    to_string (unat (GetZoneNr (zone_sz s) z))) [], s)
            else
              (let s1 = s\<lparr>active_io_zones := active_io_zones s + (if ZoneIsActive zr then 1 else 0)\<rparr>;
                   (z1, dev1) =
                     (if ZoneIsActive zr \<and> ZoneIsOpen zr \<and> \<not> readonly
                      then snd (Zone_Close be z (dev s)) else (z, dev s));
                   (st, z2) = CheckRelease (zone_sz s) z1
               in (if ok st then OK else st,
                   s1\<lparr>dev := dev1, io_zones := io_zones s @ [z2]\<rparr>)))
      else (OK, s))"

fun open_io_zones_loop ::
  "'d backend \<Rightarrow> bool \<Rightarrow> zone_rep list \<Rightarrow> ('d, 'm) ZBD_scheme \<Rightarrow> IOStatus \<times> ('d, 'm) ZBD_scheme"
where
  "open_io_zones_loop be readonly [] s = (OK, s)"
| "open_io_zones_loop be readonly (zr # zrs) s =
     (let (st, s') = open_io_zone be readonly zr s
      in if \<not> ok st then (st, s') else open_io_zones_loop be readonly zrs s')"

definition reserved_zones :: u32 where "reserved_zones = 2"

definition ZBD_Open ::
  "'d backend \<Rightarrow> bool \<Rightarrow> bool \<Rightarrow> ('d, 'm) ZBD_scheme \<Rightarrow> IOStatus \<times> ('d, 'm) ZBD_scheme"
where
  "ZBD_Open be readonly exclusive s =
     (if \<not> readonly \<and> \<not> exclusive
      then (InvalidArgument ''Write opens must be exclusive'' [], s)
      else
        (let (ios, info, dev1) = be_Open be readonly exclusive (dev s); s1 = s\<lparr>dev := dev1\<rparr>
         in if \<not> status_eq ios OK then (ios, s1)
            else
              (let s2 = s1\<lparr>block_sz := oi_block_sz info, zone_sz := oi_zone_sz info,
                            nr_zones := oi_nr_zones info\<rparr>
               in if nr_zones s2 < ZENFS_MIN_ZONES
                  then (NotSupported (''To few zones on zoned backend ('' @
                          to_string (unat ZENFS_MIN_ZONES) @ '' required)'') [], s2)
                  else
                    (let s3 = s2\<lparr>max_nr_active_io_zones :=
                                    (if oi_max_active_zones info = 0 then nr_zones s2
                                     else oi_max_active_zones info - reserved_zones),
                                  max_nr_open_io_zones :=
                                    (if oi_max_open_zones info = 0 then nr_zones s2
                                     else oi_max_open_zones info - reserved_zones)\<rparr>;
                         (rep, dev2) = be_ListZones be (dev s3); s4 = s3\<lparr>dev := dev2\<rparr>
                     in case rep of
                          None \<Rightarrow> (IOError ''Failed to list zones'' [], s4)
                        | Some zrs \<Rightarrow>
                            if length zrs \<noteq> unat (nr_zones s4)
                            then (IOError ''Failed to list zones'' [], s4)
                            else
                              (let (metas, rest) = open_meta_zones zrs 0
                               in open_io_zones_loop be readonly rest
                                    (s4\<lparr>meta_zones := meta_zones s4 @ metas,
                                        active_io_zones := 0, open_io_zones := 0\<rparr>))))))"

section \<open>Looking up zones and adding up space\<close>

fun find_index :: "('a \<Rightarrow> bool) \<Rightarrow> 'a list \<Rightarrow> nat option" where
  "find_index P [] = None"
| "find_index P (x # xs) = (if P x then Some 0 else map_option Suc (find_index P xs))"

definition GetIOZone :: "('d, 'm) ZBD_scheme \<Rightarrow> u64 \<Rightarrow> nat option" where
  "GetIOZone s offset =
     find_index (\<lambda>z. z_start z \<le> offset \<and> offset < z_start z + zone_sz s) (io_zones s)"

definition GetFreeSpace :: "('d, 'm) ZBD_scheme \<Rightarrow> u64" where
  "GetFreeSpace s = foldl (\<lambda>free z. free + z_capacity z) 0 (io_zones s)"

definition GetUsedSpace :: "('d, 'm) ZBD_scheme \<Rightarrow> u64" where
  "GetUsedSpace s = foldl (\<lambda>used z. used + z_used_capacity z) 0 (io_zones s)"

definition GetReclaimableSpace :: "('d, 'm) ZBD_scheme \<Rightarrow> u64" where
  "GetReclaimableSpace s =
     foldl (\<lambda>reclaimable z. if IsFull z then reclaimable + (z_max_capacity z - z_used_capacity z)
                            else reclaimable) 0 (io_zones s)"

definition GetUserBytesWritten :: "('d, 'm) ZBD_scheme \<Rightarrow> u64" where
  "GetUserBytesWritten s = bytes_written s - gc_bytes_written s"

definition GetTotalBytesWritten :: "('d, 'm) ZBD_scheme \<Rightarrow> u64" where
  "GetTotalBytesWritten s = bytes_written s"

definition AddBytesWritten :: "u64 \<Rightarrow> ('d, 'm) ZBD_scheme \<Rightarrow> ('d, 'm) ZBD_scheme" where
  "AddBytesWritten written s = s\<lparr>bytes_written := bytes_written s + written\<rparr>"

definition AddGCBytesWritten :: "u64 \<Rightarrow> ('d, 'm) ZBD_scheme \<Rightarrow> ('d, 'm) ZBD_scheme" where
  "AddGCBytesWritten written s = s\<lparr>gc_bytes_written := gc_bytes_written s + written\<rparr>"

definition SetFinishTreshold :: "u32 \<Rightarrow> ('d, 'm) ZBD_scheme \<Rightarrow> ('d, 'm) ZBD_scheme" where
  "SetFinishTreshold threshold s = s\<lparr>finish_threshold := threshold\<rparr>"

section \<open>Life time matching\<close>

definition LIFETIME_DIFF_NOT_GOOD :: u32 where "LIFETIME_DIFF_NOT_GOOD = 100"

definition LIFETIME_DIFF_COULD_BE_WORSE :: u32 where "LIFETIME_DIFF_COULD_BE_WORSE = 50"

definition GetLifeTimeDiff :: "WriteLifeTimeHint \<Rightarrow> WriteLifeTimeHint \<Rightarrow> u32" where
  "GetLifeTimeDiff zone_lifetime file_lifetime =
     (if file_lifetime = WLTH_NOT_SET \<or> file_lifetime = WLTH_NONE
      then (if file_lifetime = zone_lifetime then 0 else LIFETIME_DIFF_NOT_GOOD)
      else if zone_lifetime > file_lifetime then zone_lifetime - file_lifetime
      else if zone_lifetime = file_lifetime then LIFETIME_DIFF_COULD_BE_WORSE
      else LIFETIME_DIFF_NOT_GOOD)"

section \<open>Tokens\<close>

text \<open>
  The limit of an allocator that is not prioritised is one lower, computed in unsigned arithmetic.
\<close>

definition WaitForOpenIOZoneToken :: "bool \<Rightarrow> ('d, 'm) ZBD_scheme \<Rightarrow> ('d, 'm) ZBD_scheme option" where
  "WaitForOpenIOZoneToken prioritized s =
     (let allocator_open_limit =
            uint (if prioritized then max_nr_open_io_zones s else max_nr_open_io_zones s - 1)
      in if open_io_zones s < allocator_open_limit
         then Some (s\<lparr>open_io_zones := open_io_zones s + 1\<rparr>) else None)"

definition GetActiveIOZoneTokenIfAvailable ::
  "('d, 'm) ZBD_scheme \<Rightarrow> bool \<times> ('d, 'm) ZBD_scheme" where
  "GetActiveIOZoneTokenIfAvailable s =
     (if active_io_zones s < uint (max_nr_active_io_zones s)
      then (True, s\<lparr>active_io_zones := active_io_zones s + 1\<rparr>) else (False, s))"

definition PutOpenIOZoneToken :: "('d, 'm) ZBD_scheme \<Rightarrow> ('d, 'm) ZBD_scheme" where
  "PutOpenIOZoneToken s = s\<lparr>open_io_zones := open_io_zones s - 1\<rparr>"

definition PutActiveIOZoneToken :: "('d, 'm) ZBD_scheme \<Rightarrow> ('d, 'm) ZBD_scheme" where
  "PutActiveIOZoneToken s = s\<lparr>active_io_zones := active_io_zones s - 1\<rparr>"

section \<open>Operations on one zone of the device\<close>

definition acquire_io :: "nat \<Rightarrow> ('d, 'm) ZBD_scheme \<Rightarrow> bool \<times> ('d, 'm) ZBD_scheme" where
  "acquire_io i s = (let (b, z) = Acquire (io_zones s ! i) in (b, upd_io i z s))"

definition acquire_meta :: "nat \<Rightarrow> ('d, 'm) ZBD_scheme \<Rightarrow> bool \<times> ('d, 'm) ZBD_scheme" where
  "acquire_meta i s = (let (b, z) = Acquire (meta_zones s ! i) in (b, upd_meta i z s))"

definition reset_io ::
  "'d backend \<Rightarrow> nat \<Rightarrow> ('d, 'm) ZBD_scheme \<Rightarrow> IOStatus \<times> ('d, 'm) ZBD_scheme" where
  "reset_io be i s =
     (let (st, z, d) = Zone_Reset be (io_zones s ! i) (dev s) in (st, upd_io i z (s\<lparr>dev := d\<rparr>)))"

definition reset_meta ::
  "'d backend \<Rightarrow> nat \<Rightarrow> ('d, 'm) ZBD_scheme \<Rightarrow> IOStatus \<times> ('d, 'm) ZBD_scheme" where
  "reset_meta be i s =
     (let (st, z, d) = Zone_Reset be (meta_zones s ! i) (dev s) in (st, upd_meta i z (s\<lparr>dev := d\<rparr>)))"

definition finish_io ::
  "'d backend \<Rightarrow> nat \<Rightarrow> ('d, 'm) ZBD_scheme \<Rightarrow> IOStatus \<times> ('d, 'm) ZBD_scheme" where
  "finish_io be i s =
     (let (st, z, d) = Zone_Finish be (zone_sz s) (io_zones s ! i) (dev s)
      in (st, upd_io i z (s\<lparr>dev := d\<rparr>)))"

definition close_io ::
  "'d backend \<Rightarrow> nat \<Rightarrow> ('d, 'm) ZBD_scheme \<Rightarrow> IOStatus \<times> ('d, 'm) ZBD_scheme" where
  "close_io be i s =
     (let (st, z, d) = Zone_Close be (io_zones s ! i) (dev s) in (st, upd_io i z (s\<lparr>dev := d\<rparr>)))"

text \<open>An append also counts what was written (\<^verbatim>\<open>AddBytesWritten\<close>).\<close>

definition append_io ::
  "'d backend \<Rightarrow> nat \<Rightarrow> bytes \<Rightarrow> u32 \<Rightarrow> ('d, 'm) ZBD_scheme \<Rightarrow>
     (IOStatus \<times> ('d, 'm) ZBD_scheme) option" where
  "append_io be i data sz s =
     do {
       (st, z, d, written) \<leftarrow> Zone_Append be (io_zones s ! i) data sz (dev s);
       Some (st, AddBytesWritten written (upd_io i z (s\<lparr>dev := d\<rparr>)))
     }"

definition append_meta ::
  "'d backend \<Rightarrow> nat \<Rightarrow> bytes \<Rightarrow> u32 \<Rightarrow> ('d, 'm) ZBD_scheme \<Rightarrow>
     (IOStatus \<times> ('d, 'm) ZBD_scheme) option" where
  "append_meta be i data sz s =
     do {
       (st, z, d, written) \<leftarrow> Zone_Append be (meta_zones s ! i) data sz (dev s);
       Some (st, AddBytesWritten written (upd_meta i z (s\<lparr>dev := d\<rparr>)))
     }"

section \<open>Allocating a metadata zone and resetting unused zones\<close>

text \<open>
  A zone that is acquired and turns out to be in use is skipped without being released.
\<close>

fun AllocateMetaZone_loop ::
  "'d backend \<Rightarrow> nat list \<Rightarrow> ('d, 'm) ZBD_scheme \<Rightarrow> IOStatus \<times> nat option \<times> ('d, 'm) ZBD_scheme"
where
  "AllocateMetaZone_loop be [] s = (NoSpace ''Out of metadata zones'' [], None, s)"
| "AllocateMetaZone_loop be (i # is) s =
     (let (acquired, s1) = acquire_meta i s
      in if acquired \<and> \<not> IsUsed (meta_zones s1 ! i)
         then
           (let (reset_failed, s2) =
                  (if \<not> IsEmpty (meta_zones s1 ! i)
                   then (let (st, s') = reset_meta be i s1 in (\<not> ok st, s')) else (False, s1))
            in if reset_failed
               then
                 (let (status, s3) = release_meta i s2
                  in if \<not> ok status then (status, None, s3) else AllocateMetaZone_loop be is s3)
               else (OK, Some i, s2))
         else AllocateMetaZone_loop be is s1)"

definition AllocateMetaZone ::
  "'d backend \<Rightarrow> ('d, 'm) ZBD_scheme \<Rightarrow> IOStatus \<times> nat option \<times> ('d, 'm) ZBD_scheme" where
  "AllocateMetaZone be s = AllocateMetaZone_loop be [0..<length (meta_zones s)] s"

fun ResetUnusedIOZones_loop ::
  "'d backend \<Rightarrow> nat list \<Rightarrow> ('d, 'm) ZBD_scheme \<Rightarrow> IOStatus \<times> ('d, 'm) ZBD_scheme"
where
  "ResetUnusedIOZones_loop be [] s = (OK, s)"
| "ResetUnusedIOZones_loop be (i # is) s =
     (let (acquired, s1) = acquire_io i s
      in if \<not> acquired then ResetUnusedIOZones_loop be is s1
         else if \<not> IsEmpty (io_zones s1 ! i) \<and> \<not> IsUsed (io_zones s1 ! i)
         then
           (let full = IsFull (io_zones s1 ! i);
                (reset_status, s2) = reset_io be i s1;
                (release_status, s3) = release_io i s2
            in if \<not> ok reset_status then (reset_status, s3)
               else if \<not> ok release_status then (release_status, s3)
               else ResetUnusedIOZones_loop be is (if \<not> full then PutActiveIOZoneToken s3 else s3))
         else
           (let (release_status, s2) = release_io i s1
            in if \<not> ok release_status then (release_status, s2)
               else ResetUnusedIOZones_loop be is s2))"

definition ResetUnusedIOZones ::
  "'d backend \<Rightarrow> ('d, 'm) ZBD_scheme \<Rightarrow> IOStatus \<times> ('d, 'm) ZBD_scheme" where
  "ResetUnusedIOZones be s = ResetUnusedIOZones_loop be [0..<length (io_zones s)] s"

section \<open>Finishing zones\<close>

definition within_finish_threshold :: "u32 \<Rightarrow> Zone \<Rightarrow> bool" where
  "within_finish_threshold threshold z \<longleftrightarrow>
     z_capacity z < z_max_capacity z * ucast threshold div 100"

fun ApplyFinishThreshold_loop ::
  "'d backend \<Rightarrow> nat list \<Rightarrow> ('d, 'm) ZBD_scheme \<Rightarrow> IOStatus \<times> ('d, 'm) ZBD_scheme"
where
  "ApplyFinishThreshold_loop be [] s = (OK, s)"
| "ApplyFinishThreshold_loop be (i # is) s =
     (let (acquired, s1) = acquire_io i s
      in if \<not> acquired then ApplyFinishThreshold_loop be is s1
         else if \<not> (IsEmpty (io_zones s1 ! i) \<or> IsFull (io_zones s1 ! i)) \<and>
                 within_finish_threshold (finish_threshold s1) (io_zones s1 ! i)
         then
           (let (st, s2) = finish_io be i s1; (st', s3) = release_io i s2
            in if \<not> ok st then (st, s3)
               else if \<not> ok st' then (st', s3)
               else ApplyFinishThreshold_loop be is (PutActiveIOZoneToken s3))
         else
           (let (st, s2) = release_io i s1
            in if \<not> ok st then (st, s2) else ApplyFinishThreshold_loop be is s2))"

definition ApplyFinishThreshold ::
  "'d backend \<Rightarrow> ('d, 'm) ZBD_scheme \<Rightarrow> IOStatus \<times> ('d, 'm) ZBD_scheme" where
  "ApplyFinishThreshold be s =
     (if finish_threshold s = 0 then (OK, s)
      else ApplyFinishThreshold_loop be [0..<length (io_zones s)] s)"

fun finish_victim_loop ::
  "nat list \<Rightarrow> nat option \<Rightarrow> ('d, 'm) ZBD_scheme \<Rightarrow> IOStatus \<times> nat option \<times> ('d, 'm) ZBD_scheme"
where
  "finish_victim_loop [] victim s = (OK, victim, s)"
| "finish_victim_loop (i # is) victim s =
     (let (acquired, s1) = acquire_io i s
      in if \<not> acquired then finish_victim_loop is victim s1
         else if IsEmpty (io_zones s1 ! i) \<or> IsFull (io_zones s1 ! i)
         then (let (st, s2) = release_io i s1
               in if \<not> ok st then (st, None, s2) else finish_victim_loop is victim s2)
         else
           (case victim of
              None \<Rightarrow> finish_victim_loop is (Some i) s1
            | Some v \<Rightarrow>
                if z_capacity (io_zones s1 ! v) > z_capacity (io_zones s1 ! i)
                then (let (st, s2) = release_io v s1
                      in if \<not> ok st then (st, None, s2) else finish_victim_loop is (Some i) s2)
                else (let (st, s2) = release_io i s1
                      in if \<not> ok st then (st, None, s2) else finish_victim_loop is (Some v) s2)))"

definition FinishCheapestIOZone ::
  "'d backend \<Rightarrow> ('d, 'm) ZBD_scheme \<Rightarrow> IOStatus \<times> ('d, 'm) ZBD_scheme" where
  "FinishCheapestIOZone be s =
     (let (st, victim, s1) = finish_victim_loop [0..<length (io_zones s)] None s
      in if \<not> ok st then (st, s1)
         else case victim of
           None \<Rightarrow> (OK, s1)
         | Some v \<Rightarrow>
             (let (st, s2) = finish_io be v s1; (release_status, s3) = release_io v s2;
                  s4 = (if ok st then PutActiveIOZoneToken s3 else s3)
              in (if \<not> ok release_status then release_status else st, s4)))"

section \<open>Choosing a zone\<close>

fun GetBestOpenZoneMatch_loop ::
  "WriteLifeTimeHint \<Rightarrow> u32 \<Rightarrow> nat list \<Rightarrow> u32 \<Rightarrow> nat option \<Rightarrow> ('d, 'm) ZBD_scheme \<Rightarrow>
     IOStatus \<times> u32 \<times> nat option \<times> ('d, 'm) ZBD_scheme"
where
  "GetBestOpenZoneMatch_loop lt min_cap [] best_diff az s = (OK, best_diff, az, s)"
| "GetBestOpenZoneMatch_loop lt min_cap (i # is) best_diff az s =
     (let (acquired, s1) = acquire_io i s; z = io_zones s1 ! i
      in if \<not> acquired then GetBestOpenZoneMatch_loop lt min_cap is best_diff az s1
         else if z_used_capacity z > 0 \<and> \<not> IsFull z \<and> z_capacity z \<ge> ucast min_cap
         then
           (let diff = GetLifeTimeDiff (z_lifetime z) lt
            in if diff \<le> best_diff
               then
                 (case az of
                    None \<Rightarrow> GetBestOpenZoneMatch_loop lt min_cap is diff (Some i) s1
                  | Some a \<Rightarrow>
                      (let (st, s2) = release_io a s1
                       in if \<not> ok st
                          then (let (st', s3) = release_io i s2
                                in (if \<not> ok st' then st' else st, best_diff, None, s3))
                          else GetBestOpenZoneMatch_loop lt min_cap is diff (Some i) s2))
               else
                 (let (st, s2) = release_io i s1
                  in if \<not> ok st then (st, best_diff, None, s2)
                     else GetBestOpenZoneMatch_loop lt min_cap is best_diff az s2))
         else
           (let (st, s2) = release_io i s1
            in if \<not> ok st then (st, best_diff, None, s2)
               else GetBestOpenZoneMatch_loop lt min_cap is best_diff az s2))"

definition GetBestOpenZoneMatch ::
  "WriteLifeTimeHint \<Rightarrow> u32 \<Rightarrow> ('d, 'm) ZBD_scheme \<Rightarrow> IOStatus \<times> u32 \<times> nat option \<times> ('d, 'm) ZBD_scheme"
where
  "GetBestOpenZoneMatch lt min_cap s =
     GetBestOpenZoneMatch_loop lt min_cap [0..<length (io_zones s)] LIFETIME_DIFF_NOT_GOOD None s"

fun AllocateEmptyZone_loop ::
  "nat list \<Rightarrow> ('d, 'm) ZBD_scheme \<Rightarrow> IOStatus \<times> nat option \<times> ('d, 'm) ZBD_scheme"
where
  "AllocateEmptyZone_loop [] s = (OK, None, s)"
| "AllocateEmptyZone_loop (i # is) s =
     (let (acquired, s1) = acquire_io i s
      in if \<not> acquired then AllocateEmptyZone_loop is s1
         else if IsEmpty (io_zones s1 ! i) then (OK, Some i, s1)
         else (let (st, s2) = release_io i s1
               in if \<not> ok st then (st, None, s2) else AllocateEmptyZone_loop is s2))"

definition AllocateEmptyZone ::
  "('d, 'm) ZBD_scheme \<Rightarrow> IOStatus \<times> nat option \<times> ('d, 'm) ZBD_scheme" where
  "AllocateEmptyZone s = AllocateEmptyZone_loop [0..<length (io_zones s)] s"

section \<open>Reading and the cache\<close>

definition ZBD_InvalidateCache ::
  "'d backend \<Rightarrow> u64 \<Rightarrow> u64 \<Rightarrow> ('d, 'm) ZBD_scheme \<Rightarrow> IOStatus \<times> ('d, 'm) ZBD_scheme" where
  "ZBD_InvalidateCache be pos sz s =
     (let (ret, d) = be_InvalidateCache be pos sz (dev s)
      in (if ret \<noteq> 0 then IOError ''Failed to invalidate cache'' [] else OK, s\<lparr>dev := d\<rparr>))"

definition EINTR :: int where "EINTR = 4"

text \<open>
  The state of the read loop is \<^verbatim>\<open>left\<close>, the position, the bytes put into the buffer so far and the
  last result \<^verbatim>\<open>r\<close>. A read that is interrupted again and again does not return.
\<close>

partial_function (option) ZBD_Read_loop ::
  "'d backend \<Rightarrow> bool \<Rightarrow> nat \<Rightarrow> u64 \<Rightarrow> bytes \<Rightarrow> int \<Rightarrow> 'd \<Rightarrow> (int \<times> bytes \<times> 'd) option"
where
  "ZBD_Read_loop be direct left offset buf r d =
     (if left = 0 then Some (r, buf, d)
      else
        (case be_Read be left offset direct d of
           (ReadError e, d') \<Rightarrow>
             if e = EINTR then ZBD_Read_loop be direct left offset buf (-1) d' else Some (-1, buf, d')
         | (ReadBytes bs, d') \<Rightarrow>
             if bs = [] then Some (0, buf, d')
             else ZBD_Read_loop be direct (left - length bs) (offset + of_nat (length bs)) (buf @ bs)
                    (int (length bs)) d'))"

definition ZBD_Read ::
  "'d backend \<Rightarrow> u64 \<Rightarrow> nat \<Rightarrow> bool \<Rightarrow> ('d, 'm) ZBD_scheme \<Rightarrow>
     (int \<times> bytes \<times> ('d, 'm) ZBD_scheme) option"
where
  "ZBD_Read be offset n direct s =
     do {
       (r, buf, d) \<leftarrow> ZBD_Read_loop be direct n offset [] (-1) (dev s);
       Some (if r < 0 then r else int (length buf), buf, s\<lparr>dev := d\<rparr>)
     }"

section \<open>Zones for migration\<close>

definition ReleaseMigrateZone ::
  "nat option \<Rightarrow> ('d, 'm) ZBD_scheme \<Rightarrow> IOStatus \<times> ('d, 'm) ZBD_scheme" where
  "ReleaseMigrateZone zone s =
     (let s1 = s\<lparr>migrating := False\<rparr>
      in case zone of None \<Rightarrow> (OK, s1) | Some i \<Rightarrow> release_io i s1)"

definition TakeMigrateZone ::
  "WriteLifeTimeHint \<Rightarrow> u32 \<Rightarrow> ('d, 'm) ZBD_scheme \<Rightarrow>
     (IOStatus \<times> nat option \<times> ('d, 'm) ZBD_scheme) option" where
  "TakeMigrateZone lt min_cap s =
     (if migrating s then None
      else
        (let (st, best_diff, zone, s1) = GetBestOpenZoneMatch lt min_cap (s\<lparr>migrating := True\<rparr>)
         in if ok st \<and> zone \<noteq> None then Some (st, zone, s1)
            else Some (st, zone, s1\<lparr>migrating := False\<rparr>)))"

section \<open>Allocating an I/O zone\<close>

definition GetZoneDeferredStatus :: "('d, 'm) ZBD_scheme \<Rightarrow> IOStatus" where
  "GetZoneDeferredStatus s = zone_deferred_status s"

definition SetZoneDeferredStatus :: "IOStatus \<Rightarrow> ('d, 'm) ZBD_scheme \<Rightarrow> ('d, 'm) ZBD_scheme" where
  "SetZoneDeferredStatus st s =
     (if \<not> ok (zone_deferred_status s) then s\<lparr>zone_deferred_status := st\<rparr> else s)"

text \<open>
  The loop that waits for an active token, finishing a zone per round. It ends only when a round
  makes a token available or fails.
\<close>

partial_function (option) active_token_loop ::
  "'d backend \<Rightarrow> ('d, 'm) ZBD_scheme \<Rightarrow> (IOStatus \<times> ('d, 'm) ZBD_scheme) option"
where
  "active_token_loop be s =
     (let (got, s1) = GetActiveIOZoneTokenIfAvailable s
      in if got then Some (OK, s1)
         else
           (let (st, s2) = FinishCheapestIOZone be s1
            in if \<not> ok st then Some (st, s2) else active_token_loop be s2))"

text \<open>
  \<open>open_new_zone\<close> is the block that opens an empty zone, \<open>AllocateIOZone\<close> the whole operation; the
  zone pointer is left unset on the error paths.
\<close>

definition open_new_zone ::
  "'d backend \<Rightarrow> WriteLifeTimeHint \<Rightarrow> bool \<Rightarrow> ('d, 'm) ZBD_scheme \<Rightarrow>
     (IOStatus \<times> nat option \<times> ('d, 'm) ZBD_scheme) option"
where
  "open_new_zone be lt got_token s =
     do {
       (st, s1) \<leftarrow> (if got_token then Some (OK, s) else active_token_loop be s);
       if \<not> ok st then Some (st, None, PutOpenIOZoneToken s1)
       else
         (let (st, zone, s2) = AllocateEmptyZone s1
          in if \<not> ok st then Some (st, None, PutOpenIOZoneToken (PutActiveIOZoneToken s2))
             else case zone of
               Some i \<Rightarrow> Some (OK, Some i, upd_io i ((io_zones s2 ! i)\<lparr>z_lifetime := lt\<rparr>) s2)
             | None \<Rightarrow> Some (OK, None, PutOpenIOZoneToken (PutActiveIOZoneToken s2)))
     }"

definition AllocateIOZone ::
  "'d backend \<Rightarrow> WriteLifeTimeHint \<Rightarrow> IOType \<Rightarrow> ('d, 'm) ZBD_scheme \<Rightarrow>
     (IOStatus \<times> nat option \<times> ('d, 'm) ZBD_scheme) option"
where
  "AllocateIOZone be lt io_type s =
     (let st0 = GetZoneDeferredStatus s
      in if \<not> ok st0 then Some (st0, None, s)
         else
           (let (st1, s1) = (if io_type \<noteq> kWAL then ApplyFinishThreshold be s else (OK, s))
            in if \<not> ok st1 then Some (st1, None, s1)
               else
                 do {
                   s2 \<leftarrow> WaitForOpenIOZoneToken (io_type = kWAL) s1;
                   (let (st, best_diff, az, s3) = GetBestOpenZoneMatch lt 0 s2
                    in if \<not> ok st then Some (st, None, PutOpenIOZoneToken s3)
                       else if best_diff \<ge> LIFETIME_DIFF_COULD_BE_WORSE
                       then
                         (let (got_token, s4) = GetActiveIOZoneTokenIfAvailable s3
                          in case az of
                               None \<Rightarrow> open_new_zone be lt got_token s4
                             | Some a \<Rightarrow>
                                 if \<not> got_token \<and> best_diff = LIFETIME_DIFF_COULD_BE_WORSE
                                 then Some (OK, Some a, s4)
                                 else
                                   (let (st, s5) = release_io a s4
                                    in if \<not> ok st
                                       then Some (st, None,
                                              (let s6 = PutOpenIOZoneToken s5
                                               in if got_token then PutActiveIOZoneToken s6 else s6))
                                       else open_new_zone be lt got_token s5))
                       else (case az of None \<Rightarrow> Some (OK, None, PutOpenIOZoneToken s3)
                                      | Some a \<Rightarrow> Some (OK, Some a, s3)))
                 }))"


section \<open>Holding a zone\<close>

text \<open>
  \<open>hold az s\<close> is the state in which the zone \<open>az\<close> has been acquired. Every scan over the zones
  acquires each idle zone, inspects it, and releases it again unless it keeps it, so the state of
  a scan is always of this form, and the releases in it never fail.
\<close>

definition idle :: "('d, 'm) ZBD_scheme \<Rightarrow> nat \<Rightarrow> bool" where
  "idle s i \<longleftrightarrow> i < length (io_zones s) \<and> \<not> z_busy (io_zones s ! i)"

fun hold :: "nat option \<Rightarrow> ('d, 'm) ZBD_scheme \<Rightarrow> ('d, 'm) ZBD_scheme" where
  "hold None s = s"
| "hold (Some i) s = upd_io i ((io_zones s ! i)\<lparr>z_busy := True\<rparr>) s"

lemma upd_io_sel [simp]:
  "io_zones (upd_io i z s) = (io_zones s)[i := z]" "dev (upd_io i z s) = dev s"
  "meta_zones (upd_io i z s) = meta_zones s" "zone_sz (upd_io i z s) = zone_sz s"
  "block_sz (upd_io i z s) = block_sz s" "finish_threshold (upd_io i z s) = finish_threshold s"
  "active_io_zones (upd_io i z s) = active_io_zones s" "open_io_zones (upd_io i z s) = open_io_zones s"
  "max_nr_active_io_zones (upd_io i z s) = max_nr_active_io_zones s"
  "max_nr_open_io_zones (upd_io i z s) = max_nr_open_io_zones s"
  "zone_deferred_status (upd_io i z s) = zone_deferred_status s"
  "migrating (upd_io i z s) = migrating s" "bytes_written (upd_io i z s) = bytes_written s"
  by (simp_all add: upd_io_def)

lemma upd_io_id [simp]: "z = io_zones s ! i \<Longrightarrow> upd_io i z s = s"
  by (simp add: upd_io_def)

lemma upd_io_upd_io [simp]: "upd_io i z (upd_io i z' s) = upd_io i z s"
  by (simp add: upd_io_def)

lemma upd_io_swap: "i \<noteq> j \<Longrightarrow> upd_io i z (upd_io j z' s) = upd_io j z' (upd_io i z s)"
  by (simp add: upd_io_def list_update_swap)

lemma acquire_io_idle: "idle s i \<Longrightarrow> acquire_io i s = (True, hold (Some i) s)"
  by (simp add: acquire_io_def idle_def)

lemma acquire_io_busy: "z_busy (io_zones s ! i) \<Longrightarrow> acquire_io i s = (False, s)"
  by (simp add: acquire_io_def)

lemma release_io_hold: "idle s i \<Longrightarrow> release_io i (hold (Some i) s) = (OK, s)"
  by (simp add: release_io_def idle_def)

lemma release_io_hold_other:
  "idle s a \<Longrightarrow> i \<noteq> a \<Longrightarrow> release_io a (hold (Some i) (hold (Some a) s)) = (OK, hold (Some i) s)"
  by (simp add: release_io_def idle_def upd_io_swap [of a i])

lemma idle_hold: "az \<noteq> Some i \<Longrightarrow> idle (hold az s) i = idle s i"
  by (cases az) (auto simp: idle_def)

lemma io_zones_hold: "az \<noteq> Some i \<Longrightarrow> io_zones (hold az s) ! i = io_zones s ! i"
  by (cases az) auto

lemma length_hold [simp]: "length (io_zones (hold az s)) = length (io_zones s)"
  by (cases az) auto

section \<open>The scans as folds\<close>

text \<open>What the scan for the best match keeps after looking at zone \<open>i\<close>.\<close>

definition pick :: "WriteLifeTimeHint \<Rightarrow> u32 \<Rightarrow> Zone list \<Rightarrow> nat \<Rightarrow> u32 \<times> nat option \<Rightarrow> u32 \<times> nat option"
where
  "pick lt min_cap zs i acc =
     (let z = zs ! i; diff = GetLifeTimeDiff (z_lifetime z) lt
      in if \<not> z_busy z \<and> z_used_capacity z > 0 \<and> \<not> IsFull z \<and> z_capacity z \<ge> ucast min_cap \<and>
            diff \<le> fst acc
         then (diff, Some i) else acc)"

lemma pick_pair:
  "pick lt min_cap zs i (d, az) =
     (if \<not> z_busy (zs ! i) \<and> z_used_capacity (zs ! i) > 0 \<and> \<not> IsFull (zs ! i) \<and>
         z_capacity (zs ! i) \<ge> ucast min_cap \<and> GetLifeTimeDiff (z_lifetime (zs ! i)) lt \<le> d
      then (GetLifeTimeDiff (z_lifetime (zs ! i)) lt, Some i) else (d, az))"
  by (simp add: pick_def Let_def)

lemma GetBestOpenZoneMatch_loop_fold:
  assumes "distinct is" and "\<forall>i\<in>set is. i < length (io_zones s)"
    and "\<forall>a. az = Some a \<longrightarrow> a \<notin> set is \<and> idle s a"
    and "fold (pick lt min_cap (io_zones s)) is (d, az) = (d', az')"
  shows "GetBestOpenZoneMatch_loop lt min_cap is d az (hold az s) = (OK, d', az', hold az' s)"
  using assms
proof (induction "is" arbitrary: d az)
  case Nil
  then show ?case by simp
next
  case (Cons i "is")
  have az: "az \<noteq> Some i" and len: "i < length (io_zones s)"
    using Cons.prems by auto
  note zone = io_zones_hold [OF az, of s]
  show ?case
  proof (cases "z_busy (io_zones s ! i)")
    case True
    then show ?thesis
      using Cons.IH [of az d] Cons.prems zone
      by (simp add: acquire_io_busy pick_pair)
  next
    case False
    then have idl: "idle s i" "idle (hold az s) i"
      using len idle_hold [OF az] by (auto simp: idle_def)
    note acq = acquire_io_idle [OF idl(2)] and rel = release_io_hold [OF idl(2)]
    have z: "io_zones (hold (Some i) (hold az s)) ! i = (io_zones s ! i)\<lparr>z_busy := True\<rparr>"
      using len zone by simp
    let ?z = "io_zones s ! i" and ?diff = "GetLifeTimeDiff (z_lifetime (io_zones s ! i)) lt"
    show ?thesis
    proof (cases "z_used_capacity ?z > 0 \<and> \<not> IsFull ?z \<and> z_capacity ?z \<ge> ucast min_cap \<and> ?diff \<le> d")
      case True
      then have step: "fold (pick lt min_cap (io_zones s)) is (?diff, Some i) = (d', az')"
        using Cons.prems(4) False by (simp add: pick_pair)
      have "GetBestOpenZoneMatch_loop lt min_cap is ?diff (Some i) (hold (Some i) s)
          = (OK, d', az', hold az' s)"
        using Cons.IH [OF _ _ _ step] Cons.prems idl by simp
      then show ?thesis
        using True acq z Cons.prems(3) az release_io_hold_other [of s _ i]
        by (cases az) (auto simp: Let_def simp del: hold.simps(2))
    next
      case no: False
      then have "fold (pick lt min_cap (io_zones s)) is (d, az) = (d', az')"
        using Cons.prems(4) by (auto simp: pick_pair)
      then have "GetBestOpenZoneMatch_loop lt min_cap is d az (hold az s) = (OK, d', az', hold az' s)"
        using Cons.IH [of az d] Cons.prems by simp
      with no acq rel z show ?thesis
        by (auto simp: Let_def simp del: hold.simps(2))
    qed
  qed
qed

text \<open>The zones the scan may choose, and what its result is among them.\<close>

definition reusable :: "u32 \<Rightarrow> Zone \<Rightarrow> bool" where
  "reusable min_cap z \<longleftrightarrow>
     \<not> z_busy z \<and> z_used_capacity z > 0 \<and> \<not> IsFull z \<and> z_capacity z \<ge> ucast min_cap"

lemma fold_pick:
  assumes "fold (pick lt min_cap zs) is (d, az) = (d', az')"
  shows "d' \<le> d \<and>
    (\<forall>i\<in>set is. reusable min_cap (zs ! i) \<longrightarrow> d' \<le> GetLifeTimeDiff (z_lifetime (zs ! i)) lt) \<and>
    ((d', az') = (d, az) \<or>
     (\<exists>a\<in>set is. az' = Some a \<and> reusable min_cap (zs ! a) \<and>
        d' = GetLifeTimeDiff (z_lifetime (zs ! a)) lt))"
  using assms
proof (induction "is" arbitrary: d az)
  case Nil
  then show ?case by simp
next
  case (Cons i "is")
  obtain d1 az1 where p: "pick lt min_cap zs i (d, az) = (d1, az1)"
    by (cases "pick lt min_cap zs i (d, az)")
  from p have first: "d1 \<le> d" "reusable min_cap (zs ! i) \<Longrightarrow> d1 \<le> GetLifeTimeDiff (z_lifetime (zs ! i)) lt"
    "(d1, az1) = (d, az) \<or> az1 = Some i \<and> reusable min_cap (zs ! i) \<and>
        d1 = GetLifeTimeDiff (z_lifetime (zs ! i)) lt"
    by (auto simp: pick_pair reusable_def split: if_splits)
  have "fold (pick lt min_cap zs) is (d1, az1) = (d', az')"
    using Cons.prems p by simp
  from Cons.IH [OF this] first show ?case
    by (auto intro: order_trans)
qed

lemma fold_pick_none:
  "fold (pick lt min_cap zs) is (d, Some a) \<noteq> (d', None)"
  by (induction "is" arbitrary: d a) (simp_all add: pick_pair)

lemma fold_pick_no_candidate:
  assumes "fold (pick lt min_cap zs) is (d, None) = (d', None)" and "i \<in> set is"
    and "reusable min_cap (zs ! i)"
  shows "d < GetLifeTimeDiff (z_lifetime (zs ! i)) lt"
  using assms
proof (induction "is")
  case (Cons j "is")
  then show ?case
    using fold_pick_none [of lt min_cap zs "is" _ j d']
    by (auto simp: pick_pair reusable_def not_le split: if_splits)
qed simp

lemma GetBestOpenZoneMatch_fold:
  assumes "fold (pick lt min_cap (io_zones s)) [0..<length (io_zones s)] (LIFETIME_DIFF_NOT_GOOD, None)
    = (d, az)"
  shows "GetBestOpenZoneMatch lt min_cap s = (OK, d, az, hold az s)"
  using GetBestOpenZoneMatch_loop_fold [OF _ _ _ assms] by (simp add: GetBestOpenZoneMatch_def)

text \<open>
  The outcome of the scan: it always succeeds, and it holds the zone it returns and no other.
\<close>

lemma GetBestOpenZoneMatch_cases:
  obtains (none) "GetBestOpenZoneMatch lt min_cap s = (OK, LIFETIME_DIFF_NOT_GOOD, None, s)"
      "\<forall>i<length (io_zones s). reusable min_cap (io_zones s ! i) \<longrightarrow>
         LIFETIME_DIFF_NOT_GOOD < GetLifeTimeDiff (z_lifetime (io_zones s ! i)) lt"
  | (found) a where
      "GetBestOpenZoneMatch lt min_cap s =
         (OK, GetLifeTimeDiff (z_lifetime (io_zones s ! a)) lt, Some a, hold (Some a) s)"
      "idle s a" "reusable min_cap (io_zones s ! a)"
      "GetLifeTimeDiff (z_lifetime (io_zones s ! a)) lt \<le> LIFETIME_DIFF_NOT_GOOD"
      "\<forall>i<length (io_zones s). reusable min_cap (io_zones s ! i) \<longrightarrow>
         GetLifeTimeDiff (z_lifetime (io_zones s ! a)) lt
           \<le> GetLifeTimeDiff (z_lifetime (io_zones s ! i)) lt"
proof -
  obtain d az where f: "fold (pick lt min_cap (io_zones s)) [0..<length (io_zones s)]
      (LIFETIME_DIFF_NOT_GOOD, None) = (d, az)"
    by (cases "fold (pick lt min_cap (io_zones s)) [0..<length (io_zones s)]
      (LIFETIME_DIFF_NOT_GOOD, None)")
  note res = GetBestOpenZoneMatch_fold [OF f] and spec = fold_pick [OF f]
  show thesis
  proof (cases az)
    case None
    with spec have "d = LIFETIME_DIFF_NOT_GOOD" by auto
    with None res f show thesis
      using fold_pick_no_candidate [of lt min_cap "io_zones s"] by (intro none) auto
  next
    case (Some a)
    with spec have "a < length (io_zones s)" "reusable min_cap (io_zones s ! a)"
      "d = GetLifeTimeDiff (z_lifetime (io_zones s ! a)) lt"
      by auto
    with Some res spec show thesis
      by (intro found [of a]) (auto simp: idle_def reusable_def)
  qed
qed

text \<open>The scan for the zone that is cheapest to finish.\<close>

definition pick_victim :: "Zone list \<Rightarrow> nat \<Rightarrow> nat option \<Rightarrow> nat option" where
  "pick_victim zs i victim =
     (if z_busy (zs ! i) \<or> IsEmpty (zs ! i) \<or> IsFull (zs ! i) then victim
      else case victim of
        None \<Rightarrow> Some i
      | Some v \<Rightarrow> if z_capacity (zs ! v) > z_capacity (zs ! i) then Some i else Some v)"

lemma finish_victim_loop_fold:
  assumes "distinct is" and "\<forall>i\<in>set is. i < length (io_zones s)"
    and "\<forall>v. victim = Some v \<longrightarrow> v \<notin> set is \<and> idle s v"
    and "fold (pick_victim (io_zones s)) is victim = victim'"
  shows "finish_victim_loop is victim (hold victim s) = (OK, victim', hold victim' s)"
  using assms
proof (induction "is" arbitrary: victim)
  case Nil
  then show ?case by simp
next
  case (Cons i "is")
  have nv: "victim \<noteq> Some i" and len: "i < length (io_zones s)"
    using Cons.prems by auto
  note zone = io_zones_hold [OF nv, of s]
  show ?case
  proof (cases "z_busy (io_zones s ! i)")
    case True
    then show ?thesis
      using Cons.IH [of victim] Cons.prems zone
      by (simp add: acquire_io_busy pick_victim_def [of _ i])
  next
    case False
    then have idl: "idle s i" "idle (hold victim s) i"
      using len idle_hold [OF nv] by (auto simp: idle_def)
    note acq = acquire_io_idle [OF idl(2)] and rel = release_io_hold [OF idl(2)]
    have z: "io_zones (hold (Some i) (hold victim s)) ! i = (io_zones s ! i)\<lparr>z_busy := True\<rparr>"
      using len zone by simp
    have zv: "z_capacity (io_zones (hold (Some i) (hold (Some v) s)) ! v) = z_capacity (io_zones s ! v)"
      if "victim = Some v" for v
      using that nv Cons.prems(3) by (auto simp: idle_def nth_list_update)
    have step: "finish_victim_loop is v' (hold v' s) = (OK, victim', hold victim' s)"
      if "pick_victim (io_zones s) i victim = v'" "v' = victim \<or> v' = Some i" for v'
      using Cons.IH [of v'] Cons.prems idl that by auto
    show ?thesis
      using acq z zv rel idl step Cons.prems(3) False nv release_io_hold_other [of s _ i]
      by (cases victim) (auto simp: pick_victim_def Let_def simp del: hold.simps(2))
  qed
qed

lemma fold_pick_victim:
  assumes "fold (pick_victim zs) is victim = Some v"
  shows "(victim = Some v \<or> v \<in> set is \<and> \<not> (z_busy (zs ! v) \<or> IsEmpty (zs ! v) \<or> IsFull (zs ! v))) \<and>
    (\<forall>i\<in>set is. \<not> (z_busy (zs ! i) \<or> IsEmpty (zs ! i) \<or> IsFull (zs ! i)) \<longrightarrow>
       z_capacity (zs ! v) \<le> z_capacity (zs ! i)) \<and>
    (\<forall>w. victim = Some w \<longrightarrow> z_capacity (zs ! v) \<le> z_capacity (zs ! w))"
  using assms
proof (induction "is" arbitrary: victim)
  case Nil
  then show ?case by simp
next
  case (Cons i "is")
  have "fold (pick_victim zs) is (pick_victim zs i victim) = Some v"
    using Cons.prems by simp
  from Cons.IH [OF this] show ?case
    by (cases victim) (auto simp: pick_victim_def not_less split: if_splits intro: order_trans less_imp_le)
qed

lemma fold_pick_victim_None:
  "fold (pick_victim zs) is victim = None \<longleftrightarrow>
     victim = None \<and> (\<forall>i\<in>set is. z_busy (zs ! i) \<or> IsEmpty (zs ! i) \<or> IsFull (zs ! i))"
  by (induction "is" arbitrary: victim) (auto simp: pick_victim_def split: option.splits)

section \<open>Finishing and resetting a held zone\<close>

definition finished :: "u64 \<Rightarrow> Zone \<Rightarrow> Zone" where
  "finished sz z = z\<lparr>z_capacity := 0, z_wp := z_start z + sz\<rparr>"

lemma finished_busy [simp]:
  "(finished sz (z\<lparr>z_busy := b\<rparr>))\<lparr>z_busy := b'\<rparr> = (finished sz z)\<lparr>z_busy := b'\<rparr>"
  "z_busy (finished sz z) = z_busy z"
  by (cases z; simp add: finished_def)+

lemma hold_dev [simp]: "dev (hold az s) = dev s" "zone_sz (hold az s) = zone_sz s"
  by (cases az; simp)+

lemma upd_io_dev: "upd_io i z (s\<lparr>dev := d\<rparr>) = (upd_io i z s)\<lparr>dev := d\<rparr>"
  by (simp add: upd_io_def)

lemma finish_release_cases:
  assumes "idle s v"
  obtains (fail) st s2 where "finish_io be v (hold (Some v) s) = (st, s2)" "\<not> ok st"
      "release_io v s2 = (OK, s\<lparr>dev := snd (be_Finish be (z_start (io_zones s ! v)) (dev s))\<rparr>)"
  | (fin) s2 where "finish_io be v (hold (Some v) s) = (OK, s2)"
      "release_io v s2 = (OK, upd_io v (finished (zone_sz s) (io_zones s ! v))
         (s\<lparr>dev := snd (be_Finish be (z_start (io_zones s ! v)) (dev s))\<rparr>))"
proof -
  let ?z = "io_zones s ! v" and ?d = "snd (be_Finish be (z_start (io_zones s ! v)) (dev s))"
  have len: "v < length (io_zones s)" and nb: "\<not> z_busy ?z"
    using assms by (auto simp: idle_def)
  show thesis
  proof (cases rule: Zone_Finish_cases [of be "zone_sz s" "?z\<lparr>z_busy := True\<rparr>" "dev s"])
    case (fail st d)
    then have "finish_io be v (hold (Some v) s) = (st, (hold (Some v) s)\<lparr>dev := ?d\<rparr>)"
      using len by (simp add: finish_io_def upd_io_dev)
    then show thesis
      by (rule that(1)) (use fail len nb in \<open>simp_all add: release_io_def flip: upd_io_dev\<close>)
  next
    case (fin d)
    then have "finish_io be v (hold (Some v) s)
        = (OK, upd_io v (finished (zone_sz s) (?z\<lparr>z_busy := True\<rparr>)) (s\<lparr>dev := ?d\<rparr>))"
      using len by (simp add: finish_io_def finished_def flip: upd_io_dev)
    then show thesis
      by (rule that(2)) (use len nb in \<open>simp_all add: release_io_def\<close>)
  qed
qed

lemma FinishCheapestIOZone_cases:
  obtains (none) "FinishCheapestIOZone be s = (OK, s)"
      "\<forall>i<length (io_zones s).
         z_busy (io_zones s ! i) \<or> IsEmpty (io_zones s ! i) \<or> IsFull (io_zones s ! i)"
  | (fail) st v where "idle s v" "\<not> ok st"
      "FinishCheapestIOZone be s =
         (st, s\<lparr>dev := snd (be_Finish be (z_start (io_zones s ! v)) (dev s))\<rparr>)"
  | (fin) v where "idle s v" "\<not> IsEmpty (io_zones s ! v)" "\<not> IsFull (io_zones s ! v)"
      "\<forall>i. idle s i \<and> \<not> IsEmpty (io_zones s ! i) \<and> \<not> IsFull (io_zones s ! i) \<longrightarrow>
         z_capacity (io_zones s ! v) \<le> z_capacity (io_zones s ! i)"
      "FinishCheapestIOZone be s =
         (OK, PutActiveIOZoneToken (upd_io v (finished (zone_sz s) (io_zones s ! v))
            (s\<lparr>dev := snd (be_Finish be (z_start (io_zones s ! v)) (dev s))\<rparr>)))"
proof -
  let ?v = "fold (pick_victim (io_zones s)) [0..<length (io_zones s)] None"
  have loop: "finish_victim_loop [0..<length (io_zones s)] None s = (OK, ?v, hold ?v s)"
    using finish_victim_loop_fold [of "[0..<length (io_zones s)]" s None] by simp
  show thesis
  proof (cases ?v)
    case None
    with loop show thesis
      by (intro none) (auto simp: FinishCheapestIOZone_def fold_pick_victim_None)
  next
    case (Some v)
    from fold_pick_victim [OF this]
    have v: "idle s v" "\<not> IsEmpty (io_zones s ! v)" "\<not> IsFull (io_zones s ! v)"
      and best: "\<forall>i. idle s i \<and> \<not> IsEmpty (io_zones s ! i) \<and> \<not> IsFull (io_zones s ! i) \<longrightarrow>
         z_capacity (io_zones s ! v) \<le> z_capacity (io_zones s ! i)"
      by (auto simp: idle_def)
    from v(1) show thesis
    proof (cases rule: finish_release_cases [of s v be])
      case (fail st s2)
      with v loop Some show thesis
        by (intro that(2) [of v st]) (simp_all add: FinishCheapestIOZone_def del: hold.simps(2))
    next
      case (fin s2)
      with v best loop Some show thesis
        by (intro that(3) [of v]) (simp_all add: FinishCheapestIOZone_def del: hold.simps(2))
    qed
  qed
qed

section \<open>Finding an empty zone\<close>

lemma AllocateEmptyZone_loop_find:
  assumes "\<forall>i\<in>set is. i < length (io_zones s)"
  shows "AllocateEmptyZone_loop is s =
    (let az = find (\<lambda>i. \<not> z_busy (io_zones s ! i) \<and> IsEmpty (io_zones s ! i)) is in (OK, az, hold az s))"
  using assms
proof (induction "is")
  case (Cons i "is")
  show ?case
  proof (cases "z_busy (io_zones s ! i)")
    case True
    with Cons show ?thesis by (simp add: acquire_io_busy)
  next
    case False
    then have idl: "idle s i" using Cons.prems by (simp add: idle_def)
    have "IsEmpty (io_zones (hold (Some i) s) ! i) = IsEmpty (io_zones s ! i)"
      using Cons.prems by simp
    with Cons False show ?thesis
      by (simp add: acquire_io_idle [OF idl] release_io_hold [OF idl] Let_def del: hold.simps(2))
  qed
qed simp

lemma AllocateEmptyZone_cases:
  obtains (none) "AllocateEmptyZone s = (OK, None, s)"
      "\<forall>i. idle s i \<longrightarrow> \<not> IsEmpty (io_zones s ! i)"
  | (found) i where "AllocateEmptyZone s = (OK, Some i, hold (Some i) s)" "idle s i"
      "IsEmpty (io_zones s ! i)" "\<forall>j<i. idle s j \<longrightarrow> \<not> IsEmpty (io_zones s ! j)"
proof -
  let ?P = "\<lambda>i. \<not> z_busy (io_zones s ! i) \<and> IsEmpty (io_zones s ! i)"
  have eq: "AllocateEmptyZone s =
      (let az = find ?P [0..<length (io_zones s)] in (OK, az, hold az s))"
    unfolding AllocateEmptyZone_def by (rule AllocateEmptyZone_loop_find) simp
  show thesis
  proof (cases "find ?P [0..<length (io_zones s)]")
    case None
    with eq show thesis
      by (intro none) (auto simp: find_None_iff idle_def)
  next
    case (Some i)
    then have "i < length (io_zones s) \<and> ?P i \<and> (\<forall>j<i. \<not> ?P j)"
      by (auto simp: find_Some_iff)
    with Some eq show thesis
      by (intro found [of i]) (auto simp: idle_def)
  qed
qed

end
