(* ===== verification/ZoneTokens.thy ===== *)
theory ZoneTokens
  imports ZBD
begin

text \<open>
  Token accounting of the zoned block device (\<^verbatim>\<open>zbd_zenfs.cc\<close>). A writer that is given a zone by
  \<^verbatim>\<open>AllocateIOZone\<close> owns an open token and an active token until it closes the zone; a zone that is
  neither empty nor full keeps its active token when it is not open. The theory states this as an
  invariant over the set of zones the writers own, shows that the operations keep it, that the
  limits of the device are respected, and when an allocation returns.
\<close>

section \<open>Finishing steps\<close>

text \<open>
  The states that an allocation passes through while it looks for resources: every step finishes
  an idle zone and returns its active token, or the device refuses to finish it.
\<close>

definition is_active :: "Zone \<Rightarrow> bool" where
  "is_active z \<longleftrightarrow> \<not> IsEmpty z \<and> \<not> IsFull z"

definition finish_dev :: "'d backend \<Rightarrow> nat \<Rightarrow> ('d, 'm) ZBD_scheme \<Rightarrow> ('d, 'm) ZBD_scheme" where
  "finish_dev be v s = s\<lparr>dev := snd (be_Finish be (z_start (io_zones s ! v)) (dev s))\<rparr>"

definition finish_zone :: "'d backend \<Rightarrow> nat \<Rightarrow> ('d, 'm) ZBD_scheme \<Rightarrow> ('d, 'm) ZBD_scheme" where
  "finish_zone be v s =
     PutActiveIOZoneToken (upd_io v (finished (zone_sz s) (io_zones s ! v)) (finish_dev be v s))"

inductive finish_steps :: "'d backend \<Rightarrow> ('d, 'm) ZBD_scheme \<Rightarrow> ('d, 'm) ZBD_scheme \<Rightarrow> bool"
  for be where
  stop: "finish_steps be s s"
| fin: "idle s v \<Longrightarrow> is_active (io_zones s ! v) \<Longrightarrow> finish_steps be (finish_zone be v s) t \<Longrightarrow>
    finish_steps be s t"
| fail: "idle s v \<Longrightarrow> finish_steps be (finish_dev be v s) t \<Longrightarrow> finish_steps be s t"

lemma finish_steps_trans: "finish_steps be s t \<Longrightarrow> finish_steps be t u \<Longrightarrow> finish_steps be s u"
  by (induction rule: finish_steps.induct) (auto intro: finish_steps.intros)

lemma finish_sel [simp]:
  "io_zones (finish_dev be v s) = io_zones s"
  "io_zones (finish_zone be v s) = (io_zones s)[v := finished (zone_sz s) (io_zones s ! v)]"
  "zone_sz (finish_dev be v s) = zone_sz s" "zone_sz (finish_zone be v s) = zone_sz s"
  "open_io_zones (finish_dev be v s) = open_io_zones s"
  "open_io_zones (finish_zone be v s) = open_io_zones s"
  "active_io_zones (finish_dev be v s) = active_io_zones s"
  "active_io_zones (finish_zone be v s) = active_io_zones s - 1"
  "max_nr_active_io_zones (finish_dev be v s) = max_nr_active_io_zones s"
  "max_nr_active_io_zones (finish_zone be v s) = max_nr_active_io_zones s"
  "max_nr_open_io_zones (finish_dev be v s) = max_nr_open_io_zones s"
  "max_nr_open_io_zones (finish_zone be v s) = max_nr_open_io_zones s"
  "meta_zones (finish_dev be v s) = meta_zones s" "meta_zones (finish_zone be v s) = meta_zones s"
  "block_sz (finish_dev be v s) = block_sz s" "block_sz (finish_zone be v s) = block_sz s"
  "dev (finish_zone be v s) = dev (finish_dev be v s)"
  by (simp_all add: finish_zone_def finish_dev_def PutActiveIOZoneToken_def)

lemma finished_zone [simp]:
  "IsFull (finished sz z)" "\<not> is_active (finished sz z)" "z_start (finished sz z) = z_start z"
  "z_used_capacity (finished sz z) = z_used_capacity z" "z_lifetime (finished sz z) = z_lifetime z"
  by (simp_all add: finished_def IsFull_def is_active_def)

section \<open>The invariant\<close>

text \<open>
  \<open>W\<close> is the set of zones that writers own: they are busy, each has an open token, and the active
  tokens are those of the zones in \<open>W\<close> and of the zones that are partly written. In the middle of an
  operation there are \<open>n\<close> open and \<open>m\<close> active tokens more that are not yet bound to a zone.
\<close>

definition active_set :: "nat set \<Rightarrow> Zone list \<Rightarrow> nat set" where
  "active_set W zs = {i. i < length zs \<and> (i \<in> W \<or> is_active (zs ! i))}"

definition tok :: "nat set \<Rightarrow> nat \<Rightarrow> nat \<Rightarrow> ('d, 'm) ZBD_scheme \<Rightarrow> bool" where
  "tok W n m s \<longleftrightarrow>
     (\<forall>i\<in>W. i < length (io_zones s) \<and> z_busy (io_zones s ! i)) \<and>
     open_io_zones s = int (card W) + int n \<and>
     active_io_zones s = int (card (active_set W (io_zones s))) + int m"

definition tokens :: "nat set \<Rightarrow> ('d, 'm) ZBD_scheme \<Rightarrow> bool" where
  "tokens W s \<longleftrightarrow>
     (\<forall>i\<in>W. i < length (io_zones s) \<and> z_busy (io_zones s ! i)) \<and>
     open_io_zones s = int (card W) \<and>
     active_io_zones s = int (card (active_set W (io_zones s)))"

lemma tokens_tok: "tokens W s \<longleftrightarrow> tok W 0 0 s"
  by (simp add: tokens_def tok_def)

definition zones_wf :: "('d, 'm) ZBD_scheme \<Rightarrow> bool" where
  "zones_wf s \<longleftrightarrow> (\<forall>i<length (io_zones s). zone_wf (zone_sz s) (io_zones s ! i))"

text \<open>The zones do not wrap around the address space.\<close>

definition zones_fit :: "('d, 'm) ZBD_scheme \<Rightarrow> bool" where
  "zones_fit s \<longleftrightarrow> (\<forall>i<length (io_zones s). unat (z_start (io_zones s ! i)) + unat (zone_sz s) < 2 ^ 64)"

lemma zones_wf_fit: "zones_wf s \<Longrightarrow> zones_fit s"
  by (simp add: zones_wf_def zones_fit_def zone_wf_def)

lemma finite_active_set [simp]: "finite (active_set W zs)"
  by (simp add: active_set_def)

lemma tok_finite: "tok W n m s \<Longrightarrow> finite W"
  by (rule finite_subset [of _ "{..<length (io_zones s)}"]) (auto simp: tok_def)

lemma tok_idle: "tok W n m s \<Longrightarrow> idle s i \<Longrightarrow> i \<notin> W"
  by (auto simp: tok_def idle_def)

lemma zone_wf_finished: "zone_wf sz z \<Longrightarrow> zone_wf sz (finished sz z)"
  by (auto simp: zone_wf_def finished_def unat_plus_if')

lemma reusable_active:
  assumes "zone_wf sz z" and "reusable min_cap z"
  shows "is_active z"
proof -
  have "0 < unat (z_used_capacity z)"
    using assms(2) by (simp add: reusable_def word_gt_0 unat_gt_0)
  with assms(1) have "unat (z_start z) < unat (z_wp z)"
    by (simp add: zone_wf_def)
  with assms(2) show ?thesis
    by (auto simp: is_active_def IsEmpty_def reusable_def)
qed

lemma active_set_drop:
  assumes "v < length zs" and "v \<notin> W" and "is_active (zs ! v)" and "\<not> is_active z"
  shows "active_set W (zs[v := z]) = active_set W zs - {v}" and "v \<in> active_set W zs"
  using assms by (auto simp: active_set_def nth_list_update)

lemma active_set_same:
  assumes "length zs' = length zs" and "\<And>i. i < length zs \<Longrightarrow> i \<notin> W \<Longrightarrow> is_active (zs' ! i) = is_active (zs ! i)"
  shows "active_set W zs' = active_set W zs"
  using assms by (auto simp: active_set_def)

text \<open>What the finishing steps keep.\<close>

lemma finish_zone_tok:
  assumes "tok W n m s" and "idle s v" and "is_active (io_zones s ! v)"
  shows "tok W n m (finish_zone be v s)"
proof -
  have v: "v \<notin> W" "v < length (io_zones s)"
    using tok_idle [OF assms(1,2)] assms(2) by (auto simp: idle_def)
  note drop = active_set_drop [OF v(2,1) assms(3) finished_zone(2) [of "zone_sz s" "io_zones s ! v"]]
  have "int (card (active_set W (io_zones s) - {v})) = int (card (active_set W (io_zones s))) - 1"
    using card.remove [OF finite_active_set drop(2)] by linarith
  with assms(1) drop(1) v show ?thesis
    by (auto simp: tok_def nth_list_update)
qed

lemma finish_dev_tok: "tok W n m (finish_dev be v s) = tok W n m s"
  by (simp add: tok_def)

lemma finish_steps_tok: "finish_steps be s t \<Longrightarrow> tok W n m s \<Longrightarrow> tok W n m t"
  by (induction rule: finish_steps.induct) (auto simp: finish_zone_tok finish_dev_tok)

lemma finish_wf:
  "idle s v \<Longrightarrow> zones_wf s \<Longrightarrow> zones_wf (finish_zone be v s)"
  "zones_wf (finish_dev be v s) = zones_wf s"
  by (auto simp: zones_wf_def idle_def nth_list_update zone_wf_finished)

lemma finish_steps_wf: "finish_steps be s t \<Longrightarrow> zones_wf s \<Longrightarrow> zones_wf t"
  by (induction rule: finish_steps.induct) (auto simp: finish_wf)

lemma finish_steps_frame:
  "finish_steps be s t \<Longrightarrow>
     length (io_zones t) = length (io_zones s) \<and> open_io_zones t = open_io_zones s \<and>
     zone_sz t = zone_sz s \<and> block_sz t = block_sz s \<and> meta_zones t = meta_zones s \<and>
     max_nr_open_io_zones t = max_nr_open_io_zones s \<and>
     max_nr_active_io_zones t = max_nr_active_io_zones s \<and> active_io_zones t \<le> active_io_zones s"
  by (induction rule: finish_steps.induct) auto

text \<open>A zone keeps everything but its write pointer and capacity, and a busy zone these as well.\<close>

lemma finish_steps_zone:
  "finish_steps be s t \<Longrightarrow> i < length (io_zones s) \<Longrightarrow>
     io_zones t ! i = io_zones s ! i \<or>
     idle s i \<and> is_active (io_zones s ! i) \<and> io_zones t ! i = finished (zone_sz s) (io_zones s ! i)"
proof (induction rule: finish_steps.induct)
  case (fin s v t)
  then show ?case
    by (auto simp: idle_def nth_list_update split: if_splits)
qed (auto simp: idle_def)

lemma finish_steps_busy:
  "finish_steps be s t \<Longrightarrow> i < length (io_zones s) \<Longrightarrow> z_busy (io_zones t ! i) = z_busy (io_zones s ! i)"
  using finish_steps_zone [of be s t i] by auto

lemma finish_steps_idle: "finish_steps be s t \<Longrightarrow> idle t i = idle s i"
  using finish_steps_busy [of be s t i] finish_steps_frame [of be s t] by (auto simp: idle_def)

lemma finish_steps_media:
  "finish_steps be s t \<Longrightarrow> manage_media be sz media \<Longrightarrow> media (dev t) = media (dev s)"
  by (induction rule: finish_steps.induct) (auto simp: manage_media_def finish_dev_def)

section \<open>The operations as finishing steps\<close>

lemma FinishCheapestIOZone_steps:
  assumes "FinishCheapestIOZone be s = (st, t)"
  shows "finish_steps be s t"
proof (cases rule: FinishCheapestIOZone_cases [of be s])
  case none
  with assms show ?thesis by (simp add: finish_steps.stop)
next
  case (fail st' v)
  with assms have "t = finish_dev be v s" by (simp add: finish_dev_def)
  with fail show ?thesis
    by (auto intro: finish_steps.fail finish_steps.stop)
next
  case (fin v)
  with assms have "t = finish_zone be v s"
    by (simp add: finish_zone_def finish_dev_def)
  with fin show ?thesis
    by (auto simp: is_active_def intro: finish_steps.fin finish_steps.stop)
qed

lemma ApplyFinishThreshold_loop_cons:
  assumes "i < length (io_zones s)"
  obtains (skip) "ApplyFinishThreshold_loop be (i # is) s = ApplyFinishThreshold_loop be is s"
      "\<not> idle s i \<or> \<not> is_active (io_zones s ! i) \<or>
       \<not> within_finish_threshold (finish_threshold s) (io_zones s ! i)"
  | (fail) st where "ApplyFinishThreshold_loop be (i # is) s = (st, finish_dev be i s)"
      "\<not> ok st" "idle s i"
  | (fin) "ApplyFinishThreshold_loop be (i # is) s
        = ApplyFinishThreshold_loop be is (finish_zone be i s)"
      "idle s i" "is_active (io_zones s ! i)"
proof (cases "z_busy (io_zones s ! i)")
  case True
  then show thesis by (intro skip) (simp_all add: acquire_io_busy idle_def)
next
  case False
  then have idl: "idle s i" using assms by (simp add: idle_def)
  have z: "io_zones (hold (Some i) s) ! i = (io_zones s ! i)\<lparr>z_busy := True\<rparr>"
    using assms by simp
  have th: "finish_threshold (hold (Some i) s) = finish_threshold s" by simp
  have cond: "within_finish_threshold t (z\<lparr>z_busy := b\<rparr>) = within_finish_threshold t z" for t z b
    by (simp add: within_finish_threshold_def)
  note start = acquire_io_idle [OF idl] z th cond
  show thesis
  proof (cases "is_active (io_zones s ! i) \<and>
      within_finish_threshold (finish_threshold s) (io_zones s ! i)")
    case no: False
    with idl show thesis
      by (intro skip) (auto simp: start release_io_hold is_active_def simp del: hold.simps(2))
  next
    case True
    from idl show thesis
    proof (cases rule: finish_release_cases [of s i be])
      case (fail st s2)
      with True idl show thesis
        by (intro that(2) [of st])
          (auto simp: start is_active_def finish_dev_def simp del: hold.simps(2))
    next
      case (fin s2)
      with True idl show thesis
        by (intro that(3))
          (auto simp: start is_active_def finish_zone_def finish_dev_def simp del: hold.simps(2))
    qed
  qed
qed

lemma finish_threshold_sel [simp]:
  "finish_threshold (finish_zone be v s) = finish_threshold s"
  "finish_threshold (finish_dev be v s) = finish_threshold s"
  by (simp_all add: finish_zone_def finish_dev_def PutActiveIOZoneToken_def)

lemma ApplyFinishThreshold_loop_steps:
  assumes "ApplyFinishThreshold_loop be is s = (st, t)" and "\<forall>i\<in>set is. i < length (io_zones s)"
  shows "finish_steps be s t \<and>
    (ok st \<longrightarrow> (\<forall>i\<in>set is. idle t i \<longrightarrow> is_active (io_zones t ! i) \<longrightarrow>
       \<not> within_finish_threshold (finish_threshold s) (io_zones t ! i)))"
  using assms
proof (induction "is" arbitrary: s)
  case Nil
  then show ?case by (simp add: finish_steps.stop)
next
  case (Cons i "is")
  have len: "i < length (io_zones s)"
    using Cons.prems by simp
  then show ?case
  proof (cases rule: ApplyFinishThreshold_loop_cons [of i s be "is"])
    case skip
    then have "finish_steps be s t" and "ok st \<longrightarrow> (\<forall>i\<in>set is. idle t i \<longrightarrow> is_active (io_zones t ! i) \<longrightarrow>
       \<not> within_finish_threshold (finish_threshold s) (io_zones t ! i))"
      using Cons by auto
    moreover from this(1) have "io_zones t ! i = io_zones s ! i \<or> \<not> is_active (io_zones t ! i)"
      and "idle t i = idle s i"
      using finish_steps_zone [of be s t i] finish_steps_idle len by auto
    ultimately show ?thesis using skip(2) by auto
  next
    case (fail st')
    with Cons.prems show ?thesis
      by (auto intro: finish_steps.fail finish_steps.stop)
  next
    case fin
    then have IH: "finish_steps be (finish_zone be i s) t"
      "ok st \<longrightarrow> (\<forall>i\<in>set is. idle t i \<longrightarrow> is_active (io_zones t ! i) \<longrightarrow>
         \<not> within_finish_threshold (finish_threshold s) (io_zones t ! i))"
      using Cons.IH [of "finish_zone be i s"] Cons.prems by auto
    have "\<not> is_active (io_zones t ! i)"
      using finish_steps_zone [OF IH(1), of i] len by auto
    with IH fin show ?thesis by (auto intro: finish_steps.fin)
  qed
qed

lemma ApplyFinishThreshold_steps:
  assumes "ApplyFinishThreshold be s = (st, t)"
  shows "finish_steps be s t"
  using assms ApplyFinishThreshold_loop_steps [of be "[0..<length (io_zones s)]" s st t]
  by (auto simp: ApplyFinishThreshold_def finish_steps.stop split: if_splits)

definition take_active :: "('d, 'm) ZBD_scheme \<Rightarrow> ('d, 'm) ZBD_scheme" where
  "take_active s = s\<lparr>active_io_zones := active_io_zones s + 1\<rparr>"

lemma GetActiveIOZoneTokenIfAvailable_cases:
  "GetActiveIOZoneTokenIfAvailable s =
     (if active_io_zones s < uint (max_nr_active_io_zones s) then (True, take_active s) else (False, s))"
  by (simp add: GetActiveIOZoneTokenIfAvailable_def take_active_def)

definition token_loop_post ::
  "'d backend \<Rightarrow> ('d, 'm) ZBD_scheme \<Rightarrow> IOStatus \<times> ('d, 'm) ZBD_scheme \<Rightarrow> bool" where
  "token_loop_post be s r \<longleftrightarrow>
     (\<exists>t. finish_steps be s t \<and>
        (if ok (fst r)
         then active_io_zones t < uint (max_nr_active_io_zones t) \<and> r = (OK, take_active t)
         else snd r = t))"

lemma token_loop_post_step:
  "finish_steps be s t \<Longrightarrow> token_loop_post be t r \<Longrightarrow> token_loop_post be s r"
  unfolding token_loop_post_def by (metis finish_steps_trans)

lemma active_token_loop_steps:
  assumes "active_token_loop be s = Some r"
  shows "token_loop_post be s r"
proof (rule active_token_loop.raw_induct [OF _ assms])
  fix loop be r and s :: "('a, 'b) ZBD_scheme"
  assume IH: "\<And>be s r. loop be s = Some r \<Longrightarrow> token_loop_post be s r"
    and step: "(let (got, s1) = GetActiveIOZoneTokenIfAvailable s
      in if got then Some (OK, s1)
         else let (st, s2) = FinishCheapestIOZone be s1
              in if \<not> ok st then Some (st, s2) else loop be s2) = Some r"
  show "token_loop_post be s r"
  proof (cases "active_io_zones s < uint (max_nr_active_io_zones s)")
    case True
    with step show ?thesis
      by (auto simp: GetActiveIOZoneTokenIfAvailable_cases token_loop_post_def
          intro!: exI [of _ s] finish_steps.stop)
  next
    case False
    obtain st s2 where f: "FinishCheapestIOZone be s = (st, s2)"
      by (cases "FinishCheapestIOZone be s")
    note steps = FinishCheapestIOZone_steps [OF f]
    show ?thesis
    proof (cases "ok st")
      case True
      with False f step have "loop be s2 = Some r"
        by (simp add: GetActiveIOZoneTokenIfAvailable_cases)
      from IH [OF this] steps show ?thesis by (rule token_loop_post_step [rotated])
    next
      case no: False
      with False f step have "r = (st, s2)"
        by (simp add: GetActiveIOZoneTokenIfAvailable_cases)
      with no steps show ?thesis by (auto simp: token_loop_post_def)
    qed
  qed
qed

section \<open>Tokens in the course of an allocation\<close>

lemma tok_hold:
  assumes "tok W n m s" and "idle s i"
  shows "tok W n m (hold (Some i) s)"
proof -
  have "active_set W ((io_zones s)[i := (io_zones s ! i)\<lparr>z_busy := True\<rparr>]) = active_set W (io_zones s)"
    using assms by (intro active_set_same) (auto simp: nth_list_update is_active_def idle_def)
  then show ?thesis
    using assms by (auto simp: tok_def idle_def nth_list_update)
qed

lemma tok_take_active: "tok W n m s \<Longrightarrow> tok W n (Suc m) (take_active s)"
  by (simp add: tok_def take_active_def)

lemma tok_put:
  "tok W (Suc n) m s \<Longrightarrow> tok W n m (PutOpenIOZoneToken s)"
  "tok W n (Suc m) s \<Longrightarrow> tok W n m (PutActiveIOZoneToken s)"
  by (simp_all add: tok_def PutOpenIOZoneToken_def PutActiveIOZoneToken_def)

lemma tok_wait:
  assumes "WaitForOpenIOZoneToken prioritized s = Some t"
  shows "t = s\<lparr>open_io_zones := open_io_zones s + 1\<rparr>"
    and "tok W n m s \<Longrightarrow> tok W (Suc n) m t"
    and "open_io_zones s < uint (if prioritized then max_nr_open_io_zones s else max_nr_open_io_zones s - 1)"
  using assms by (auto simp: WaitForOpenIOZoneToken_def tok_def Let_def split: if_splits)

text \<open>A zone that was held becomes a zone that a writer owns.\<close>

lemma card_insert_W: "tok W n m s \<Longrightarrow> idle s i \<Longrightarrow> card (insert i W) = Suc (card W)"
  using tok_finite tok_idle by (metis card_insert_disjoint)

lemma tok_own_active:
  assumes "tok W (Suc n) m s" and "idle s i" and "is_active (io_zones s ! i)"
  shows "tok (insert i W) n m (hold (Some i) s)"
proof -
  have i: "i < length (io_zones s)" using assms(2) by (simp add: idle_def)
  have "active_set (insert i W) ((io_zones s)[i := (io_zones s ! i)\<lparr>z_busy := True\<rparr>])
      = active_set W (io_zones s)"
    using assms i by (auto simp: active_set_def nth_list_update is_active_def)
  then show ?thesis
    using assms(1) i card_insert_W [OF assms(1,2)] by (auto simp: tok_def nth_list_update)
qed

lemma tok_own_empty:
  assumes "tok W (Suc n) (Suc m) s" and "idle s i" and "IsEmpty (io_zones s ! i)"
  shows "tok (insert i W) n m (upd_io i ((io_zones s ! i)\<lparr>z_busy := True, z_lifetime := lt\<rparr>) s)"
proof -
  have i: "i < length (io_zones s)" "i \<notin> W"
    using assms(2) tok_idle [OF assms(1)] by (auto simp: idle_def)
  have "active_set (insert i W) ((io_zones s)[i := (io_zones s ! i)\<lparr>z_busy := True, z_lifetime := lt\<rparr>])
      = insert i (active_set W (io_zones s))"
    using i by (auto simp: active_set_def nth_list_update)
  moreover have "i \<notin> active_set W (io_zones s)"
    using i assms(3) by (simp add: active_set_def is_active_def)
  ultimately show ?thesis
    using assms(1) i card_insert_W [OF assms(1,2)] by (auto simp: tok_def nth_list_update)
qed

text \<open>
  \<open>fin_zones s t\<close>: the zones of \<open>t\<close> are those of \<open>s\<close>, some idle and partly written ones finished;
  the tokens may differ.
\<close>

definition fin_zones :: "('d, 'm) ZBD_scheme \<Rightarrow> ('d, 'm) ZBD_scheme \<Rightarrow> bool" where
  "fin_zones s t \<longleftrightarrow>
     length (io_zones t) = length (io_zones s) \<and> zone_sz t = zone_sz s \<and> block_sz t = block_sz s \<and>
     meta_zones t = meta_zones s \<and> max_nr_open_io_zones t = max_nr_open_io_zones s \<and>
     max_nr_active_io_zones t = max_nr_active_io_zones s \<and>
     (\<forall>i<length (io_zones s). io_zones t ! i = io_zones s ! i \<or>
        idle s i \<and> is_active (io_zones s ! i) \<and>
        io_zones t ! i = finished (zone_sz s) (io_zones s ! i))"

lemma fin_zones_refl [simp]: "fin_zones s s"
  by (simp add: fin_zones_def)

lemma finish_steps_fin_zones: "finish_steps be s t \<Longrightarrow> fin_zones s t"
  using finish_steps_zone [of be s t] finish_steps_frame [of be s t] by (auto simp: fin_zones_def)

lemma fin_zones_zone:
  "fin_zones s t \<Longrightarrow> i < length (io_zones s) \<Longrightarrow>
     io_zones t ! i = io_zones s ! i \<or>
     idle s i \<and> is_active (io_zones s ! i) \<and> io_zones t ! i = finished (zone_sz s) (io_zones s ! i)"
  by (simp add: fin_zones_def)

lemma fin_zones_idle: "fin_zones s t \<Longrightarrow> idle t i = idle s i"
  using fin_zones_zone [of s t i] by (auto simp: fin_zones_def idle_def)

lemma fin_zones_trans:
  assumes "fin_zones s t" and "fin_zones t u"
  shows "fin_zones s u"
proof -
  have "io_zones u ! i = io_zones s ! i \<or> idle s i \<and> is_active (io_zones s ! i) \<and>
      io_zones u ! i = finished (zone_sz s) (io_zones s ! i)" if "i < length (io_zones s)" for i
    using fin_zones_zone [OF assms(1) that] fin_zones_zone [OF assms(2), of i] assms that
      fin_zones_idle [OF assms(1), of i]
    by (auto simp: fin_zones_def)
  with assms show ?thesis by (simp add: fin_zones_def)
qed

lemma fin_zones_tokens [simp]:
  "fin_zones s (take_active t) = fin_zones s t" "fin_zones (take_active s) t = fin_zones s t"
  "fin_zones s (PutOpenIOZoneToken t) = fin_zones s t"
  "fin_zones s (PutActiveIOZoneToken t) = fin_zones s t"
  "fin_zones s (t\<lparr>open_io_zones := n\<rparr>) = fin_zones s t"
  "fin_zones (s\<lparr>open_io_zones := n\<rparr>) t = fin_zones s t"
  by (simp_all add: fin_zones_def take_active_def PutOpenIOZoneToken_def PutActiveIOZoneToken_def
      idle_def)

lemma fin_zones_wf: "fin_zones s t \<Longrightarrow> zones_wf s \<Longrightarrow> zones_wf t"
  unfolding fin_zones_def zones_wf_def by (metis zone_wf_finished)

text \<open>
  What an allocation leaves behind: it has finished some zones (state \<open>t\<close>) and then either holds
  nothing, or the zone \<open>i\<close> that was idle there, partly written with valid data in it or empty.
\<close>

definition allocated :: "WriteLifeTimeHint \<Rightarrow> nat \<Rightarrow> Zone list \<Rightarrow> Zone list \<Rightarrow> bool" where
  "allocated lt i zs zs' \<longleftrightarrow>
     i < length zs \<and> \<not> z_busy (zs ! i) \<and>
     (reusable 0 (zs ! i) \<and> zs' = zs[i := (zs ! i)\<lparr>z_busy := True\<rparr>] \<or>
      IsEmpty (zs ! i) \<and> zs' = zs[i := (zs ! i)\<lparr>z_busy := True, z_lifetime := lt\<rparr>])"

definition alloc_post ::
  "WriteLifeTimeHint \<Rightarrow> nat set \<Rightarrow> ('d, 'm) ZBD_scheme \<Rightarrow> IOStatus \<times> nat option \<times> ('d, 'm) ZBD_scheme \<Rightarrow> bool"
where
  "alloc_post lt W s r \<longleftrightarrow>
     (case r of (st, zone, s') \<Rightarrow>
        \<exists>t. fin_zones s t \<and>
          (case zone of
             None \<Rightarrow> io_zones s' = io_zones t \<and> tok W 0 0 s'
           | Some i \<Rightarrow> ok st \<and> allocated lt i (io_zones t) (io_zones s') \<and> tok (insert i W) 0 0 s'))"

lemma alloc_post_fin_zones: "fin_zones s t \<Longrightarrow> alloc_post lt W t r \<Longrightarrow> alloc_post lt W s r"
  unfolding alloc_post_def by (cases r) (use fin_zones_trans in blast)

lemma open_new_zone_post:
  assumes "open_new_zone be lt got s = Some r" and "tok W 1 (if got then 1 else 0) s"
  shows "alloc_post lt W s r"
proof -
  obtain st s1 where s1: "(if got then Some (OK, s) else active_token_loop be s) = Some (st, s1)"
    using assms(1) by (auto simp: open_new_zone_def split: bind_splits)
  have fz: "fin_zones s s1" and good: "ok st \<Longrightarrow> tok W 1 1 s1" and bad: "\<not> ok st \<Longrightarrow> tok W 1 0 s1"
  proof -
    consider (got) "got" "st = OK" "s1 = s" | (loop) "\<not> got" "token_loop_post be s (st, s1)"
      using s1 by (auto split: if_splits dest: active_token_loop_steps)
    then have "fin_zones s s1 \<and> (ok st \<longrightarrow> tok W 1 1 s1) \<and> (\<not> ok st \<longrightarrow> tok W 1 0 s1)"
    proof cases
      case got
      with assms(2) show ?thesis by simp
    next
      case loop
      with assms(2) show ?thesis
        using finish_steps_tok [of be s _ W 1 0] finish_steps_fin_zones [of be s]
          tok_take_active [of W 1 0]
        by (auto simp: token_loop_post_def split: if_splits)
    qed
    then show "fin_zones s s1" and "ok st \<Longrightarrow> tok W 1 1 s1" and "\<not> ok st \<Longrightarrow> tok W 1 0 s1"
      by auto
  qed
  show ?thesis
  proof (cases "ok st")
    case False
    with assms(1) s1 have "r = (st, None, PutOpenIOZoneToken s1)"
      by (simp add: open_new_zone_def)
    with fz bad [OF False] show ?thesis
      by (auto simp: alloc_post_def PutOpenIOZoneToken_def tok_put [unfolded PutOpenIOZoneToken_def]
          intro!: exI [of _ s1])
  next
    case True
    note tk = good [OF True]
    show ?thesis
    proof (cases rule: AllocateEmptyZone_cases [of s1])
      case none
      with assms(1) s1 True have "r = (OK, None, PutOpenIOZoneToken (PutActiveIOZoneToken s1))"
        by (simp add: open_new_zone_def)
      moreover have "tok W 0 0 (PutOpenIOZoneToken (PutActiveIOZoneToken s1))"
        using tk by (simp add: tok_put)
      ultimately show ?thesis
        using fz by (auto simp: alloc_post_def PutOpenIOZoneToken_def PutActiveIOZoneToken_def
            intro!: exI [of _ s1])
    next
      case (found i)
      have "r = (OK, Some i, upd_io i ((io_zones s1 ! i)\<lparr>z_busy := True, z_lifetime := lt\<rparr>) s1)"
        using assms(1) s1 True found(1,2) by (auto simp: open_new_zone_def idle_def)
      with fz found tok_own_empty [OF _ found(2,3), of W 0 0 lt] tk show ?thesis
        by (auto simp: alloc_post_def allocated_def idle_def intro!: exI [of _ s1])
    qed
  qed
qed

section \<open>The branches of an allocation\<close>

lemma reusable_busy_upd: "idle s a \<Longrightarrow> io_zones (hold (Some a) s) ! a = (io_zones s ! a)\<lparr>z_busy := True\<rparr>"
  by (simp add: idle_def)

lemma take_active_hold: "take_active (hold (Some a) s) = hold (Some a) (take_active s)"
  by (simp add: take_active_def upd_io_def)

lemma idle_take_active [simp]: "idle (take_active s) a = idle s a"
  by (simp add: idle_def take_active_def)

lemma AllocateIOZone_cases:
  assumes "AllocateIOZone be lt io_type s = Some r"
  obtains (deferred) "\<not> ok (zone_deferred_status s)" "r = (zone_deferred_status s, None, s)"
  | (threshold) st s1 where "ApplyFinishThreshold be s = (st, s1)" "\<not> ok st" "r = (st, None, s1)"
  | (reuse) s1 s2 a where "finish_steps be s s1"
      "WaitForOpenIOZoneToken (io_type = kWAL) s1 = Some s2" "idle s2 a" "reusable 0 (io_zones s2 ! a)"
      "\<forall>i<length (io_zones s2). reusable 0 (io_zones s2 ! i) \<longrightarrow>
         GetLifeTimeDiff (z_lifetime (io_zones s2 ! a)) lt
           \<le> GetLifeTimeDiff (z_lifetime (io_zones s2 ! i)) lt"
      "r = (OK, Some a, hold (Some a) s2)"
  | (new) s1 s2 got where "finish_steps be s s1"
      "WaitForOpenIOZoneToken (io_type = kWAL) s1 = Some s2"
      "got \<longleftrightarrow> active_io_zones s2 < uint (max_nr_active_io_zones s2)"
      "open_new_zone be lt got (if got then take_active s2 else s2) = Some r"
proof (cases "ok (zone_deferred_status s)")
  case False
  with assms show thesis
    by (intro deferred) (simp_all add: AllocateIOZone_def GetZoneDeferredStatus_def)
next
  case def: True
  obtain st1 s1 where s1: "(if io_type \<noteq> kWAL then ApplyFinishThreshold be s else (OK, s)) = (st1, s1)"
    by (cases "if io_type \<noteq> kWAL then ApplyFinishThreshold be s else (OK, s)")
  show thesis
  proof (cases "ok st1")
    case False
    with assms def s1 show thesis
      by (intro threshold [of st1 s1])
        (auto simp: AllocateIOZone_def GetZoneDeferredStatus_def split: if_splits)
  next
    case ok1: True
    have steps: "finish_steps be s s1"
      using s1 by (auto split: if_splits intro: ApplyFinishThreshold_steps finish_steps.stop)
    obtain s2 where s2: "WaitForOpenIOZoneToken (io_type = kWAL) s1 = Some s2"
      using assms def s1 ok1
      by (cases "WaitForOpenIOZoneToken (io_type = kWAL) s1")
        (auto simp: AllocateIOZone_def GetZoneDeferredStatus_def)
    note start = AllocateIOZone_def GetZoneDeferredStatus_def def s1 ok1 s2 Let_def
      GetActiveIOZoneTokenIfAvailable_cases
    show thesis
    proof (cases rule: GetBestOpenZoneMatch_cases [of lt 0 s2])
      case none
      have "open_new_zone be lt (active_io_zones s2 < uint (max_nr_active_io_zones s2))
          (if active_io_zones s2 < uint (max_nr_active_io_zones s2) then take_active s2 else s2) = Some r"
        using assms none(1)
        by (simp add: start LIFETIME_DIFF_NOT_GOOD_def LIFETIME_DIFF_COULD_BE_WORSE_def
            split: if_splits)
      with steps s2 show thesis by (intro new [OF _ _ refl])
    next
      case (found a)
      let ?diff = "GetLifeTimeDiff (z_lifetime (io_zones s2 ! a)) lt"
      let ?got = "active_io_zones s2 < uint (max_nr_active_io_zones s2)"
      have sel: "active_io_zones (hold (Some a) s2) = active_io_zones s2"
        "max_nr_active_io_zones (hold (Some a) s2) = max_nr_active_io_zones s2" by simp_all
      show thesis
      proof (cases "LIFETIME_DIFF_COULD_BE_WORSE \<le> ?diff \<and>
          (?got \<or> ?diff \<noteq> LIFETIME_DIFF_COULD_BE_WORSE)")
        case True
        have "release_io a (if ?got then take_active (hold (Some a) s2) else hold (Some a) s2)
            = (OK, if ?got then take_active s2 else s2)"
          using found(2) release_io_hold [of "take_active s2" a] release_io_hold [of s2 a]
          by (simp add: take_active_hold del: hold.simps(2))
        then have "open_new_zone be lt ?got (if ?got then take_active s2 else s2) = Some r"
          using assms found(1) True sel
          by (cases ?got) (auto simp: start simp del: hold.simps(2))
        with steps s2 show thesis by (intro new [OF _ _ refl])
      next
        case no: False
        then have "r = (OK, Some a, hold (Some a) s2)"
          using assms found(1) sel by (auto simp: start simp del: hold.simps(2))
        with steps s2 found show thesis by (intro reuse) auto
      qed
    qed
  qed
qed

lemma AllocateIOZone_post:
  assumes "AllocateIOZone be lt io_type s = Some r" and "tok W 0 0 s" and "zones_wf s"
  shows "alloc_post lt W s r"
  using assms(1)
proof (cases rule: AllocateIOZone_cases)
  case deferred
  with assms(2) show ?thesis by (auto simp: alloc_post_def intro!: exI [of _ s])
next
  case (threshold st s1)
  note steps = ApplyFinishThreshold_steps [OF threshold(1)]
  from threshold(3) finish_steps_tok [OF steps assms(2)] finish_steps_fin_zones [OF steps]
  show ?thesis by (auto simp: alloc_post_def)
next
  case (reuse s1 s2 a)
  have fz: "fin_zones s s2" and tk: "tok W (Suc 0) 0 s2" and wf: "zones_wf s2"
    using finish_steps_tok [OF reuse(1) assms(2)] finish_steps_fin_zones [OF reuse(1)]
      tok_wait(1,2) [OF reuse(2)] fin_zones_wf [of s s2] assms(3) by auto
  have "is_active (io_zones s2 ! a)"
    using reuse(3,4) wf by (auto simp: zones_wf_def idle_def intro: reusable_active)
  from tok_own_active [OF tk reuse(3) this] fz reuse show ?thesis
    by (auto simp: alloc_post_def allocated_def idle_def intro!: exI [of _ s2])
next
  case (new s1 s2 got)
  have "fin_zones s s2" and tk: "tok W (Suc 0) 0 s2"
    using finish_steps_tok [OF new(1) assms(2)] finish_steps_fin_zones [OF new(1)]
      tok_wait(1,2) [OF new(2)] by auto
  moreover have "alloc_post lt W (if got then take_active s2 else s2) r"
    using new(4) tk by (intro open_new_zone_post [of be]) (auto intro: tok_take_active)
  ultimately show ?thesis
    by (intro alloc_post_fin_zones [of s "if got then take_active s2 else s2"]) auto
qed

section \<open>Limits\<close>

lemma PutToken_sel [simp]:
  "active_io_zones (PutOpenIOZoneToken s) = active_io_zones s"
  "active_io_zones (PutActiveIOZoneToken s) = active_io_zones s - 1"
  "open_io_zones (PutOpenIOZoneToken s) = open_io_zones s - 1"
  "open_io_zones (PutActiveIOZoneToken s) = open_io_zones s"
  "io_zones (PutOpenIOZoneToken s) = io_zones s" "io_zones (PutActiveIOZoneToken s) = io_zones s"
  "dev (PutOpenIOZoneToken s) = dev s" "dev (PutActiveIOZoneToken s) = dev s"
  "zone_sz (PutActiveIOZoneToken s) = zone_sz s"
  by (simp_all add: PutOpenIOZoneToken_def PutActiveIOZoneToken_def)

lemma take_active_sel [simp]:
  "active_io_zones (take_active s) = active_io_zones s + 1"
  "max_nr_active_io_zones (take_active s) = max_nr_active_io_zones s"
  "dev (take_active s) = dev s" "io_zones (take_active s) = io_zones s"
  by (simp_all add: take_active_def)

lemma open_new_zone_active:
  assumes "open_new_zone be lt got s = Some (st, zone, s')"
    and "uint (max_nr_active_io_zones s) \<le> B" and "active_io_zones s \<le> B"
  shows "active_io_zones s' \<le> B"
proof -
  obtain st1 s1 where s1: "(if got then Some (OK, s) else active_token_loop be s) = Some (st1, s1)"
    using assms(1) by (auto simp: open_new_zone_def split: bind_splits)
  have "active_io_zones s1 \<le> B"
  proof (cases got)
    case True
    with s1 assms show ?thesis by auto
  next
    case False
    with s1 have "token_loop_post be s (st1, s1)"
      by (auto intro: active_token_loop_steps)
    with assms(2,3) show ?thesis
      using finish_steps_frame [of be s] by (fastforce simp: token_loop_post_def split: if_splits)
  qed
  with assms(1) s1 show ?thesis
    by (cases rule: AllocateEmptyZone_cases [of s1]; cases "ok st1") (auto simp: open_new_zone_def)
qed

lemma AllocateIOZone_active:
  assumes "AllocateIOZone be lt io_type s = Some (st, zone, s')"
    and "active_io_zones s \<le> uint (max_nr_active_io_zones s)"
  shows "active_io_zones s' \<le> uint (max_nr_active_io_zones s)"
  using assms(1)
proof (cases rule: AllocateIOZone_cases)
  case deferred
  with assms(2) show ?thesis by simp
next
  case (threshold st s1)
  with assms(2) finish_steps_frame [OF ApplyFinishThreshold_steps [OF threshold(1)]] show ?thesis
    by simp
next
  case (reuse s1 s2 a)
  with assms(2) finish_steps_frame [OF reuse(1)] tok_wait(1) [OF reuse(2)] show ?thesis
    by simp
next
  case (new s1 s2 got)
  have "active_io_zones s2 \<le> uint (max_nr_active_io_zones s)"
    "max_nr_active_io_zones s2 = max_nr_active_io_zones s"
    using assms(2) finish_steps_frame [OF new(1)] tok_wait(1) [OF new(2)] by auto
  with new(3,4) show ?thesis
    by (intro open_new_zone_active [OF new(4)]) auto
qed

lemma AllocateIOZone_open:
  assumes "AllocateIOZone be lt io_type s = Some (st, Some i, s')" and "tok W 0 0 s" and "zones_wf s"
    and "0 < max_nr_open_io_zones s"
  shows "open_io_zones s' \<le> uint (max_nr_open_io_zones s) - (if io_type = kWAL then 0 else 1)"
proof -
  have "tok (insert i W) 0 0 s'" "i \<notin> W" "finite W"
    using AllocateIOZone_post [OF assms(1-3)] fin_zones_idle tok_idle [OF assms(2)] tok_finite [OF assms(2)]
    by (auto simp: alloc_post_def allocated_def idle_def)
  then have op: "open_io_zones s' = open_io_zones s + 1"
    using assms(2) by (simp add: tok_def)
  have "uint (max_nr_open_io_zones s - 1) = uint (max_nr_open_io_zones s) - 1"
    using assms(4) by (simp add: uint_minus_simple_alt word_less_def uint_sub_if')
  moreover have "open_io_zones s < uint (if io_type = kWAL then max_nr_open_io_zones s
      else max_nr_open_io_zones s - 1)"
    using assms(1)
  proof (cases rule: AllocateIOZone_cases)
    case (reuse s1 s2 a)
    then show ?thesis
      using tok_wait(3) [OF reuse(2)] finish_steps_frame [OF reuse(1)]
      by (cases "io_type = kWAL") simp_all
  next
    case (new s1 s2 got)
    then show ?thesis
      using tok_wait(3) [OF new(2)] finish_steps_frame [OF new(1)]
      by (cases "io_type = kWAL") simp_all
  qed auto
  ultimately show ?thesis using op by (simp split: if_splits)
qed

section \<open>When an allocation returns\<close>

text \<open>
  The loop for an active token ends when every busy zone is owned by a writer and the writers own
  fewer zones than the device may have active: then some idle zone can be finished.
\<close>

lemma active_token_loop_returns:
  assumes "tok W n 0 s" and "\<forall>i<length (io_zones s). z_busy (io_zones s ! i) \<longrightarrow> i \<in> W"
    and "int (card W) < uint (max_nr_active_io_zones s)"
  shows "\<exists>r. active_token_loop be s = Some r"
  using assms
proof (induction "nat (active_io_zones s)" arbitrary: s rule: less_induct)
  case less
  show ?case
  proof (cases "active_io_zones s < uint (max_nr_active_io_zones s)")
    case True
    then show ?thesis
      by (subst active_token_loop.simps) (simp add: GetActiveIOZoneTokenIfAvailable_cases)
  next
    case False
    note unfold = active_token_loop.simps [of be s] GetActiveIOZoneTokenIfAvailable_cases
    have "card W < card (active_set W (io_zones s))"
      using less.prems False by (simp add: tok_def)
    then have "\<not> active_set W (io_zones s) \<subseteq> W"
      by (metis card_mono not_le tok_finite [OF less.prems(1)])
    then obtain i where i: "i < length (io_zones s)" "i \<notin> W" "is_active (io_zones s ! i)"
      by (auto simp: active_set_def)
    show ?thesis
    proof (cases rule: FinishCheapestIOZone_cases [of be s])
      case none
      with i less.prems(2) show ?thesis by (auto simp: is_active_def)
    next
      case (fail st v)
      with False show ?thesis by (simp add: unfold)
    next
      case (fin v)
      let ?s = "finish_zone be v s"
      have eq: "FinishCheapestIOZone be s = (OK, ?s)"
        using fin(5) by (simp add: finish_zone_def finish_dev_def)
      have "tok W n 0 ?s"
        using fin less.prems(1) by (intro finish_zone_tok) (auto simp: is_active_def)
      moreover have "\<forall>i<length (io_zones ?s). z_busy (io_zones ?s ! i) \<longrightarrow> i \<in> W"
        using less.prems(2) fin(1) by (auto simp: nth_list_update idle_def)
      moreover have "nat (active_io_zones ?s) < nat (active_io_zones s)"
        using False less.prems(3) by simp
      ultimately obtain r where "active_token_loop be ?s = Some r"
        using less.hyps [of ?s] less.prems(3) by auto
      with False eq show ?thesis by (simp add: unfold)
    qed
  qed
qed

lemma open_new_zone_returns:
  assumes "got \<or> (\<exists>r. active_token_loop be s = Some r)"
  shows "\<exists>r. open_new_zone be lt got s = Some r"
proof -
  obtain st s1 where "(if got then Some (OK, s) else active_token_loop be s) = Some (st, s1)"
    using assms by fastforce
  then show ?thesis
    by (cases rule: AllocateEmptyZone_cases [of s1]; cases "ok st")
      (auto simp: open_new_zone_def)
qed

lemma AllocateIOZone_returns:
  assumes "tok W 0 0 s" and "\<forall>i<length (io_zones s). z_busy (io_zones s ! i) \<longrightarrow> i \<in> W"
    and "int (card W) < uint (max_nr_active_io_zones s)"
    and "open_io_zones s < uint (if io_type = kWAL then max_nr_open_io_zones s
           else max_nr_open_io_zones s - 1)"
  shows "\<exists>r. AllocateIOZone be lt io_type s = Some r"
proof -
  obtain st1 s1 where s1: "(if io_type \<noteq> kWAL then ApplyFinishThreshold be s else (OK, s)) = (st1, s1)"
    by (cases "if io_type \<noteq> kWAL then ApplyFinishThreshold be s else (OK, s)")
  have steps: "finish_steps be s s1"
    using s1 by (auto split: if_splits intro: ApplyFinishThreshold_steps finish_steps.stop)
  note frame = finish_steps_frame [OF steps]
  obtain s2 where s2: "WaitForOpenIOZoneToken (io_type = kWAL) s1 = Some s2"
    using assms(4) frame by (cases "io_type = kWAL") (auto simp: WaitForOpenIOZoneToken_def)
  have sel: "io_zones s2 = io_zones s1" "max_nr_active_io_zones s2 = max_nr_active_io_zones s"
    using tok_wait(1) [OF s2] frame by auto
  have busy: "\<forall>i<length (io_zones s2). z_busy (io_zones s2 ! i) \<longrightarrow> i \<in> W"
    using finish_steps_busy [OF steps] frame assms(2) sel by auto
  have tk: "tok W (Suc 0) 0 s2"
    using tok_wait(2) [OF s2] finish_steps_tok [OF steps assms(1)] by simp
  let ?got = "active_io_zones s2 < uint (max_nr_active_io_zones s2)"
  have "\<exists>r. open_new_zone be lt ?got (if ?got then take_active s2 else s2) = Some r"
    using active_token_loop_returns [OF tk busy, of be] sel assms(3)
    by (intro open_new_zone_returns) auto
  then have new: "\<exists>r. open_new_zone be lt ?got (if ?got then take_active s2 else s2) = Some r" .
  note start = AllocateIOZone_def GetZoneDeferredStatus_def s1 s2 Let_def
    GetActiveIOZoneTokenIfAvailable_cases
  show ?thesis
  proof (cases rule: GetBestOpenZoneMatch_cases [of lt 0 s2])
    case none
    with new show ?thesis
      by (simp add: start LIFETIME_DIFF_NOT_GOOD_def LIFETIME_DIFF_COULD_BE_WORSE_def
          split: if_splits)
  next
    case (found a)
    have sel: "active_io_zones (hold (Some a) s2) = active_io_zones s2"
      "max_nr_active_io_zones (hold (Some a) s2) = max_nr_active_io_zones s2" by simp_all
    have "release_io a (if ?got then take_active (hold (Some a) s2) else hold (Some a) s2)
        = (OK, if ?got then take_active s2 else s2)"
      using found(2) release_io_hold [of "take_active s2" a] release_io_hold [of s2 a]
      by (simp add: take_active_hold del: hold.simps(2))
    with new found(1) sel show ?thesis
      by (cases ?got) (auto simp: start simp del: hold.simps(2))
  qed
qed

section \<open>Resetting unused zones\<close>

definition reset_dev :: "'d backend \<Rightarrow> nat \<Rightarrow> ('d, 'm) ZBD_scheme \<Rightarrow> ('d, 'm) ZBD_scheme" where
  "reset_dev be v s = s\<lparr>dev := snd (snd (snd (be_Reset be (z_start (io_zones s ! v)) (dev s))))\<rparr>"

definition put_if_active :: "Zone \<Rightarrow> ('d, 'm) ZBD_scheme \<Rightarrow> ('d, 'm) ZBD_scheme" where
  "put_if_active z s = (if IsFull z then s else PutActiveIOZoneToken s)"

text \<open>
  The states that resets pass through: every step resets an idle zone that has been written and holds no
  valid data, or the device refuses to reset it.
\<close>

inductive reset_steps :: "'d backend \<Rightarrow> ('d, 'm) ZBD_scheme \<Rightarrow> ('d, 'm) ZBD_scheme \<Rightarrow> bool"
  for be where
  stop: "reset_steps be s s"
| reset: "idle s v \<Longrightarrow> \<not> IsEmpty (io_zones s ! v) \<Longrightarrow> \<not> IsUsed (io_zones s ! v) \<Longrightarrow>
    Zone_Reset be (io_zones s ! v) (dev s) = (OK, z, d) \<Longrightarrow>
    reset_steps be (put_if_active (io_zones s ! v) (upd_io v z (reset_dev be v s))) t \<Longrightarrow>
    reset_steps be s t"
| fail: "idle s v \<Longrightarrow> \<not> IsUsed (io_zones s ! v) \<Longrightarrow> reset_steps be (reset_dev be v s) t \<Longrightarrow>
    reset_steps be s t"

lemma Zone_Reset_busy:
  "Zone_Reset be (z\<lparr>z_busy := b\<rparr>) d =
     (case Zone_Reset be z d of (st, z', d') \<Rightarrow> (st, z'\<lparr>z_busy := b\<rparr>, d'))"
  by (cases z) (auto simp: Zone_Reset_def Let_def split: prod.splits)

lemma Zone_Reset_ok:
  assumes "Zone_Reset be z d = (st, z', d')"
  shows "d' = snd (snd (snd (be_Reset be (z_start z) d)))" and "z_busy z' = z_busy z"
    and "z_start z' = z_start z" and "z_used_capacity z' = z_used_capacity z"
    and "\<not> ok st \<Longrightarrow> z' = z" and "ok st \<Longrightarrow> IsEmpty z'" and "ok st \<Longrightarrow> st = OK"
proof -
  have "d' = snd (snd (snd (be_Reset be (z_start z) d))) \<and> z_busy z' = z_busy z \<and>
      z_start z' = z_start z \<and> z_used_capacity z' = z_used_capacity z \<and>
      (if ok st then IsEmpty z' \<and> st = OK else z' = z)"
    by (cases rule: Zone_Reset_cases [of be z d]) (use assms in \<open>auto simp: IsEmpty_def\<close>)
  then show "d' = snd (snd (snd (be_Reset be (z_start z) d)))" "z_busy z' = z_busy z"
    "z_start z' = z_start z" "z_used_capacity z' = z_used_capacity z"
    "\<not> ok st \<Longrightarrow> z' = z" "ok st \<Longrightarrow> IsEmpty z'" "ok st \<Longrightarrow> st = OK"
    by (auto split: if_splits)
qed

lemma reset_release:
  assumes "idle s v" and "Zone_Reset be (io_zones s ! v) (dev s) = (st, z, d)"
  shows "reset_io be v (hold (Some v) s) = (st, upd_io v (z\<lparr>z_busy := True\<rparr>) (reset_dev be v s))"
    and "release_io v (upd_io v (z\<lparr>z_busy := True\<rparr>) (reset_dev be v s)) = (OK, upd_io v z (reset_dev be v s))"
proof -
  have v: "v < length (io_zones s)" "\<not> z_busy z"
    using assms Zone_Reset_ok(2) [OF assms(2)] by (auto simp: idle_def)
  show "reset_io be v (hold (Some v) s) = (st, upd_io v (z\<lparr>z_busy := True\<rparr>) (reset_dev be v s))"
    using assms v Zone_Reset_ok(1) [OF assms(2)]
    by (simp add: reset_io_def reset_dev_def Zone_Reset_busy flip: upd_io_dev)
  show "release_io v (upd_io v (z\<lparr>z_busy := True\<rparr>) (reset_dev be v s)) = (OK, upd_io v z (reset_dev be v s))"
    using v by (simp add: release_io_def reset_dev_def)
qed

lemma ResetUnusedIOZones_loop_cons:
  assumes "i < length (io_zones s)"
  obtains (skip) "ResetUnusedIOZones_loop be (i # is) s = ResetUnusedIOZones_loop be is s"
      "\<not> idle s i \<or> IsEmpty (io_zones s ! i) \<or> IsUsed (io_zones s ! i)"
  | (fail) st where "ResetUnusedIOZones_loop be (i # is) s = (st, reset_dev be i s)"
      "\<not> ok st" "idle s i" "\<not> IsUsed (io_zones s ! i)"
  | (reset) z d where "ResetUnusedIOZones_loop be (i # is) s
        = ResetUnusedIOZones_loop be is (put_if_active (io_zones s ! i) (upd_io i z (reset_dev be i s)))"
      "Zone_Reset be (io_zones s ! i) (dev s) = (OK, z, d)"
      "idle s i" "\<not> IsEmpty (io_zones s ! i)" "\<not> IsUsed (io_zones s ! i)"
proof (cases "z_busy (io_zones s ! i)")
  case True
  then show thesis by (intro skip) (simp_all add: acquire_io_busy idle_def)
next
  case False
  then have idl: "idle s i" using assms by (simp add: idle_def)
  have z: "io_zones (hold (Some i) s) ! i = (io_zones s ! i)\<lparr>z_busy := True\<rparr>"
    using assms by simp
  note start = acquire_io_idle [OF idl] z Let_def
  show thesis
  proof (cases "IsEmpty (io_zones s ! i) \<or> IsUsed (io_zones s ! i)")
    case True
    with idl show thesis
      by (intro skip) (auto simp: start release_io_hold simp del: hold.simps(2))
  next
    case no: False
    obtain st z' d where r: "Zone_Reset be (io_zones s ! i) (dev s) = (st, z', d)"
      by (cases "Zone_Reset be (io_zones s ! i) (dev s)")
    note rr = reset_release [OF idl r]
    show thesis
    proof (cases "ok st")
      case True
      with no idl r rr show thesis
        by (intro reset [of z' d])
          (auto simp: start put_if_active_def Zone_Reset_ok(7) [OF r] simp del: hold.simps(2))
    next
      case bad: False
      then have "upd_io i z' (reset_dev be i s) = reset_dev be i s"
        using Zone_Reset_ok(5) [OF r] by (simp add: reset_dev_def)
      with bad no idl rr show thesis
        by (intro fail [of st]) (auto simp: start simp del: hold.simps(2))
    qed
  qed
qed

lemma ResetUnusedIOZones_loop_steps:
  assumes "ResetUnusedIOZones_loop be is s = (st, t)" and "\<forall>i\<in>set is. i < length (io_zones s)"
  shows "reset_steps be s t"
  using assms
proof (induction "is" arbitrary: s)
  case Nil
  then show ?case by (simp add: reset_steps.stop)
next
  case (Cons i "is")
  have "i < length (io_zones s)"
    using Cons.prems by simp
  then show ?case
  proof (cases rule: ResetUnusedIOZones_loop_cons [of i s be "is"])
    case skip
    with Cons show ?thesis by simp
  next
    case (fail st')
    with Cons.prems show ?thesis
      by (auto intro: reset_steps.fail reset_steps.stop)
  next
    case (reset z d)
    have "reset_steps be (put_if_active (io_zones s ! i) (upd_io i z (reset_dev be i s))) t"
      using Cons reset(1) by (simp add: put_if_active_def reset_dev_def)
    with reset show ?thesis by (auto intro: reset_steps.reset)
  qed
qed

definition in_zone :: "u64 \<Rightarrow> Zone \<Rightarrow> u64 \<Rightarrow> bool" where
  "in_zone sz z a \<longleftrightarrow> unat (z_start z) \<le> unat a \<and> unat a < unat (z_start z) + unat sz"

lemma outside_fit:
  "unat (z_start z) + unat sz < 2 ^ 64 \<Longrightarrow> \<not> in_zone sz z a \<Longrightarrow> unat sz \<le> unat (a - z_start z)"
  by (auto simp: in_zone_def unat_sub_if')

lemma outside_zone: "zone_wf sz z \<Longrightarrow> \<not> in_zone sz z a \<Longrightarrow> unat sz \<le> unat (a - z_start z)"
  by (rule outside_fit) (simp_all add: zone_wf_def)

lemma reset_sel [simp]:
  "io_zones (reset_dev be v s) = io_zones s" "zone_sz (reset_dev be v s) = zone_sz s"
  "open_io_zones (reset_dev be v s) = open_io_zones s"
  "active_io_zones (reset_dev be v s) = active_io_zones s"
  "io_zones (put_if_active z s) = io_zones s" "zone_sz (put_if_active z s) = zone_sz s"
  "open_io_zones (put_if_active z s) = open_io_zones s" "dev (put_if_active z s) = dev s"
  "active_io_zones (put_if_active z s) = active_io_zones s - (if IsFull z then 0 else 1)"
  by (simp_all add: reset_dev_def put_if_active_def)

lemma reset_zone_tok:
  assumes "tok W n m s" and "idle s v" and "\<not> IsEmpty (io_zones s ! v)"
    and "Zone_Reset be (io_zones s ! v) (dev s) = (OK, z, d)"
  shows "tok W n m (put_if_active (io_zones s ! v) (upd_io v z (reset_dev be v s)))"
proof -
  have v: "v \<notin> W" "v < length (io_zones s)"
    using tok_idle [OF assms(1,2)] assms(2) by (auto simp: idle_def)
  have z: "\<not> is_active z"
    using Zone_Reset_ok(6) [OF assms(4)] by (simp add: is_active_def)
  have "int (card (active_set W ((io_zones s)[v := z])))
      = int (card (active_set W (io_zones s))) - (if IsFull (io_zones s ! v) then 0 else 1)"
  proof (cases "IsFull (io_zones s ! v)")
    case True
    then have "active_set W ((io_zones s)[v := z]) = active_set W (io_zones s)"
      using z v by (intro active_set_same) (auto simp: nth_list_update is_active_def)
    with True show ?thesis by simp
  next
    case False
    then have act: "is_active (io_zones s ! v)"
      using assms(3) by (simp add: is_active_def)
    note drop = active_set_drop [OF v(2,1) act z]
    show ?thesis
      using card.remove [OF finite_active_set drop(2)] False unfolding drop(1) by auto
  qed
  with assms(1) v show ?thesis
    by (auto simp: tok_def nth_list_update)
qed

lemma reset_steps_tok: "reset_steps be s t \<Longrightarrow> tok W n m s \<Longrightarrow> tok W n m t"
proof (induction rule: reset_steps.induct)
  case (reset s v z d t)
  from reset.IH [OF reset_zone_tok [OF reset.prems reset.hyps(1,2,4)]] show ?case .
next
  case (fail s v t)
  then show ?case by (simp add: tok_def)
qed

lemma reset_steps_zone:
  assumes "reset_steps be s t"
  shows "length (io_zones t) = length (io_zones s) \<and> zone_sz t = zone_sz s \<and>
    (\<forall>i<length (io_zones s).
       z_busy (io_zones t ! i) = z_busy (io_zones s ! i) \<and>
       z_start (io_zones t ! i) = z_start (io_zones s ! i) \<and>
       z_used_capacity (io_zones t ! i) = z_used_capacity (io_zones s ! i) \<and>
       (io_zones t ! i = io_zones s ! i \<or>
        idle s i \<and> \<not> IsUsed (io_zones s ! i) \<and> IsEmpty (io_zones t ! i)))"
  using assms
proof (induction rule: reset_steps.induct)
  case (reset s v z d t)
  note z = Zone_Reset_ok [OF reset.hyps(4)]
  have "IsEmpty z" using z(6) by simp
  with reset z(2-4) show ?case
    by (auto simp: nth_list_update idle_def IsUsed_def split: if_splits)
qed (auto simp: idle_def)

lemma reset_zone_wf:
  assumes "zones_wf s" and "idle s v" and "\<not> IsUsed (io_zones s ! v)"
    and "Zone_Reset be (io_zones s ! v) (dev s) = (OK, z, d)" and "reset_capacity be (zone_sz s)"
  shows "zones_wf (put_if_active (io_zones s ! v) (upd_io v z (reset_dev be v s)))"
proof -
  have "zone_wf (zone_sz s) z"
    using zone_wf_Reset [of "zone_sz s" "io_zones s ! v" be "dev s"] assms
    by (auto simp: zones_wf_def idle_def)
  with assms(1,2) show ?thesis
    by (auto simp: zones_wf_def nth_list_update idle_def)
qed

lemma reset_steps_wf:
  "reset_steps be s t \<Longrightarrow> zones_wf s \<Longrightarrow> reset_capacity be (zone_sz s) \<Longrightarrow> zones_wf t"
proof (induction rule: reset_steps.induct)
  case (reset s v z d t)
  then show ?case using reset_zone_wf [of s v be z d] by simp
next
  case (fail s v t)
  then show ?case by (simp add: zones_wf_def)
qed

lemma reset_steps_media:
  assumes "reset_steps be s t" and "zones_fit s" and "manage_media be (zone_sz s) media"
    and "\<forall>v. idle s v \<and> \<not> IsUsed (io_zones s ! v) \<longrightarrow> \<not> in_zone (zone_sz s) (io_zones s ! v) a"
  shows "media (dev t) a = media (dev s) a"
  using assms
proof (induction rule: reset_steps.induct)
  case (reset s v z d t)
  let ?s = "put_if_active (io_zones s ! v) (upd_io v z (reset_dev be v s))"
  note z = Zone_Reset_ok [OF reset.hyps(4)]
  have v: "v < length (io_zones s)" using reset.hyps(1) by (simp add: idle_def)
  have "\<forall>w. idle ?s w \<and> \<not> IsUsed (io_zones ?s ! w) \<longrightarrow> \<not> in_zone (zone_sz ?s) (io_zones ?s ! w) a"
    using reset.prems(3) reset.hyps(1) z(2-4) v
    by (auto simp: idle_def nth_list_update IsUsed_def in_zone_def split: if_splits)
  moreover have "zones_fit ?s"
    using reset.prems(1) z(2-4) v by (simp add: zones_fit_def nth_list_update)
  ultimately have "media (dev t) a = media (dev ?s) a"
    using reset.IH reset.prems by simp
  moreover have "unat (zone_sz s) \<le> unat (a - z_start (io_zones s ! v))"
    using reset.prems reset.hyps v by (intro outside_fit) (auto simp: zones_fit_def)
  ultimately show ?case
    using reset.prems(2) by (simp add: reset_dev_def manage_media_def)
next
  case (fail s v t)
  have "unat (zone_sz s) \<le> unat (a - z_start (io_zones s ! v))"
    using fail.prems fail.hyps by (intro outside_fit) (auto simp: zones_fit_def idle_def)
  moreover have "media (dev t) a = media (dev (reset_dev be v s)) a"
    using fail by (auto simp: zones_fit_def idle_def)
  ultimately show ?case
    using fail.prems(2) by (simp add: reset_dev_def manage_media_def)
qed simp

section \<open>Opening the device\<close>










section \<open>What an allocation leaves alone\<close>

text \<open>
  Only the zones, the device and the two token counters change; all that an extension of the
  record adds stays as it is.
\<close>

definition alloc_frame :: "('d, 'm) ZBD_scheme \<Rightarrow> ('d, 'm) ZBD_scheme \<Rightarrow> bool" where
  "alloc_frame s t \<longleftrightarrow>
     t\<lparr>dev := dev s, io_zones := io_zones s, active_io_zones := active_io_zones s,
       open_io_zones := open_io_zones s\<rparr> = s"

lemma alloc_frame_refl [simp]: "alloc_frame s s"
  by (simp add: alloc_frame_def)

lemma alloc_frame_trans:
  assumes "alloc_frame s t" and "alloc_frame t u"
  shows "alloc_frame s u"
proof -
  let ?undo = "\<lambda>t s. t\<lparr>dev := dev s, io_zones := io_zones s, active_io_zones := active_io_zones s,
       open_io_zones := open_io_zones s\<rparr>"
  have "?undo (?undo u t) s = s"
    using assms by (simp add: alloc_frame_def)
  then show ?thesis by (simp add: alloc_frame_def)
qed

lemma alloc_frame_sel:
  assumes "alloc_frame s t"
  shows "zone_sz t = zone_sz s" "block_sz t = block_sz s" "meta_zones t = meta_zones s"
    "zone_deferred_status t = zone_deferred_status s" "finish_threshold t = finish_threshold s"
    "max_nr_active_io_zones t = max_nr_active_io_zones s"
    "max_nr_open_io_zones t = max_nr_open_io_zones s" "migrating t = migrating s"
    "bytes_written t = bytes_written s" "gc_bytes_written t = gc_bytes_written s"
    "ZBD.more t = ZBD.more s"
  using assms [unfolded alloc_frame_def, THEN arg_cong, of zone_sz]
    assms [unfolded alloc_frame_def, THEN arg_cong, of block_sz]
    assms [unfolded alloc_frame_def, THEN arg_cong, of meta_zones]
    assms [unfolded alloc_frame_def, THEN arg_cong, of zone_deferred_status]
    assms [unfolded alloc_frame_def, THEN arg_cong, of finish_threshold]
    assms [unfolded alloc_frame_def, THEN arg_cong, of max_nr_active_io_zones]
    assms [unfolded alloc_frame_def, THEN arg_cong, of max_nr_open_io_zones]
    assms [unfolded alloc_frame_def, THEN arg_cong, of migrating]
    assms [unfolded alloc_frame_def, THEN arg_cong, of bytes_written]
    assms [unfolded alloc_frame_def, THEN arg_cong, of gc_bytes_written]
    assms [unfolded alloc_frame_def, THEN arg_cong, of ZBD.more]
  by simp_all

lemma alloc_frame_steps [simp]:
  "alloc_frame s (take_active s)" "alloc_frame s (PutOpenIOZoneToken s)"
  "alloc_frame s (PutActiveIOZoneToken s)" "alloc_frame s (upd_io i z s)"
  "alloc_frame s (finish_dev be v s)" "alloc_frame s (s\<lparr>open_io_zones := n\<rparr>)"
  by (simp_all add: take_active_def PutOpenIOZoneToken_def PutActiveIOZoneToken_def upd_io_def
      finish_dev_def alloc_frame_def)

lemma alloc_frame_hold [simp]: "alloc_frame s (hold az s)"
  by (cases az) simp_all

lemma finish_steps_alloc_frame: "finish_steps be s t \<Longrightarrow> alloc_frame s t"
proof (induction rule: finish_steps.induct)
  case (fin s v t)
  have "alloc_frame s (finish_zone be v s)"
    unfolding finish_zone_def by (meson alloc_frame_steps alloc_frame_trans)
  with fin show ?case by (metis alloc_frame_trans)
next
  case (fail s v t)
  then show ?case by (metis alloc_frame_steps(5) alloc_frame_trans)
qed simp

lemma open_new_zone_frame:
  assumes "open_new_zone be lt got s = Some (st, zone, s')"
  shows "alloc_frame s s' \<and> (manage_media be sz media \<longrightarrow> media (dev s') = media (dev s))"
proof -
  obtain st1 s1 where s1: "(if got then Some (OK, s) else active_token_loop be s) = Some (st1, s1)"
    using assms(1) by (auto simp: open_new_zone_def split: bind_splits)
  have "alloc_frame s s1 \<and> (manage_media be sz media \<longrightarrow> media (dev s1) = media (dev s))"
  proof (cases got)
    case True
    with s1 show ?thesis by simp
  next
    case False
    with s1 have "token_loop_post be s (st1, s1)"
      by (auto intro: active_token_loop_steps)
    then obtain t where "finish_steps be s t" "s1 = t \<or> s1 = take_active t"
      by (auto simp: token_loop_post_def split: if_splits)
    then show ?thesis
      using finish_steps_alloc_frame [of be s t] finish_steps_media [of be s t sz media]
        alloc_frame_trans [of s t "take_active t"] by auto
  qed
  moreover have "alloc_frame s1 s' \<and> dev s' = dev s1"
  proof -
    have two: "alloc_frame s1 (PutOpenIOZoneToken (PutActiveIOZoneToken s1))"
      by (meson alloc_frame_steps alloc_frame_trans)
    show ?thesis
      using assms(1) s1 two
      by (cases rule: AllocateEmptyZone_cases [of s1]; cases "ok st1")
        (auto simp: open_new_zone_def)
  qed
  ultimately show ?thesis by (auto intro: alloc_frame_trans)
qed

lemma AllocateIOZone_frame:
  assumes "AllocateIOZone be lt io_type s = Some (st, zone, s')"
  shows "alloc_frame s s' \<and> (manage_media be sz media \<longrightarrow> media (dev s') = media (dev s))"
  using assms
proof (cases rule: AllocateIOZone_cases)
  case (threshold st s1)
  note steps = ApplyFinishThreshold_steps [OF threshold(1)]
  from threshold(3) finish_steps_alloc_frame [OF steps] finish_steps_media [OF steps] show ?thesis
    by simp
next
  case (reuse s1 s2 a)
  have "alloc_frame s1 s2" "dev s2 = dev s1" using tok_wait(1) [OF reuse(2)] by simp_all
  with finish_steps_alloc_frame [OF reuse(1)] have "alloc_frame s (hold (Some a) s2)"
    by (meson alloc_frame_hold alloc_frame_trans)
  with reuse(6) finish_steps_media [OF reuse(1)] \<open>dev s2 = dev s1\<close> show ?thesis by simp
next
  case (new s1 s2 got)
  have "alloc_frame s1 s2" "dev s2 = dev s1" using tok_wait(1) [OF new(2)] by simp_all
  with finish_steps_alloc_frame [OF new(1)] have "alloc_frame s (if got then take_active s2 else s2)"
    using alloc_frame_steps(1) alloc_frame_trans by (auto split: if_splits)
  with open_new_zone_frame [OF new(4), of sz media] finish_steps_media [OF new(1)] \<open>dev s2 = dev s1\<close>
  show ?thesis by (auto intro: alloc_frame_trans split: if_splits)
qed simp

section \<open>Properties\<close>


text \<open>A small device for the witnesses: zone 3 is owned by a writer.\<close>

definition mk_zone :: "bool \<Rightarrow> u64 \<Rightarrow> u64 \<Rightarrow> u64 \<Rightarrow> u32 \<Rightarrow> u64 \<Rightarrow> Zone" where
  "mk_zone b start cap wp lt used =
     \<lparr>z_busy = b, z_start = start, z_capacity = cap, z_max_capacity = 48, z_wp = wp, z_lifetime = lt,
      z_used_capacity = used\<rparr>"

definition zbd0 :: "(u64 \<Rightarrow> byte) ZBD" where
  "zbd0 =
     \<lparr>block_sz = 4, zone_sz = 64, nr_zones = 32, dev = (\<lambda>_. 0),
      io_zones = [mk_zone False 192 40 200 4 6, mk_zone False 256 48 256 0 0,
                  mk_zone False 320 0 384 3 0, mk_zone True 384 44 388 3 4],
      meta_zones = [], finish_threshold = 0, bytes_written = 12, gc_bytes_written = 0,
      active_io_zones = 2, open_io_zones = 1, zone_deferred_status = OK, migrating = False,
      max_nr_active_io_zones = 3, max_nr_open_io_zones = 3\<rparr>"

lemma zbd0_len: "length (io_zones zbd0) = 4"
  by (simp add: zbd0_def)

lemma zbd0_all: "(\<forall>i<length (io_zones zbd0). P i) \<longleftrightarrow> P 0 \<and> P 1 \<and> P 2 \<and> P 3"
proof -
  have "i < 4 \<longleftrightarrow> i = 0 \<or> i = 1 \<or> i = 2 \<or> i = (3 :: nat)" for i by linarith
  then show ?thesis unfolding zbd0_len by (metis (no_types, lifting))
qed

lemma zbd0_tokens: "tokens {3} zbd0"
proof -
  have "\<forall>i<length (io_zones zbd0). is_active (io_zones zbd0 ! i) \<or> i = 3 \<longleftrightarrow> i \<in> {0, 3}"
    unfolding zbd0_all by (simp add: zbd0_def mk_zone_def is_active_def IsEmpty_def IsFull_def)
  then have "active_set {3} (io_zones zbd0) = {i. i < 4 \<and> i \<in> {0, 3}}"
    unfolding active_set_def zbd0_len by blast
  also have "\<dots> = {0, 3}" by auto
  finally have "active_set {3} (io_zones zbd0) = {0, 3}" .
  then show ?thesis by (simp add: tokens_def) (simp add: zbd0_def mk_zone_def)
qed

lemma zbd0_wf: "zones_wf zbd0"
  unfolding zones_wf_def zbd0_all by (simp add: zbd0_def mk_zone_def zone_wf_def)

lemma zbd0_alloc:
  "AllocateIOZone be0 2 kWAL zbd0 = Some (OK, Some 0, hold (Some 0) (zbd0\<lparr>open_io_zones := 2\<rparr>))"
  by (simp add: AllocateIOZone_def GetZoneDeferredStatus_def WaitForOpenIOZoneToken_def
      GetBestOpenZoneMatch_def upt_rec zbd0_def mk_zone_def acquire_io_def release_io_def upd_io_def
      IsFull_def GetLifeTimeDiff_def LIFETIME_DIFF_NOT_GOOD_def LIFETIME_DIFF_COULD_BE_WORSE_def
      WLTH_NOT_SET_def WLTH_NONE_def Let_def)


text \<open>
  (C8) An allocation respects the limits of the device: it leaves at most
  \<^verbatim>\<open>max_nr_active_io_zones_\<close> active tokens in use when there were not more before, and when it
  returns a zone, at most \<^verbatim>\<open>max_nr_open_io_zones_\<close> open tokens for a write-ahead log and one fewer for
  every other file.
\<close>

theorem AllocateIOZone_limits:
  assumes "tokens W s" and "zones_wf s" and "AllocateIOZone be lt io_type s = Some (st, zone, s')"
    and "active_io_zones s \<le> uint (max_nr_active_io_zones s)" and "0 < max_nr_open_io_zones s"
  shows "active_io_zones s' \<le> uint (max_nr_active_io_zones s') \<and>
    (zone \<noteq> None \<longrightarrow>
       open_io_zones s' \<le> uint (max_nr_open_io_zones s') - (if io_type = kWAL then 0 else 1))"
proof -
  have fr: "max_nr_active_io_zones s' = max_nr_active_io_zones s"
    "max_nr_open_io_zones s' = max_nr_open_io_zones s"
    using AllocateIOZone_frame [OF assms(3)] by (auto simp: alloc_frame_sel)
  have "open_io_zones s' \<le> uint (max_nr_open_io_zones s) - (if io_type = kWAL then 0 else 1)"
    if "zone \<noteq> None"
    using that assms AllocateIOZone_open [of be lt io_type s st _ s' W] by (auto simp: tokens_tok)
  with AllocateIOZone_active [OF assms(3,4)] fr show ?thesis by simp
qed

theorem AllocateIOZone_limits_witness:
  "active_io_zones (hold (Some 0) (zbd0\<lparr>open_io_zones := 2\<rparr>)) \<le> 3 \<and>
   open_io_zones (hold (Some 0) (zbd0\<lparr>open_io_zones := 2\<rparr>)) \<le> 3"
  using AllocateIOZone_limits [OF zbd0_tokens zbd0_wf zbd0_alloc] by (simp add: zbd0_def)

text \<open>
  (C9) An allocation returns, neither blocked nor spinning, whenever an open token is available for
  its kind of file, every busy zone is owned by a writer and the writers own fewer zones than may be
  active: the loop that finishes zones to get an active token then always finds a zone to finish.
\<close>

theorem AllocateIOZone_terminates:
  assumes "tokens W s" and "\<forall>i<length (io_zones s). z_busy (io_zones s ! i) \<longrightarrow> i \<in> W"
    and "int (card W) < uint (max_nr_active_io_zones s)"
    and "open_io_zones s < uint (if io_type = kWAL then max_nr_open_io_zones s
           else max_nr_open_io_zones s - 1)"
  shows "\<exists>st zone s'. AllocateIOZone be lt io_type s = Some (st, zone, s')"
  using AllocateIOZone_returns [OF assms(1) [unfolded tokens_tok] assms(2-4)] by auto

theorem AllocateIOZone_terminates_witness:
  "\<exists>st zone s'. AllocateIOZone be0 2 kData zbd0 = Some (st, zone, s')"
  by (rule AllocateIOZone_terminates [OF zbd0_tokens])
    (simp_all only: zbd0_all, simp_all add: zbd0_def mk_zone_def)

text \<open>
  (C10) \<^verbatim>\<open>ResetUnusedIOZones\<close> keeps the accounting and the zones well formed, and it is safe for the
  data: a zone that holds valid data or is busy is not touched, and no byte of the media outside of
  the idle zones without valid data changes, whether the device obeys the resets or fails them.
\<close>

theorem ResetUnusedIOZones_safe:
  assumes "tokens W s" and "zones_wf s" and "reset_capacity be (zone_sz s)"
    and "manage_media be (zone_sz s) media" and "ResetUnusedIOZones be s = (st, s')"
  shows "tokens W s' \<and> zones_wf s' \<and>
    (\<forall>i<length (io_zones s). IsUsed (io_zones s ! i) \<or> z_busy (io_zones s ! i) \<longrightarrow>
       io_zones s' ! i = io_zones s ! i) \<and>
    (\<forall>a. (\<forall>v. idle s v \<and> \<not> IsUsed (io_zones s ! v) \<longrightarrow> \<not> in_zone (zone_sz s) (io_zones s ! v) a) \<longrightarrow>
       media (dev s') a = media (dev s) a)"
proof -
  have steps: "reset_steps be s s'"
    using ResetUnusedIOZones_loop_steps [of be "[0..<length (io_zones s)]" s st s'] assms(5)
    by (simp add: ResetUnusedIOZones_def)
  have "tokens W s'"
    using reset_steps_tok [OF steps] assms(1) by (simp add: tokens_tok)
  moreover have "zones_wf s'"
    by (rule reset_steps_wf [OF steps assms(2,3)])
  moreover have "\<forall>i<length (io_zones s). IsUsed (io_zones s ! i) \<or> z_busy (io_zones s ! i) \<longrightarrow>
       io_zones s' ! i = io_zones s ! i"
    using reset_steps_zone [OF steps] by (auto simp: idle_def)
  ultimately show ?thesis
    using reset_steps_media [OF steps zones_wf_fit [OF assms(2)] assms(4)] by blast
qed

theorem ResetUnusedIOZones_safe_witness:
  "case ResetUnusedIOZones be0 zbd0 of (st, s') \<Rightarrow>
     tokens {3} s' \<and> io_zones s' ! 0 = io_zones zbd0 ! 0 \<and> IsEmpty (io_zones s' ! 2) \<and>
     z_capacity (io_zones s' ! 2) = 48"
proof -
  have "tokens {3} (snd (ResetUnusedIOZones be0 zbd0))"
    using ResetUnusedIOZones_safe [OF zbd0_tokens zbd0_wf, of be0 id]
    by (cases "ResetUnusedIOZones be0 zbd0") (simp add: zbd0_def)
  then show ?thesis
    by (simp add: ResetUnusedIOZones_def upt_rec zbd0_def mk_zone_def acquire_io_def release_io_def
        upd_io_def reset_io_def Zone_Reset_def IsEmpty_def IsUsed_def IsFull_def Let_def)
qed





text \<open>
  (C24) The search for an open zone is optimal and clean: it always succeeds; it returns an idle zone
  with valid data, free capacity of at least \<^verbatim>\<open>min_capacity\<close> and the least life time difference of
  all such zones, which it holds, every other zone being as it was; and it returns no zone
  only if every such zone has a difference beyond \<^verbatim>\<open>LIFETIME_DIFF_NOT_GOOD\<close>.
\<close>

theorem GetBestOpenZoneMatch_correct:
  "case GetBestOpenZoneMatch lt min_cap s of (st, best_diff, zone, s') \<Rightarrow>
     st = OK \<and> s' = hold zone s \<and>
     (\<forall>i<length (io_zones s). reusable min_cap (io_zones s ! i) \<longrightarrow>
        best_diff \<le> GetLifeTimeDiff (z_lifetime (io_zones s ! i)) lt) \<and>
     (case zone of
        None \<Rightarrow> best_diff = LIFETIME_DIFF_NOT_GOOD \<and>
          (\<forall>i<length (io_zones s). reusable min_cap (io_zones s ! i) \<longrightarrow>
             LIFETIME_DIFF_NOT_GOOD < GetLifeTimeDiff (z_lifetime (io_zones s ! i)) lt)
      | Some a \<Rightarrow> idle s a \<and> reusable min_cap (io_zones s ! a) \<and>
          best_diff = GetLifeTimeDiff (z_lifetime (io_zones s ! a)) lt)"
  by (cases rule: GetBestOpenZoneMatch_cases [of lt min_cap s]) (auto intro: less_imp_le)

theorem GetBestOpenZoneMatch_correct_witness:
  "case GetBestOpenZoneMatch 2 40 zbd0 of (st, best_diff, zone, s') \<Rightarrow>
     s' = hold zone zbd0 \<and> zone = Some 0 \<and> best_diff = 2"
proof -
  have eval: "\<exists>t. GetBestOpenZoneMatch 2 40 zbd0 = (OK, 2, Some 0, t)"
    by (simp add: GetBestOpenZoneMatch_def upt_rec zbd0_def mk_zone_def acquire_io_def release_io_def
        upd_io_def IsFull_def GetLifeTimeDiff_def LIFETIME_DIFF_NOT_GOOD_def WLTH_NOT_SET_def
        WLTH_NONE_def Let_def)
  then obtain t where t: "GetBestOpenZoneMatch 2 40 zbd0 = (OK, 2, Some 0, t)" ..
  show ?thesis
    using GetBestOpenZoneMatch_correct [where lt = 2 and min_cap = 40 and s = zbd0] unfolding t by simp
qed

text \<open>
  (C25) \<^verbatim>\<open>FinishCheapestIOZone\<close> finishes the idle, partly written zone with the least capacity left
  and returns its active token; it does nothing if there is no such zone, and if the device
  refuses, the zone and the tokens stay as they were.
\<close>

theorem FinishCheapestIOZone_correct:
  "case FinishCheapestIOZone be s of (st, s') \<Rightarrow>
     (\<forall>i. idle s i \<longrightarrow> \<not> is_active (io_zones s ! i)) \<and> st = OK \<and> s' = s \<or>
     (\<exists>v. idle s v \<and>
        (if ok st
         then is_active (io_zones s ! v) \<and>
           (\<forall>i. idle s i \<and> is_active (io_zones s ! i) \<longrightarrow>
              z_capacity (io_zones s ! v) \<le> z_capacity (io_zones s ! i)) \<and>
           io_zones s' = (io_zones s)[v := finished (zone_sz s) (io_zones s ! v)] \<and>
           active_io_zones s' = active_io_zones s - 1
         else io_zones s' = io_zones s \<and> active_io_zones s' = active_io_zones s))"
proof (cases rule: FinishCheapestIOZone_cases [of be s])
  case none
  then show ?thesis by (auto simp: idle_def is_active_def)
next
  case (fail st v)
  then show ?thesis by auto
next
  case (fin v)
  then show ?thesis by (auto simp: is_active_def PutActiveIOZoneToken_def)
qed

theorem FinishCheapestIOZone_correct_witness:
  "case FinishCheapestIOZone be0 zbd0 of (st, s') \<Rightarrow>
     ok st \<and> IsFull (io_zones s' ! 0) \<and> active_io_zones s' = 1"
proof -
  have "\<exists>t. FinishCheapestIOZone be0 zbd0 = (OK, t) \<and> IsFull (io_zones t ! 0) \<and> t \<noteq> zbd0"
    by (simp add: FinishCheapestIOZone_def upt_rec zbd0_def mk_zone_def acquire_io_def release_io_def
        upd_io_def finish_io_def Zone_Finish_def IsEmpty_def IsFull_def PutActiveIOZoneToken_def Let_def)
  then obtain t where "FinishCheapestIOZone be0 zbd0 = (OK, t)" "IsFull (io_zones t ! 0)" "t \<noteq> zbd0"
    by blast
  then show ?thesis
    using FinishCheapestIOZone_correct [where be = be0 and s = zbd0] by (auto simp: zbd0_def)
qed

text \<open>
  (C29) A deferred error is never recorded: \<^verbatim>\<open>SetZoneDeferredStatus\<close> stores a status only if the
  stored one is already an error, and the stored one starts as OK. Whatever statuses are reported,
  the device is unchanged and no later allocation is refused because of them.
\<close>

theorem deferred_status_lost:
  assumes "ok (zone_deferred_status s)"
  shows "fold SetZoneDeferredStatus sts s = s"
  using assms by (induction sts) (simp_all add: SetZoneDeferredStatus_def)

theorem deferred_status_lost_witness:
  "GetZoneDeferredStatus (fold SetZoneDeferredStatus [IOError ''close failed'' []] zbd0) = OK"
  using deferred_status_lost [of zbd0 "[IOError ''close failed'' []]"]
  by (simp add: zbd0_def GetZoneDeferredStatus_def)

text \<open>
  (C30) On a device that may have two open zones the limit for I/O zones is zero, since two are
  reserved. The limit of the allocators without priority is then computed as the largest unsigned
  number: they are never held back, while an allocator with priority waits forever.
\<close>

theorem open_limit_wraps:
  assumes "max_nr_open_io_zones s = 0" and "0 \<le> open_io_zones s" and "open_io_zones s < 2 ^ 32 - 1"
  shows "WaitForOpenIOZoneToken True s = None \<and>
    WaitForOpenIOZoneToken False s = Some (s\<lparr>open_io_zones := open_io_zones s + 1\<rparr>)"
  using assms
  by (simp add: WaitForOpenIOZoneToken_def Let_def unsigned_minus_1_eq_mask mask_eq_exp_minus_1)

theorem open_limit_wraps_witness:
  "WaitForOpenIOZoneToken True (zbd0\<lparr>max_nr_open_io_zones := 2 - reserved_zones\<rparr>) = None \<and>
   WaitForOpenIOZoneToken False (zbd0\<lparr>max_nr_open_io_zones := 2 - reserved_zones\<rparr>) \<noteq> None"
  using open_limit_wraps [of "zbd0\<lparr>max_nr_open_io_zones := 2 - reserved_zones\<rparr>"]
  by (simp add: zbd0_def reserved_zones_def)

end
