(* ===== verification/ZoneFile.thy ===== *)
theory ZoneFile
  imports Coding ZoneTokens
begin

text \<open>
  Files: classes \<^verbatim>\<open>ZoneExtent\<close> and \<^verbatim>\<open>ZoneFile\<close> of \<^verbatim>\<open>plugin/zenfs/fs/io_zenfs.h\<close> and \<^verbatim>\<open>io_zenfs.cc\<close>,
  the part that concerns the description of a file: its extents and links, the record that describes it
  in the metadata log, and the merging of an update into a file.

  A zone pointer is an index into \<^verbatim>\<open>io_zones\<close>. File names are strings, written to the log as bytes.
  Decoding and merging account the valid data of a zone in its \<^verbatim>\<open>used_capacity_\<close>, so they pass the
  state of the device along. The mutex for the one writer is the flag \<^verbatim>\<open>open_for_wr_\<close>.
\<close>

definition unstr :: "bytes \<Rightarrow> string" where
  "unstr = map (\<lambda>b. char_of (unat b))"

lemma unstr_str [simp]: "unstr (str name) = name"
proof -
  have "of_char c = (of_nat (of_char c) :: byte)" for c :: char
    by (rule of_nat_of_char [symmetric])
  moreover have "of_char c < (2 :: nat) ^ LENGTH(8)" for c :: char
    using mod_less_divisor [of 256 "of_char c :: nat"] by (simp add: of_char_mod_256)
  ultimately have "char_of (unat (of_char c :: byte)) = c" for c :: char
    by (metis char_of_char unat_of_nat_small)
  then show ?thesis by (simp add: unstr_def comp_def)
qed

section \<open>Extents and files\<close>

record ZoneExtent =
  e_start :: u64
  e_length :: u64
  e_zone :: nat

record ZoneFile =
  extents :: "ZoneExtent list"
  linkfiles :: "string list"
  active_zone :: "nat option"
  extent_start :: u64
  extent_filepos :: u64
  lifetime :: WriteLifeTimeHint
  io_type :: IOType
  file_size :: u64
  file_id :: u64
  nr_synced_extents :: u32
  open_for_wr :: bool
  m_time :: u64
  is_sparse :: bool
  is_deleted :: bool

definition NO_EXTENT :: u64 where "NO_EXTENT = 0xffffffffffffffff"

definition SPARSE_HEADER_SIZE :: nat where "SPARSE_HEADER_SIZE = 8"

definition new_ZoneFile :: "u64 \<Rightarrow> ZoneFile" where
  "new_ZoneFile fid =
     \<lparr>extents = [], linkfiles = [], active_zone = None, extent_start = NO_EXTENT, extent_filepos = 0,
      lifetime = WLTH_NOT_SET, io_type = kUnknown, file_size = 0, file_id = fid,
      nr_synced_extents = 0, open_for_wr = False, m_time = 0, is_sparse = False, is_deleted = False\<rparr>"

definition HasActiveExtent :: "ZoneFile \<Rightarrow> bool" where
  "HasActiveExtent zf \<longleftrightarrow> extent_start zf \<noteq> NO_EXTENT"

definition MetadataSynced :: "ZoneFile \<Rightarrow> ZoneFile" where
  "MetadataSynced zf = zf\<lparr>nr_synced_extents := of_nat (length (extents zf))\<rparr>"

definition MetadataUnsynced :: "ZoneFile \<Rightarrow> ZoneFile" where
  "MetadataUnsynced zf = zf\<lparr>nr_synced_extents := 0\<rparr>"

text \<open>Valid data of a zone, counted up and down.\<close>

definition add_used :: "nat \<Rightarrow> u64 \<Rightarrow> ('d, 'm) ZBD_scheme \<Rightarrow> ('d, 'm) ZBD_scheme" where
  "add_used i len s =
     upd_io i ((io_zones s ! i)\<lparr>z_used_capacity := z_used_capacity (io_zones s ! i) + len\<rparr>) s"

definition sub_used :: "nat \<Rightarrow> u64 \<Rightarrow> ('d, 'm) ZBD_scheme \<Rightarrow> ('d, 'm) ZBD_scheme" where
  "sub_used i len s =
     upd_io i ((io_zones s ! i)\<lparr>z_used_capacity := z_used_capacity (io_zones s ! i) - len\<rparr>) s"

definition ClearExtents :: "ZoneFile \<Rightarrow> ('d, 'm) ZBD_scheme \<Rightarrow> ZoneFile \<times> ('d, 'm) ZBD_scheme" where
  "ClearExtents zf s =
     (zf\<lparr>extents := []\<rparr>, fold (\<lambda>e. sub_used (e_zone e) (e_length e)) (extents zf) s)"

section \<open>The record of a file in the log\<close>

definition ZoneExtent_EncodeTo :: "bytes \<Rightarrow> ZoneExtent \<Rightarrow> bytes" where
  "ZoneExtent_EncodeTo output e = PutFixed64 (PutFixed64 output (e_start e)) (e_length e)"

text \<open>The decoder fills in the start and the length; the zone is looked up afterwards.\<close>

definition ZoneExtent_DecodeFrom :: "bytes \<Rightarrow> IOStatus + u64 \<times> u64" where
  "ZoneExtent_DecodeFrom input =
     (if length input \<noteq> 16 then Inl (Corruption ''ZoneExtent'' ''Error: length missmatch'')
      else
        (case GetFixed64 input of
           None \<Rightarrow> Inr (0, 0)
         | Some (start, rest) \<Rightarrow>
             (case GetFixed64 rest of None \<Rightarrow> Inr (start, 0) | Some (len, _) \<Rightarrow> Inr (start, len))))"

definition kFileID :: u32 where "kFileID = 1"

definition kFileNameDeprecated :: u32 where "kFileNameDeprecated = 2"

definition kFileSize :: u32 where "kFileSize = 3"

definition kWriteLifeTimeHint :: u32 where "kWriteLifeTimeHint = 4"

definition kExtent :: u32 where "kExtent = 5"

definition kModificationTime :: u32 where "kModificationTime = 6"

definition kActiveExtentStart :: u32 where "kActiveExtentStart = 7"

definition kIsSparse :: u32 where "kIsSparse = 8"

definition kLinkedFilename :: u32 where "kLinkedFilename = 9"

lemmas zone_file_tags = kFileID_def kFileNameDeprecated_def kFileSize_def kWriteLifeTimeHint_def
  kExtent_def kModificationTime_def kActiveExtentStart_def kIsSparse_def kLinkedFilename_def

definition put_extent :: "ZoneExtent \<Rightarrow> bytes \<Rightarrow> bytes" where
  "put_extent e output =
     PutLengthPrefixedSlice (PutFixed32 output kExtent) (ZoneExtent_EncodeTo [] e)"

definition put_link :: "string \<Rightarrow> bytes \<Rightarrow> bytes" where
  "put_link name output = PutLengthPrefixedSlice (PutFixed32 output kLinkedFilename) (str name)"

definition ZoneFile_EncodeTo :: "bytes \<Rightarrow> ZoneFile \<Rightarrow> nat \<Rightarrow> bytes" where
  "ZoneFile_EncodeTo output zf extent_from =
     (let o1 = PutFixed64 (PutFixed32 output kFileID) (file_id zf);
          o2 = PutFixed64 (PutFixed32 o1 kFileSize) (file_size zf);
          o3 = PutFixed32 (PutFixed32 o2 kWriteLifeTimeHint) (lifetime zf);
          o4 = fold put_extent (drop extent_from (extents zf)) o3;
          o5 = PutFixed64 (PutFixed32 o4 kModificationTime) (m_time zf);
          o6 = PutFixed64 (PutFixed32 o5 kActiveExtentStart) (extent_start zf);
          o7 = (if is_sparse zf then PutFixed32 o6 kIsSparse else o6)
      in fold put_link (linkfiles zf) o7)"

definition EncodeUpdateTo :: "bytes \<Rightarrow> ZoneFile \<Rightarrow> bytes" where
  "EncodeUpdateTo output zf = ZoneFile_EncodeTo output zf (unat (nr_synced_extents zf))"

definition EncodeSnapshotTo :: "bytes \<Rightarrow> ZoneFile \<Rightarrow> bytes" where
  "EncodeSnapshotTo output zf = ZoneFile_EncodeTo output zf 0"

text \<open>
  The decoding loop. \<open>input\<close> gets shorter in every round, since a tag is four bytes long.
\<close>

lemma GetFixed_length:
  "GetFixed32 input = Some (v, rest) \<Longrightarrow> length rest + 4 = length input"
  "GetFixed64 input = Some (w, rest) \<Longrightarrow> length rest + 8 = length input"
  by (auto simp: GetFixed32_def GetFixed64_def split: if_splits)

lemma GetVarint32PtrFallback_loop_length:
  "GetVarint32PtrFallback_loop input shift r = Some (v, rest) \<Longrightarrow> length rest < length input"
  by (induction input shift r rule: GetVarint32PtrFallback_loop.induct)
    (fastforce simp: Let_def split: if_splits)+

lemma GetLengthPrefixedSlice_length:
  assumes "GetLengthPrefixedSlice input = Some (sl, rest)"
  shows "length rest < length input"
proof -
  obtain len r where g: "GetVarint32 input = Some (len, r)" and "rest = drop (unat len) r"
    using assms by (auto simp: GetLengthPrefixedSlice_def split: option.splits if_splits)
  moreover have "length r < length input"
    using g by (auto simp: GetVarint32_def GetVarint32Ptr_eq_fallback GetVarint32PtrFallback_def
        dest: GetVarint32PtrFallback_loop_length)
  ultimately show ?thesis by simp
qed

function (sequential) DecodeFrom_loop ::
  "bytes \<Rightarrow> ZoneFile \<Rightarrow> ('d, 'm) ZBD_scheme \<Rightarrow> IOStatus \<times> ZoneFile \<times> ('d, 'm) ZBD_scheme"
where
  "DecodeFrom_loop input zf s =
     (case GetFixed32 input of
        None \<Rightarrow> (OK, MetadataSynced zf, s)
      | Some (tag, r) \<Rightarrow>
          if tag = kFileSize then
            (case GetFixed64 r of
               None \<Rightarrow> (Corruption ''ZoneFile'' ''Missing file size'', zf, s)
             | Some (v, r') \<Rightarrow> DecodeFrom_loop r' (zf\<lparr>file_size := v\<rparr>) s)
          else if tag = kWriteLifeTimeHint then
            (case GetFixed32 r of
               None \<Rightarrow> (Corruption ''ZoneFile'' ''Missing life time hint'', zf, s)
             | Some (lt, r') \<Rightarrow> DecodeFrom_loop r' (zf\<lparr>lifetime := lt\<rparr>) s)
          else if tag = kExtent then
            (case GetLengthPrefixedSlice r of
               None \<Rightarrow> (Corruption ''ZoneExtent'' ''Error: length missmatch'', zf, s)
             | Some (sl, r') \<Rightarrow>
                 (case ZoneExtent_DecodeFrom sl of
                    Inl st \<Rightarrow> (st, zf, s)
                  | Inr (start, len) \<Rightarrow>
                      (case GetIOZone s start of
                         None \<Rightarrow> (Corruption ''ZoneFile'' ''Invalid zone extent'', zf, s)
                       | Some i \<Rightarrow>
                           DecodeFrom_loop r'
                             (zf\<lparr>extents := extents zf @ [\<lparr>e_start = start, e_length = len, e_zone = i\<rparr>]\<rparr>)
                             (add_used i len s))))
          else if tag = kModificationTime then
            (case GetFixed64 r of
               None \<Rightarrow> (Corruption ''ZoneFile'' ''Missing creation time'', zf, s)
             | Some (ct, r') \<Rightarrow> DecodeFrom_loop r' (zf\<lparr>m_time := ct\<rparr>) s)
          else if tag = kActiveExtentStart then
            (case GetFixed64 r of
               None \<Rightarrow> (Corruption ''ZoneFile'' ''Active extent start'', zf, s)
             | Some (es, r') \<Rightarrow> DecodeFrom_loop r' (zf\<lparr>extent_start := es\<rparr>) s)
          else if tag = kIsSparse then DecodeFrom_loop r (zf\<lparr>is_sparse := True\<rparr>) s
          else if tag = kLinkedFilename then
            (case GetLengthPrefixedSlice r of
               None \<Rightarrow> (Corruption ''ZoneFile'' ''LinkFilename missing'', zf, s)
             | Some (sl, r') \<Rightarrow>
                 if sl = [] then (Corruption ''ZoneFile'' ''Zero length Linkfilename'', zf, s)
                 else DecodeFrom_loop r' (zf\<lparr>linkfiles := linkfiles zf @ [unstr sl]\<rparr>) s)
          else (Corruption ''ZoneFile'' ''Unexpected tag'', zf, s))"
  by pat_completeness auto
termination
  by (relation "measure (\<lambda>(input, zf, s). length input)")
    (auto dest!: GetFixed_length GetLengthPrefixedSlice_length)

declare DecodeFrom_loop.simps [simp del]

definition ZoneFile_DecodeFrom ::
  "bytes \<Rightarrow> ZoneFile \<Rightarrow> ('d, 'm) ZBD_scheme \<Rightarrow> IOStatus \<times> ZoneFile \<times> ('d, 'm) ZBD_scheme"
where
  "ZoneFile_DecodeFrom input zf s =
     (case GetFixed32 input of
        None \<Rightarrow> (Corruption ''ZoneFile'' ''File ID missing'', zf, s)
      | Some (tag, r) \<Rightarrow>
          if tag \<noteq> kFileID then (Corruption ''ZoneFile'' ''File ID missing'', zf, s)
          else
            (case GetFixed64 r of
               None \<Rightarrow> (Corruption ''ZoneFile'' ''File ID missing'', zf, s)
             | Some (fid, r') \<Rightarrow> DecodeFrom_loop r' (zf\<lparr>file_id := fid\<rparr>) s))"

section \<open>Merging an update, links, extents\<close>

definition MergeUpdate ::
  "ZoneFile \<Rightarrow> bool \<Rightarrow> ZoneFile \<Rightarrow> ('d, 'm) ZBD_scheme \<Rightarrow> IOStatus \<times> ZoneFile \<times> ('d, 'm) ZBD_scheme"
where
  "MergeUpdate update replace zf s =
     (if file_id zf \<noteq> file_id update
      then (Corruption ''ZoneFile update'' ''ID missmatch'', zf, s)
      else
        (let zf1 = zf\<lparr>file_size := file_size update, lifetime := lifetime update, m_time := m_time update\<rparr>;
             (zf2, s2) = (if replace then ClearExtents zf1 s else (zf1, s));
             s3 = fold (\<lambda>e. add_used (e_zone e) (e_length e)) (extents update) s2;
             zf3 = zf2\<lparr>extents := extents zf2 @ extents update, extent_start := extent_start update,
                       is_sparse := is_sparse update\<rparr>
         in (OK, (MetadataSynced zf3)\<lparr>linkfiles := linkfiles update\<rparr>, s3)))"

definition ReplaceExtentList :: "ZoneExtent list \<Rightarrow> ZoneFile \<Rightarrow> ZoneFile" where
  "ReplaceExtentList new_list zf = zf\<lparr>extents := new_list\<rparr>"

definition AddLinkName :: "string \<Rightarrow> ZoneFile \<Rightarrow> ZoneFile" where
  "AddLinkName linkf zf = zf\<lparr>linkfiles := linkfiles zf @ [linkf]\<rparr>"

definition RenameLink :: "string \<Rightarrow> string \<Rightarrow> ZoneFile \<Rightarrow> IOStatus \<times> ZoneFile" where
  "RenameLink src dest zf =
     (if src \<in> set (linkfiles zf)
      then (OK, zf\<lparr>linkfiles := remove1 src (linkfiles zf) @ [dest]\<rparr>)
      else (IOError ''RenameLink: Failed to find the linked file'' [], zf))"

definition RemoveLinkName :: "string \<Rightarrow> ZoneFile \<Rightarrow> IOStatus \<times> ZoneFile" where
  "RemoveLinkName linkf zf =
     (if linkf \<in> set (linkfiles zf) then (OK, zf\<lparr>linkfiles := remove1 linkf (linkfiles zf)\<rparr>)
      else (IOError ''RemoveLinkInfo: Failed to find the link file'' [], zf))"

definition GetNrLinks :: "ZoneFile \<Rightarrow> nat" where
  "GetNrLinks zf = length (linkfiles zf)"

definition GetFilename :: "ZoneFile \<Rightarrow> string" where
  "GetFilename zf = linkfiles zf ! 0"

definition SetFileSize :: "u64 \<Rightarrow> ZoneFile \<Rightarrow> ZoneFile" where
  "SetFileSize sz zf = zf\<lparr>file_size := sz\<rparr>"

definition SetFileModificationTime :: "u64 \<Rightarrow> ZoneFile \<Rightarrow> ZoneFile" where
  "SetFileModificationTime mt zf = zf\<lparr>m_time := mt\<rparr>"

definition SetIOType :: "IOType \<Rightarrow> ZoneFile \<Rightarrow> ZoneFile" where
  "SetIOType t zf = zf\<lparr>io_type := t\<rparr>"

definition SetWriteLifeTimeHint :: "WriteLifeTimeHint \<Rightarrow> ZoneFile \<Rightarrow> ZoneFile" where
  "SetWriteLifeTimeHint lt zf = zf\<lparr>lifetime := lt\<rparr>"

definition SetSparse :: "bool \<Rightarrow> ZoneFile \<Rightarrow> ZoneFile" where
  "SetSparse b zf = zf\<lparr>is_sparse := b\<rparr>"

definition SetDeleted :: "ZoneFile \<Rightarrow> ZoneFile" where
  "SetDeleted zf = zf\<lparr>is_deleted := True\<rparr>"

text \<open>The writer lock: taking it blocks while another writer has it.\<close>

definition AcquireWRLock :: "ZoneFile \<Rightarrow> ZoneFile option" where
  "AcquireWRLock zf = (if open_for_wr zf then None else Some (zf\<lparr>open_for_wr := True\<rparr>))"

definition TryAcquireWRLock :: "ZoneFile \<Rightarrow> bool \<times> ZoneFile" where
  "TryAcquireWRLock zf = (if open_for_wr zf then (False, zf) else (True, zf\<lparr>open_for_wr := True\<rparr>))"

definition ReleaseWRLock :: "ZoneFile \<Rightarrow> ZoneFile" where
  "ReleaseWRLock zf = zf\<lparr>open_for_wr := False\<rparr>"

fun GetExtent_loop :: "ZoneExtent list \<Rightarrow> u64 \<Rightarrow> (ZoneExtent \<times> u64) option" where
  "GetExtent_loop [] file_offset = None"
| "GetExtent_loop (e # es) file_offset =
     (if file_offset < e_length e then Some (e, e_start e + file_offset)
      else GetExtent_loop es (file_offset - e_length e))"

definition GetExtent :: "ZoneFile \<Rightarrow> u64 \<Rightarrow> (ZoneExtent \<times> u64) option" where
  "GetExtent zf file_offset = GetExtent_loop (extents zf) file_offset"

section \<open>Round trip of the log record\<close>

text \<open>The encodings of one extent and of one link name as strings of their own.\<close>

definition extent_bytes :: "ZoneExtent \<Rightarrow> bytes" where
  "extent_bytes e = EncodeFixed32 kExtent @ EncodeSlice (EncodeFixed64 (e_start e) @ EncodeFixed64 (e_length e))"

definition link_bytes :: "string \<Rightarrow> bytes" where
  "link_bytes name = EncodeFixed32 kLinkedFilename @ EncodeSlice (str name)"

lemma fold_put_extent: "fold put_extent es dst = dst @ concat (map extent_bytes es)"
  by (induction es arbitrary: dst)
    (simp_all add: put_extent_def extent_bytes_def PutLengthPrefixedSlice_append PutFixed32_def
      ZoneExtent_EncodeTo_def PutFixed64_def)

lemma fold_put_link: "fold put_link names dst = dst @ concat (map link_bytes names)"
  by (induction names arbitrary: dst)
    (simp_all add: put_link_def link_bytes_def PutLengthPrefixedSlice_append PutFixed32_def)

lemma ZoneFile_EncodeTo_bytes:
  "ZoneFile_EncodeTo output zf k =
     output @ EncodeFixed32 kFileID @ EncodeFixed64 (file_id zf) @
     EncodeFixed32 kFileSize @ EncodeFixed64 (file_size zf) @
     EncodeFixed32 kWriteLifeTimeHint @ EncodeFixed32 (lifetime zf) @
     concat (map extent_bytes (drop k (extents zf))) @
     EncodeFixed32 kModificationTime @ EncodeFixed64 (m_time zf) @
     EncodeFixed32 kActiveExtentStart @ EncodeFixed64 (extent_start zf) @
     (if is_sparse zf then EncodeFixed32 kIsSparse else []) @
     concat (map link_bytes (linkfiles zf))"
  by (simp add: ZoneFile_EncodeTo_def Let_def PutFixed32_def PutFixed64_def fold_put_extent fold_put_link)

text \<open>One round of the decoder on each kind of item.\<close>

lemma DecodeFrom_loop_fixed:
  "DecodeFrom_loop (EncodeFixed32 kFileSize @ EncodeFixed64 v @ rest) zf s
     = DecodeFrom_loop rest (zf\<lparr>file_size := v\<rparr>) s"
  "DecodeFrom_loop (EncodeFixed32 kWriteLifeTimeHint @ EncodeFixed32 lt @ rest) zf s
     = DecodeFrom_loop rest (zf\<lparr>lifetime := lt\<rparr>) s"
  "DecodeFrom_loop (EncodeFixed32 kModificationTime @ EncodeFixed64 v @ rest) zf s
     = DecodeFrom_loop rest (zf\<lparr>m_time := v\<rparr>) s"
  "DecodeFrom_loop (EncodeFixed32 kActiveExtentStart @ EncodeFixed64 v @ rest) zf s
     = DecodeFrom_loop rest (zf\<lparr>extent_start := v\<rparr>) s"
  "DecodeFrom_loop (EncodeFixed32 kIsSparse @ rest) zf s = DecodeFrom_loop rest (zf\<lparr>is_sparse := True\<rparr>) s"
  by (subst DecodeFrom_loop.simps, simp add: zone_file_tags)+

lemma DecodeFrom_loop_end: "DecodeFrom_loop [] zf s = (OK, MetadataSynced zf, s)"
  by (subst DecodeFrom_loop.simps) (simp add: GetFixed32_def)

lemma find_index_map: "find_index P (map f xs) = find_index (\<lambda>x. P (f x)) xs"
  by (induction xs) simp_all

lemma GetIOZone_cong:
  assumes "map z_start (io_zones t) = map z_start (io_zones s)" and "zone_sz t = zone_sz s"
  shows "GetIOZone t off = GetIOZone s off"
proof -
  have "GetIOZone s off = find_index (\<lambda>a. a \<le> off \<and> off < a + zone_sz s) (map z_start (io_zones s))"
    "GetIOZone t off = find_index (\<lambda>a. a \<le> off \<and> off < a + zone_sz t) (map z_start (io_zones t))"
    by (simp_all add: GetIOZone_def find_index_map)
  with assms show ?thesis by simp
qed

definition located :: "('d, 'm) ZBD_scheme \<Rightarrow> ZoneExtent \<Rightarrow> bool" where
  "located s e \<longleftrightarrow> GetIOZone s (e_start e) = Some (e_zone e)"

definition links_ok :: "string list \<Rightarrow> bool" where
  "links_ok names \<longleftrightarrow> (\<forall>name\<in>set names. name \<noteq> [] \<and> length name < 2 ^ 32)"

abbreviation use_extents :: "ZoneExtent list \<Rightarrow> ('d, 'm) ZBD_scheme \<Rightarrow> ('d, 'm) ZBD_scheme" where
  "use_extents es s \<equiv> fold (\<lambda>e. add_used (e_zone e) (e_length e)) es s"

abbreviation drop_extents :: "ZoneExtent list \<Rightarrow> ('d, 'm) ZBD_scheme \<Rightarrow> ('d, 'm) ZBD_scheme" where
  "drop_extents es s \<equiv> fold (\<lambda>e. sub_used (e_zone e) (e_length e)) es s"

lemma used_start [simp]:
  "map z_start (io_zones (add_used i len s)) = map z_start (io_zones s)"
  "map z_start (io_zones (sub_used i len s)) = map z_start (io_zones s)"
  "zone_sz (add_used i len s) = zone_sz s" "zone_sz (sub_used i len s) = zone_sz s"
  by (simp_all add: add_used_def sub_used_def list_update_same_fun)

lemma located_used [simp]:
  "located (add_used i len s) e = located s e" "located (sub_used i len s) e = located s e"
  using GetIOZone_cong [of "add_used i len s" s "e_start e"] GetIOZone_cong [of "sub_used i len s" s "e_start e"]
  by (simp_all add: located_def)

lemma ZoneExtent_eta: "\<lparr>e_start = e_start e, e_length = e_length e, e_zone = e_zone e\<rparr> = e"
  by simp

lemma DecodeFrom_loop_extent:
  assumes "located s e"
  shows "DecodeFrom_loop (extent_bytes e @ rest) zf s
    = DecodeFrom_loop rest (zf\<lparr>extents := extents zf @ [e]\<rparr>) (add_used (e_zone e) (e_length e) s)"
proof -
  let ?body = "EncodeFixed64 (e_start e) @ EncodeFixed64 (e_length e)"
  have "slice_ok ?body" by (simp add: slice_ok_def)
  then have "GetLengthPrefixedSlice (EncodeSlice ?body @ rest) = Some (?body, rest)"
    by (rule slice.dec_enc)
  moreover have "ZoneExtent_DecodeFrom ?body = Inr (e_start e, e_length e)"
    by (simp add: ZoneExtent_DecodeFrom_def)
  ultimately show ?thesis
    using assms unfolding extent_bytes_def
    by (subst DecodeFrom_loop.simps) (simp add: zone_file_tags located_def ZoneExtent_eta)
qed

lemma DecodeFrom_loop_extents:
  assumes "\<forall>e\<in>set es. located s e"
  shows "DecodeFrom_loop (concat (map extent_bytes es) @ rest) zf s
    = DecodeFrom_loop rest (zf\<lparr>extents := extents zf @ es\<rparr>) (use_extents es s)"
  using assms
proof (induction es arbitrary: zf s)
  case (Cons e es)
  then show ?case using DecodeFrom_loop_extent [of s e "concat (map extent_bytes es) @ rest" zf] by simp
qed simp

lemma DecodeFrom_loop_link:
  assumes "name \<noteq> []" and "length name < 2 ^ 32"
  shows "DecodeFrom_loop (link_bytes name @ rest) zf s
    = DecodeFrom_loop rest (zf\<lparr>linkfiles := linkfiles zf @ [name]\<rparr>) s"
proof -
  have "slice_ok (str name)" using assms(2) by (simp add: slice_ok_def)
  then have "GetLengthPrefixedSlice (EncodeSlice (str name) @ rest) = Some (str name, rest)"
    by (rule slice.dec_enc)
  with assms(1) show ?thesis
    unfolding link_bytes_def by (subst DecodeFrom_loop.simps) (simp add: zone_file_tags)
qed

lemma DecodeFrom_loop_links:
  assumes "links_ok names"
  shows "DecodeFrom_loop (concat (map link_bytes names) @ rest) zf s
    = DecodeFrom_loop rest (zf\<lparr>linkfiles := linkfiles zf @ names\<rparr>) s"
  using assms
proof (induction names arbitrary: zf)
  case (Cons name names)
  then show ?case
    using DecodeFrom_loop_link [of name "concat (map link_bytes names) @ rest" zf s]
    by (simp add: links_ok_def)
qed simp

text \<open>What decoding a record of \<open>zf\<close> that starts at extent \<open>k\<close> makes of the file object \<open>nf\<close>.\<close>

definition decoded :: "ZoneFile \<Rightarrow> nat \<Rightarrow> ZoneFile \<Rightarrow> ZoneFile" where
  "decoded zf k nf =
     MetadataSynced (nf\<lparr>file_id := file_id zf, file_size := file_size zf, lifetime := lifetime zf,
       extents := extents nf @ drop k (extents zf), m_time := m_time zf, extent_start := extent_start zf,
       is_sparse := is_sparse nf \<or> is_sparse zf, linkfiles := linkfiles nf @ linkfiles zf\<rparr>)"

lemma DecodeFrom_EncodeTo:
  assumes "\<forall>e\<in>set (drop k (extents zf)). located s e" and "links_ok (linkfiles zf)"
  shows "ZoneFile_DecodeFrom (ZoneFile_EncodeTo [] zf k) nf s
    = (OK, decoded zf k nf, use_extents (drop k (extents zf)) s)"
proof -
  have links: "DecodeFrom_loop (concat (map link_bytes (linkfiles zf))) f t
      = (OK, MetadataSynced (f\<lparr>linkfiles := linkfiles f @ linkfiles zf\<rparr>), t)" for f and t :: "('a, 'b) ZBD_scheme"
    using DecodeFrom_loop_links [OF assms(2), of "[]" f t] by (simp add: DecodeFrom_loop_end)
  show ?thesis
    using DecodeFrom_loop_extents [OF assms(1)]
    by (cases "is_sparse zf")
      (simp_all add: ZoneFile_EncodeTo_bytes ZoneFile_DecodeFrom_def DecodeFrom_loop_fixed links decoded_def)
qed

text \<open>
  Merging the record of the unsynced extents into the file as it was last synced.
\<close>

lemma MergeUpdate_decoded:
  assumes "file_id base = file_id zf" and "\<not> is_sparse nf" and "extents nf = []" and "linkfiles nf = []"
  shows "MergeUpdate (decoded zf k nf) False base s =
    (OK, (MetadataSynced (base\<lparr>file_size := file_size zf, lifetime := lifetime zf, m_time := m_time zf,
            extents := extents base @ drop k (extents zf), extent_start := extent_start zf,
            is_sparse := is_sparse zf\<rparr>))\<lparr>linkfiles := linkfiles zf\<rparr>,
     use_extents (drop k (extents zf)) s)"
  using assms by (simp add: MergeUpdate_def decoded_def MetadataSynced_def)

section \<open>Accounting of valid data\<close>

text \<open>
  \<open>adj u s\<close> adds \<open>u i\<close> to the used capacity of every zone \<open>i\<close>. All the accounting is of this form,
  so steps of it commute and cancel.
\<close>

definition adj :: "(nat \<Rightarrow> u64) \<Rightarrow> ('d, 'm) ZBD_scheme \<Rightarrow> ('d, 'm) ZBD_scheme" where
  "adj u s =
     s\<lparr>io_zones := map (\<lambda>i. (io_zones s ! i)\<lparr>z_used_capacity := z_used_capacity (io_zones s ! i) + u i\<rparr>)
       [0..<length (io_zones s)]\<rparr>"

definition used_by :: "ZoneExtent list \<Rightarrow> nat \<Rightarrow> u64" where
  "used_by es i = sum_list (map (\<lambda>e. if e_zone e = i then e_length e else 0) es)"

lemma used_by_simps [simp]:
  "used_by [] i = 0" "used_by (e # es) i = (if e_zone e = i then e_length e else 0) + used_by es i"
  "used_by (es @ es') i = used_by es i + used_by es' i"
  by (simp_all add: used_by_def)

lemma adj_sel [simp]:
  "length (io_zones (adj u s)) = length (io_zones s)"
  "i < length (io_zones s) \<Longrightarrow> io_zones (adj u s) ! i
     = (io_zones s ! i)\<lparr>z_used_capacity := z_used_capacity (io_zones s ! i) + u i\<rparr>"
  "dev (adj u s) = dev s" "zone_sz (adj u s) = zone_sz s" "block_sz (adj u s) = block_sz s"
  "meta_zones (adj u s) = meta_zones s" "open_io_zones (adj u s) = open_io_zones s"
  "active_io_zones (adj u s) = active_io_zones s"
  by (simp_all add: adj_def)

lemma adj_adj [simp]: "adj u (adj v s) = adj (\<lambda>i. u i + v i) s"
  by (simp add: adj_def add_ac)

lemma adj_0 [simp]: "adj (\<lambda>_. 0) s = s"
  by (simp add: adj_def map_nth)

lemma adj_starts [simp]: "map z_start (io_zones (adj u s)) = map z_start (io_zones s)"
  by (simp add: adj_def map_equality_iff)

lemma upd_used_adj:
  "upd_io i ((io_zones s ! i)\<lparr>z_used_capacity := z_used_capacity (io_zones s ! i) + v\<rparr>) s
     = adj (\<lambda>j. if i = j then v else 0) s"
proof -
  have "(io_zones s)[i := (io_zones s ! i)\<lparr>z_used_capacity := z_used_capacity (io_zones s ! i) + v\<rparr>]
      = io_zones (adj (\<lambda>j. if i = j then v else 0) s)"
  proof (rule nth_equalityI)
    fix j
    assume "j < length ((io_zones s)[i := (io_zones s ! i)
      \<lparr>z_used_capacity := z_used_capacity (io_zones s ! i) + v\<rparr>])"
    then show "(io_zones s)[i := (io_zones s ! i)
        \<lparr>z_used_capacity := z_used_capacity (io_zones s ! i) + v\<rparr>] ! j
        = io_zones (adj (\<lambda>j. if i = j then v else 0) s) ! j"
      by (cases "i = j") simp_all
  qed simp
  then show ?thesis by (simp add: upd_io_def adj_def)
qed

lemma add_used_adj: "add_used i len s = adj (\<lambda>j. if i = j then len else 0) s"
  unfolding add_used_def by (rule upd_used_adj)

lemma sub_used_adj: "sub_used i len s = adj (\<lambda>j. if i = j then - len else 0) s"
  using upd_used_adj [of i s "- len"] by (simp add: sub_used_def)

lemma use_extents_adj: "use_extents es s = adj (used_by es) s"
proof (induction es arbitrary: s)
  case Nil
  show ?case by (simp add: used_by_def)
next
  case (Cons e es)
  have "(\<lambda>i. used_by es i + (if e_zone e = i then e_length e else 0)) = used_by (e # es)"
    by (auto simp: add.commute)
  moreover have "use_extents (e # es) s = adj (used_by es) (add_used (e_zone e) (e_length e) s)"
    using Cons.IH by simp
  ultimately show ?case using add_used_adj [of "e_zone e" "e_length e" s] by (simp only: adj_adj)
qed

lemma drop_extents_adj: "drop_extents es s = adj (\<lambda>i. - used_by es i) s"
proof (induction es arbitrary: s)
  case Nil
  show ?case by (simp add: used_by_def)
next
  case (Cons e es)
  have "(\<lambda>i. - used_by es i + (if e_zone e = i then - e_length e else 0)) = (\<lambda>i. - used_by (e # es) i)"
    by (auto simp: algebra_simps)
  moreover have "drop_extents (e # es) s = adj (\<lambda>i. - used_by es i) (sub_used (e_zone e) (e_length e) s)"
    using Cons.IH by simp
  ultimately show ?case using sub_used_adj [of "e_zone e" "e_length e" s] by (simp only: adj_adj)
qed

lemma use_drop_extents: "drop_extents es (use_extents es s) = s"
  by (simp add: use_extents_adj drop_extents_adj)

section \<open>Extents as a sequence of addresses\<close>

text \<open>
  \<open>file_addrs es\<close> is the device address of every byte of the file, in file order. Looking up an extent
  is indexing this list.
\<close>

definition ext_addrs :: "ZoneExtent \<Rightarrow> u64 list" where
  "ext_addrs e = map (\<lambda>i. e_start e + of_nat i) [0..<unat (e_length e)]"

definition file_addrs :: "ZoneExtent list \<Rightarrow> u64 list" where
  "file_addrs es = concat (map ext_addrs es)"

lemma length_ext_addrs [simp]: "length (ext_addrs e) = unat (e_length e)"
  by (simp add: ext_addrs_def)

lemma nth_ext_addrs [simp]: "i < unat (e_length e) \<Longrightarrow> ext_addrs e ! i = e_start e + of_nat i"
  by (simp add: ext_addrs_def)

lemma file_addrs_simps [simp]:
  "file_addrs [] = []" "file_addrs (e # es) = ext_addrs e @ file_addrs es"
  "file_addrs (es @ es') = file_addrs es @ file_addrs es'"
  by (simp_all add: file_addrs_def)

lemma length_file_addrs: "length (file_addrs es) = sum_list (map (\<lambda>e. unat (e_length e)) es)"
  by (induction es) simp_all

lemma GetExtent_loop_addrs:
  "case GetExtent_loop es off of
     None \<Rightarrow> length (file_addrs es) \<le> unat off
   | Some (e, a) \<Rightarrow>
       \<exists>pre post. es = pre @ e # post \<and> length (file_addrs pre) \<le> unat off \<and>
         unat off < length (file_addrs pre) + unat (e_length e) \<and>
         a = e_start e + of_nat (unat off - length (file_addrs pre))"
proof (induction es arbitrary: off)
  case (Cons e es)
  show ?case
  proof (cases "off < e_length e")
    case True
    then show ?thesis
      by (simp add: word_less_nat_alt) (rule exI [of _ "[]"], simp)
  next
    case False
    then have off: "unat (off - e_length e) = unat off - unat (e_length e)"
      and le: "unat (e_length e) \<le> unat off"
      by (simp_all add: unat_sub_no_wrap not_less word_le_nat_alt)
    show ?thesis
    proof (cases "GetExtent_loop es (off - e_length e)")
      case None
      with Cons [of "off - e_length e"] False off le show ?thesis by auto
    next
      case (Some r)
      obtain e' a where r: "r = (e', a)" by (cases r)
      with Some Cons [of "off - e_length e"] obtain pre post where
        "es = pre @ e' # post" "length (file_addrs pre) \<le> unat off - unat (e_length e)"
        "unat off - unat (e_length e) < length (file_addrs pre) + unat (e_length e')"
        "a = e_start e' + of_nat (unat off - unat (e_length e) - length (file_addrs pre))"
        by (auto simp: off)
      then have "e # es = (e # pre) @ e' # post \<and> length (file_addrs (e # pre)) \<le> unat off \<and>
         unat off < length (file_addrs (e # pre)) + unat (e_length e') \<and>
         a = e_start e' + of_nat (unat off - length (file_addrs (e # pre)))"
        using le by (auto simp: diff_diff_eq simp del: of_nat_diff)
      moreover have "GetExtent_loop (e # es) off = Some (e', a)"
        using Some r False by simp
      ultimately show ?thesis by (simp only: option.case prod.case) blast
    qed
  qed
qed simp

lemma GetExtent_addr:
  assumes "GetExtent zf off = Some (e, a)"
  shows "unat off < length (file_addrs (extents zf))" and "a = file_addrs (extents zf) ! unat off"
    and "e \<in> set (extents zf)"
proof -
  obtain pre post where x: "extents zf = pre @ e # post" "length (file_addrs pre) \<le> unat off"
    "unat off < length (file_addrs pre) + unat (e_length e)"
    "a = e_start e + of_nat (unat off - length (file_addrs pre))"
    using GetExtent_loop_addrs [of "extents zf" off] assms by (auto simp: GetExtent_def)
  then show "unat off < length (file_addrs (extents zf))" "a = file_addrs (extents zf) ! unat off"
    "e \<in> set (extents zf)"
    by (auto simp: nth_append)
qed

lemma GetExtent_None:
  "GetExtent zf off = None \<longleftrightarrow> length (file_addrs (extents zf)) \<le> unat off"
  using GetExtent_loop_addrs [of "extents zf" off] GetExtent_addr(1) [of zf off]
  by (cases "GetExtent zf off") (auto simp: GetExtent_def)

section \<open>Properties\<close>

text \<open>What the log keeps of a file.\<close>

definition same_meta :: "ZoneFile \<Rightarrow> ZoneFile \<Rightarrow> bool" where
  "same_meta f g \<longleftrightarrow>
     file_id f = file_id g \<and> file_size f = file_size g \<and> lifetime f = lifetime g \<and>
     extents f = extents g \<and> m_time f = m_time g \<and> extent_start f = extent_start g \<and>
     is_sparse f = is_sparse g \<and> linkfiles f = linkfiles g"

lemma same_meta_decoded: "same_meta (decoded zf 0 (new_ZoneFile i)) zf"
  by (simp add: same_meta_def decoded_def new_ZoneFile_def MetadataSynced_def)

text \<open>
  (C13) The snapshot record of a file whose extents lie in I/O zones and whose link names are not
  empty decodes, into a new file object, to a file with the same identifier, size, life time,
  extents, modification time, active extent, sparse flag and links; all of its extents count as
  synced, and the used capacity of every zone grows by the length of the extents in it.
\<close>

theorem ZoneFile_snapshot_roundtrip:
  assumes "\<forall>e\<in>set (extents zf). located s e" and "links_ok (linkfiles zf)"
  shows "\<exists>f. ZoneFile_DecodeFrom (EncodeSnapshotTo [] zf) (new_ZoneFile i) s
      = (OK, f, adj (used_by (extents zf)) s) \<and>
    same_meta f zf \<and> nr_synced_extents f = of_nat (length (extents zf))"
  using DecodeFrom_EncodeTo [of 0 zf s "new_ZoneFile i"] assms same_meta_decoded [of zf i]
  by (auto simp: EncodeSnapshotTo_def use_extents_adj)
    (simp add: decoded_def MetadataSynced_def new_ZoneFile_def)

definition zf0 :: ZoneFile where
  "zf0 = (new_ZoneFile 7)\<lparr>extents := [\<lparr>e_start = 200, e_length = 6, e_zone = 0\<rparr>,
      \<lparr>e_start = 384, e_length = 4, e_zone = 3\<rparr>], linkfiles := [''db/000007.sst''], file_size := 10,
      lifetime := 3, m_time := 1700000000, nr_synced_extents := 1\<rparr>"

lemma zf0_located: "\<forall>e\<in>set (extents zf0). located zbd0 e"
  by (simp add: zf0_def located_def GetIOZone_def zbd0_def mk_zone_def)

lemma zf0_links: "links_ok (linkfiles zf0)"
  by (simp add: zf0_def links_ok_def)

theorem ZoneFile_snapshot_roundtrip_witness:
  "\<exists>f. ZoneFile_DecodeFrom (EncodeSnapshotTo [] zf0) (new_ZoneFile 1) zbd0
      = (OK, f, adj (used_by (extents zf0)) zbd0) \<and> same_meta f zf0 \<and> nr_synced_extents f = 2"
  using ZoneFile_snapshot_roundtrip [OF zf0_located zf0_links, of 1] by (simp add: zf0_def)

text \<open>
  (C12) Replaying an incremental update: if a recovered file \<open>base\<close> has the extents of \<open>zf\<close> that
  were synced, then decoding the update record of \<open>zf\<close> and merging it gives a file that agrees
  with \<open>zf\<close> in everything the log keeps. With the decoded object destroyed, the used capacity has
  grown by exactly the extents that were not synced before.
\<close>

theorem ZoneFile_update_replay:
  assumes "\<forall>e\<in>set (extents zf). located s e" and "links_ok (linkfiles zf)"
    and "file_id base = file_id zf" and "extents base = take (unat (nr_synced_extents zf)) (extents zf)"
  shows "\<exists>upd s1 f s2. ZoneFile_DecodeFrom (EncodeUpdateTo [] zf) (new_ZoneFile i) s = (OK, upd, s1) \<and>
    MergeUpdate upd False base s1 = (OK, f, s2) \<and> same_meta f zf \<and>
    snd (ClearExtents upd s2) = adj (used_by (drop (unat (nr_synced_extents zf)) (extents zf))) s"
proof -
  let ?n = "unat (nr_synced_extents zf)" and ?nf = "new_ZoneFile i"
  let ?u = "drop ?n (extents zf)"
  have "\<forall>e\<in>set ?u. located s e"
    using assms(1) by (auto dest: in_set_dropD)
  note dec = DecodeFrom_EncodeTo [OF this assms(2), of ?nf]
  note mrg = MergeUpdate_decoded [OF assms(3), of ?nf ?n "use_extents ?u s"]
  let ?f = "(MetadataSynced (base\<lparr>file_size := file_size zf, lifetime := lifetime zf, m_time := m_time zf,
            extents := extents base @ ?u, extent_start := extent_start zf,
            is_sparse := is_sparse zf\<rparr>))\<lparr>linkfiles := linkfiles zf\<rparr>"
  have "same_meta ?f zf"
    using assms(3,4) by (simp add: same_meta_def MetadataSynced_def)
  moreover have "snd (ClearExtents (decoded zf ?n ?nf) (use_extents ?u (use_extents ?u s)))
      = adj (used_by ?u) s"
    using use_drop_extents [of ?u "use_extents ?u s"]
    by (simp add: ClearExtents_def decoded_def MetadataSynced_def new_ZoneFile_def use_extents_adj)
  ultimately show ?thesis
    using dec mrg by (simp add: EncodeUpdateTo_def new_ZoneFile_def)
qed

theorem ZoneFile_update_replay_witness:
  "\<exists>upd s1 f s2. ZoneFile_DecodeFrom (EncodeUpdateTo [] zf0) (new_ZoneFile 1) zbd0 = (OK, upd, s1) \<and>
     MergeUpdate upd False (zf0\<lparr>extents := [\<lparr>e_start = 200, e_length = 6, e_zone = 0\<rparr>], file_size := 6\<rparr>) s1
       = (OK, f, s2) \<and> extents f = extents zf0 \<and> file_size f = 10"
  using ZoneFile_update_replay [OF zf0_located zf0_links,
      of "zf0\<lparr>extents := [\<lparr>e_start = 200, e_length = 6, e_zone = 0\<rparr>], file_size := 6\<rparr>" 1]
  by (auto simp: zf0_def same_meta_def)

text \<open>
  (C21) \<^verbatim>\<open>GetExtent\<close> is exact: it finds an extent if and only if the offset lies in the extents of the
  file, and then it returns the device address of that byte of the file and an extent of the file
  that contains it.
\<close>

theorem GetExtent_correct:
  "case GetExtent zf off of
     None \<Rightarrow> length (file_addrs (extents zf)) \<le> unat off
   | Some (e, a) \<Rightarrow> unat off < length (file_addrs (extents zf)) \<and> e \<in> set (extents zf) \<and>
       a = file_addrs (extents zf) ! unat off \<and> unat (a - e_start e) < unat (e_length e)"
proof (cases "GetExtent zf off")
  case None
  moreover have "length (file_addrs (extents zf)) \<le> unat off"
    using None by (simp only: GetExtent_None)
  ultimately show ?thesis by simp
next
  case (Some r)
  obtain e a where r: "r = (e, a)" by (cases r)
  obtain pre post where x: "extents zf = pre @ e # post" "length (file_addrs pre) \<le> unat off"
    "unat off < length (file_addrs pre) + unat (e_length e)"
    "a = e_start e + of_nat (unat off - length (file_addrs pre))"
    using GetExtent_loop_addrs [of "extents zf" off] Some r by (auto simp: GetExtent_def)
  have "unat off - length (file_addrs pre) < 2 ^ 64"
    using unat_u64_less [of off] by simp
  then have "unat (a - e_start e) = unat off - length (file_addrs pre)"
    unfolding x(4) by (simp add: unat_of_nat_small del: of_nat_diff)
  with x GetExtent_addr [of zf off e a] Some r show ?thesis by auto
qed

end
