(* ===== verification/FileIO.thy ===== *)
theory FileIO
  imports ZoneFile
begin

text \<open>
  Reading and writing files: the rest of class \<^verbatim>\<open>ZoneFile\<close> and the classes \<^verbatim>\<open>ZonedWritableFile\<close>,
  \<^verbatim>\<open>ZonedSequentialFile\<close> and \<^verbatim>\<open>ZonedRandomAccessFile\<close> of \<^verbatim>\<open>plugin/zenfs/fs/io_zenfs.h\<close> and
  \<^verbatim>\<open>io_zenfs.cc\<close>.

  File objects are shared by the file system and the file handles, so they live in a store
  (\<open>zfiles\<close>) that the state carries, and a pointer to a file is an index into it. A file object calls its
  metadata writer in the middle of an append; the writer is the parameter \<open>persist\<close>, which maps the
  pointer and the state to a status and a state. Requests of two gigabytes and more, which the sources
  narrow to a signed integer, are outside the model.
\<close>

section \<open>The store of files\<close>

record 'd FileHeap = "'d ZBD" +
  zfiles :: "nat \<Rightarrow> ZoneFile"

type_synonym ('d, 'm) persist =
  "nat \<Rightarrow> ('d, 'm) FileHeap_scheme \<Rightarrow> (IOStatus \<times> ('d, 'm) FileHeap_scheme) option"

definition upd_file ::
  "nat \<Rightarrow> (ZoneFile \<Rightarrow> ZoneFile) \<Rightarrow> ('d, 'm) FileHeap_scheme \<Rightarrow> ('d, 'm) FileHeap_scheme" where
  "upd_file f g s = s\<lparr>zfiles := (zfiles s)(f := g (zfiles s f))\<rparr>"

section \<open>The active zone of a file\<close>

definition SetActiveZone :: "nat \<Rightarrow> nat \<Rightarrow> ('d, 'm) FileHeap_scheme \<Rightarrow> ('d, 'm) FileHeap_scheme" where
  "SetActiveZone f i s = upd_file f (\<lambda>zf. zf\<lparr>active_zone := Some i\<rparr>) s"

definition ReleaseActiveZone ::
  "nat \<Rightarrow> nat \<Rightarrow> ('d, 'm) FileHeap_scheme \<Rightarrow> ('d, 'm) FileHeap_scheme" where
  "ReleaseActiveZone f i s =
     (let (b, z) = Release (io_zones s ! i)
      in upd_file f (\<lambda>zf. zf\<lparr>active_zone := None\<rparr>) (upd_io i z s))"

definition CloseActiveZone ::
  "'d backend \<Rightarrow> nat \<Rightarrow> ('d, 'm) FileHeap_scheme \<Rightarrow> IOStatus \<times> ('d, 'm) FileHeap_scheme" where
  "CloseActiveZone be f s =
     (case active_zone (zfiles s f) of
        None \<Rightarrow> (OK, s)
      | Some i \<Rightarrow>
          (let full = IsFull (io_zones s ! i);
               (st, s1) = close_io be i s;
               s2 = ReleaseActiveZone f i s1
           in if \<not> ok st then (st, s2)
              else (let s3 = PutOpenIOZoneToken s2
                    in (st, if full then PutActiveIOZoneToken s3 else s3))))"

definition CloseWR ::
  "'d backend \<Rightarrow> ('d, 'm) persist \<Rightarrow> nat \<Rightarrow> ('d, 'm) FileHeap_scheme \<Rightarrow>
     (IOStatus \<times> ('d, 'm) FileHeap_scheme) option" where
  "CloseWR be persist f s =
     do {
       (st, s1) \<leftarrow> persist f (upd_file f (\<lambda>zf. zf\<lparr>extent_start := NO_EXTENT\<rparr>) s);
       if \<not> ok st then Some (st, s1)
       else Some (CloseActiveZone be f (upd_file f ReleaseWRLock s1))
     }"

definition PushExtent :: "nat \<Rightarrow> ('d, 'm) FileHeap_scheme \<Rightarrow> ('d, 'm) FileHeap_scheme" where
  "PushExtent f s =
     (let zf = zfiles s f
      in case active_zone zf of
           None \<Rightarrow> s
         | Some i \<Rightarrow>
             (let len = file_size zf - extent_filepos zf
              in if len = 0 then s
                 else
                   (let s1 = add_used i len
                          (upd_file f (\<lambda>zf. zf\<lparr>extents := extents zf @
                             [\<lparr>e_start = extent_start zf, e_length = len, e_zone = i\<rparr>]\<rparr>) s)
                    in upd_file f (\<lambda>zf. zf\<lparr>extent_start := z_wp (io_zones s1 ! i),
                                          extent_filepos := file_size zf\<rparr>) s1)))"

definition AllocateNewZone ::
  "'d backend \<Rightarrow> ('d, 'm) persist \<Rightarrow> nat \<Rightarrow> ('d, 'm) FileHeap_scheme \<Rightarrow>
     (IOStatus \<times> ('d, 'm) FileHeap_scheme) option" where
  "AllocateNewZone be persist f s =
     do {
       (st, zone, s1) \<leftarrow> AllocateIOZone be (lifetime (zfiles s f)) (io_type (zfiles s f)) s;
       if \<not> ok st then Some (st, s1)
       else
         (case zone of
            None \<Rightarrow> Some (NoSpace (''Zone allocation failure'' @ [CHR 0x0A]) [], s1)
          | Some i \<Rightarrow>
              (let s2 = SetActiveZone f i s1;
                   s3 = upd_file f (\<lambda>zf. zf\<lparr>extent_start := z_wp (io_zones s2 ! i),
                                          extent_filepos := file_size zf\<rparr>) s2
               in persist f s3))
     }"

text \<open>The zone a file writes to; the callers have checked that there is one.\<close>

definition the_active :: "nat \<Rightarrow> ('d, 'm) FileHeap_scheme \<Rightarrow> nat" where
  "the_active f s = (case active_zone (zfiles s f) of Some i \<Rightarrow> i | None \<Rightarrow> 0)"

definition ensure_active ::
  "'d backend \<Rightarrow> ('d, 'm) persist \<Rightarrow> nat \<Rightarrow> ('d, 'm) FileHeap_scheme \<Rightarrow>
     (IOStatus \<times> ('d, 'm) FileHeap_scheme) option" where
  "ensure_active be persist f s =
     (if active_zone (zfiles s f) = None then AllocateNewZone be persist f s else Some (OK, s))"

section \<open>Appending\<close>

definition memset0 :: "bytes \<Rightarrow> nat \<Rightarrow> nat \<Rightarrow> bytes" where
  "memset0 buf pos n = take pos buf @ replicate n 0 @ drop (pos + n) buf"

definition memcpy :: "bytes \<Rightarrow> nat \<Rightarrow> bytes \<Rightarrow> bytes" where
  "memcpy buf pos src = take pos buf @ src @ drop (pos + length src) buf"

text \<open>
  Write size and padding of a round: as much as the zone takes, padded to the block size.
\<close>

definition clip :: "u32 \<Rightarrow> Zone \<Rightarrow> u32" where
  "clip wr_size z = (if ucast wr_size > z_capacity z then ucast (z_capacity z) else wr_size)"

definition pad_to_block :: "u32 \<Rightarrow> u32 \<Rightarrow> u32" where
  "pad_to_block bs wr_size = (let align = wr_size mod bs in if align \<noteq> 0 then bs - align else 0)"

text \<open>The bookkeeping after a successful write of one extent.\<close>

definition note_extent ::
  "nat \<Rightarrow> nat \<Rightarrow> u64 \<Rightarrow> u64 \<Rightarrow> ('d, 'm) FileHeap_scheme \<Rightarrow> ('d, 'm) FileHeap_scheme" where
  "note_extent f i start len s =
     (let s1 = upd_file f (\<lambda>zf. zf\<lparr>extents := extents zf @
                [\<lparr>e_start = start, e_length = len, e_zone = i\<rparr>],
                extent_start := z_wp (io_zones s ! i)\<rparr>) s
      in upd_file f (\<lambda>zf. zf\<lparr>file_size := file_size zf + len\<rparr>) (add_used i len s1))"

partial_function (option) BufferedAppend_loop ::
  "'d backend \<Rightarrow> ('d, 'm) persist \<Rightarrow> nat \<Rightarrow> bytes \<Rightarrow> u32 \<Rightarrow> ('d, 'm) FileHeap_scheme \<Rightarrow>
     (IOStatus \<times> bytes \<times> ('d, 'm) FileHeap_scheme) option"
where
  "BufferedAppend_loop be persist f buffer left s =
     (if left = 0 then Some (OK, buffer, s)
      else
        (let i = the_active f s;
             wr_size = clip left (io_zones s ! i);
             pad_sz = pad_to_block (block_sz s) wr_size;
             buffer1 = memset0 buffer (unat wr_size) (unat pad_sz);
             extent_length = ucast wr_size :: u64
         in do {
              (st, s1) \<leftarrow> append_io be i buffer1 (wr_size + pad_sz) s;
              if \<not> ok st then Some (st, buffer1, s1)
              else
                (let s2 = note_extent f i (extent_start (zfiles s1 f)) extent_length s1;
                     left1 = left - wr_size
                 in if z_capacity (io_zones s2 ! i) = 0
                    then
                      (let (st2, s3) = CloseActiveZone be f s2
                       in if \<not> ok st2 then Some (st2, buffer1, s3)
                          else
                            (let buffer2 = memcpy buffer1 0 (take (unat left1) (drop (unat wr_size) buffer1))
                             in do {
                                  (st3, s4) \<leftarrow> AllocateNewZone be persist f s3;
                                  if \<not> ok st3 then Some (st3, buffer2, s4)
                                  else BufferedAppend_loop be persist f buffer2 left1 s4
                                }))
                    else BufferedAppend_loop be persist f buffer1 left1 s2)
            }))"

definition BufferedAppend ::
  "'d backend \<Rightarrow> ('d, 'm) persist \<Rightarrow> nat \<Rightarrow> bytes \<Rightarrow> u32 \<Rightarrow> ('d, 'm) FileHeap_scheme \<Rightarrow>
     (IOStatus \<times> bytes \<times> ('d, 'm) FileHeap_scheme) option"
where
  "BufferedAppend be persist f buffer data_size s =
     do {
       (st, s1) \<leftarrow> ensure_active be persist f s;
       if \<not> ok st then Some (st, buffer, s1) else BufferedAppend_loop be persist f buffer data_size s1
     }"

text \<open>The sparse format: every write starts with its length, for which the caller left room.\<close>

partial_function (option) SparseAppend_loop ::
  "'d backend \<Rightarrow> ('d, 'm) persist \<Rightarrow> nat \<Rightarrow> bytes \<Rightarrow> u32 \<Rightarrow> ('d, 'm) FileHeap_scheme \<Rightarrow>
     (IOStatus \<times> bytes \<times> ('d, 'm) FileHeap_scheme) option"
where
  "SparseAppend_loop be persist f buffer left s =
     (if left = 0 then Some (OK, buffer, s)
      else
        (let i = the_active f s;
             wr_size = clip (left + 8) (io_zones s ! i);
             pad_sz = pad_to_block (block_sz s) wr_size;
             buffer1 = memset0 buffer (unat wr_size) (unat pad_sz);
             extent_length = ucast (wr_size - 8) :: u64;
             buffer2 = memcpy buffer1 0 (EncodeFixed64 extent_length)
         in do {
              (st, s1) \<leftarrow> append_io be i buffer2 (wr_size + pad_sz) s;
              if \<not> ok st then Some (st, buffer2, s1)
              else
                (let s2 = note_extent f i (extent_start (zfiles s1 f) + of_nat SPARSE_HEADER_SIZE)
                            extent_length s1;
                     left1 = left - ucast extent_length
                 in if z_capacity (io_zones s2 ! i) = 0
                    then
                      (let (st2, s3) = CloseActiveZone be f s2
                       in if \<not> ok st2 then Some (st2, buffer2, s3)
                          else
                            (let buffer3 = memcpy buffer2 SPARSE_HEADER_SIZE
                                   (take (unat left1) (drop (unat wr_size) buffer2))
                             in do {
                                  (st3, s4) \<leftarrow> AllocateNewZone be persist f s3;
                                  if \<not> ok st3 then Some (st3, buffer3, s4)
                                  else SparseAppend_loop be persist f buffer3 left1 s4
                                }))
                    else SparseAppend_loop be persist f buffer2 left1 s2)
            }))"

definition SparseAppend ::
  "'d backend \<Rightarrow> ('d, 'm) persist \<Rightarrow> nat \<Rightarrow> bytes \<Rightarrow> u32 \<Rightarrow> ('d, 'm) FileHeap_scheme \<Rightarrow>
     (IOStatus \<times> bytes \<times> ('d, 'm) FileHeap_scheme) option"
where
  "SparseAppend be persist f buffer data_size s =
     do {
       (st, s1) \<leftarrow> ensure_active be persist f s;
       if \<not> ok st then Some (st, buffer, s1) else SparseAppend_loop be persist f buffer data_size s1
     }"

text \<open>Direct appends of block-aligned data; the extent is pushed when the zone is full or on a sync.\<close>

definition next_zone_if_full ::
  "'d backend \<Rightarrow> ('d, 'm) persist \<Rightarrow> nat \<Rightarrow> ('d, 'm) FileHeap_scheme \<Rightarrow>
     (IOStatus \<times> ('d, 'm) FileHeap_scheme) option" where
  "next_zone_if_full be persist f s =
     (if z_capacity (io_zones s ! the_active f s) = 0
      then
        (let (st, s1) = CloseActiveZone be f (PushExtent f s)
         in if \<not> ok st then Some (st, s1) else AllocateNewZone be persist f s1)
      else Some (OK, s))"

partial_function (option) Append_loop ::
  "'d backend \<Rightarrow> ('d, 'm) persist \<Rightarrow> nat \<Rightarrow> bytes \<Rightarrow> u32 \<Rightarrow> ('d, 'm) FileHeap_scheme \<Rightarrow>
     (IOStatus \<times> ('d, 'm) FileHeap_scheme) option"
where
  "Append_loop be persist f data left s =
     (if left = 0 then Some (OK, s)
      else
        do {
          (st, s1) \<leftarrow> next_zone_if_full be persist f s;
          if \<not> ok st then Some (st, s1)
          else
            (let i = the_active f s1; wr_size = clip left (io_zones s1 ! i)
             in do {
                  (st1, s2) \<leftarrow> append_io be i data wr_size s1;
                  if \<not> ok st1 then Some (st1, s2)
                  else Append_loop be persist f (drop (unat wr_size) data) (left - wr_size)
                         (upd_file f (\<lambda>zf. zf\<lparr>file_size := file_size zf + ucast wr_size\<rparr>) s2)
                })
        })"

definition ZoneFile_Append ::
  "'d backend \<Rightarrow> ('d, 'm) persist \<Rightarrow> nat \<Rightarrow> bytes \<Rightarrow> u32 \<Rightarrow> ('d, 'm) FileHeap_scheme \<Rightarrow>
     (IOStatus \<times> ('d, 'm) FileHeap_scheme) option"
where
  "ZoneFile_Append be persist f data data_size s =
     do {
       (st, s1) \<leftarrow> ensure_active be persist f s;
       if \<not> ok st then Some (st, s1) else Append_loop be persist f data data_size s1
     }"

section \<open>Reading\<close>

partial_function (option) ZoneFile_InvalidateCache_loop ::
  "'d backend \<Rightarrow> ZoneFile \<Rightarrow> u64 \<Rightarrow> u64 \<Rightarrow> ('d, 'm) FileHeap_scheme \<Rightarrow>
     (IOStatus \<times> ('d, 'm) FileHeap_scheme) option"
where
  "ZoneFile_InvalidateCache_loop be zf offset left s =
     (if left = 0 then Some (OK, s)
      else
        (case GetExtent zf offset of
           None \<Rightarrow> Some (IOError ''Extent not found while invalidating cache'' [], s)
         | Some (extent, dev_offset) \<Rightarrow>
             (let extent_end = e_start extent + e_length extent;
                  invalidate_size = min left (extent_end - dev_offset);
                  (st, s1) = ZBD_InvalidateCache be dev_offset invalidate_size s
              in if \<not> ok st then Some (st, s1)
                 else ZoneFile_InvalidateCache_loop be zf (offset + invalidate_size)
                        (left - invalidate_size) s1)))"

definition ZoneFile_InvalidateCache ::
  "'d backend \<Rightarrow> nat \<Rightarrow> u64 \<Rightarrow> u64 \<Rightarrow> ('d, 'm) FileHeap_scheme \<Rightarrow>
     (IOStatus \<times> ('d, 'm) FileHeap_scheme) option"
where
  "ZoneFile_InvalidateCache be f pos sz s =
     ZoneFile_InvalidateCache_loop be (zfiles s f) pos
       (if sz = 0 then file_size (zfiles s f) else sz) s"

text \<open>
  The loop of \<^verbatim>\<open>PositionedRead\<close>: \<open>acc\<close> is what is in the buffer up to \<^verbatim>\<open>ptr\<close>, so its length is
  \<^verbatim>\<open>read\<close>. The result is the last return value of a read and the bytes.
\<close>

definition bytes_to_align :: "bool \<Rightarrow> u32 \<Rightarrow> u64 \<Rightarrow> u64" where
  "bytes_to_align direct bs pread_sz =
     (if direct \<and> pread_sz mod ucast bs \<noteq> 0 then ucast bs - pread_sz mod ucast bs else 0)"

definition read_aligned :: "bool \<Rightarrow> u32 \<Rightarrow> u64 \<Rightarrow> bool" where
  "read_aligned direct bs pread_sz \<longleftrightarrow> direct \<or> pread_sz mod ucast bs = 0"

partial_function (option) PositionedRead_loop ::
  "'d backend \<Rightarrow> ZoneFile \<Rightarrow> u64 \<Rightarrow> bool \<Rightarrow> u64 \<Rightarrow> u64 \<Rightarrow> u64 \<Rightarrow> bytes \<Rightarrow> int \<Rightarrow> ('d, 'm) FileHeap_scheme \<Rightarrow>
     (int \<times> bytes \<times> ('d, 'm) FileHeap_scheme) option"
where
  "PositionedRead_loop be zf offset direct r_sz r_off extent_end acc r s =
     (let read = of_nat (length acc) :: u64
      in if read = r_sz then Some (r, acc, s)
         else
           (let want = r_sz - read;
                pread_sz = (if want + r_off > extent_end then extent_end - r_off else want);
                extra = bytes_to_align direct (block_sz s) pread_sz;
                aligned = read_aligned direct (block_sz s) pread_sz;
                pread_sz1 = pread_sz + extra
            in do {
                 (r1, buf, s1) \<leftarrow> ZBD_Read be r_off (unat pread_sz1) (direct \<and> aligned) s;
                 if r1 \<le> 0 then Some (r1, acc, s1)
                 else
                   (let got = (if (of_int r1 :: u64) \<le> pread_sz1 - extra then of_int r1
                               else pread_sz1 - extra);
                        acc1 = acc @ take (unat got) buf;
                        r_off1 = r_off + got;
                        read1 = of_nat (length acc1) :: u64
                    in if read1 \<noteq> r_sz \<and> r_off1 = extent_end
                       then
                         (case GetExtent zf (offset + read1) of
                            None \<Rightarrow> Some (r1, acc1, s1)
                          | Some (extent, _) \<Rightarrow>
                              PositionedRead_loop be zf offset direct r_sz (e_start extent)
                                (e_start extent + e_length extent) acc1 r1 s1)
                       else PositionedRead_loop be zf offset direct r_sz r_off1 extent_end acc1 r1 s1)
               }))"

definition PositionedRead ::
  "'d backend \<Rightarrow> nat \<Rightarrow> u64 \<Rightarrow> u64 \<Rightarrow> bool \<Rightarrow> ('d, 'm) FileHeap_scheme \<Rightarrow>
     (IOStatus \<times> bytes \<times> ('d, 'm) FileHeap_scheme) option"
where
  "PositionedRead be f offset n direct s =
     (let zf = zfiles s f
      in if offset \<ge> file_size zf then Some (OK, [], s)
         else
           (case GetExtent zf offset of
              None \<Rightarrow> Some (OK, [], s)
            | Some (extent, r_off) \<Rightarrow>
                (let extent_end = e_start extent + e_length extent;
                     r_sz = (if offset + n > file_size zf then file_size zf - offset else n)
                 in do {
                      (r, acc, s1) \<leftarrow> PositionedRead_loop be zf offset direct r_sz r_off extent_end [] 0 s;
                      if r < 0 then Some (IOError (''pread error'' @ [CHR 0x0A]) [], [], s1)
                      else Some (OK, acc, s1)
                    })))"

section \<open>Recovery of a file after a crash\<close>

text \<open>
  Whether the allocation of the block buffer succeeds is not part of the model: it does.
\<close>

partial_function (option) RecoverSparseExtents_loop ::
  "'d backend \<Rightarrow> nat \<Rightarrow> u64 \<Rightarrow> nat \<Rightarrow> u64 \<Rightarrow> ('d, 'm) FileHeap_scheme \<Rightarrow>
     (IOStatus \<times> ('d, 'm) FileHeap_scheme) option"
where
  "RecoverSparseExtents_loop be f end zone next_extent_start s =
     (if \<not> next_extent_start < end then Some (OK, s)
      else
        do {
          (ret, buffer, s1) \<leftarrow> ZBD_Read be next_extent_start (unat (block_sz s)) False s;
          if ret \<noteq> int (unat (block_sz s))
          then Some (IOError ''Unexpected read error while recovering'' [], s1)
          else
            (let extent_length = DecodeFixed64 buffer
             in if extent_length = 0
                then Some (IOError ''Unexpected extent length while recovering'' [], s1)
                else
                  (let s2 = upd_file f (\<lambda>zf. zf\<lparr>extents := extents zf @
                         [\<lparr>e_start = next_extent_start + of_nat SPARSE_HEADER_SIZE, e_length = extent_length,
                           e_zone = zone\<rparr>]\<rparr>) (add_used zone extent_length s1);
                       total = extent_length + of_nat SPARSE_HEADER_SIZE;
                       extent_blocks = total div ucast (block_sz s) +
                         (if total mod ucast (block_sz s) \<noteq> 0 then 1 else 0)
                   in RecoverSparseExtents_loop be f end zone
                        (next_extent_start + extent_blocks * ucast (block_sz s)) s2))
        })"

definition RecoverSparseExtents ::
  "'d backend \<Rightarrow> nat \<Rightarrow> u64 \<Rightarrow> u64 \<Rightarrow> nat \<Rightarrow> ('d, 'm) FileHeap_scheme \<Rightarrow>
     (IOStatus \<times> ('d, 'm) FileHeap_scheme) option"
where
  "RecoverSparseExtents be f start end zone s = RecoverSparseExtents_loop be f end zone start s"

definition Recover ::
  "'d backend \<Rightarrow> nat \<Rightarrow> ('d, 'm) FileHeap_scheme \<Rightarrow> (IOStatus \<times> ('d, 'm) FileHeap_scheme) option"
where
  "Recover be f s =
     (let zf = zfiles s f
      in if \<not> HasActiveExtent zf then Some (OK, s)
         else
           (case GetIOZone s (extent_start zf) of
              None \<Rightarrow> Some (IOError ''Could not find zone for extent start while recovering'' [], s)
            | Some zone \<Rightarrow>
                if z_wp (io_zones s ! zone) < extent_start zf
                then Some (IOError ''Zone wp is smaller than active extent start'' [], s)
                else
                  (let to_recover = z_wp (io_zones s ! zone) - extent_start zf
                   in if to_recover = 0
                      then Some (OK, upd_file f (\<lambda>zf. zf\<lparr>extent_start := NO_EXTENT\<rparr>) s)
                      else
                        do {
                          (st, s1) \<leftarrow>
                            (if is_sparse zf
                             then RecoverSparseExtents be f (extent_start zf) (z_wp (io_zones s ! zone)) zone s
                             else Some (OK, upd_file f (\<lambda>zf. zf\<lparr>extents := extents zf @
                                    [\<lparr>e_start = extent_start zf, e_length = to_recover, e_zone = zone\<rparr>]\<rparr>)
                                    (add_used zone to_recover s)));
                          if \<not> ok st then Some (st, s1)
                          else Some (OK, upd_file f (\<lambda>zf. zf\<lparr>extent_start := NO_EXTENT,
                                 file_size := sum_list (map e_length (extents zf))\<rparr>) s1)
                        })))"

section \<open>Migrating data\<close>

text \<open>
  The status of an append to the target zone is not looked at. The buffer has the size of a step; its
  allocation succeeds.
\<close>

partial_function (option) MigrateData_loop ::
  "'d backend \<Rightarrow> nat \<Rightarrow> u64 \<Rightarrow> u32 \<Rightarrow> u32 \<Rightarrow> ('d, 'm) ZBD_scheme \<Rightarrow> (IOStatus \<times> ('d, 'm) ZBD_scheme) option"
where
  "MigrateData_loop be target offset len read_sz s =
     (if len = 0 then Some (OK, s)
      else
        (let read_sz1 = (if len > read_sz then read_sz else len);
             pad_sz = (if read_sz1 mod block_sz s = 0 then 0 else block_sz s - read_sz1 mod block_sz s)
         in do {
              (r, buf, s1) \<leftarrow> ZBD_Read be offset (unat (read_sz1 + pad_sz)) True s;
              if r < 0 then Some (IOError (be_strerror be (dev s1)) [], s1)
              else
                do {
                  (st, s2) \<leftarrow> append_io be target buf (of_int r) s1;
                  MigrateData_loop be target (offset + of_int r) (len - read_sz1) read_sz1 s2
                }
            }))"

definition MigrateData ::
  "'d backend \<Rightarrow> u64 \<Rightarrow> u32 \<Rightarrow> nat \<Rightarrow> ('d, 'm) ZBD_scheme \<Rightarrow> (IOStatus \<times> ('d, 'm) ZBD_scheme) option"
where
  "MigrateData be offset len target s =
     (if offset mod ucast (block_sz s) \<noteq> 0
      then Some (IOError (''MigrateData offset is not aligned!'' @ [CHR 0x0A]) [], s)
      else MigrateData_loop be target offset len (push_bit 10 128) s)"

section \<open>Writable files\<close>

text \<open>
  \<open>w_mem\<close> is the memory block that the constructor allocates. \<^verbatim>\<open>buffer\<close> points to its start, or behind
  the room for the header if the file is sparse. The locks of the buffer are left out.
\<close>

record ZonedWritableFile =
  w_buffered :: bool
  w_mem :: bytes
  w_buffer_sz :: u64
  w_block_sz :: u32
  w_buffer_pos :: u32
  w_wp :: u64
  w_open :: bool
  w_file :: nat

definition new_ZonedWritableFile ::
  "bytes \<Rightarrow> bool \<Rightarrow> nat \<Rightarrow> ('d, 'm) FileHeap_scheme \<Rightarrow> ZonedWritableFile" where
  "new_ZonedWritableFile mem buffered f s =
     (let sparse_buffer_sz = 1024 * 1024 + ucast (block_sz s) :: u64;
          sparse = is_sparse (zfiles s f)
      in \<lparr>w_buffered = buffered,
          w_mem = (if buffered
                   then take (if sparse then unat sparse_buffer_sz else 1024 * 1024) mem else []),
          w_buffer_sz =
            (if buffered
             then (if sparse then sparse_buffer_sz - of_nat SPARSE_HEADER_SIZE - ucast (block_sz s)
                   else 1024 * 1024)
             else 0),
          w_block_sz = block_sz s, w_buffer_pos = 0, w_wp = file_size (zfiles s f), w_open = True,
          w_file = f\<rparr>)"

definition buffer_off :: "ZonedWritableFile \<Rightarrow> ('d, 'm) FileHeap_scheme \<Rightarrow> nat" where
  "buffer_off w s = (if is_sparse (zfiles s (w_file w)) then SPARSE_HEADER_SIZE else 0)"

definition FlushBuffer ::
  "'d backend \<Rightarrow> ('d, 'm) persist \<Rightarrow> ZonedWritableFile \<Rightarrow> ('d, 'm) FileHeap_scheme \<Rightarrow>
     (IOStatus \<times> ZonedWritableFile \<times> ('d, 'm) FileHeap_scheme) option"
where
  "FlushBuffer be persist w s =
     (if w_buffer_pos w = 0 then Some (OK, w, s)
      else
        do {
          (st, mem, s1) \<leftarrow>
            (if is_sparse (zfiles s (w_file w))
             then SparseAppend be persist (w_file w) (w_mem w) (w_buffer_pos w) s
             else BufferedAppend be persist (w_file w) (w_mem w) (w_buffer_pos w) s);
          if \<not> ok st then Some (st, w\<lparr>w_mem := mem\<rparr>, s1)
          else Some (OK, w\<lparr>w_mem := mem, w_wp := w_wp w + ucast (w_buffer_pos w), w_buffer_pos := 0\<rparr>, s1)
        })"

partial_function (option) BufferedWrite_loop ::
  "'d backend \<Rightarrow> ('d, 'm) persist \<Rightarrow> bytes \<Rightarrow> u32 \<Rightarrow> ZonedWritableFile \<Rightarrow> ('d, 'm) FileHeap_scheme \<Rightarrow>
     (IOStatus \<times> ZonedWritableFile \<times> ('d, 'm) FileHeap_scheme) option"
where
  "BufferedWrite_loop be persist data data_left w s =
     (if data_left = 0 then Some (OK, w, s)
      else
        (let buffer_left = ucast (w_buffer_sz w - ucast (w_buffer_pos w)) :: u32
         in do {
              (st, w1, s1) \<leftarrow> (if buffer_left = 0 then FlushBuffer be persist w s else Some (OK, w, s));
              if \<not> ok st then Some (st, w1, s1)
              else
                (let buffer_left1 = (if buffer_left = 0 then ucast (w_buffer_sz w) else buffer_left);
                     to_buffer = (if data_left > buffer_left1 then buffer_left1 else data_left);
                     w2 = w1\<lparr>w_mem := memcpy (w_mem w1) (buffer_off w s + unat (w_buffer_pos w1))
                                         (take (unat to_buffer) data),
                             w_buffer_pos := w_buffer_pos w1 + to_buffer\<rparr>
                 in BufferedWrite_loop be persist (drop (unat to_buffer) data) (data_left - to_buffer) w2 s1)
            }))"

definition BufferedWrite ::
  "'d backend \<Rightarrow> ('d, 'm) persist \<Rightarrow> bytes \<Rightarrow> ZonedWritableFile \<Rightarrow> ('d, 'm) FileHeap_scheme \<Rightarrow>
     (IOStatus \<times> ZonedWritableFile \<times> ('d, 'm) FileHeap_scheme) option"
where
  "BufferedWrite be persist data w s = BufferedWrite_loop be persist data (of_nat (length data)) w s"

definition WritableFile_Append ::
  "'d backend \<Rightarrow> ('d, 'm) persist \<Rightarrow> bytes \<Rightarrow> ZonedWritableFile \<Rightarrow> ('d, 'm) FileHeap_scheme \<Rightarrow>
     (IOStatus \<times> ZonedWritableFile \<times> ('d, 'm) FileHeap_scheme) option"
where
  "WritableFile_Append be persist data w s =
     (if w_buffered w then BufferedWrite be persist data w s
      else
        do {
          (st, s1) \<leftarrow> ZoneFile_Append be persist (w_file w) data (of_nat (length data)) s;
          Some (st, if ok st then w\<lparr>w_wp := w_wp w + of_nat (length data)\<rparr> else w, s1)
        })"

definition PositionedAppend ::
  "'d backend \<Rightarrow> ('d, 'm) persist \<Rightarrow> bytes \<Rightarrow> u64 \<Rightarrow> ZonedWritableFile \<Rightarrow> ('d, 'm) FileHeap_scheme \<Rightarrow>
     (IOStatus \<times> ZonedWritableFile \<times> ('d, 'm) FileHeap_scheme) option"
where
  "PositionedAppend be persist data offset w s =
     (if offset \<noteq> w_wp w then Some (IOError ''positioned append not at write pointer'' [], w, s)
      else WritableFile_Append be persist data w s)"

definition Truncate ::
  "u64 \<Rightarrow> ZonedWritableFile \<Rightarrow> ('d, 'm) FileHeap_scheme \<Rightarrow> IOStatus \<times> ('d, 'm) FileHeap_scheme" where
  "Truncate sz w s = (OK, upd_file (w_file w) (SetFileSize sz) s)"

definition DataSync ::
  "'d backend \<Rightarrow> ('d, 'm) persist \<Rightarrow> ZonedWritableFile \<Rightarrow> ('d, 'm) FileHeap_scheme \<Rightarrow>
     (IOStatus \<times> ZonedWritableFile \<times> ('d, 'm) FileHeap_scheme) option"
where
  "DataSync be persist w s =
     (if w_buffered w
      then
        do {
          (st, w1, s1) \<leftarrow> FlushBuffer be persist w s;
          if \<not> ok st then Some (st, w1, s1)
          else if \<not> is_sparse (zfiles s1 (w_file w))
          then do { (st2, s2) \<leftarrow> persist (w_file w) s1; Some (st2, w1, s2) }
          else Some (OK, w1, s1)
        }
      else Some (OK, w, PushExtent (w_file w) s))"

definition Fsync ::
  "'d backend \<Rightarrow> ('d, 'm) persist \<Rightarrow> ZonedWritableFile \<Rightarrow> ('d, 'm) FileHeap_scheme \<Rightarrow>
     (IOStatus \<times> ZonedWritableFile \<times> ('d, 'm) FileHeap_scheme) option"
where
  "Fsync be persist w s =
     do {
       (st, w1, s1) \<leftarrow> DataSync be persist w s;
       if \<not> ok st then Some (st, w1, s1)
       else if w_buffered w \<and> \<not> is_sparse (zfiles s1 (w_file w)) then Some (OK, w1, s1)
       else do { (st2, s2) \<leftarrow> persist (w_file w) s1; Some (st2, w1, s2) }
     }"

definition Sync ::
  "'d backend \<Rightarrow> ('d, 'm) persist \<Rightarrow> ZonedWritableFile \<Rightarrow> ('d, 'm) FileHeap_scheme \<Rightarrow>
     (IOStatus \<times> ZonedWritableFile \<times> ('d, 'm) FileHeap_scheme) option"
where
  "Sync be persist w s = DataSync be persist w s"

definition RangeSync ::
  "'d backend \<Rightarrow> ('d, 'm) persist \<Rightarrow> u64 \<Rightarrow> u64 \<Rightarrow> ZonedWritableFile \<Rightarrow> ('d, 'm) FileHeap_scheme \<Rightarrow>
     (IOStatus \<times> ZonedWritableFile \<times> ('d, 'm) FileHeap_scheme) option"
where
  "RangeSync be persist offset nbytes w s =
     (if w_wp w < offset + nbytes then DataSync be persist w s else Some (OK, w, s))"

definition CloseInternal ::
  "'d backend \<Rightarrow> ('d, 'm) persist \<Rightarrow> ZonedWritableFile \<Rightarrow> ('d, 'm) FileHeap_scheme \<Rightarrow>
     (IOStatus \<times> ZonedWritableFile \<times> ('d, 'm) FileHeap_scheme) option"
where
  "CloseInternal be persist w s =
     (if \<not> w_open w then Some (OK, w, s)
      else
        do {
          (st, w1, s1) \<leftarrow> DataSync be persist w s;
          if \<not> ok st then Some (st, w1, s1)
          else
            do {
              (st2, s2) \<leftarrow> CloseWR be persist (w_file w) s1;
              Some (st2, if ok st2 then w1\<lparr>w_open := False\<rparr> else w1, s2)
            }
        })"

text \<open>The destructor closes the file and hands an error to the device.\<close>

definition delete_ZonedWritableFile ::
  "'d backend \<Rightarrow> ('d, 'm) persist \<Rightarrow> ZonedWritableFile \<Rightarrow> ('d, 'm) FileHeap_scheme \<Rightarrow>
     ('d, 'm) FileHeap_scheme option"
where
  "delete_ZonedWritableFile be persist w s =
     do {
       (st, w1, s1) \<leftarrow> CloseInternal be persist w s;
       Some (if \<not> ok st then SetZoneDeferredStatus st s1 else s1)
     }"

section \<open>Sequential and random access files\<close>

record ZonedSequentialFile =
  q_file :: nat
  q_rp :: u64
  q_direct :: bool

definition new_ZonedSequentialFile ::
  "nat \<Rightarrow> bool \<Rightarrow> ('d, 'm) FileHeap_scheme \<Rightarrow> ZonedSequentialFile" where
  "new_ZonedSequentialFile f use_direct_reads s =
     \<lparr>q_file = f, q_rp = 0, q_direct = (use_direct_reads \<and> \<not> is_sparse (zfiles s f))\<rparr>"

definition SequentialFile_Read ::
  "'d backend \<Rightarrow> u64 \<Rightarrow> ZonedSequentialFile \<Rightarrow> ('d, 'm) FileHeap_scheme \<Rightarrow>
     (IOStatus \<times> bytes \<times> ZonedSequentialFile \<times> ('d, 'm) FileHeap_scheme) option"
where
  "SequentialFile_Read be n q s =
     do {
       (st, result, s1) \<leftarrow> PositionedRead be (q_file q) (q_rp q) n (q_direct q) s;
       Some (st, result, if ok st then q\<lparr>q_rp := q_rp q + of_nat (length result)\<rparr> else q, s1)
     }"

definition SequentialFile_Skip ::
  "u64 \<Rightarrow> ZonedSequentialFile \<Rightarrow> ('d, 'm) FileHeap_scheme \<Rightarrow> IOStatus \<times> ZonedSequentialFile" where
  "SequentialFile_Skip n q s =
     (if q_rp q + n \<ge> file_size (zfiles s (q_file q))
      then (InvalidArgument ''Skip beyond end of file'' [], q)
      else (OK, q\<lparr>q_rp := q_rp q + n\<rparr>))"

definition SequentialFile_PositionedRead ::
  "'d backend \<Rightarrow> u64 \<Rightarrow> u64 \<Rightarrow> ZonedSequentialFile \<Rightarrow> ('d, 'm) FileHeap_scheme \<Rightarrow>
     (IOStatus \<times> bytes \<times> ('d, 'm) FileHeap_scheme) option"
where
  "SequentialFile_PositionedRead be offset n q s = PositionedRead be (q_file q) offset n (q_direct q) s"

record ZonedRandomAccessFile =
  r_file :: nat
  r_direct :: bool

definition new_ZonedRandomAccessFile ::
  "nat \<Rightarrow> bool \<Rightarrow> ('d, 'm) FileHeap_scheme \<Rightarrow> ZonedRandomAccessFile" where
  "new_ZonedRandomAccessFile f use_direct_reads s =
     \<lparr>r_file = f, r_direct = (use_direct_reads \<and> \<not> is_sparse (zfiles s f))\<rparr>"

definition RandomAccessFile_Read ::
  "'d backend \<Rightarrow> u64 \<Rightarrow> u64 \<Rightarrow> ZonedRandomAccessFile \<Rightarrow> ('d, 'm) FileHeap_scheme \<Rightarrow>
     (IOStatus \<times> bytes \<times> ('d, 'm) FileHeap_scheme) option"
where
  "RandomAccessFile_Read be offset n r s = PositionedRead be (r_file r) offset n (r_direct r) s"

end
