(* ===== verification/FileWrites.thy ===== *)
theory FileWrites
  imports FileIO
begin

text \<open>
  Appending to files (\<^verbatim>\<open>io_zenfs.cc\<close>). The theory states what the file layer keeps: which zones the
  open files own, that every extent lies below the write pointer of its zone, that the used capacity
  of a zone is the length of the extents in it, and that zones do not overlap. The three ways to append
  are shown to keep it, to return, and to add exactly the bytes they are given to the content of the
  file. The metadata writer that the file calls when it gets a new zone is the interface \<open>metadata_writer\<close>.
\<close>

section \<open>Devices and their zones\<close>

definition device_ok :: "'d backend \<Rightarrow> u64 \<Rightarrow> ('d \<Rightarrow> u64 \<Rightarrow> byte) \<Rightarrow> bool" where
  "device_ok be sz media \<longleftrightarrow>
     write_progress be \<and> write_media be media \<and> read_media be media \<and> manage_media be sz media \<and>
     reset_capacity be sz"

lemma device_okD:
  assumes "device_ok be sz media"
  shows "write_progress be" "write_media be media" "read_media be media" "manage_media be sz media"
    "reset_capacity be sz"
  using assms by (simp_all add: device_ok_def)

text \<open>No two zones of the device overlap; the metadata zones come first.\<close>

definition apart :: "u64 \<Rightarrow> Zone \<Rightarrow> Zone \<Rightarrow> bool" where
  "apart sz z z' \<longleftrightarrow>
     unat (z_start z) + unat sz \<le> unat (z_start z') \<or> unat (z_start z') + unat sz \<le> unat (z_start z)"

definition geometry :: "('d, 'm) ZBD_scheme \<Rightarrow> bool" where
  "geometry s \<longleftrightarrow>
     (\<forall>i<length (io_zones s). \<forall>j<length (io_zones s). i \<noteq> j \<longrightarrow>
        apart (zone_sz s) (io_zones s ! i) (io_zones s ! j)) \<and>
     (\<forall>i<length (io_zones s). \<forall>j<length (meta_zones s).
        apart (zone_sz s) (io_zones s ! i) (meta_zones s ! j)) \<and>
     (\<forall>i<length (meta_zones s). \<forall>j<length (meta_zones s). i \<noteq> j \<longrightarrow>
        apart (zone_sz s) (meta_zones s ! i) (meta_zones s ! j))"

lemma apart_cong: "z_start z = z_start y \<Longrightarrow> z_start z' = z_start y' \<Longrightarrow> apart sz z z' = apart sz y y'"
  by (simp add: apart_def)

lemma geometry_cong:
  assumes "map z_start (io_zones t) = map z_start (io_zones s)"
    and "map z_start (meta_zones t) = map z_start (meta_zones s)" and "zone_sz t = zone_sz s"
  shows "geometry t = geometry s"
proof -
  have len: "length (io_zones t) = length (io_zones s)" "length (meta_zones t) = length (meta_zones s)"
    using assms(1,2) by (metis length_map)+
  have "z_start (io_zones t ! i) = z_start (io_zones s ! i)" if "i < length (io_zones s)" for i
    using assms(1) that len by (metis nth_map)
  moreover have "z_start (meta_zones t ! i) = z_start (meta_zones s ! i)" if "i < length (meta_zones s)" for i
    using assms(2) that len by (metis nth_map)
  ultimately show ?thesis
    using len assms(3) by (simp add: geometry_def apart_def)
qed

text \<open>An address that holds written data of an I/O zone, and an address in some I/O zone.\<close>

definition io_addr :: "('d, 'm) ZBD_scheme \<Rightarrow> u64 \<Rightarrow> bool" where
  "io_addr s a \<longleftrightarrow> (\<exists>i<length (io_zones s). in_zone (zone_sz s) (io_zones s ! i) a)"

definition written_addr :: "('d, 'm) ZBD_scheme \<Rightarrow> u64 \<Rightarrow> bool" where
  "written_addr s a \<longleftrightarrow>
     (\<exists>i<length (io_zones s). unat (z_start (io_zones s ! i)) \<le> unat a \<and>
        unat a < unat (z_wp (io_zones s ! i)))"

lemma written_io_addr:
  assumes "zones_wf s" and "written_addr s a"
  shows "io_addr s a"
  using assms by (fastforce simp: written_addr_def io_addr_def in_zone_def zones_wf_def zone_wf_def)

text \<open>Writing at the write pointer of a zone does not touch written addresses.\<close>

lemma written_outside:
  assumes "zones_wf s" and "geometry s" and "i < length (io_zones s)" and "written_addr s a"
    and "n \<le> unat (z_capacity (io_zones s ! i))"
  shows "n \<le> unat (a - z_wp (io_zones s ! i))"
proof -
  obtain j where j: "j < length (io_zones s)" "unat (z_start (io_zones s ! j)) \<le> unat a"
    "unat a < unat (z_wp (io_zones s ! j))"
    using assms(4) by (auto simp: written_addr_def)
  have wf: "zone_wf (zone_sz s) (io_zones s ! i)" "zone_wf (zone_sz s) (io_zones s ! j)"
    using assms(1,3) j(1) by (auto simp: zones_wf_def)
  show ?thesis
  proof (cases "i = j")
    case True
    then show ?thesis
      using wf j assms(5) by (auto simp: zone_wf_def unat_sub_if')
  next
    case False
    then have "apart (zone_sz s) (io_zones s ! i) (io_zones s ! j)"
      using assms(2,3) j(1) by (simp add: geometry_def)
    then show ?thesis
      using wf j assms(5) by (auto simp: apart_def zone_wf_def unat_sub_if')
  qed
qed

section \<open>Appending to one zone of the device\<close>

lemma append_io_spec:
  assumes "device_ok be sz media" and "unat n \<le> length data"
    and "unat n \<le> unat (z_capacity (io_zones s ! i))"
  obtains st k d where
    "append_io be i data n s =
       Some (st, AddBytesWritten (of_nat k) (upd_io i (advance k (io_zones s ! i)) (s\<lparr>dev := d\<rparr>)))"
    "k \<le> unat n" "ok st \<longleftrightarrow> k = unat n" "appended media (z_wp (io_zones s ! i)) data (unat n) k (dev s) d"
proof -
  obtain st k d where app: "Zone_Append be (io_zones s ! i) data n (dev s)
      = Some (st, advance k (io_zones s ! i), d, of_nat k)"
    and cases: "z_capacity (io_zones s ! i) < ucast n \<or> k \<le> unat n \<and>
         (st = OK \<and> k = unat n \<or> (\<exists>msg. st = IOError msg []) \<and> k < unat n) \<and>
         appended media (z_wp (io_zones s ! i)) data (unat n) k (dev s) d"
    using Zone_Append_spec [OF device_okD(1) [OF assms(1)] assms(2), of "io_zones s ! i" "dev s"]
      device_okD(2) [OF assms(1)] by blast
  have "\<not> z_capacity (io_zones s ! i) < ucast n"
    using assms(3) by (simp add: word_less_nat_alt)
  with cases app show thesis
    by (intro that [of st k d]) (auto simp: append_io_def)
qed

section \<open>The invariant of the file layer\<close>

text \<open>
  \<open>F\<close> is the set of files. The zones they own are their active zones. An extent lies in the written
  part of its zone, and the used capacity of a zone is the length of all extents in it.
\<close>

definition owners :: "nat set \<Rightarrow> ('d, 'm) FileHeap_scheme \<Rightarrow> nat set" where
  "owners F s = {i. \<exists>f\<in>F. active_zone (zfiles s f) = Some i}"

lemma owners_split: "f \<in> F \<Longrightarrow> owners F s = owners (F - {f}) s \<union> set_option (active_zone (zfiles s f))"
  by (auto simp: owners_def)

lemma owners_cong:
  "(\<And>g. g \<in> G \<Longrightarrow> active_zone (zfiles t g) = active_zone (zfiles s g)) \<Longrightarrow> owners G t = owners G s"
  by (auto simp: owners_def)

definition ext_ok :: "Zone list \<Rightarrow> ZoneExtent \<Rightarrow> bool" where
  "ext_ok zs e \<longleftrightarrow>
     e_zone e < length zs \<and> unat (z_start (zs ! e_zone e)) \<le> unat (e_start e) \<and>
     unat (e_start e) + unat (e_length e) \<le> unat (z_wp (zs ! e_zone e))"

definition used_in :: "ZoneExtent list \<Rightarrow> nat \<Rightarrow> nat" where
  "used_in es i = sum_list (map (\<lambda>e. if e_zone e = i then unat (e_length e) else 0) es)"

lemma used_in_simps [simp]:
  "used_in [] i = 0" "used_in (es @ es') i = used_in es i + used_in es' i"
  "used_in [e] i = (if e_zone e = i then unat (e_length e) else 0)"
  by (simp_all add: used_in_def)

definition accounting :: "nat set \<Rightarrow> ('d, 'm) FileHeap_scheme \<Rightarrow> bool" where
  "accounting F s \<longleftrightarrow>
     (\<forall>i<length (io_zones s).
        unat (z_used_capacity (io_zones s ! i)) = (\<Sum>f\<in>F. used_in (extents (zfiles s f)) i))"

text \<open>An empty zone has free capacity.\<close>

definition usable :: "Zone \<Rightarrow> bool" where
  "usable z \<longleftrightarrow> IsEmpty z \<longrightarrow> \<not> IsFull z"

text \<open>Free capacity comes in whole blocks.\<close>

definition aligned :: "('d, 'm) ZBD_scheme \<Rightarrow> bool" where
  "aligned s \<longleftrightarrow> (\<forall>i<length (io_zones s). unat (block_sz s) dvd unat (z_capacity (io_zones s ! i)))"

definition file_inv :: "nat set \<Rightarrow> ('d, 'm) FileHeap_scheme \<Rightarrow> bool" where
  "file_inv F s \<longleftrightarrow>
     finite F \<and> zones_wf s \<and> geometry s \<and> 0 < block_sz s \<and> 0 < zone_sz s \<and>
     (\<forall>i<length (io_zones s). usable (io_zones s ! i)) \<and>
     tokens (owners F s) s \<and>
     (\<forall>i<length (io_zones s). z_busy (io_zones s ! i) \<longrightarrow> i \<in> owners F s) \<and>
     (\<forall>f\<in>F. \<forall>g\<in>F. \<forall>i. active_zone (zfiles s f) = Some i \<and> active_zone (zfiles s g) = Some i \<longrightarrow>
        f = g) \<and>
     (\<forall>f\<in>F. \<forall>e\<in>set (extents (zfiles s f)). ext_ok (io_zones s) e) \<and>
     accounting F s"

text \<open>The next extent of the file starts at the write pointer of its zone.\<close>

definition at_wp :: "nat \<Rightarrow> ('d, 'm) FileHeap_scheme \<Rightarrow> bool" where
  "at_wp f s \<longleftrightarrow>
     (\<forall>i. active_zone (zfiles s f) = Some i \<longrightarrow> extent_start (zfiles s f) = z_wp (io_zones s ! i))"

text \<open>There are tokens for a zone for \<open>f\<close>, given what the other files own.\<close>

definition room :: "nat set \<Rightarrow> nat \<Rightarrow> ('d, 'm) FileHeap_scheme \<Rightarrow> bool" where
  "room F f s \<longleftrightarrow>
     int (card (owners (F - {f}) s)) < uint (max_nr_active_io_zones s) \<and>
     int (card (owners (F - {f}) s)) < uint (if io_type (zfiles s f) = kWAL then max_nr_open_io_zones s
       else max_nr_open_io_zones s - 1)"

definition content :: "('d \<Rightarrow> u64 \<Rightarrow> byte) \<Rightarrow> ('d, 'm) FileHeap_scheme \<Rightarrow> nat \<Rightarrow> bytes" where
  "content media s f = map (media (dev s)) (file_addrs (extents (zfiles s f)))"

section \<open>What operations leave alone\<close>

text \<open>Writing metadata changes nothing of a file but its modification time and its count of synced extents.\<close>

definition file_sim :: "ZoneFile \<Rightarrow> ZoneFile \<Rightarrow> bool" where
  "file_sim zf zf' \<longleftrightarrow> zf'\<lparr>nr_synced_extents := nr_synced_extents zf, m_time := m_time zf\<rparr> = zf"

lemma file_sim_refl [simp]: "file_sim zf zf"
  by (simp add: file_sim_def)

lemma file_sim_trans: "file_sim a b \<Longrightarrow> file_sim b c \<Longrightarrow> file_sim a c"
  by (cases a; cases b; cases c) (simp add: file_sim_def)

lemma file_sim_sel:
  assumes "file_sim zf zf'"
  shows "extents zf' = extents zf" "linkfiles zf' = linkfiles zf" "active_zone zf' = active_zone zf"
    "extent_start zf' = extent_start zf" "extent_filepos zf' = extent_filepos zf"
    "lifetime zf' = lifetime zf" "io_type zf' = io_type zf" "file_size zf' = file_size zf"
    "file_id zf' = file_id zf" "open_for_wr zf' = open_for_wr zf" "is_sparse zf' = is_sparse zf"
    "is_deleted zf' = is_deleted zf"
  using assms by (cases zf; cases zf'; simp add: file_sim_def)+

definition meta_frame ::
  "('d \<Rightarrow> u64 \<Rightarrow> byte) \<Rightarrow> ('d, 'm) FileHeap_scheme \<Rightarrow> ('d, 'm) FileHeap_scheme \<Rightarrow> bool" where
  "meta_frame media s s' \<longleftrightarrow>
     io_zones s' = io_zones s \<and> zone_sz s' = zone_sz s \<and> block_sz s' = block_sz s \<and>
     active_io_zones s' = active_io_zones s \<and> open_io_zones s' = open_io_zones s \<and>
     max_nr_active_io_zones s' = max_nr_active_io_zones s \<and>
     max_nr_open_io_zones s' = max_nr_open_io_zones s \<and>
     zone_deferred_status s' = zone_deferred_status s \<and> finish_threshold s' = finish_threshold s \<and>
     migrating s' = migrating s \<and> map z_start (meta_zones s') = map z_start (meta_zones s) \<and>
     (\<forall>g. file_sim (zfiles s g) (zfiles s' g)) \<and>
     (\<forall>a. io_addr s a \<longrightarrow> media (dev s') a = media (dev s) a)"

text \<open>What an operation on file \<open>f\<close> leaves alone: the other files, and all data written so far.\<close>

definition others ::
  "('d \<Rightarrow> u64 \<Rightarrow> byte) \<Rightarrow> nat \<Rightarrow> ('d, 'm) FileHeap_scheme \<Rightarrow> ('d, 'm) FileHeap_scheme \<Rightarrow> bool" where
  "others media f s s' \<longleftrightarrow>
     zone_sz s' = zone_sz s \<and> block_sz s' = block_sz s \<and>
     max_nr_active_io_zones s' = max_nr_active_io_zones s \<and>
     max_nr_open_io_zones s' = max_nr_open_io_zones s \<and> zone_deferred_status s' = zone_deferred_status s \<and>
     (\<forall>g. g \<noteq> f \<longrightarrow> file_sim (zfiles s g) (zfiles s' g)) \<and>
     lifetime (zfiles s' f) = lifetime (zfiles s f) \<and> io_type (zfiles s' f) = io_type (zfiles s f) \<and>
     linkfiles (zfiles s' f) = linkfiles (zfiles s f) \<and> file_id (zfiles s' f) = file_id (zfiles s f) \<and>
     is_sparse (zfiles s' f) = is_sparse (zfiles s f) \<and> is_deleted (zfiles s' f) = is_deleted (zfiles s f) \<and>
     open_for_wr (zfiles s' f) = open_for_wr (zfiles s f) \<and>
     (\<forall>a. written_addr s a \<longrightarrow> written_addr s' a \<and> media (dev s') a = media (dev s) a)"

lemma others_refl [simp]: "others media f s s"
  by (simp add: others_def)

lemma others_trans:
  assumes "others media f s t" and "others media f t u"
  shows "others media f s u"
proof -
  have "file_sim (zfiles s g) (zfiles u g)" if "g \<noteq> f" for g
    using assms that file_sim_trans [of "zfiles s g" "zfiles t g" "zfiles u g"] by (simp add: others_def)
  with assms show ?thesis by (simp add: others_def)
qed

section \<open>Extents, addresses and content\<close>

lemma set_ext_addrs: "a \<in> set (ext_addrs e) \<longleftrightarrow> unat (a - e_start e) < unat (e_length e)"
proof
  assume "a \<in> set (ext_addrs e)"
  then obtain i where "i < unat (e_length e)" "a = e_start e + of_nat i"
    by (auto simp: ext_addrs_def)
  moreover from this have "i < 2 ^ 64" using unat_u64_less [of "e_length e"] by simp
  ultimately show "unat (a - e_start e) < unat (e_length e)"
    by (simp add: unat_of_nat_small)
next
  assume "unat (a - e_start e) < unat (e_length e)"
  then have "ext_addrs e ! unat (a - e_start e) \<in> set (ext_addrs e)" "ext_addrs e ! unat (a - e_start e) = a"
    by (simp_all del: nth_ext_addrs) simp
  then show "a \<in> set (ext_addrs e)" by simp
qed

lemma ext_ok_written:
  assumes "ext_ok (io_zones s) e" and "a \<in> set (ext_addrs e)"
  shows "written_addr s a"
proof -
  have "unat (e_start e) + unat (e_length e) < 2 ^ 64"
    using assms(1) unat_u64_less [of "z_wp (io_zones s ! e_zone e)"] by (auto simp: ext_ok_def)
  with assms show ?thesis
    unfolding written_addr_def set_ext_addrs ext_ok_def
    by (intro exI [of _ "e_zone e"]) (auto simp: unat_sub_if' split: if_splits)
qed

lemma content_kept:
  assumes "\<forall>e\<in>set (extents (zfiles s f)). ext_ok (io_zones s) e" and "extents (zfiles s' f) = extents (zfiles s f)"
    and "\<forall>a. written_addr s a \<longrightarrow> media (dev s') a = media (dev s) a"
  shows "content media s' f = content media s f"
  using assms ext_ok_written [of s] by (auto simp: content_def file_addrs_def)

lemma others_content:
  assumes "others media f s s'" and "file_inv F s" and "g \<in> F" and "g \<noteq> f"
  shows "content media s' g = content media s g"
  using assms by (intro content_kept) (auto simp: others_def file_inv_def file_sim_sel)

section \<open>Fields of the state\<close>

lemma upd_file_sel [simp]:
  "zfiles (upd_file f g s) = (zfiles s)(f := g (zfiles s f))" "io_zones (upd_file f g s) = io_zones s"
  "dev (upd_file f g s) = dev s" "meta_zones (upd_file f g s) = meta_zones s"
  "zone_sz (upd_file f g s) = zone_sz s" "block_sz (upd_file f g s) = block_sz s"
  "active_io_zones (upd_file f g s) = active_io_zones s" "open_io_zones (upd_file f g s) = open_io_zones s"
  "max_nr_active_io_zones (upd_file f g s) = max_nr_active_io_zones s"
  "max_nr_open_io_zones (upd_file f g s) = max_nr_open_io_zones s"
  "zone_deferred_status (upd_file f g s) = zone_deferred_status s"
  "finish_threshold (upd_file f g s) = finish_threshold s" "migrating (upd_file f g s) = migrating s"
  "FileHeap.more (upd_file f g s) = FileHeap.more s"
  by (simp_all add: upd_file_def)

lemma heap_sel [simp]:
  "zfiles (upd_io i z s) = zfiles s" "zfiles (PutOpenIOZoneToken s) = zfiles s"
  "zfiles (PutActiveIOZoneToken s) = zfiles s" "zfiles (AddBytesWritten n s) = zfiles s"
  "FileHeap.more (upd_io i z s) = FileHeap.more s" "FileHeap.more (PutOpenIOZoneToken s) = FileHeap.more s"
  "FileHeap.more (PutActiveIOZoneToken s) = FileHeap.more s"
  "FileHeap.more (AddBytesWritten n s) = FileHeap.more s"
  by (simp_all add: upd_io_def PutOpenIOZoneToken_def PutActiveIOZoneToken_def AddBytesWritten_def)

lemma bytes_sel [simp]:
  "io_zones (AddBytesWritten n s) = io_zones s" "dev (AddBytesWritten n s) = dev s"
  "meta_zones (AddBytesWritten n s) = meta_zones s" "zone_sz (AddBytesWritten n s) = zone_sz s"
  "block_sz (AddBytesWritten n s) = block_sz s" "active_io_zones (AddBytesWritten n s) = active_io_zones s"
  "open_io_zones (AddBytesWritten n s) = open_io_zones s"
  "max_nr_active_io_zones (AddBytesWritten n s) = max_nr_active_io_zones s"
  "max_nr_open_io_zones (AddBytesWritten n s) = max_nr_open_io_zones s"
  "zone_deferred_status (AddBytesWritten n s) = zone_deferred_status s"
  "finish_threshold (AddBytesWritten n s) = finish_threshold s" "migrating (AddBytesWritten n s) = migrating s"
  by (simp_all add: AddBytesWritten_def)

lemma put_sel [simp]:
  "dev (PutOpenIOZoneToken s) = dev s" "dev (PutActiveIOZoneToken s) = dev s"
  "meta_zones (PutOpenIOZoneToken s) = meta_zones s" "meta_zones (PutActiveIOZoneToken s) = meta_zones s"
  "zone_sz (PutOpenIOZoneToken s) = zone_sz s" "zone_sz (PutActiveIOZoneToken s) = zone_sz s"
  "block_sz (PutOpenIOZoneToken s) = block_sz s" "block_sz (PutActiveIOZoneToken s) = block_sz s"
  "max_nr_active_io_zones (PutOpenIOZoneToken s) = max_nr_active_io_zones s"
  "max_nr_active_io_zones (PutActiveIOZoneToken s) = max_nr_active_io_zones s"
  "max_nr_open_io_zones (PutOpenIOZoneToken s) = max_nr_open_io_zones s"
  "max_nr_open_io_zones (PutActiveIOZoneToken s) = max_nr_open_io_zones s"
  "zone_deferred_status (PutOpenIOZoneToken s) = zone_deferred_status s"
  "zone_deferred_status (PutActiveIOZoneToken s) = zone_deferred_status s"
  by (simp_all add: PutOpenIOZoneToken_def PutActiveIOZoneToken_def)

section \<open>Closing the active zone\<close>

text \<open>
  The state after the zone \<open>i\<close> of file \<open>f\<close> was closed without an error. A zone that is full gives its active
  token back; one that is neither full nor empty keeps it. A zone in which nothing was written is
  neither: then one active token has no zone any more.
\<close>

definition closed_zone :: "nat \<Rightarrow> nat \<Rightarrow> ('d, 'm) FileHeap_scheme \<Rightarrow> ('d, 'm) FileHeap_scheme" where
  "closed_zone f i s =
     (let s1 = PutOpenIOZoneToken (upd_file f (\<lambda>zf. zf\<lparr>active_zone := None\<rparr>)
                 (upd_io i ((io_zones s ! i)\<lparr>z_busy := False\<rparr>) s))
      in if IsFull (io_zones s ! i) then PutActiveIOZoneToken s1 else s1)"

lemma closed_zone_sel [simp]:
  "io_zones (closed_zone f i s) = (io_zones s)[i := (io_zones s ! i)\<lparr>z_busy := False\<rparr>]"
  "zfiles (closed_zone f i s) = (zfiles s)(f := (zfiles s f)\<lparr>active_zone := None\<rparr>)"
  "open_io_zones (closed_zone f i s) = open_io_zones s - 1"
  "active_io_zones (closed_zone f i s) = active_io_zones s - (if IsFull (io_zones s ! i) then 1 else 0)"
  "dev (closed_zone f i s) = dev s" "meta_zones (closed_zone f i s) = meta_zones s"
  "zone_sz (closed_zone f i s) = zone_sz s" "block_sz (closed_zone f i s) = block_sz s"
  "max_nr_active_io_zones (closed_zone f i s) = max_nr_active_io_zones s"
  "max_nr_open_io_zones (closed_zone f i s) = max_nr_open_io_zones s"
  "zone_deferred_status (closed_zone f i s) = zone_deferred_status s"
  "FileHeap.more (closed_zone f i s) = FileHeap.more s"
  by (simp_all add: closed_zone_def Let_def)

lemma aligned_closed [simp]: "aligned (closed_zone f i s) = aligned s"
proof -
  have "z_capacity ((io_zones s)[i := (io_zones s ! i)\<lparr>z_busy := False\<rparr>] ! j) = z_capacity (io_zones s ! j)"
    for j by (cases "i = j"; cases "i < length (io_zones s)") (auto simp: list_update_beyond)
  then show ?thesis by (simp add: aligned_def)
qed

lemma CloseActiveZone_full:
  assumes "active_zone (zfiles s f) = Some i" and "z_busy (io_zones s ! i)"
    and "IsFull (io_zones s ! i) \<or> IsEmpty (io_zones s ! i)"
  shows "CloseActiveZone be f s = (OK, closed_zone f i s)"
  using assms
  by (auto simp: CloseActiveZone_def close_io_def Zone_Close_def ReleaseActiveZone_def Release_def
      closed_zone_def upd_io_dev Let_def)

lemma tok_closed_zone:
  assumes "tok W 0 0 s" and "i \<in> W"
  shows "tok (W - {i}) 0 (if IsEmpty (io_zones s ! i) \<and> \<not> IsFull (io_zones s ! i) then 1 else 0)
    (closed_zone f i s)"
proof -
  let ?z = "io_zones s ! i" and ?zs = "io_zones s"
  have i: "i < length ?zs" "finite W" "i \<in> active_set W ?zs"
    using assms tok_finite [OF assms(1)] by (auto simp: tok_def active_set_def)
  have set: "active_set (W - {i}) (?zs[i := ?z\<lparr>z_busy := False\<rparr>])
      = (if is_active ?z then active_set W ?zs else active_set W ?zs - {i})"
    using i by (auto simp: active_set_def nth_list_update is_active_def)
  have card: "int (card (active_set W ?zs - {i})) = int (card (active_set W ?zs)) - 1"
    "int (card (W - {i})) = int (card W) - 1"
    using i assms(2) card_Suc_Diff1 [of "active_set W ?zs" i] card_Suc_Diff1 [of W i] by simp_all
  show ?thesis
    using assms i set card by (auto simp: tok_def nth_list_update is_active_def)
qed

text \<open>Write pointers only move forward: extents and written addresses stay valid.\<close>

definition grown :: "Zone list \<Rightarrow> Zone list \<Rightarrow> bool" where
  "grown zs zs' \<longleftrightarrow>
     length zs' = length zs \<and>
     (\<forall>i<length zs. z_start (zs' ! i) = z_start (zs ! i) \<and> unat (z_wp (zs ! i)) \<le> unat (z_wp (zs' ! i)))"

lemma ext_ok_grown: "grown zs zs' \<Longrightarrow> ext_ok zs e \<Longrightarrow> ext_ok zs' e"
  unfolding grown_def ext_ok_def by fastforce

lemma written_addr_grown: "grown (io_zones s) (io_zones t) \<Longrightarrow> written_addr s a \<Longrightarrow> written_addr t a"
  unfolding grown_def written_addr_def by fastforce

lemma grown_starts: "grown zs zs' \<Longrightarrow> map z_start zs' = map z_start zs"
  by (simp add: grown_def list_eq_iff_nth_eq)

lemma grown_update:
  assumes "z_start z = z_start (zs ! i)" and "unat (z_wp (zs ! i)) \<le> unat (z_wp z)"
  shows "grown zs (zs[i := z])"
proof -
  have "z_start (zs[i := z] ! j) = z_start (zs ! j) \<and> unat (z_wp (zs ! j)) \<le> unat (z_wp (zs[i := z] ! j))"
    if "j < length zs" for j
    using assms that by (cases "i = j") auto
  then show ?thesis by (simp add: grown_def)
qed

lemma file_invD:
  assumes "file_inv F s"
  shows "finite F" "zones_wf s" "geometry s" "0 < block_sz s" "0 < zone_sz s"
    "\<And>i. i < length (io_zones s) \<Longrightarrow> usable (io_zones s ! i)" "tokens (owners F s) s"
    "\<And>i. i < length (io_zones s) \<Longrightarrow> z_busy (io_zones s ! i) \<Longrightarrow> i \<in> owners F s"
    "\<And>f g. f \<in> F \<Longrightarrow> g \<in> F \<Longrightarrow> active_zone (zfiles s f) = Some i \<Longrightarrow> active_zone (zfiles s g) = Some i \<Longrightarrow>
       f = g"
    "\<And>f e. f \<in> F \<Longrightarrow> e \<in> set (extents (zfiles s f)) \<Longrightarrow> ext_ok (io_zones s) e" "accounting F s"
  using assms by (auto simp: file_inv_def)

lemma file_inv_active:
  assumes "file_inv F s" and "f \<in> F" and "active_zone (zfiles s f) = Some i"
  shows "i \<in> owners F s" "i < length (io_zones s)" "z_busy (io_zones s ! i)"
    "zone_wf (zone_sz s) (io_zones s ! i)"
  using assms by (auto simp: file_inv_def owners_def tokens_def zones_wf_def)

lemma file_inv_closed:
  assumes "file_inv F s" and "f \<in> F" and act: "active_zone (zfiles s f) = Some i"
    and used: "IsFull (io_zones s ! i) \<or> \<not> IsEmpty (io_zones s ! i)"
  shows "file_inv F (closed_zone f i s)"
proof -
  note inv = file_invD [OF assms(1)] and a = file_inv_active [OF assms(1-3)]
  let ?t = "closed_zone f i s"
  have own: "owners F ?t = owners F s - {i}"
  proof -
    have "g = f" if "g \<in> F" "active_zone (zfiles s g) = Some i" for g
      using inv(9) [OF that(1) assms(2) that(2) act] .
    then have "i \<notin> owners (F - {f}) s" by (auto simp: owners_def)
    then show ?thesis
      using act owners_split [OF assms(2), of ?t] owners_split [OF assms(2), of s]
        owners_cong [of "F - {f}" ?t s] by auto
  qed
  have "tok (owners F s - {i}) 0 0 ?t"
    using tok_closed_zone [of "owners F s" s i f] inv(7) a(1) used by (auto simp: tokens_tok)
  moreover have "grown (io_zones s) (io_zones ?t)"
    using a(2) by (simp add: grown_update)
  then have "ext_ok (io_zones ?t) e" if "g \<in> F" "e \<in> set (extents (zfiles s g))" for g e
    using inv(10) that ext_ok_grown by blast
  moreover have "zones_wf ?t" "\<forall>j<length (io_zones ?t). usable (io_zones ?t ! j)"
    using inv(2,6) a(2) by (auto simp: zones_wf_def nth_list_update usable_def)
  moreover have "geometry ?t"
    using inv(3) a(2) geometry_cong [of ?t s] by (simp add: list_update_same_fun)
  moreover have "accounting F ?t"
    using inv(11) a(2) by (auto simp: accounting_def nth_list_update intro!: sum.cong)
  ultimately show ?thesis
    using inv own a(2) unfolding file_inv_def tokens_tok
    by (auto simp: nth_list_update split: if_splits)
qed

lemma others_closed:
  assumes "i < length (io_zones s)"
  shows "others media f s (closed_zone f i s)"
proof -
  have "grown (io_zones s) (io_zones (closed_zone f i s))"
    using assms by (simp add: grown_update)
  then show ?thesis
    using written_addr_grown [of s "closed_zone f i s"] by (auto simp: others_def)
qed

section \<open>The zones after an allocation\<close>

text \<open>
  What an allocation makes of one zone: it may have finished it, and it acquires the zone it returns.
\<close>

definition alloc_zone :: "u64 \<Rightarrow> bool \<Rightarrow> Zone \<Rightarrow> Zone \<Rightarrow> bool" where
  "alloc_zone sz chosen z z' \<longleftrightarrow>
     z_start z' = z_start z \<and> z_used_capacity z' = z_used_capacity z \<and>
     (z_busy z' \<longleftrightarrow> z_busy z \<or> chosen) \<and>
     (z_wp z' = z_wp z \<and> z_capacity z' = z_capacity z \<or>
      z_wp z' = z_start z + sz \<and> z_capacity z' = 0 \<and> \<not> chosen) \<and>
     z_max_capacity z' = z_max_capacity z \<and> (chosen \<longrightarrow> \<not> IsFull z' \<or> IsEmpty z')"

lemma AllocateIOZone_zone:
  assumes "AllocateIOZone be lt iot s = Some (st, zone, s')" and "tok W 0 0 s" and "zones_wf s"
    and "0 < zone_sz s"
  shows "length (io_zones s') = length (io_zones s)"
    and "j < length (io_zones s) \<Longrightarrow> alloc_zone (zone_sz s) (zone = Some j) (io_zones s ! j) (io_zones s' ! j)"
    and "zone = Some i \<Longrightarrow> idle s i \<and> tok (insert i W) 0 0 s'"
    and "zone = None \<Longrightarrow> tok W 0 0 s'"
proof -
  obtain t where t: "fin_zones s t" and post: "case zone of
      None \<Rightarrow> io_zones s' = io_zones t \<and> tok W 0 0 s'
    | Some i \<Rightarrow> ok st \<and> allocated lt i (io_zones t) (io_zones s') \<and> tok (insert i W) 0 0 s'"
    using AllocateIOZone_post [OF assms(1-3)] by (auto simp: alloc_post_def)
  show len: "length (io_zones s') = length (io_zones s)"
    using t post by (auto simp: fin_zones_def allocated_def split: option.splits)
  show "alloc_zone (zone_sz s) (zone = Some j) (io_zones s ! j) (io_zones s' ! j)"
    if j: "j < length (io_zones s)"
  proof -
    have jt: "j < length (io_zones t)" using t j by (simp add: fin_zones_def)
    have base: "alloc_zone (zone_sz s) False (io_zones s ! j) (io_zones t ! j)"
      using fin_zones_zone [OF t j] by (auto simp: alloc_zone_def finished_def idle_def)
    show ?thesis
    proof (cases "zone = Some j")
      case True
      then have al: "allocated lt j (io_zones t) (io_zones s')" using post by simp
      then have "io_zones t ! j = io_zones s ! j"
        using fin_zones_zone [OF t j] assms(4)
        by (auto simp: allocated_def reusable_def IsEmpty_def finished_def IsFull_def)
      with al jt True show ?thesis
        by (auto simp: alloc_zone_def allocated_def reusable_def IsFull_def IsEmpty_def)
    next
      case False
      then have "io_zones s' ! j = io_zones t ! j"
        using post by (cases zone) (auto simp: allocated_def)
      with base False show ?thesis by simp
    qed
  qed
  show "zone = Some i \<Longrightarrow> idle s i \<and> tok (insert i W) 0 0 s'"
    and "zone = None \<Longrightarrow> tok W 0 0 s'"
    using post fin_zones_idle [OF t, of i] by (auto simp: allocated_def idle_def)
qed

section \<open>Giving a file a zone\<close>

lemma alloc_frame_heap:
  assumes "alloc_frame s t"
  shows "zfiles t = zfiles s" "FileHeap.more t = FileHeap.more s"
  using assms [unfolded alloc_frame_def, THEN arg_cong, of zfiles]
    assms [unfolded alloc_frame_def, THEN arg_cong, of FileHeap.more]
  by simp_all

definition opened_zone :: "nat \<Rightarrow> nat \<Rightarrow> ('d, 'm) FileHeap_scheme \<Rightarrow> ('d, 'm) FileHeap_scheme" where
  "opened_zone f i s =
     upd_file f (\<lambda>zf. zf\<lparr>active_zone := Some i, extent_start := z_wp (io_zones s ! i),
       extent_filepos := file_size zf\<rparr>) s"

lemma opened_zone_sel [simp]:
  "io_zones (opened_zone f i s) = io_zones s" "dev (opened_zone f i s) = dev s"
  "zfiles (opened_zone f i s) = (zfiles s)(f := (zfiles s f)\<lparr>active_zone := Some i,
     extent_start := z_wp (io_zones s ! i), extent_filepos := file_size (zfiles s f)\<rparr>)"
  "zone_sz (opened_zone f i s) = zone_sz s" "block_sz (opened_zone f i s) = block_sz s"
  "meta_zones (opened_zone f i s) = meta_zones s" "FileHeap.more (opened_zone f i s) = FileHeap.more s"
  "open_io_zones (opened_zone f i s) = open_io_zones s"
  "active_io_zones (opened_zone f i s) = active_io_zones s"
  "max_nr_active_io_zones (opened_zone f i s) = max_nr_active_io_zones s"
  "max_nr_open_io_zones (opened_zone f i s) = max_nr_open_io_zones s"
  "zone_deferred_status (opened_zone f i s) = zone_deferred_status s"
  by (simp_all add: opened_zone_def)

lemma alloc_zone_wf:
  assumes "alloc_zone sz c z z'" and "zone_wf sz z" and "usable z" and "0 < sz"
  shows "zone_wf sz z'" "usable z'" "unat (z_wp z) \<le> unat (z_wp z')" "c \<Longrightarrow> \<not> IsFull z'"
proof -
  have add: "unat (z_start z + sz) = unat (z_start z) + unat sz"
    using assms(2) by (simp add: zone_wf_def unat_plus_if')
  show "zone_wf sz z'" "unat (z_wp z) \<le> unat (z_wp z')"
    using assms(1,2) add by (auto simp: alloc_zone_def zone_wf_def)
  show "usable z'"
    using assms by (auto simp: alloc_zone_def usable_def IsEmpty_def IsFull_def)
  show "c \<Longrightarrow> \<not> IsFull z'"
    using assms by (auto simp: alloc_zone_def usable_def IsEmpty_def IsFull_def)
qed

lemma alloc_zones:
  assumes alloc: "AllocateIOZone be lt iot s = Some (st, zone, s')" and inv: "file_inv F s"
    and dev: "manage_media be (zone_sz s) media"
  shows "zones_wf s'" "geometry s'" "\<forall>i<length (io_zones s). usable (io_zones s' ! i)"
    "grown (io_zones s) (io_zones s')" "accounting F s'" "media (dev s') = media (dev s)"
    "zfiles s' = zfiles s" "alloc_frame s s'" "aligned s \<Longrightarrow> aligned s'"
    "\<forall>i<length (io_zones s). z_busy (io_zones s' ! i) \<longleftrightarrow> z_busy (io_zones s ! i) \<or> zone = Some i"
proof -
  have tk: "tok (owners F s) 0 0 s" using inv by (simp add: file_inv_def tokens_tok)
  note z = AllocateIOZone_zone [OF alloc tk file_invD(2,5) [OF inv]]
  show fr: "alloc_frame s s'" and "media (dev s') = media (dev s)"
    using AllocateIOZone_frame [OF alloc, of "zone_sz s" media] dev by auto
  have sel: "zone_sz s' = zone_sz s" "meta_zones s' = meta_zones s" "zfiles s' = zfiles s"
    using alloc_frame_sel [OF fr] alloc_frame_heap [OF fr] by simp_all
  then show "zfiles s' = zfiles s" by simp
  have w: "zone_wf (zone_sz s) (io_zones s' ! i)" "usable (io_zones s' ! i)"
    "unat (z_wp (io_zones s ! i)) \<le> unat (z_wp (io_zones s' ! i))" if "i < length (io_zones s)" for i
    using alloc_zone_wf [OF z(2) [OF that] _ _ file_invD(5) [OF inv]] inv that
    by (auto simp: file_inv_def zones_wf_def)
  show "zones_wf s'" "\<forall>i<length (io_zones s). usable (io_zones s' ! i)"
    using w z(1) sel by (auto simp: zones_wf_def)
  show g: "grown (io_zones s) (io_zones s')"
    using w z(1,2) by (auto simp: grown_def alloc_zone_def)
  show "geometry s'"
    using geometry_cong [of s' s] grown_starts [OF g] sel file_invD(3) [OF inv] by simp
  show "aligned s'" if "aligned s"
    unfolding aligned_def
  proof (intro allI impI)
    fix i assume "i < length (io_zones s')"
    then show "unat (block_sz s') dvd unat (z_capacity (io_zones s' ! i))"
      using that z(1) z(2) [of i] alloc_frame_sel(2) [OF fr] by (auto simp: aligned_def alloc_zone_def)
  qed
  show "accounting F s'"
    using file_invD(11) [OF inv] z(1,2) sel by (auto simp: accounting_def alloc_zone_def)
  show "\<forall>i<length (io_zones s). z_busy (io_zones s' ! i) \<longleftrightarrow> z_busy (io_zones s ! i) \<or> zone = Some i"
    using z(2) by (auto simp: alloc_zone_def)
qed

lemma alloc_others:
  assumes "AllocateIOZone be lt iot s = Some (st, zone, s')" and "file_inv F s"
    and "manage_media be (zone_sz s) media"
  shows "others media f s s'" and "aligned s \<Longrightarrow> aligned s'" and "others media f s (opened_zone f i s')"
  using alloc_zones [OF assms] alloc_frame_sel [of s s'] written_addr_grown [of s s']
    written_addr_grown [of s "opened_zone f i s'"]
  by (auto simp: others_def)

lemma alloc_none_inv:
  assumes alloc: "AllocateIOZone be lt iot s = Some (st, None, s')" and inv: "file_inv F s"
    and dev: "manage_media be (zone_sz s) media"
  shows "file_inv F s'"
proof -
  note al = alloc_zones [OF alloc inv dev] and fr = alloc_frame_sel [OF alloc_zones(8) [OF alloc inv dev]]
  have tk: "tok (owners F s) 0 0 s" using inv by (simp add: file_inv_def tokens_tok)
  note z = AllocateIOZone_zone [OF alloc tk file_invD(2,5) [OF inv]]
  have "owners F s' = owners F s" using al by (simp add: owners_def)
  then show ?thesis
    using al z file_invD [OF inv] fr ext_ok_grown [OF al(4)] unfolding file_inv_def tokens_tok by auto
qed

lemma alloc_some_inv:
  assumes alloc: "AllocateIOZone be lt iot s = Some (st, Some i, s')" and inv: "file_inv F s"
    and dev: "manage_media be (zone_sz s) media" and f: "f \<in> F" "active_zone (zfiles s f) = None"
  shows "file_inv F (opened_zone f i s')" and "i < length (io_zones s')" and "\<not> IsFull (io_zones s' ! i)"
proof -
  note al = alloc_zones [OF alloc inv dev] and fr = alloc_frame_sel [OF alloc_zones(8) [OF alloc inv dev]]
  have tk: "tok (owners F s) 0 0 s" using inv by (simp add: file_inv_def tokens_tok)
  note z = AllocateIOZone_zone [OF alloc tk file_invD(2,5) [OF inv]]
  let ?t = "opened_zone f i s'"
  have i: "i < length (io_zones s)" "i \<notin> owners F s" and tk': "tok (insert i (owners F s)) 0 0 s'"
    using z(3) tok_idle [OF tk] by (auto simp: idle_def)
  then show "i < length (io_zones s')" using z(1) by simp
  show "\<not> IsFull (io_zones s' ! i)"
    using alloc_zone_wf(4) [OF z(2) [OF i(1)] _ file_invD(6) [OF inv i(1)] file_invD(5) [OF inv]]
      file_invD(2) [OF inv] i by (auto simp: zones_wf_def)
  have own: "owners F ?t = insert i (owners F s)"
    using f al(7) owners_split [OF f(1), of ?t] owners_split [OF f(1), of s] owners_cong [of "F - {f}" ?t s]
    by auto
  moreover have "tok (owners F ?t) 0 0 ?t"
    using tk' own by (simp add: tok_def)
  moreover have "zones_wf ?t" "geometry ?t" "accounting F ?t"
    using al geometry_cong [of ?t s'] by (auto simp: zones_wf_def accounting_def intro!: sum.cong)
  moreover have "g = h" if "g \<in> F" "h \<in> F" "active_zone (zfiles ?t g) = Some j"
    "active_zone (zfiles ?t h) = Some j" for g h j
    using that i(2) al(7) file_invD(9) [OF inv, of g h j] by (auto simp: owners_def split: if_splits)
  ultimately show "file_inv F ?t"
    using al file_invD [OF inv] fr z(1) ext_ok_grown [OF al(4)] unfolding file_inv_def tokens_tok
    by auto
qed

section \<open>The metadata writer\<close>

lemma meta_frame_inv:
  assumes "meta_frame media s t" and "file_inv F s"
  shows "file_inv F t" and "others media f s t" and "at_wp f s \<Longrightarrow> at_wp f t"
    and "aligned s \<Longrightarrow> aligned t"
proof -
  have fs: "file_sim (zfiles s g) (zfiles t g)" for g using assms(1) by (simp add: meta_frame_def)
  note fsel = file_sim_sel [OF fs]
  note m = assms(1) [unfolded meta_frame_def]
  have "geometry t" using assms m geometry_cong [of t s] by (simp add: file_inv_def)
  moreover have "owners F t = owners F s" by (rule owners_cong) (simp add: fsel)
  moreover have "zones_wf t" using assms m by (simp add: file_inv_def zones_wf_def)
  ultimately show "file_inv F t"
    using assms(2) m by (auto simp: file_inv_def tokens_def accounting_def fsel)
  have "media (dev t) a = media (dev s) a \<and> written_addr t a" if "written_addr s a" for a
    using that m written_io_addr [of s a] assms(2) by (simp add: file_inv_def written_addr_def)
  then show "others media f s t"
    using m fs by (simp add: others_def fsel)
  show "at_wp f s \<Longrightarrow> at_wp f t" "aligned s \<Longrightarrow> aligned t"
    using m by (simp_all add: at_wp_def aligned_def fsel)
qed

lemma room_others: "others media f s t \<Longrightarrow> room F f t = room F f s"
  using owners_cong [of "F - {f}" t s] by (simp add: room_def others_def file_sim_sel)

text \<open>A state that differs only outside of what a metadata writer works on.\<close>

definition meta_addr :: "('d, 'm) ZBD_scheme \<Rightarrow> u64 \<Rightarrow> bool" where
  "meta_addr s a \<longleftrightarrow> (\<exists>i<length (meta_zones s). in_zone (zone_sz s) (meta_zones s ! i) a)"

definition meta_same ::
  "('d \<Rightarrow> u64 \<Rightarrow> byte) \<Rightarrow> ('d, 'm) FileHeap_scheme \<Rightarrow> ('d, 'm) FileHeap_scheme \<Rightarrow> bool" where
  "meta_same media s t \<longleftrightarrow>
     meta_zones t = meta_zones s \<and> zone_sz t = zone_sz s \<and> block_sz t = block_sz s \<and>
     FileHeap.more t = FileHeap.more s \<and>
     (\<forall>a. meta_addr s a \<longrightarrow> media (dev t) a = media (dev s) a)"

text \<open>
  One result of an operation on file \<open>f\<close>: the invariants of the file layer and of the metadata writer
  (\<open>mw\<close>) hold, and the other files are untouched.
\<close>

definition step_ok ::
  "('d \<Rightarrow> u64 \<Rightarrow> byte) \<Rightarrow> (('d, 'm) FileHeap_scheme \<Rightarrow> bool) \<Rightarrow> nat set \<Rightarrow> nat \<Rightarrow>
     ('d, 'm) FileHeap_scheme \<Rightarrow> ('d, 'm) FileHeap_scheme \<Rightarrow> bool" where
  "step_ok media mw F f s t \<longleftrightarrow> file_inv F t \<and> mw t \<and> others media f s t"

lemma step_ok_trans: "step_ok media mw F f s t \<Longrightarrow> step_ok media mw F f t u \<Longrightarrow> step_ok media mw F f s u"
  using others_trans by (auto simp: step_ok_def)

text \<open>
  What the file layer relies on of the metadata writer: it returns, and it changes nothing of the
  files and of the I/O zones. \<open>mw\<close> is the invariant of the writer.
\<close>

locale metadata_writer =
  fixes be :: "'d backend" and persist :: "('d, 'm) persist" and media :: "'d \<Rightarrow> u64 \<Rightarrow> byte"
    and mw :: "('d, 'm) FileHeap_scheme \<Rightarrow> bool"
  assumes mw_device: "mw s \<Longrightarrow> device_ok be (zone_sz s) media"
    and mw_same: "mw s \<Longrightarrow> meta_same media s t \<Longrightarrow> mw t"
    and persist_returns: "mw s \<Longrightarrow> zones_wf s \<Longrightarrow> geometry s \<Longrightarrow>
      \<exists>st t. persist f s = Some (st, t) \<and> mw t \<and> meta_frame media s t"
begin

lemma persist_step:
  assumes "file_inv F s" and "mw s"
  obtains st t where "persist f s = Some (st, t)" "step_ok media mw F f s t"
    "file_sim (zfiles s f) (zfiles t f)" "io_zones t = io_zones s" "at_wp f s \<Longrightarrow> at_wp f t"
    "aligned s \<Longrightarrow> aligned t"
proof -
  obtain st t where t: "persist f s = Some (st, t)" "mw t" "meta_frame media s t"
    using persist_returns [OF assms(2) file_invD(2,3) [OF assms(1)], of f] by blast
  with meta_frame_inv [OF t(3) assms(1)] show thesis
    by (intro that [of st t]) (auto simp: step_ok_def meta_frame_def)
qed

lemma AllocateNewZone_step:
  assumes inv: "file_inv F s" and mw: "mw s" and f: "f \<in> F" "active_zone (zfiles s f) = None"
    and room: "room F f s"
  obtains st t where "AllocateNewZone be persist f s = Some (st, t)" "step_ok media mw F f s t" "at_wp f t"
    "aligned s \<Longrightarrow> aligned t"
    "extents (zfiles t f) = extents (zfiles s f)" "file_size (zfiles t f) = file_size (zfiles s f)"
    "ok st \<Longrightarrow> \<exists>i. active_zone (zfiles t f) = Some i \<and> \<not> IsFull (io_zones t ! i)"
proof -
  let ?lt = "lifetime (zfiles s f)" and ?iot = "io_type (zfiles s f)"
  have own: "owners F s = owners (F - {f}) s" using owners_split [OF f(1), of s] f(2) by simp
  have tk: "tok (owners F s) 0 0 s" using inv by (simp add: file_inv_def tokens_tok)
  have man: "manage_media be (zone_sz s) media" using mw_device [OF mw] device_okD by blast
  have "open_io_zones s = int (card (owners F s))" using tk by (simp add: tok_def)
  then obtain st zone s1 where alloc: "AllocateIOZone be ?lt ?iot s = Some (st, zone, s1)"
    using AllocateIOZone_returns [OF tk, of ?iot be ?lt] room file_invD(8) [OF inv] own
    by (auto simp: room_def)
  note al = alloc_zones [OF alloc inv man] and oth = alloc_others [OF alloc inv man]
  have "alloc_frame s s1" by (rule al(8))
  from alloc_frame_sel [OF this] alloc_frame_heap [OF this] al(6)
  have same: "meta_same media s s1" "meta_same media s (opened_zone f i s1)" for i
    by (auto simp: meta_same_def)
  show thesis
  proof (cases zone)
    case None
    have "step_ok media mw F f s s1"
      using alloc_none_inv [OF alloc [unfolded None] inv man] oth mw_same [OF mw same(1)]
      by (simp add: step_ok_def)
    moreover have "at_wp f s1" using al(7) f(2) by (simp add: at_wp_def)
    moreover have "AllocateNewZone be persist f s
        = Some (if ok st then NoSpace (''Zone allocation failure'' @ [CHR 0x0A]) [] else st, s1)"
      using alloc None by (simp add: AllocateNewZone_def)
    ultimately show thesis
      using al(7,9) by (intro that [of "if ok st then NoSpace (''Zone allocation failure'' @ [CHR 0x0A]) [] else st" s1])
        (auto split: if_splits)
  next
    case (Some i)
    note si = alloc_some_inv [OF alloc [unfolded Some] inv man f]
    let ?t = "opened_zone f i s1"
    have st: "ok st" using AllocateIOZone_post [OF alloc tk file_invD(2) [OF inv]] Some
      by (auto simp: alloc_post_def)
    have sk: "step_ok media mw F f s ?t" using si oth mw_same [OF mw same(2)] by (simp add: step_ok_def)
    obtain st' t where t: "persist f ?t = Some (st', t)" "step_ok media mw F f ?t t"
      "file_sim (zfiles ?t f) (zfiles t f)" "io_zones t = io_zones ?t" "at_wp f ?t \<Longrightarrow> at_wp f t"
      "aligned ?t \<Longrightarrow> aligned t"
      using persist_step [OF si(1), of f] sk by (auto simp: step_ok_def)
    have "upd_file f (\<lambda>zf. zf\<lparr>extent_start := z_wp (io_zones (SetActiveZone f i s1) ! i),
        extent_filepos := file_size zf\<rparr>) (SetActiveZone f i s1) = ?t"
      by (simp add: SetActiveZone_def opened_zone_def upd_file_def)
    then have "AllocateNewZone be persist f s = Some (st', t)"
      using alloc Some st t(1) by (simp add: AllocateNewZone_def Let_def)
    with t step_ok_trans [OF sk t(2)] file_sim_sel [OF t(3)] si al(7,9) show thesis
      by (intro that [of st' t]) (auto simp: at_wp_def aligned_def)
  qed
qed

end

section \<open>Writing one extent\<close>

text \<open>The state after the device has taken \<open>k\<close> bytes of an append to zone \<open>i\<close>.\<close>

definition appended_zone :: "nat \<Rightarrow> nat \<Rightarrow> 'd \<Rightarrow> ('d, 'm) FileHeap_scheme \<Rightarrow> ('d, 'm) FileHeap_scheme" where
  "appended_zone i k d s =
     AddBytesWritten (of_nat k) (upd_io i (advance k (io_zones s ! i)) (s\<lparr>dev := d\<rparr>))"

lemma appended_zone_sel [simp]:
  "io_zones (appended_zone i k d s) = (io_zones s)[i := advance k (io_zones s ! i)]"
  "dev (appended_zone i k d s) = d" "zfiles (appended_zone i k d s) = zfiles s"
  "meta_zones (appended_zone i k d s) = meta_zones s" "zone_sz (appended_zone i k d s) = zone_sz s"
  "block_sz (appended_zone i k d s) = block_sz s" "FileHeap.more (appended_zone i k d s) = FileHeap.more s"
  "open_io_zones (appended_zone i k d s) = open_io_zones s"
  "active_io_zones (appended_zone i k d s) = active_io_zones s"
  "max_nr_active_io_zones (appended_zone i k d s) = max_nr_active_io_zones s"
  "max_nr_open_io_zones (appended_zone i k d s) = max_nr_open_io_zones s"
  "zone_deferred_status (appended_zone i k d s) = zone_deferred_status s"
  by (simp_all add: appended_zone_def)

lemma tok_owned_change:
  assumes "tok W n m s" and "i \<in> W" and "io_zones t = (io_zones s)[i := z]" and "z_busy z"
    and "open_io_zones t = open_io_zones s" and "active_io_zones t = active_io_zones s"
  shows "tok W n m t"
proof -
  have "active_set W (io_zones t) = active_set W (io_zones s)"
    using assms(1-3) by (auto simp: active_set_def nth_list_update tok_def)
  then show ?thesis
    using assms by (auto simp: tok_def nth_list_update)
qed

lemma file_inv_zone:
  assumes inv: "file_inv F s" and f: "f \<in> F" "active_zone (zfiles s f) = Some i"
    and t: "io_zones t = (io_zones s)[i := z]" "meta_zones t = meta_zones s" "zone_sz t = zone_sz s"
      "block_sz t = block_sz s" "open_io_zones t = open_io_zones s" "active_io_zones t = active_io_zones s"
    and z: "zone_wf (zone_sz s) z" "usable z" "z_busy z" "z_start z = z_start (io_zones s ! i)"
      "unat (z_wp (io_zones s ! i)) \<le> unat (z_wp z)"
    and zf: "\<And>g. g \<noteq> f \<Longrightarrow> zfiles t g = zfiles s g" "active_zone (zfiles t f) = Some i"
      "extents (zfiles t f) = extents (zfiles s f) @ es" "\<And>e. e \<in> set es \<Longrightarrow> ext_ok (io_zones t) e"
      "\<And>j. j \<noteq> i \<Longrightarrow> used_in es j = 0"
      "unat (z_used_capacity z) = unat (z_used_capacity (io_zones s ! i)) + used_in es i"
  shows "file_inv F t"
proof -
  note inv' = file_invD [OF inv] and a = file_inv_active [OF inv f]
  have g: "grown (io_zones s) (io_zones t)" using z t(1) by (simp add: grown_update)
  have act: "active_zone (zfiles t g) = active_zone (zfiles s g)" for g
    using zf(1,2) f(2) by (cases "g = f") simp_all
  then have own: "owners F t = owners F s" by (intro owners_cong) simp
  have "tok (owners F s) 0 0 t"
    using inv'(7) tok_owned_change [OF _ a(1) t(1) z(3) t(5,6)] by (simp add: tokens_tok)
  moreover have "accounting F t"
  proof -
    have "(\<Sum>g\<in>F. used_in (extents (zfiles t g)) j)
        = (\<Sum>g\<in>F. used_in (extents (zfiles s g)) j) + used_in es j" for j
    proof -
      have "(\<Sum>g\<in>F - {f}. used_in (extents (zfiles t g)) j) = (\<Sum>g\<in>F - {f}. used_in (extents (zfiles s g)) j)"
        by (rule sum.cong) (auto simp: zf(1))
      then show ?thesis
        using sum.remove [OF inv'(1) f(1), of "\<lambda>g. used_in (extents (zfiles t g)) j"]
          sum.remove [OF inv'(1) f(1), of "\<lambda>g. used_in (extents (zfiles s g)) j"] zf(3) by simp
    qed
    then show ?thesis
      using inv'(11) a(2) t(1) zf(5,6) by (auto simp: accounting_def nth_list_update)
  qed
  moreover have "geometry t"
    using geometry_cong [of t s] grown_starts [OF g] t inv'(3) by simp
  moreover have "zones_wf t" "\<forall>j<length (io_zones t). usable (io_zones t ! j)"
    "\<forall>j<length (io_zones t). z_busy (io_zones t ! j) \<longrightarrow> j \<in> owners F s"
    using inv'(2,6,8) a t z by (auto simp: zones_wf_def nth_list_update)
  moreover have "ext_ok (io_zones t) e" if "g \<in> F" "e \<in> set (extents (zfiles t g))" for g e
    using that zf(1,3,4) inv'(10) ext_ok_grown [OF g] by (cases "g = f") auto
  ultimately show ?thesis
    using inv' own t act unfolding file_inv_def tokens_tok by auto
qed

lemma appended_others:
  assumes inv: "file_inv F s" and i: "i < length (io_zones s)"
    and app: "appended media (z_wp (io_zones s ! i)) data n k (dev s) d"
    and n: "n \<le> unat (z_capacity (io_zones s ! i))" "k \<le> n"
  shows "others media f s (appended_zone i k d s)"
    and "meta_same media s (appended_zone i k d s)"
proof -
  have wf: "zone_wf (zone_sz s) (io_zones s ! i)" using inv i by (simp add: file_inv_def zones_wf_def)
  have "grown (io_zones s) (io_zones (appended_zone i k d s))"
    using zone_wf_advance(2) [OF wf, of k] n by (simp add: grown_update del: advance_sel(6)) 
  then show "others media f s (appended_zone i k d s)"
    using written_addr_grown [of s "appended_zone i k d s"] app
      written_outside [OF file_invD(2,3) [OF inv] i _ n(1)]
    by (auto simp: others_def appended_def)
  have "n \<le> unat (a - z_wp (io_zones s ! i))" if a: "meta_addr s a" for a
  proof -
    obtain j where "j < length (meta_zones s)" "in_zone (zone_sz s) (meta_zones s ! j) a"
      using a by (auto simp: meta_addr_def)
    moreover from this have "apart (zone_sz s) (io_zones s ! i) (meta_zones s ! j)"
      using file_invD(3) [OF inv] i by (simp add: geometry_def)
    ultimately show ?thesis
      using wf n(1) by (auto simp: apart_def in_zone_def zone_wf_def unat_sub_if')
  qed
  then show "meta_same media s (appended_zone i k d s)"
    using app by (auto simp: meta_same_def appended_def)
qed

lemma usable_advance:
  assumes "zone_wf sz z" and "k \<le> unat (z_capacity z)" and "usable z"
  shows "usable (advance k z)"
proof (cases "k = 0")
  case False
  have "unat (z_wp (advance k z)) = unat (z_wp z) + k" using zone_wf_advance(2) [OF assms(1,2)] .
  then have "unat (z_wp (advance k z)) \<noteq> unat (z_start z)"
    using assms(1) False by (simp add: zone_wf_def)
  then have "\<not> IsEmpty (advance k z)" by (metis IsEmpty_def advance_sel(2))
  then show ?thesis by (simp add: usable_def)
qed (use assms in simp)

lemma append_step:
  assumes dev: "device_ok be (zone_sz s) media" and inv: "file_inv F s"
    and f: "f \<in> F" "active_zone (zfiles s f) = Some i" and n: "unat n \<le> length data"
      "unat n \<le> unat (z_capacity (io_zones s ! i))"
  obtains st k d where "append_io be i data n s = Some (st, appended_zone i k d s)" "k \<le> unat n"
    "ok st \<longleftrightarrow> k = unat n" "appended media (z_wp (io_zones s ! i)) data (unat n) k (dev s) d"
    "file_inv F (appended_zone i k d s)" "others media f s (appended_zone i k d s)"
    "meta_same media s (appended_zone i k d s)"
proof -
  note a = file_inv_active [OF inv f]
  obtain st k d where w: "append_io be i data n s = Some (st, appended_zone i k d s)" "k \<le> unat n"
    "ok st \<longleftrightarrow> k = unat n" "appended media (z_wp (io_zones s ! i)) data (unat n) k (dev s) d"
    by (rule append_io_spec [OF dev n]) (auto simp: appended_zone_def)
  have k: "k \<le> unat (z_capacity (io_zones s ! i))" using w(2) n(2) by simp
  note adv = zone_wf_advance [OF a(4) k] usable_advance [OF a(4) k file_invD(6) [OF inv a(2)]]
  have "file_inv F (appended_zone i k d s)"
    by (rule file_inv_zone [OF inv f, where z = "advance k (io_zones s ! i)" and es = "[]"])
      (use adv a(3) f(2) in \<open>simp_all del: advance_sel(6,7)\<close>)
  with w appended_others [OF inv a(2) w(4) n(2) w(2)] show thesis by (intro that)
qed

text \<open>Noting the extent that was written.\<close>

lemma note_extent_sel:
  assumes "i < length (io_zones s)"
  shows "io_zones (note_extent f i start len s)
      = (io_zones s)[i := (io_zones s ! i)\<lparr>z_used_capacity := z_used_capacity (io_zones s ! i) + len\<rparr>]"
    "zfiles (note_extent f i start len s) = (zfiles s)(f := (zfiles s f)\<lparr>
       extents := extents (zfiles s f) @ [\<lparr>e_start = start, e_length = len, e_zone = i\<rparr>],
       extent_start := z_wp (io_zones s ! i), file_size := file_size (zfiles s f) + len\<rparr>)"
    "dev (note_extent f i start len s) = dev s" "meta_zones (note_extent f i start len s) = meta_zones s"
    "zone_sz (note_extent f i start len s) = zone_sz s" "block_sz (note_extent f i start len s) = block_sz s"
    "open_io_zones (note_extent f i start len s) = open_io_zones s"
    "active_io_zones (note_extent f i start len s) = active_io_zones s"
    "max_nr_active_io_zones (note_extent f i start len s) = max_nr_active_io_zones s"
    "max_nr_open_io_zones (note_extent f i start len s) = max_nr_open_io_zones s"
    "zone_deferred_status (note_extent f i start len s) = zone_deferred_status s"
    "FileHeap.more (note_extent f i start len s) = FileHeap.more s"
  by (simp_all add: note_extent_def add_used_def Let_def)

lemma note_extent_step:
  assumes inv: "file_inv F s" and f: "f \<in> F" "active_zone (zfiles s f) = Some i"
    and ext: "unat (z_start (io_zones s ! i)) \<le> unat start"
      "unat start + unat len \<le> unat (z_wp (io_zones s ! i))"
    and used: "unat (z_start (io_zones s ! i)) + unat (z_used_capacity (io_zones s ! i)) + unat len
      \<le> unat (z_wp (io_zones s ! i))"
  shows "file_inv F (note_extent f i start len s)" "others media f s (note_extent f i start len s)"
    "meta_same media s (note_extent f i start len s)" "at_wp f (note_extent f i start len s)"
    "aligned (note_extent f i start len s) = aligned s"
    "content media (note_extent f i start len s) f = content media s f @
       map (media (dev s)) (ext_addrs \<lparr>e_start = start, e_length = len, e_zone = i\<rparr>)"
proof -
  note a = file_inv_active [OF inv f]
  note sel = note_extent_sel [OF a(2), of f start len]
  let ?t = "note_extent f i start len s" and ?e = "\<lparr>e_start = start, e_length = len, e_zone = i\<rparr>"
  let ?z = "(io_zones s ! i)\<lparr>z_used_capacity := z_used_capacity (io_zones s ! i) + len\<rparr>"
  have "unat (z_used_capacity (io_zones s ! i) + len) = unat (z_used_capacity (io_zones s ! i)) + unat len"
    using used unat_u64_less [of "z_wp (io_zones s ! i)"] by (intro unat_add_no_wrap) simp
  with a(4) used have z: "zone_wf (zone_sz s) ?z" "usable ?z"
    "unat (z_used_capacity ?z) = unat (z_used_capacity (io_zones s ! i)) + used_in [?e] i"
    using file_invD(6) [OF inv a(2)] by (simp_all add: zone_wf_def usable_def IsEmpty_def IsFull_def)
  show "file_inv F ?t"
    by (rule file_inv_zone [OF inv f, where z = ?z and es = "[?e]"])
      (use z a(2,3) f(2) ext sel in \<open>simp_all add: ext_ok_def\<close>)
  have "grown (io_zones s) (io_zones ?t)" using sel by (simp add: grown_update)
  then show "others media f s ?t" "meta_same media s ?t" "at_wp f ?t"
    using sel written_addr_grown [of s ?t] a(2) f(2) by (auto simp: others_def meta_same_def at_wp_def)
  have "z_capacity ((io_zones s)[i := ?z] ! j) = z_capacity (io_zones s ! j)" for j
    by (cases "i = j") (use a(2) in auto)
  then show "aligned ?t = aligned s" using sel by (simp add: aligned_def)
  show "content media ?t f = content media s f @ map (media (dev s)) (ext_addrs ?e)"
    using sel by (simp add: content_def)
qed

section \<open>Sizes and buffers\<close>

lemma round_up:
  fixes w b :: nat
  assumes "0 < b"
  defines "p \<equiv> (if w mod b = 0 then 0 else b - w mod b)"
  shows "b dvd w + p" and "b dvd m \<Longrightarrow> w \<le> m \<Longrightarrow> w + p \<le> m"
proof -
  obtain q r where w: "w = q * b + r" and r: "r < b" "w mod b = r"
    using mod_less_divisor [OF assms(1), of w] by (metis div_mult_mod_eq)
  have eq: "w + p = (if r = 0 then q * b else Suc q * b)"
    using r(1) by (auto simp: p_def r(2) w)
  then show "b dvd w + p" by simp
  show "w + p \<le> m" if m: "b dvd m" "w \<le> m"
  proof (cases "r = 0")
    case True
    then show ?thesis using eq m w by simp
  next
    case False
    obtain j where j: "m = j * b" using m(1) by (metis dvd_def mult.commute)
    have "q * b < j * b" using m(2) j w False by linarith
    then have "Suc q \<le> j" using assms(1) by simp
    then have "Suc q * b \<le> j * b" by (rule mult_le_mono1)
    then show ?thesis using eq False j by simp
  qed
qed

lemma unat_pad_to_block:
  assumes "0 < bs"
  shows "unat (pad_to_block bs w) = (if unat w mod unat bs = 0 then 0 else unat bs - unat w mod unat bs)"
proof -
  have "w mod bs \<le> bs" using word_mod_less_divisor [OF assms, of w] by simp
  then show ?thesis
    by (simp add: pad_to_block_def Let_def unat_sub_no_wrap unat_mod_distrib word_unat_eq_iff)
qed

lemma unat_clip:
  "unat (clip w z) = min (unat w) (unat (z_capacity z))"
proof (cases "z_capacity z < ucast w")
  case True
  then have "unat (z_capacity z) < unat w" by (simp add: word_less_nat_alt)
  moreover from this have "unat (ucast (z_capacity z) :: u32) = unat (z_capacity z)"
    using unat_u32_less [of w] by (intro unat_ucast_small) simp
  ultimately show ?thesis using True by (simp add: clip_def)
next
  case False
  then show ?thesis by (simp add: clip_def word_less_nat_alt)
qed

lemma write_sizes:
  assumes "0 < bs" and "unat bs dvd unat (z_capacity z)" and "unat w \<le> L" and "unat bs dvd L"
    and "L < 2 ^ 32"
  defines "n \<equiv> clip w z" and "p \<equiv> pad_to_block bs (clip w z)"
  shows "unat n = min (unat w) (unat (z_capacity z))" "unat (n + p) = unat n + unat p"
    "unat (n + p) \<le> unat (z_capacity z)" "unat (n + p) \<le> L" "unat bs dvd unat (n + p)"
    "unat (z_capacity z) \<le> unat w \<Longrightarrow> unat p = 0"
proof -
  show n: "unat n = min (unat w) (unat (z_capacity z))" unfolding n_def by (rule unat_clip)
  have bs: "0 < unat bs" using assms(1) by (simp add: unat_gt_0)
  have p: "unat p = (if unat n mod unat bs = 0 then 0 else unat bs - unat n mod unat bs)"
    unfolding p_def n_def by (rule unat_pad_to_block [OF assms(1)])
  note r = round_up [OF bs, where w = "unat n", folded p]
  have le: "unat n + unat p \<le> L" "unat n + unat p \<le> unat (z_capacity z)"
    using r(2) [OF assms(4)] r(2) [OF assms(2)] n assms(3) by simp_all
  then show s: "unat (n + p) = unat n + unat p" using assms(5) by (intro unat_add_no_wrap) simp
  show "unat (n + p) \<le> unat (z_capacity z)" "unat (n + p) \<le> L" "unat bs dvd unat (n + p)"
    using s le r(1) by simp_all
  show "unat (z_capacity z) \<le> unat w \<Longrightarrow> unat p = 0"
    using le n by simp
qed

lemma memset0_length: "pos + n \<le> length buf \<Longrightarrow> length (memset0 buf pos n) = length buf"
  by (simp add: memset0_def)

lemma memset0_take: "m \<le> pos \<Longrightarrow> pos \<le> length buf \<Longrightarrow> take m (memset0 buf pos n) = take m buf"
  by (simp add: memset0_def min_def)

lemma memset0_0 [simp]: "memset0 buf pos 0 = buf"
  by (simp add: memset0_def)

lemma memcpy_0: "length src \<le> length buf \<Longrightarrow> length (memcpy buf 0 src) = length buf"
  "take (length src) (memcpy buf 0 src) = src"
  by (simp_all add: memcpy_def)

lemma stored_ext:
  assumes "stored media d pos (take n data)" and "unat len \<le> n" and "n \<le> length data"
  shows "map (media d) (ext_addrs \<lparr>e_start = pos, e_length = len, e_zone = i\<rparr>) = take (unat len) data"
  using assms by (intro nth_equalityI) (auto simp: stored_def)

section \<open>One round of an append\<close>

text \<open>The end of a round of the append loops, as one operation.\<close>

definition roll_zone ::
  "'d backend \<Rightarrow> ('d, 'm) persist \<Rightarrow> nat \<Rightarrow> ('d, 'm) FileHeap_scheme \<Rightarrow>
     (IOStatus \<times> ('d, 'm) FileHeap_scheme) option" where
  "roll_zone be persist f s =
     (if z_capacity (io_zones s ! the_active f s) = 0
      then
        (let (st, s1) = CloseActiveZone be f s
         in if \<not> ok st then Some (st, s1) else AllocateNewZone be persist f s1)
      else Some (OK, s))"

lemma others_content_self:
  assumes "others media f s t" and "file_inv F s" and "f \<in> F" and "extents (zfiles t f) = extents (zfiles s f)"
  shows "content media t f = content media s f"
  using assms by (intro content_kept) (auto simp: others_def file_inv_def)

lemma aligned_appended:
  assumes "aligned s" and "zone_wf (zone_sz s) (io_zones s ! i)" and "k \<le> unat (z_capacity (io_zones s ! i))"
    and "unat (block_sz s) dvd k"
  shows "aligned (appended_zone i k d s)"
  unfolding aligned_def
proof (intro allI impI)
  fix j assume "j < length (io_zones (appended_zone i k d s))"
  then show "unat (block_sz (appended_zone i k d s)) dvd unat (z_capacity (io_zones (appended_zone i k d s) ! j))"
    using assms zone_wf_advance(3) [OF assms(2,3)]
    by (cases "i = j") (auto simp: aligned_def dvd_diff_nat simp del: advance_sel(7))
qed

context metadata_writer
begin

text \<open>A state in which file \<open>f\<close> can write: it has a zone with free capacity and writes at its end.\<close>

lemma write_round:
  assumes inv: "file_inv F s" "mw s" "aligned s" and f: "f \<in> F" "active_zone (zfiles s f) = Some i" "at_wp f s"
    and n: "unat n \<le> length data" "unat n \<le> unat (z_capacity (io_zones s ! i))" "unat (block_sz s) dvd unat n"
    and len: "h + unat len \<le> unat n"
  obtains (fail) st t where "append_io be i data n s = Some (st, t)" "\<not> ok st" "step_ok media mw F f s t"
      "content media t f = content media s f" "file_size (zfiles t f) = file_size (zfiles s f)"
  | (wrote) st s1 t where "append_io be i data n s = Some (st, s1)" "ok st"
      "t = note_extent f i (extent_start (zfiles s1 f) + of_nat h) len s1" "step_ok media mw F f s t"
      "aligned t" "at_wp f t" "active_zone (zfiles t f) = Some i"
      "unat (z_capacity (io_zones t ! i)) = unat (z_capacity (io_zones s ! i)) - unat n"
      "content media t f = content media s f @ take (unat len) (drop h data)"
      "file_size (zfiles t f) = file_size (zfiles s f) + len"
proof -
  note a = file_inv_active [OF inv(1) f(1,2)]
  obtain st k d where w: "append_io be i data n s = Some (st, appended_zone i k d s)" "k \<le> unat n"
    "ok st \<longleftrightarrow> k = unat n" "appended media (z_wp (io_zones s ! i)) data (unat n) k (dev s) d"
    "file_inv F (appended_zone i k d s)" "others media f s (appended_zone i k d s)"
    "meta_same media s (appended_zone i k d s)"
    by (rule append_step [OF mw_device [OF inv(2)] inv(1) f(1,2) n(1,2)])
  let ?s1 = "appended_zone i k d s"
  have k: "k \<le> unat (z_capacity (io_zones s ! i))" using w(2) n(2) by simp
  note adv = zone_wf_advance [OF a(4) k]
  have s1: "step_ok media mw F f s ?s1" "content media ?s1 f = content media s f"
    using w mw_same [OF inv(2) w(7)] others_content_self [OF w(6) inv(1) f(1)] by (simp_all add: step_ok_def)
  show thesis
  proof (cases "ok st")
    case False
    with w s1 show thesis by (intro fail [of st ?s1]) auto
  next
    case True
    then have kn: "k = unat n" using w(3) by simp
    let ?start = "extent_start (zfiles ?s1 f) + of_nat h" and ?z = "io_zones s ! i"
    let ?t = "note_extent f i ?start len ?s1"
    have es: "extent_start (zfiles ?s1 f) = z_wp ?z" using f(2,3) by (simp add: at_wp_def)
    have zone: "io_zones ?s1 ! i = advance k ?z" using a(2) by simp
    have "unat (z_wp ?z) + k < 2 ^ 64" using adv(2) unat_u64_less [of "z_wp (advance k ?z)"] by simp
    then have us: "unat ?start = unat (z_wp ?z) + h"
      using len kn unfolding es by (simp add: unat_add_no_wrap unat_of_nat_small)
    have note_ok: "unat (z_start (io_zones ?s1 ! i)) \<le> unat ?start"
      "unat ?start + unat len \<le> unat (z_wp (io_zones ?s1 ! i))"
      "unat (z_start (io_zones ?s1 ! i)) + unat (z_used_capacity (io_zones ?s1 ! i)) + unat len
        \<le> unat (z_wp (io_zones ?s1 ! i))"
      using a(4) len kn adv(2) us unfolding zone by (simp_all add: zone_wf_def del: advance_sel(6))
    have act: "active_zone (zfiles ?s1 f) = Some i" using f(2) by simp
    note nt = note_extent_step [OF w(5) f(1) act note_ok]
    note sel = note_extent_sel [of i ?s1 f ?start len]
    have "step_ok media mw F f ?s1 ?t"
      using nt mw_same [OF _ nt(3)] s1(1) by (simp add: step_ok_def)
    moreover have "map (media d) (ext_addrs \<lparr>e_start = ?start, e_length = len, e_zone = i\<rparr>)
        = take (unat len) (drop h data)"
    proof (rule nth_equalityI)
      fix j assume "j < length (map (media d) (ext_addrs \<lparr>e_start = ?start, e_length = len, e_zone = i\<rparr>))"
      then have "j < unat len" by simp
      moreover have "media d (z_wp ?z + of_nat m) = data ! m" if "m < unat n" for m
        using w(4) that kn n(1) by (simp add: appended_def stored_def)
      note this [of "h + j"]
      ultimately show "map (media d) (ext_addrs \<lparr>e_start = ?start, e_length = len, e_zone = i\<rparr>) ! j
          = take (unat len) (drop h data) ! j"
        using len kn n(1) unfolding es by (simp add: add.assoc)
    qed (use len n(1) in simp)
    moreover have "aligned ?t" using nt(5) aligned_appended [OF inv(3) a(4) k, of d] n(3) kn by simp
    ultimately show thesis
      using True w(1) s1 nt sel a(2) act adv(3) kn
      by (intro wrote [of st ?s1 ?t]) (auto intro: step_ok_trans simp del: advance_sel(7))
  qed
qed

text \<open>After a write: on to the next zone if this one is full.\<close>

lemma next_zone:
  assumes inv: "file_inv F s" "mw s" "aligned s" and f: "f \<in> F" "active_zone (zfiles s f) = Some i" "at_wp f s"
    and room: "room F f s"
  obtains st t where "roll_zone be persist f s = Some (st, t)" "step_ok media mw F f s t" "aligned t" "at_wp f t"
    "content media t f = content media s f" "file_size (zfiles t f) = file_size (zfiles s f)" "room F f t"
    "ok st \<Longrightarrow> \<exists>i. active_zone (zfiles t f) = Some i \<and> \<not> IsFull (io_zones t ! i)"
proof (cases "z_capacity (io_zones s ! i) = 0")
  case True
  note a = file_inv_active [OF inv(1) f(1,2)]
  let ?c = "closed_zone f i s"
  have fl: "IsFull (io_zones s ! i)" using True by (simp add: IsFull_def)
  have cl: "CloseActiveZone be f s = (OK, ?c)" using CloseActiveZone_full [OF f(2) a(3)] fl by simp
  have "meta_same media s ?c" by (simp add: meta_same_def)
  then have sk: "step_ok media mw F f s ?c"
    using file_inv_closed [OF inv(1) f(1,2)] fl others_closed [OF a(2)] mw_same [OF inv(2)]
    by (simp add: step_ok_def)
  have "room F f ?c" using room_others [OF others_closed [OF a(2), of media f], of F] room by simp
  then obtain st t where t: "AllocateNewZone be persist f ?c = Some (st, t)" "step_ok media mw F f ?c t" "at_wp f t"
    "aligned ?c \<Longrightarrow> aligned t" "extents (zfiles t f) = extents (zfiles ?c f)"
    "file_size (zfiles t f) = file_size (zfiles ?c f)"
    "ok st \<Longrightarrow> \<exists>i. active_zone (zfiles t f) = Some i \<and> \<not> IsFull (io_zones t ! i)"
    using AllocateNewZone_step [of F ?c f] sk f(1) by (auto simp: step_ok_def)
  note st = step_ok_trans [OF sk t(2)]
  have "roll_zone be persist f s = Some (st, t)"
    using True f(2) cl t(1) by (simp add: roll_zone_def the_active_def)
  moreover have "content media t f = content media s f"
    using others_content_self [of media f s t F] t(5) st inv f by (auto simp: step_ok_def)
  ultimately show thesis
    using t st inv(3) room room_others [of media f s t F] by (intro that [of st t]) (auto simp: step_ok_def)
next
  case False
  then have "roll_zone be persist f s = Some (OK, s)"
    using f(2) by (simp add: roll_zone_def the_active_def)
  with assms False show thesis
    by (intro that [of OK s]) (auto simp: step_ok_def IsFull_def)
qed

end

section \<open>Buffered appends\<close>

text \<open>
  \<open>ready\<close>: the file has a zone with free capacity and writes at its end. \<open>append_post\<close>: what an append of
  \<open>data\<close> to file \<open>f\<close> has done: \<open>k\<close> bytes of it were added to the content, all of them if the
  status is OK, and then the file can go on writing.
\<close>

definition ready :: "(('d, 'm) FileHeap_scheme \<Rightarrow> bool) \<Rightarrow> nat set \<Rightarrow> nat \<Rightarrow> ('d, 'm) FileHeap_scheme \<Rightarrow> bool" where
  "ready mw F f s \<longleftrightarrow>
     file_inv F s \<and> mw s \<and> aligned s \<and> f \<in> F \<and> at_wp f s \<and> room F f s \<and>
     (\<exists>i. active_zone (zfiles s f) = Some i \<and> \<not> IsFull (io_zones s ! i))"

definition append_post ::
  "('d \<Rightarrow> u64 \<Rightarrow> byte) \<Rightarrow> (('d, 'm) FileHeap_scheme \<Rightarrow> bool) \<Rightarrow> nat set \<Rightarrow> nat \<Rightarrow> bytes \<Rightarrow> IOStatus \<Rightarrow>
     ('d, 'm) FileHeap_scheme \<Rightarrow> ('d, 'm) FileHeap_scheme \<Rightarrow> bool" where
  "append_post media mw F f data st s t \<longleftrightarrow>
     step_ok media mw F f s t \<and>
     (\<exists>k\<le>length data. content media t f = content media s f @ take k data \<and>
        file_size (zfiles t f) = file_size (zfiles s f) + of_nat k \<and> (ok st \<longrightarrow> k = length data)) \<and>
     (ok st \<longrightarrow> ready mw F f t)"

lemma append_post_0:
  assumes "step_ok media mw F f s t" and "content media t f = content media s f"
    and "file_size (zfiles t f) = file_size (zfiles s f)" and "\<not> ok st"
  shows "append_post media mw F f data st s t"
  using assms by (auto simp: append_post_def intro!: exI [of _ 0])

lemma append_post_cons:
  assumes first: "step_ok media mw F f s t" "content media t f = content media s f @ data1"
      "file_size (zfiles t f) = file_size (zfiles s f) + of_nat (length data1)"
    and rest: "append_post media mw F f data2 st t u"
  shows "append_post media mw F f (data1 @ data2) st s u"
proof -
  obtain k where k: "k \<le> length data2" "content media u f = content media t f @ take k data2"
    "file_size (zfiles u f) = file_size (zfiles t f) + of_nat k" "ok st \<longrightarrow> k = length data2"
    using rest by (auto simp: append_post_def)
  have "step_ok media mw F f s u" using first(1) rest step_ok_trans by (auto simp: append_post_def)
  then show ?thesis
    using rest k first
    by (auto simp: append_post_def intro!: exI [of _ "length data1 + k"])
qed

text \<open>The buffer after a round: what is left was moved to the front if the zone was full.\<close>

definition next_buffer :: "u32 \<Rightarrow> u32 \<Rightarrow> u32 \<Rightarrow> bool \<Rightarrow> bytes \<Rightarrow> bytes" where
  "next_buffer left wr pad full buffer =
     (let buf = memset0 buffer (unat wr) (unat pad)
      in if full then memcpy buf 0 (take (unat (left - wr)) (drop (unat wr) buf)) else buf)"

lemma next_buffer:
  assumes "unat wr \<le> unat left" and "unat left \<le> length buffer" and "unat wr + unat pad \<le> length buffer"
    and "unat pad = 0 \<or> unat wr = unat left" and "\<not> full \<longrightarrow> unat wr = unat left"
  shows "length (next_buffer left wr pad full buffer) = length buffer"
    and "take (unat left - unat wr) (next_buffer left wr pad full buffer)
      = take (unat left - unat wr) (drop (unat wr) buffer)"
proof -
  let ?buf = "memset0 buffer (unat wr) (unat pad)"
  have sub: "unat (left - wr) = unat left - unat wr"
    using assms(1) by (simp add: unat_sub_no_wrap word_le_nat_alt)
  have len: "length ?buf = length buffer" using assms(3) by (simp add: memset0_length)
  let ?rest = "take (unat left - unat wr) (drop (unat wr) ?buf)"
  have rest: "length ?rest = unat left - unat wr" using len assms(2) by simp
  show "length (next_buffer left wr pad full buffer) = length buffer"
    using len rest sub assms(2) by (simp add: next_buffer_def Let_def memcpy_0)
  show "take (unat left - unat wr) (next_buffer left wr pad full buffer)
      = take (unat left - unat wr) (drop (unat wr) buffer)"
    using memcpy_0(2) [of ?rest ?buf] rest sub assms(4,5) by (auto simp: next_buffer_def Let_def)
qed

lemma BufferedAppend_loop_round:
  assumes "left \<noteq> 0" and "the_active f s = i" and "clip left (io_zones s ! i) = wr"
    and "pad_to_block (block_sz s) wr = pad"
    and "append_io be i (memset0 buffer (unat wr) (unat pad)) (wr + pad) s = Some (st, s1)" and "ok st"
    and "note_extent f i (extent_start (zfiles s1 f)) (ucast wr) s1 = t" and "the_active f t = i"
    and "z_capacity (io_zones t ! i) = 0 \<longleftrightarrow> full" and "roll_zone be persist f t = Some (st', u)"
    and "full \<Longrightarrow> CloseActiveZone be f t = (OK, c)"
  shows "BufferedAppend_loop be persist f buffer left s =
    (if ok st' then BufferedAppend_loop be persist f (next_buffer left wr pad full buffer) (left - wr) u
     else Some (st', next_buffer left wr pad full buffer, u))"
proof (cases full)
  case True
  with assms have "AllocateNewZone be persist f c = Some (st', u)" by (simp add: roll_zone_def)
  with True assms show ?thesis
    by (subst BufferedAppend_loop.simps) (simp add: Let_def next_buffer_def)
next
  case False
  with assms have "st' = OK" "u = t" by (simp_all add: roll_zone_def)
  with False assms show ?thesis
    by (subst BufferedAppend_loop.simps) (simp add: Let_def next_buffer_def)
qed

context metadata_writer
begin

lemma BufferedAppend_round:
  assumes rdy: "ready mw F f s" and left: "left \<noteq> 0" and buf: "unat left \<le> length buffer"
    "unat (block_sz s) dvd length buffer" "length buffer < 2 ^ 32"
  obtains (stop) st b t where "BufferedAppend_loop be persist f buffer left s = Some (st, b, t)"
      "length b = length buffer" "append_post media mw F f (take (unat left) buffer) st s t"
  | (more) wr b u where "BufferedAppend_loop be persist f buffer left s = BufferedAppend_loop be persist f b (left - wr) u"
      "0 < unat wr" "unat wr \<le> unat left" "length b = length buffer" "ready mw F f u" "block_sz u = block_sz s"
      "step_ok media mw F f s u" "content media u f = content media s f @ take (unat wr) buffer"
      "file_size (zfiles u f) = file_size (zfiles s f) + of_nat (length (take (unat wr) buffer))"
      "take (unat left - unat wr) b = take (unat left - unat wr) (drop (unat wr) buffer)"
proof -
  obtain i where f: "f \<in> F" "active_zone (zfiles s f) = Some i" "at_wp f s" "\<not> IsFull (io_zones s ! i)"
    and inv: "file_inv F s" "mw s" "aligned s" "room F f s"
    using rdy by (auto simp: ready_def)
  let ?z = "io_zones s ! i" and ?bs = "block_sz s"
  note a = file_inv_active [OF inv(1) f(1,2)]
  have act: "the_active f s = i" using f(2) by (simp add: the_active_def)
  have cap: "unat ?bs dvd unat (z_capacity ?z)" "0 < unat (z_capacity ?z)" "0 < ?bs"
    using inv(1,3) f(4) a(2) by (auto simp: aligned_def IsFull_def file_inv_def unat_gt_0)
  define wr where "wr = clip left ?z"
  define pad where "pad = pad_to_block ?bs wr"
  note sz = write_sizes [OF cap(3,1) buf, folded wr_def, folded pad_def]
  let ?buf = "memset0 buffer (unat wr) (unat pad)"
  have fit: "unat wr + unat pad \<le> length buffer" using sz(2,4) by simp
  have n: "unat (wr + pad) \<le> length ?buf" "0 + unat (ucast wr :: u64) \<le> unat (wr + pad)"
    using sz fit by (simp_all add: memset0_length)
  from inv(1-3) f(1-3) n(1) sz(3,5) n(2) show thesis
  proof (cases rule: write_round)
    case (fail st t)
    with left have "BufferedAppend_loop be persist f buffer left s = Some (st, ?buf, t)"
      by (subst BufferedAppend_loop.simps)
        (simp add: Let_def act wr_def [symmetric] pad_def [symmetric])
    with fail fit show thesis by (intro stop [of st ?buf t]) (auto intro: append_post_0 simp: memset0_length)
  next
    case (wrote st s1 t)
    have t: "file_inv F t" "mw t" "room F f t" "the_active f t = i"
      using wrote(4,7) inv(4) room_others [of media f s t F]
      by (auto simp: step_ok_def the_active_def)
    from t(1,2) wrote(5) f(1) wrote(7,6) t(3) show thesis
    proof (cases rule: next_zone)
      case (1 st' u)
      define full where "full \<longleftrightarrow> z_capacity (io_zones t ! i) = 0"
      have nf: "\<not> full \<longrightarrow> unat wr = unat left" "unat pad = 0 \<or> unat wr = unat left" "unat wr \<le> unat left"
        using sz(1,2,6) wrote(8) by (auto simp: full_def unat_eq_0 [symmetric] simp del: unat_eq_0)
      note nb = next_buffer [OF nf(3) buf(1) fit nf(2,1)]
      have loop: "BufferedAppend_loop be persist f buffer left s =
          (if ok st' then BufferedAppend_loop be persist f (next_buffer left wr pad full buffer) (left - wr) u
           else Some (st', next_buffer left wr pad full buffer, u))"
        using CloseActiveZone_full [OF wrote(7)] file_inv_active(3) [OF t(1) f(1) wrote(7)] wrote(3)
        by (intro BufferedAppend_loop_round [OF left act wr_def [symmetric] pad_def [symmetric] wrote(1,2) _
              t(4) full_def [symmetric] 1(1)])
          (auto simp: full_def IsFull_def)
      have u: "step_ok media mw F f s u" "content media u f = content media s f @ take (unat wr) buffer"
        "file_size (zfiles u f) = file_size (zfiles s f) + of_nat (length (take (unat wr) buffer))"
        using wrote(4,9,10) 1(2,5,6) fit by (auto simp: memset0_take intro: step_ok_trans)
      show thesis
      proof (cases "ok st'")
        case False
        have "take (unat left) buffer = take (unat wr) buffer @ take (unat left - unat wr) (drop (unat wr) buffer)"
          using nf(3) by (simp add: take_add [symmetric])
        then have "append_post media mw F f (take (unat left) buffer) st' s u"
          using append_post_cons [OF u append_post_0 [OF _ refl refl False]] 1(2) by (simp add: step_ok_def)
        then show thesis using loop False nb(1) by (intro stop [of st' "next_buffer left wr pad full buffer" u]) simp_all
      next
        case True
        then have "ready mw F f u" "block_sz u = ?bs" "0 < unat wr"
          using 1(3,4,7,8) u(1) f(1) left sz(1) cap(2) by (auto simp: ready_def step_ok_def others_def unat_gt_0)
        with loop True nf(3) nb u show thesis
          by (intro more [of "next_buffer left wr pad full buffer" wr u]) simp_all
      qed
    qed
  qed
qed

lemma BufferedAppend_loop_spec:
  assumes "ready mw F f s" "unat left \<le> length buffer" "unat (block_sz s) dvd length buffer" "length buffer < 2 ^ 32"
  shows "\<exists>st b t. BufferedAppend_loop be persist f buffer left s = Some (st, b, t) \<and>
    length b = length buffer \<and> append_post media mw F f (take (unat left) buffer) st s t"
  using assms
proof (induction "unat left" arbitrary: left buffer s rule: less_induct)
  case less
  show ?case
  proof (cases "left = 0")
    case True
    then show ?thesis
      using less.prems
      by (subst BufferedAppend_loop.simps) (auto simp: append_post_def step_ok_def ready_def)
  next
    case False
    from less.prems(1) False less.prems(2-4) show ?thesis
    proof (cases rule: BufferedAppend_round)
      case (more wr b u)
      have left1: "unat (left - wr) = unat left - unat wr"
        using more(3) by (simp add: unat_sub_no_wrap word_le_nat_alt)
      have data: "take (unat left) buffer
          = take (unat wr) buffer @ take (unat left - unat wr) (drop (unat wr) buffer)"
        using more(3) by (simp add: take_add [symmetric])
      obtain st b' t where "BufferedAppend_loop be persist f b (left - wr) u = Some (st, b', t)"
        "length b' = length b" "append_post media mw F f (take (unat (left - wr)) b) st u t"
        using less.hyps [of "left - wr" u b] more less.prems(2-4) left1 diff_le_self [of "unat left" "unat wr"]
        by (auto dest: order_trans)
      with more left1 append_post_cons [OF more(7-9)] show ?thesis unfolding data by auto
    qed blast
  qed
qed

lemma ensure_active_spec:
  assumes "file_inv F s" "mw s" "aligned s" "f \<in> F" "at_wp f s" "room F f s"
    and "\<forall>i. active_zone (zfiles s f) = Some i \<longrightarrow> \<not> IsFull (io_zones s ! i)"
  obtains st t where "ensure_active be persist f s = Some (st, t)" "step_ok media mw F f s t"
    "content media t f = content media s f" "file_size (zfiles t f) = file_size (zfiles s f)"
    "ok st \<Longrightarrow> ready mw F f t"
proof (cases "active_zone (zfiles s f)")
  case None
  from assms(1,2,4) None assms(6) show thesis
  proof (cases rule: AllocateNewZone_step)
    case (1 st t)
    have "content media t f = content media s f"
      using others_content_self [of media f s t F] 1 assms(1,4) by (simp add: step_ok_def)
    with 1 None assms room_others [of media f s t F] show thesis
      by (intro that [of st t]) (auto simp: ensure_active_def step_ok_def ready_def)
  qed
next
  case (Some i)
  with assms show thesis
    by (intro that [of OK s]) (auto simp: ensure_active_def step_ok_def ready_def)
qed

lemma BufferedAppend_spec:
  assumes "file_inv F s" "mw s" "aligned s" "f \<in> F" "at_wp f s" "room F f s"
    and "\<forall>i. active_zone (zfiles s f) = Some i \<longrightarrow> \<not> IsFull (io_zones s ! i)"
    and "unat n \<le> length buffer" "unat (block_sz s) dvd length buffer" "length buffer < 2 ^ 32"
  shows "\<exists>st b t. BufferedAppend be persist f buffer n s = Some (st, b, t) \<and>
    length b = length buffer \<and> append_post media mw F f (take (unat n) buffer) st s t"
  using assms(1-7)
proof (cases rule: ensure_active_spec)
  case (1 st t)
  show ?thesis
  proof (cases "ok st")
    case False
    with 1 show ?thesis by (auto simp: BufferedAppend_def intro: append_post_0)
  next
    case True
    then have "ready mw F f t" "block_sz t = block_sz s" using 1 by (auto simp: step_ok_def others_def)
    then obtain st' b u where "BufferedAppend_loop be persist f buffer n t = Some (st', b, u)"
      "length b = length buffer" "append_post media mw F f (take (unat n) buffer) st' t u"
      using BufferedAppend_loop_spec [of F f t n buffer] assms(8-10) by auto
    with 1 True append_post_cons [of media mw F f s t "[]"] show ?thesis
      by (auto simp: BufferedAppend_def)
  qed
qed

end

end
