(* ===== verification/Superblock.thy ===== *)
theory Superblock
  imports FileIO
begin

text \<open>
  The superblock of a file system: class \<^verbatim>\<open>Superblock\<close> of \<^verbatim>\<open>plugin/zenfs/fs/fs_zenfs.h\<close> and
  \<^verbatim>\<open>fs_zenfs.cc\<close>. The character arrays of the class are byte lists of the length of the array. The
  identifier that the environment generates and the version string, which the build generates, are
  arguments of the constructor.
\<close>

section \<open>Strings in character arrays\<close>

text \<open>
  \<open>cstr\<close> is the string that starts at the first element of an array and ends before the first zero;
  \<open>strncpy dst src n\<close> copies such a string and fills up with zeros, up to \<open>n\<close> elements.
\<close>

definition cstr :: "bytes \<Rightarrow> bytes" where
  "cstr a = takeWhile (\<lambda>b. b \<noteq> 0) a"

definition strncpy :: "bytes \<Rightarrow> bytes \<Rightarrow> nat \<Rightarrow> bytes" where
  "strncpy dst src n =
     (let c = take n (cstr src) in c @ replicate (n - length c) 0 @ drop n dst)"

section \<open>The superblock\<close>

record Superblock =
  sb_magic :: u32
  sb_uuid :: bytes
  sb_sequence :: u32
  sb_superblock_version :: u32
  sb_flags :: u32
  sb_block_size :: u32
  sb_zone_size :: u32
  sb_nr_zones :: u32
  sb_aux_fs_path :: bytes
  sb_finish_treshold :: u32
  sb_zenfs_version :: bytes
  sb_reserved :: bytes

definition MAGIC :: u32 where "MAGIC = 0x5a454e46"

definition ENCODED_SIZE :: nat where "ENCODED_SIZE = 512"

definition CURRENT_SUPERBLOCK_VERSION :: u32 where "CURRENT_SUPERBLOCK_VERSION = 2"

definition DEFAULT_FLAGS :: u32 where "DEFAULT_FLAGS = 0"

definition FLAGS_ENABLE_GC :: u32 where "FLAGS_ENABLE_GC = 1"

definition empty_Superblock :: Superblock where
  "empty_Superblock =
     \<lparr>sb_magic = 0, sb_uuid = replicate 37 0, sb_sequence = 0, sb_superblock_version = 0, sb_flags = 0,
      sb_block_size = 0, sb_zone_size = 0, sb_nr_zones = 0, sb_aux_fs_path = replicate 256 0,
      sb_finish_treshold = 0, sb_zenfs_version = replicate 64 0, sb_reserved = replicate 123 0\<rparr>"

definition new_Superblock ::
  "bytes \<Rightarrow> bytes \<Rightarrow> ('d, 'm) ZBD_scheme \<Rightarrow> bytes \<Rightarrow> u32 \<Rightarrow> bool \<Rightarrow> Superblock" where
  "new_Superblock uuid zenfs_version zbd aux_fs_path threshold enable_gc =
     (let sb = empty_Superblock; uuid_len = min (length uuid) 36;
          flags = (if enable_gc then DEFAULT_FLAGS OR FLAGS_ENABLE_GC else DEFAULT_FLAGS)
      in sb\<lparr>sb_uuid := memcpy (sb_uuid sb) 0 (take uuid_len uuid), sb_magic := MAGIC,
            sb_superblock_version := CURRENT_SUPERBLOCK_VERSION, sb_flags := flags,
            sb_finish_treshold := threshold, sb_block_size := block_sz zbd,
            sb_zone_size := ucast (zone_sz zbd div ucast (block_sz zbd)), sb_nr_zones := nr_zones zbd,
            sb_aux_fs_path := strncpy (sb_aux_fs_path sb) aux_fs_path 255,
            sb_zenfs_version := strncpy (sb_zenfs_version sb) zenfs_version 63\<rparr>)"

definition GetAuxFsPath :: "Superblock \<Rightarrow> bytes" where
  "GetAuxFsPath sb = cstr (sb_aux_fs_path sb)"

definition GetUUID :: "Superblock \<Rightarrow> bytes" where
  "GetUUID sb = cstr (sb_uuid sb)"

definition GetSeq :: "Superblock \<Rightarrow> u32" where
  "GetSeq sb = sb_sequence sb"

definition GetFinishTreshold :: "Superblock \<Rightarrow> u32" where
  "GetFinishTreshold sb = sb_finish_treshold sb"

definition IsGCEnabled :: "Superblock \<Rightarrow> bool" where
  "IsGCEnabled sb \<longleftrightarrow> sb_flags sb AND FLAGS_ENABLE_GC \<noteq> 0"

section \<open>Encoding and decoding\<close>

text \<open>
  \<open>get32\<close> is a call of \<^verbatim>\<open>GetFixed32\<close> whose result is not looked at: on a short input it leaves the input
  and the variable alone. \<open>get_array\<close> copies an array of \<open>n\<close> bytes out of the input.
\<close>

definition get32 :: "u32 \<Rightarrow> bytes \<Rightarrow> u32 \<times> bytes" where
  "get32 old input = (case GetFixed32 input of None \<Rightarrow> (old, input) | Some r \<Rightarrow> r)"

definition get_array :: "nat \<Rightarrow> bytes \<Rightarrow> bytes \<times> bytes" where
  "get_array n input = (take n input, drop n input)"

definition Superblock_DecodeFrom :: "bytes \<Rightarrow> Superblock \<Rightarrow> IOStatus \<times> Superblock \<times> bytes" where
  "Superblock_DecodeFrom input sb =
     (if length input \<noteq> ENCODED_SIZE
      then (Corruption ''ZenFS Superblock'' ''Error: Superblock size missmatch'', sb, input)
      else
        (let (magic, i1) = get32 (sb_magic sb) input;
             (uuid, i2) = get_array 37 i1;
             (sequence, i3) = get32 (sb_sequence sb) i2;
             (superblock_version, i4) = get32 (sb_superblock_version sb) i3;
             (flags, i5) = get32 (sb_flags sb) i4;
             (block_size, i6) = get32 (sb_block_size sb) i5;
             (zone_size, i7) = get32 (sb_zone_size sb) i6;
             (nrz, i8) = get32 (sb_nr_zones sb) i7;
             (finish_treshold, i9) = get32 (sb_finish_treshold sb) i8;
             (aux_fs_path, i10) = get_array 256 i9;
             (zenfs_version, i11) = get_array 64 i10;
             (reserved, i12) = get_array 123 i11;
             sb' = \<lparr>sb_magic = magic, sb_uuid = uuid, sb_sequence = sequence,
                    sb_superblock_version = superblock_version, sb_flags = flags,
                    sb_block_size = block_size, sb_zone_size = zone_size, sb_nr_zones = nrz,
                    sb_aux_fs_path = aux_fs_path, sb_finish_treshold = finish_treshold,
                    sb_zenfs_version = zenfs_version, sb_reserved = reserved\<rparr>
         in if magic \<noteq> MAGIC
            then (Corruption ''ZenFS Superblock'' ''Error: Magic missmatch'', sb', i12)
            else if superblock_version \<noteq> CURRENT_SUPERBLOCK_VERSION
            then (Corruption ''ZenFS Superblock''
                    (''Error: Incompatible ZenFS on-disk format version, '' @
                     ''please migrate data or switch to previously used ZenFS version. '' @
                     ''See the ZenFS README for instructions.''), sb', i12)
            else (OK, sb', i12)))"

text \<open>Encoding counts the sequence number up first, so no two representations are the same.\<close>

definition Superblock_EncodeTo :: "Superblock \<Rightarrow> bytes \<times> Superblock" where
  "Superblock_EncodeTo sb =
     (let sb' = sb\<lparr>sb_sequence := sb_sequence sb + 1\<rparr>;
          o1 = PutFixed32 [] (sb_magic sb') @ sb_uuid sb';
          o2 = PutFixed32 (PutFixed32 (PutFixed32 o1 (sb_sequence sb')) (sb_superblock_version sb'))
                 (sb_flags sb');
          o3 = PutFixed32 (PutFixed32 (PutFixed32 o2 (sb_block_size sb')) (sb_zone_size sb'))
                 (sb_nr_zones sb');
          o4 = PutFixed32 o3 (sb_finish_treshold sb')
      in (o4 @ sb_aux_fs_path sb' @ sb_zenfs_version sb' @ sb_reserved sb', sb'))"

definition CompatibleWith :: "('d, 'm) ZBD_scheme \<Rightarrow> Superblock \<Rightarrow> IOStatus" where
  "CompatibleWith zbd sb =
     (if sb_block_size sb \<noteq> block_sz zbd
      then Corruption ''ZenFS Superblock'' ''Error: block size missmatch''
      else if ucast (sb_zone_size sb) \<noteq> zone_sz zbd div ucast (sb_block_size sb)
      then Corruption ''ZenFS Superblock'' ''Error: zone size missmatch''
      else if sb_nr_zones sb > nr_zones zbd
      then Corruption ''ZenFS Superblock'' ''Error: nr of zones missmatch''
      else OK)"

section \<open>The report\<close>

abbreviation tab :: "nat \<Rightarrow> bytes" where
  "tab n \<equiv> replicate n 9"

definition dec :: "u32 \<Rightarrow> bytes" where
  "dec v = str (to_string (unat v))"

definition GetReport :: "bytes \<Rightarrow> Superblock \<Rightarrow> bytes" where
  "GetReport reportString sb =
     (let r1 = PutFixed32 (reportString @ str ''Magic:'' @ tab 4) (sb_magic sb);
          r2 = r1 @ [10] @ str ''UUID:'' @ tab 4 @ cstr (sb_uuid sb);
          r3 = r2 @ [10] @ str ''Sequence Number:'' @ tab 2 @ dec (sb_sequence sb);
          r4 = r3 @ [10] @ str ''Superblock Version:'' @ tab 2 @ dec (sb_superblock_version sb);
          r5 = r4 @ [10] @ str ''Flags [Decimal]:'' @ tab 2 @ dec (sb_flags sb);
          r6 = r5 @ [10] @ str ''Block Size [Bytes]:'' @ tab 2 @ dec (sb_block_size sb);
          r7 = r6 @ [10] @ str ''Zone Size [Blocks]:'' @ tab 2 @ dec (sb_zone_size sb);
          r8 = r7 @ [10] @ str ''Number of Zones:'' @ tab 2 @ dec (sb_nr_zones sb);
          r9 = r8 @ [10] @ str ''Finish Threshold [%]:'' @ tab 2 @ dec (sb_finish_treshold sb);
          r10 = r9 @ [10] @ str ''Garbage Collection Enabled:'' @ tab 1 @
                  dec (if IsGCEnabled sb then 1 else 0);
          r11 = r10 @ [10] @ str ''Auxiliary FS Path:'' @ tab 2 @ cstr (sb_aux_fs_path sb);
          zenfs_version = cstr (sb_zenfs_version sb)
      in r11 @ [10] @ str ''ZenFS Version:'' @ tab 3 @
           (if length zenfs_version = 0 then str ''Not Available'' else zenfs_version))"

section \<open>Round trip and compatibility\<close>

definition superblock_wf :: "Superblock \<Rightarrow> bool" where
  "superblock_wf sb \<longleftrightarrow>
     length (sb_uuid sb) = 37 \<and> length (sb_aux_fs_path sb) = 256 \<and> length (sb_zenfs_version sb) = 64 \<and>
     length (sb_reserved sb) = 123"

lemma length_strncpy: "n \<le> length dst \<Longrightarrow> length (strncpy dst src n) = length dst"
  by (simp add: strncpy_def Let_def)

lemma cstr_id: "0 \<notin> set c \<Longrightarrow> cstr (c @ 0 # rest) = c"
  by (auto simp: cstr_def takeWhile_append)

lemma cstr_all: "0 \<notin> set c \<Longrightarrow> cstr c = c"
  by (auto simp: cstr_def takeWhile_eq_all_conv)

lemma replicate_Suc_0: "0 < n \<Longrightarrow> replicate n (0 :: byte) = 0 # replicate (n - 1) 0"
  by (cases n) simp_all

text \<open>A string that fits is read as it was stored.\<close>

lemma cstr_strncpy:
  assumes "0 \<notin> set src" and "length src \<le> n" and "n < length dst" and "\<forall>b\<in>set dst. b = 0"
  shows "cstr (strncpy dst src n) = src"
proof -
  have "drop n dst = replicate (length dst - n) 0"
    using assms(4) by (intro replicate_eqI) (auto dest: in_set_dropD)
  then have "replicate (n - length src) 0 @ drop n dst = 0 # replicate (length dst - length src - 1) 0"
    using assms(2,3) replicate_Suc_0 [of "length dst - length src"]
    by (simp add: replicate_add [symmetric])
  with assms(1,2) show ?thesis
    by (simp add: strncpy_def Let_def cstr_all cstr_id)
qed

lemma new_Superblock_wf: "superblock_wf (new_Superblock uuid version zbd aux threshold gc)"
  by (simp add: superblock_wf_def new_Superblock_def empty_Superblock_def Let_def length_strncpy memcpy_def)

lemma get32_Encode [simp]: "get32 old (EncodeFixed32 v @ rest) = (v, rest)"
  by (simp add: get32_def)

lemma get_array_append [simp]: "length a = n \<Longrightarrow> get_array n (a @ rest) = (a, rest)"
  by (auto simp: get_array_def)

lemma Superblock_EncodeTo_bytes:
  "Superblock_EncodeTo sb =
     (let sb' = sb\<lparr>sb_sequence := sb_sequence sb + 1\<rparr>
      in (EncodeFixed32 (sb_magic sb) @ sb_uuid sb @ EncodeFixed32 (sb_sequence sb + 1) @
          EncodeFixed32 (sb_superblock_version sb) @ EncodeFixed32 (sb_flags sb) @
          EncodeFixed32 (sb_block_size sb) @ EncodeFixed32 (sb_zone_size sb) @ EncodeFixed32 (sb_nr_zones sb) @
          EncodeFixed32 (sb_finish_treshold sb) @ sb_aux_fs_path sb @ sb_zenfs_version sb @
          sb_reserved sb, sb'))"
  by (simp add: Superblock_EncodeTo_def Let_def PutFixed32_def)

lemma Superblock_EncodeTo_length:
  "superblock_wf sb \<Longrightarrow> length (fst (Superblock_EncodeTo sb)) = ENCODED_SIZE"
  by (simp add: Superblock_EncodeTo_bytes superblock_wf_def ENCODED_SIZE_def Let_def)

lemma Superblock_Decode_Encode:
  assumes "superblock_wf sb" and "Superblock_EncodeTo sb = (bs, sb')"
  shows "Superblock_DecodeFrom bs old =
    (if sb_magic sb \<noteq> MAGIC then Corruption ''ZenFS Superblock'' ''Error: Magic missmatch''
     else if sb_superblock_version sb \<noteq> CURRENT_SUPERBLOCK_VERSION
     then Corruption ''ZenFS Superblock''
            (''Error: Incompatible ZenFS on-disk format version, '' @
             ''please migrate data or switch to previously used ZenFS version. '' @
             ''See the ZenFS README for instructions.'')
     else OK, sb', [])"
proof -
  have len: "length bs = ENCODED_SIZE"
    using Superblock_EncodeTo_length [OF assms(1)] assms(2) by simp
  have "get_array 123 (sb_reserved sb) = (sb_reserved sb, [])"
    using assms(1) get_array_append [of "sb_reserved sb" 123 "[]"] by (simp add: superblock_wf_def)
  moreover have sb': "sb' = sb\<lparr>sb_sequence := sb_sequence sb + 1\<rparr>"
    and bs: "bs = EncodeFixed32 (sb_magic sb) @ sb_uuid sb @ EncodeFixed32 (sb_sequence sb + 1) @
          EncodeFixed32 (sb_superblock_version sb) @ EncodeFixed32 (sb_flags sb) @
          EncodeFixed32 (sb_block_size sb) @ EncodeFixed32 (sb_zone_size sb) @ EncodeFixed32 (sb_nr_zones sb) @
          EncodeFixed32 (sb_finish_treshold sb) @ sb_aux_fs_path sb @ sb_zenfs_version sb @
          sb_reserved sb"
    using assms(2) by (simp_all add: Superblock_EncodeTo_bytes Let_def)
  ultimately show ?thesis
    using assms(1) len
    unfolding Superblock_DecodeFrom_def
    by (simp only: bs sb' superblock_wf_def get32_Encode get_array_append Let_def case_prod_conv) simp
qed

text \<open>
  (C17) The superblock that \<^verbatim>\<open>MkFS\<close> creates for a device survives being written and read: its encoding has
  512 bytes, decoding accepts it and gives the same superblock with the next sequence number, all
  input is used up, the auxiliary path and the options come out as they went in, and the superblock is
  compatible with every device of the same block and zone size that has at least as many zones.
\<close>

theorem Superblock_roundtrip:
  assumes "Superblock_EncodeTo (new_Superblock uuid version zbd aux threshold gc) = (bs, sb)"
    and "0 \<notin> set aux" and "length aux \<le> 255"
    and "unat (zone_sz zbd) div unat (block_sz zbd) < 2 ^ 32"
    and "block_sz zbd' = block_sz zbd" and "zone_sz zbd' = zone_sz zbd" and "nr_zones zbd \<le> nr_zones zbd'"
  shows "length bs = 512 \<and> Superblock_DecodeFrom bs old = (OK, sb, []) \<and> GetSeq sb = 1 \<and>
    GetAuxFsPath sb = aux \<and> GetFinishTreshold sb = threshold \<and> IsGCEnabled sb = gc \<and>
    CompatibleWith zbd' sb = OK"
proof -
  let ?new = "new_Superblock uuid version zbd aux threshold gc"
  have sb: "sb = ?new\<lparr>sb_sequence := sb_sequence ?new + 1\<rparr>"
    using assms(1) by (simp add: Superblock_EncodeTo_bytes Let_def)
  have "cstr (strncpy (replicate 256 0) aux 255) = aux"
    using assms(2,3) by (intro cstr_strncpy) auto
  moreover have "Superblock_DecodeFrom bs old = (OK, sb, [])"
    using Superblock_Decode_Encode [OF new_Superblock_wf assms(1), of old]
    by (simp add: new_Superblock_def Let_def)
  moreover have "length bs = 512"
    using Superblock_EncodeTo_length [OF new_Superblock_wf [of uuid version zbd aux threshold gc]] assms(1)
    by (simp add: ENCODED_SIZE_def)
  moreover have "ucast (ucast (zone_sz zbd div ucast (block_sz zbd)) :: u32) = zone_sz zbd div ucast (block_sz zbd)"
    using assms(4) by (intro word_unat_eq_iff [THEN iffD2]) (simp add: unat_div_distrib unat_ucast_small)
  ultimately show ?thesis
    using assms(5-7)
    by (auto simp: sb new_Superblock_def empty_Superblock_def Let_def GetSeq_def GetAuxFsPath_def
        GetFinishTreshold_def IsGCEnabled_def CompatibleWith_def DEFAULT_FLAGS_def FLAGS_ENABLE_GC_def)
qed

text \<open>A device, and a superblock for it.\<close>

definition zbd1 :: "unit ZBD" where
  "zbd1 =
     \<lparr>block_sz = 4096, zone_sz = 0x10000000, nr_zones = 40, dev = (), io_zones = [], meta_zones = [],
      finish_threshold = 0, bytes_written = 0, gc_bytes_written = 0, active_io_zones = 0,
      open_io_zones = 0, zone_deferred_status = OK, migrating = False, max_nr_active_io_zones = 12,
      max_nr_open_io_zones = 12\<rparr>"

definition sb1 :: Superblock where
  "sb1 = new_Superblock (str ''7f6d'') (str ''v2.1'') zbd1 (str ''/aux'') 10 True"

theorem Superblock_roundtrip_witness:
  "Superblock_DecodeFrom (fst (Superblock_EncodeTo sb1)) empty_Superblock
     = (OK, snd (Superblock_EncodeTo sb1), []) \<and>
   CompatibleWith (zbd1\<lparr>nr_zones := 41\<rparr>) (snd (Superblock_EncodeTo sb1)) = OK"
proof -
  have "0 \<notin> set (str ''/aux'')" "unat (zone_sz zbd1) div unat (block_sz zbd1) < 2 ^ 32"
    "nr_zones zbd1 \<le> nr_zones (zbd1\<lparr>nr_zones := 41\<rparr>)"
    by (simp_all add: zbd1_def)
  then show ?thesis
    using Superblock_roundtrip [of "str ''7f6d''" "str ''v2.1''" zbd1 "str ''/aux''" 10 True
        "fst (Superblock_EncodeTo sb1)" "snd (Superblock_EncodeTo sb1)" "zbd1\<lparr>nr_zones := 41\<rparr>"
        empty_Superblock]
    by (simp add: sb1_def)
qed

end
