(* ===== verification/MetaLog.thy ===== *)
theory MetaLog
  imports Crc32c FileWrites Superblock
begin

text \<open>
  The metadata log: class \<^verbatim>\<open>ZenMetaLog\<close> of \<^verbatim>\<open>plugin/zenfs/fs/fs_zenfs.h\<close> and \<^verbatim>\<open>fs_zenfs.cc\<close>. A log lives
  in one metadata zone, an index into \<^verbatim>\<open>meta_zones\<close>. A record is its masked checksum, its length and its
  bytes, padded to whole blocks; the checksum covers the length and the bytes.

  The allocation of the write buffer succeeds. The length is checksummed as it lies in memory, on a
  little-endian machine as \<^verbatim>\<open>EncodeFixed32\<close> writes it. The value of a checksum does not depend on the address
  of the buffer (\<^verbatim>\<open>Crc32c.Extend_correct\<close>), so the address is 0 here. The test for \<^verbatim>\<open>EINTR\<close> in the read loop
  never holds, since \<^verbatim>\<open>ZonedBlockDevice::Read\<close> retries such reads itself.
\<close>

section \<open>The log\<close>

record ZenMetaLog =
  ml_read_pos :: u64
  ml_zone :: nat
  ml_bs :: u64

definition zMetaHeaderSize :: nat where "zMetaHeaderSize = 8"

definition new_ZenMetaLog :: "nat \<Rightarrow> ('d, 'm) ZBD_scheme \<Rightarrow> ZenMetaLog" where
  "new_ZenMetaLog i s =
     \<lparr>ml_read_pos = z_start (meta_zones s ! i), ml_zone = i, ml_bs = ucast (block_sz s)\<rparr>"

text \<open>The destructor releases the zone.\<close>

definition delete_ZenMetaLog :: "ZenMetaLog \<Rightarrow> ('d, 'm) ZBD_scheme \<Rightarrow> ('d, 'm) ZBD_scheme" where
  "delete_ZenMetaLog log s = upd_meta (ml_zone log) (snd (Release (meta_zones s ! ml_zone log))) s"

definition AddRecord ::
  "'d backend \<Rightarrow> ZenMetaLog \<Rightarrow> bytes \<Rightarrow> ('d, 'm) ZBD_scheme \<Rightarrow> (IOStatus \<times> ('d, 'm) ZBD_scheme) option"
where
  "AddRecord be log data s =
     (let record_sz = of_nat (length data) :: u32;
          phys_sz = ucast record_sz + of_nat zMetaHeaderSize :: u64;
          phys_sz1 = (if phys_sz mod ml_bs log \<noteq> 0 then phys_sz + (ml_bs log - phys_sz mod ml_bs log)
                      else phys_sz);
          buffer = memset0 [] 0 (unat phys_sz1);
          crc = Extend 0 0 (EncodeFixed32 record_sz);
          crc1 = Extend 0 crc (take (unat record_sz) data);
          crc2 = Mask crc1;
          buffer1 = memcpy buffer 0 (EncodeFixed32 crc2);
          buffer2 = memcpy buffer1 4 (EncodeFixed32 record_sz);
          buffer3 = memcpy buffer2 8 (take (unat record_sz) data)
      in append_meta be (ml_zone log) buffer3 (ucast phys_sz1) s)"

text \<open>Reading \<open>left\<close> more bytes. A device that returns no bytes keeps the loop going.\<close>

partial_function (option) MetaLog_Read_loop ::
  "'d backend \<Rightarrow> nat \<Rightarrow> bytes \<Rightarrow> u64 \<Rightarrow> ('d, 'm) ZBD_scheme \<Rightarrow>
     (IOStatus \<times> bytes \<times> u64 \<times> ('d, 'm) ZBD_scheme) option"
where
  "MetaLog_Read_loop be left acc read_pos s =
     (if left = 0 then Some (OK, acc, read_pos, s)
      else
        do {
          (ret, buf, s1) \<leftarrow> ZBD_Read be read_pos left False s;
          if ret < 0 then Some (IOError ''Read failed'' [], acc, read_pos, s1)
          else MetaLog_Read_loop be (left - nat ret) (acc @ buf) (read_pos + of_int ret) s1
        })"

text \<open>The slice comes out empty at the end of the log.\<close>

definition MetaLog_Read ::
  "'d backend \<Rightarrow> ZenMetaLog \<Rightarrow> nat \<Rightarrow> ('d, 'm) ZBD_scheme \<Rightarrow>
     (IOStatus \<times> bytes \<times> ZenMetaLog \<times> ('d, 'm) ZBD_scheme) option"
where
  "MetaLog_Read be log to_read s =
     (let z = meta_zones s ! ml_zone log
      in if ml_read_pos log \<ge> z_wp z then Some (OK, [], log, s)
         else if ml_read_pos log + of_nat to_read > z_start z + z_max_capacity z
         then Some (IOError ''Read across zone'' [], [], log, s)
         else
           do {
             (st, slice, read_pos, s1) \<leftarrow> MetaLog_Read_loop be to_read [] (ml_read_pos log) s;
             Some (st, slice, log\<lparr>ml_read_pos := read_pos\<rparr>, s1)
           })"

text \<open>The next record, empty at the end of the log. The record means nothing unless the status is OK.\<close>

definition ReadRecord ::
  "'d backend \<Rightarrow> ZenMetaLog \<Rightarrow> ('d, 'm) ZBD_scheme \<Rightarrow>
     (IOStatus \<times> bytes \<times> ZenMetaLog \<times> ('d, 'm) ZBD_scheme) option"
where
  "ReadRecord be log s =
     do {
       (st, header, log1, s1) \<leftarrow> MetaLog_Read be log zMetaHeaderSize s;
       if \<not> ok st then Some (st, [], log1, s1)
       else if header = [] then Some (OK, [], log1, s1)
       else
         (let (record_crc, header1) = get32 0 header; (record_sz, header2) = get32 0 header1
          in do {
               (st, record, log2, s2) \<leftarrow> MetaLog_Read be log1 (unat record_sz) s1;
               if \<not> ok st then Some (st, record, log2, s2)
               else
                 (let actual_crc = Crc32c_Value 0 (EncodeFixed32 record_sz);
                      actual_crc1 = Extend 0 actual_crc record
                  in if actual_crc1 \<noteq> Unmask record_crc
                     then Some (IOError ''Not a valid record'' [], record, log2, s2)
                     else
                       (let rp = ml_read_pos log2
                        in Some (OK, record,
                             if rp mod ml_bs log2 \<noteq> 0
                             then log2\<lparr>ml_read_pos := rp + (ml_bs log2 - rp mod ml_bs log2)\<rparr>
                             else log2, s2)))
             })
     }"

section \<open>The bytes of a record\<close>

text \<open>The bytes \<open>AddRecord\<close> writes for a record, and the size they have on the device.\<close>

definition pad_up :: "nat \<Rightarrow> nat \<Rightarrow> nat" where
  "pad_up bs n = (if n mod bs \<noteq> 0 then n + (bs - n mod bs) else n)"

definition record_crc :: "bytes \<Rightarrow> u32" where
  "record_crc data = Crc32c_Value 0 (EncodeFixed32 (of_nat (length data)) @ data)"

definition record_bytes :: "nat \<Rightarrow> bytes \<Rightarrow> bytes" where
  "record_bytes bs data =
     (let h = EncodeFixed32 (Mask (record_crc data)) @ EncodeFixed32 (of_nat (length data)) @ data
      in h @ replicate (pad_up bs (length h) - length h) 0)"

lemma pad_up_bounds: "n \<le> pad_up bs n" "0 < bs \<Longrightarrow> pad_up bs n < n + bs" "0 < bs \<Longrightarrow> bs dvd pad_up bs n"
proof -
  show "n \<le> pad_up bs n" by (simp add: pad_up_def)
  show "0 < bs \<Longrightarrow> pad_up bs n < n + bs" by (simp add: pad_up_def)
  assume "0 < bs"
  then have "n + (bs - n mod bs) = (n - n mod bs) + bs"
    using mod_less_divisor [of bs n] mod_less_eq_dividend [of n bs] by linarith
  then have "bs dvd n + (bs - n mod bs)"
    by (simp only: dvd_add dvd_minus_mod dvd_refl)
  then show "bs dvd pad_up bs n"
    by (auto simp: pad_up_def)
qed

lemma record_bytes_length: "length (record_bytes bs data) = pad_up bs (8 + length data)"
  using pad_up_bounds(1) [of "8 + length data" bs] by (simp add: record_bytes_def Let_def)

lemma Extend_Value: "Extend a 0 x = Crc32c_Value c x" "Extend a (Crc32c_Value b x) y = Crc32c_Value c (x @ y)"
  by (simp_all add: Extend_def ExtendImpl_ref Value_ref)

lemma ucast_of_nat: "unat v = n \<Longrightarrow> ucast v = of_nat n"
  by auto

text \<open>A record is small when its size on the device fits a non-negative \<^verbatim>\<open>int\<close>.\<close>

definition small :: "u64 \<Rightarrow> bytes \<Rightarrow> bool" where
  "small bs data \<longleftrightarrow> 0 < bs \<and> 8 + length data + unat bs < 2 ^ 31"

lemma AddRecord_append:
  assumes "small (ml_bs log) data"
  shows "AddRecord be log data s =
    append_meta be (ml_zone log) (record_bytes (unat (ml_bs log)) data)
      (of_nat (length (record_bytes (unat (ml_bs log)) data))) s"
proof -
  let ?bs = "unat (ml_bs log)" and ?n = "8 + length data"
  have bs: "0 < ?bs" using assms by (simp add: small_def word_less_nat_alt)
  have sz: "unat (of_nat (length data) :: u32) = length data" "?n + ?bs < 2 ^ 31"
    using assms by (auto simp: small_def intro!: unat_of_nat_small)
  note pad = pad_up_bounds(1) [of ?n ?bs] pad_up_bounds(2) [OF bs, of ?n]
  let ?phys = "ucast (of_nat (length data) :: u32) + of_nat zMetaHeaderSize :: u64"
  have phys: "unat ?phys = ?n"
    using sz by (simp add: unat_plus_if' zMetaHeaderSize_def)
  have mod: "unat (?phys mod ml_bs log) = ?n mod ?bs"
    by (simp only: unat_mod_distrib phys)
  have le: "?phys mod ml_bs log \<le> ml_bs log"
    using bs mod mod_less_divisor [OF bs, of ?n] by (simp add: word_le_nat_alt del: mod_less_divisor)
  let ?phys1 = "if ?phys mod ml_bs log \<noteq> 0 then ?phys + (ml_bs log - ?phys mod ml_bs log) else ?phys"
  have zero: "?phys mod ml_bs log = 0 \<longleftrightarrow> ?n mod ?bs = 0"
    using mod by (simp add: word_unat_eq_iff)
  have "unat (ml_bs log - ?phys mod ml_bs log) = ?bs - ?n mod ?bs"
    using unat_sub_no_wrap [OF le] mod by simp
  then have phys1: "unat ?phys1 = pad_up ?bs ?n"
    using phys pad sz(2) zero by (simp add: pad_up_def unat_plus_if')
  then have "ucast ?phys1 = (of_nat (pad_up ?bs ?n) :: u32)"
    by (rule ucast_of_nat)
  moreover have "memcpy (memcpy (memcpy (memset0 [] 0 (pad_up ?bs ?n)) 0 (EncodeFixed32 c)) 4
        (EncodeFixed32 l)) 8 data
      = EncodeFixed32 c @ EncodeFixed32 l @ data @ replicate (pad_up ?bs ?n - ?n) 0" for c l
    using pad(1) by (simp add: memcpy_def memset0_def)
  moreover have "Mask (Extend 0 (Extend 0 0 (EncodeFixed32 (of_nat (length data)))) data)
      = Mask (record_crc data)"
    by (simp add: Extend_Value [where c = 0] record_crc_def)
  ultimately show ?thesis
    using phys1 sz(1)
    by (simp only: AddRecord_def Let_def record_bytes_length) (simp add: record_bytes_def)
qed

section \<open>Reading the media\<close>

text \<open>The \<open>n\<close> bytes from \<open>pos\<close> on, and that reads within such a range make progress.\<close>

definition peek :: "('d \<Rightarrow> u64 \<Rightarrow> byte) \<Rightarrow> 'd \<Rightarrow> u64 \<Rightarrow> nat \<Rightarrow> bytes" where
  "peek media d pos n = map (\<lambda>i. media d (pos + of_nat i)) [0..<n]"

definition readable :: "'d backend \<Rightarrow> nat \<Rightarrow> nat \<Rightarrow> bool" where
  "readable be lo hi \<longleftrightarrow>
     hi < 2 ^ 64 \<and>
     (\<forall>n pos direct d. 0 < n \<and> lo \<le> unat pos \<and> unat pos + n \<le> hi \<longrightarrow>
        (\<exists>bs d'. be_Read be n pos direct d = (ReadBytes bs, d') \<and> bs \<noteq> []))"

lemma length_peek [simp]: "length (peek media d pos n) = n"
  by (simp add: peek_def)

lemma peek_0 [simp]: "peek media d pos 0 = []"
  by (simp add: peek_def)

lemma nth_peek [simp]: "i < n \<Longrightarrow> peek media d pos n ! i = media d (pos + of_nat i)"
  by (simp add: peek_def)

lemma stored_peek: "stored media d pos bs \<longleftrightarrow> peek media d pos (length bs) = bs"
  by (auto simp: stored_def list_eq_iff_nth_eq)

lemma peek_cong: "media d' = media d \<Longrightarrow> peek media d' pos n = peek media d pos n"
  by (simp add: peek_def)

lemma peek_add: "peek media d pos (m + n) = peek media d pos m @ peek media d (pos + of_nat m) n"
  by (rule nth_equalityI) (auto simp: nth_append algebra_simps)

lemma peek_split:
  "k \<le> n \<Longrightarrow> peek media d pos n = peek media d pos k @ peek media d (pos + of_nat k) (n - k)"
  using peek_add [of media d pos k "n - k"] by simp

lemma unat_add_of_nat: "unat pos + k < 2 ^ 64 \<Longrightarrow> unat (pos + of_nat k :: u64) = unat pos + k"
  by (subst unat_add_no_wrap) (auto simp: unat_of_nat_small)

lemma read_once:
  assumes "readable be lo hi" and "read_media be media" and "0 < n" and "lo \<le> unat pos"
    and "unat pos + n \<le> hi"
  obtains k d' where "be_Read be n pos direct d = (ReadBytes (peek media d pos k), d')" "0 < k" "k \<le> n"
    "media d' = media d"
proof -
  obtain bs d' where r: "be_Read be n pos direct d = (ReadBytes bs, d')" "bs \<noteq> []"
    using assms unfolding readable_def by meson
  have "case be_Read be n pos direct d of (res, dev') \<Rightarrow> media dev' = media d \<and>
      (\<forall>bs. res = ReadBytes bs \<longrightarrow> length bs \<le> n \<and> (\<forall>i<length bs. bs ! i = media d (pos + of_nat i)))"
    using assms(2) by (simp add: read_media_def)
  with r have m: "media d' = media d" "length bs \<le> n" "\<forall>i<length bs. bs ! i = media d (pos + of_nat i)"
    by auto
  then have "bs = peek media d pos (length bs)" by (intro nth_equalityI) auto
  with r m show thesis
    using that [of "length bs" d'] by auto
qed

lemma ZBD_Read_loop_full:
  assumes "readable be lo hi" and "read_media be media" and "0 < n" and "lo \<le> unat pos"
    and "unat pos + n \<le> hi"
  shows "\<exists>r d'. ZBD_Read_loop be direct n pos buf r0 d = Some (r, buf @ peek media d pos n, d') \<and>
    0 < r \<and> media d' = media d"
  using assms(3-5)
proof (induction n arbitrary: pos buf r0 d rule: less_induct)
  case (less n)
  obtain k d1 where r: "be_Read be n pos direct d = (ReadBytes (peek media d pos k), d1)" "0 < k" "k \<le> n"
    "media d1 = media d"
    using read_once [OF assms(1,2) less.prems] by blast
  have ne: "peek media d pos k \<noteq> []" using r(2) by (metis length_peek list.size(3) less_irrefl)
  then have step: "ZBD_Read_loop be direct n pos buf r0 d =
      ZBD_Read_loop be direct (n - k) (pos + of_nat k) (buf @ peek media d pos k) (int k) d1"
    using less.prems(1) r by (subst ZBD_Read_loop.simps) simp
  show ?case
  proof (cases "k = n")
    case True
    with step r show ?thesis by (simp add: ZBD_Read_loop.simps)
  next
    case False
    have "hi < 2 ^ 64" using assms(1) by (simp add: readable_def)
    then have "unat (pos + of_nat k) = unat pos + k"
      using less.prems r by (intro unat_add_of_nat) linarith
    then obtain r' d' where "ZBD_Read_loop be direct (n - k) (pos + of_nat k) (buf @ peek media d pos k) (int k) d1
        = Some (r', (buf @ peek media d pos k) @ peek media d1 (pos + of_nat k) (n - k), d')"
      "0 < r'" "media d' = media d1"
      using less.IH [of "n - k" "pos + of_nat k" "buf @ peek media d pos k" "int k" d1] less.prems r False by auto
    then show ?thesis
      using step r peek_split [OF r(3), of media d pos] peek_cong [OF r(4)] by simp
  qed
qed

lemma ZBD_Read_full:
  assumes "readable be lo hi" and "read_media be media" and "0 < n" and "lo \<le> unat pos"
    and "unat pos + n \<le> hi"
  obtains d where "ZBD_Read be pos n direct s = Some (int n, peek media (dev s) pos n, s\<lparr>dev := d\<rparr>)"
    "media d = media (dev s)"
  using ZBD_Read_loop_full [OF assms, of direct "[]" "-1" "dev s"] that by (auto simp: ZBD_Read_def)

lemma MetaLog_Read_loop_full:
  assumes "readable be lo hi" and "read_media be media" and "lo \<le> unat pos" and "unat pos + n \<le> hi"
  obtains d where "MetaLog_Read_loop be n acc pos s =
      Some (OK, acc @ peek media (dev s) pos n, pos + of_nat n, s\<lparr>dev := d\<rparr>)"
    "media d = media (dev s)"
proof (cases "n = 0")
  case True
  then show ?thesis
    using that [of "dev s"] by (simp add: MetaLog_Read_loop.simps)
next
  case False
  then have "0 < n" by simp
  from ZBD_Read_full [OF assms(1,2) this assms(3,4)] obtain d where
    "ZBD_Read be pos n False s = Some (int n, peek media (dev s) pos n, s\<lparr>dev := d\<rparr>)"
    "media d = media (dev s)" by blast
  then have "MetaLog_Read_loop be n acc pos s =
      Some (OK, acc @ peek media (dev s) pos n, pos + of_nat n, s\<lparr>dev := d\<rparr>)"
    using False by (subst MetaLog_Read_loop.simps) (simp add: MetaLog_Read_loop.simps [where left = 0])
  then show ?thesis
    using that [of d] \<open>media d = media (dev s)\<close> by blast
qed

section \<open>Writing and reading records\<close>

text \<open>
  A metadata zone: it is never finished, so its capacity ends where its data may end, it starts on
  a block boundary, and the device can read it.
\<close>

definition meta_zone_ok :: "'d backend \<Rightarrow> u64 \<Rightarrow> u32 \<Rightarrow> Zone \<Rightarrow> bool" where
  "meta_zone_ok be sz bs z \<longleftrightarrow>
     zone_wf sz z \<and>
     unat (z_wp z) + unat (z_capacity z) \<le> unat (z_start z) + unat (z_max_capacity z) \<and>
     readable be (unat (z_start z)) (unat (z_start z) + unat (z_max_capacity z)) \<and>
     unat bs dvd unat (z_start z)"

definition log_ok :: "'d backend \<Rightarrow> ZenMetaLog \<Rightarrow> ('d, 'm) ZBD_scheme \<Rightarrow> bool" where
  "log_ok be log s \<longleftrightarrow>
     ml_zone log < length (meta_zones s) \<and> ml_bs log = ucast (block_sz s) \<and> 0 < block_sz s \<and>
     meta_zone_ok be (zone_sz s) (block_sz s) (meta_zones s ! ml_zone log) \<and>
     unat (z_start (meta_zones s ! ml_zone log)) \<le> unat (ml_read_pos log) \<and>
     unat (block_sz s) dvd unat (ml_read_pos log)"

lemma MetaLog_Read_full:
  assumes "log_ok be log s" and "read_media be media"
    and "unat (z_start (meta_zones s ! ml_zone log)) \<le> unat pos"
    and "unat pos + n \<le> unat (z_wp (meta_zones s ! ml_zone log))"
  obtains d where "MetaLog_Read be (log\<lparr>ml_read_pos := pos\<rparr>) n s =
      Some (OK, peek media (dev s) pos n, log\<lparr>ml_read_pos := pos + of_nat n\<rparr>, s\<lparr>dev := d\<rparr>)"
    "media d = media (dev s)"
proof (cases "n = 0 \<and> pos \<ge> z_wp (meta_zones s ! ml_zone log)")
  case True
  then show ?thesis using that [of "dev s"] by (simp add: MetaLog_Read_def)
next
  case False
  let ?z = "meta_zones s ! ml_zone log"
  have z: "zone_wf (zone_sz s) ?z" "readable be (unat (z_start ?z)) (unat (z_start ?z) + unat (z_max_capacity ?z))"
    "unat (z_wp ?z) \<le> unat (z_start ?z) + unat (z_max_capacity ?z)"
    using assms(1) by (auto simp: log_ok_def meta_zone_ok_def)
  have "unat (z_start ?z + z_max_capacity ?z) = unat (z_start ?z) + unat (z_max_capacity ?z)"
    using z(2) by (intro unat_add_no_wrap) (simp add: readable_def)
  moreover have "unat (pos + of_nat n) = unat pos + n"
    using assms(4) z by (intro unat_add_of_nat) (auto simp: readable_def)
  ultimately have guards: "\<not> z_start ?z + z_max_capacity ?z < pos + of_nat n" "\<not> z_wp ?z \<le> pos"
    using assms(4) z(3) False by (auto simp: word_less_nat_alt word_le_nat_alt)
  obtain d where "MetaLog_Read_loop be n [] pos s =
      Some (OK, [] @ peek media (dev s) pos n, pos + of_nat n, s\<lparr>dev := d\<rparr>)" "media d = media (dev s)"
    by (rule MetaLog_Read_loop_full [OF z(2) assms(2,3), of n "[]" s]) (use assms(4) z(3) in auto)
  then show ?thesis
    using that [of d] guards by (simp add: MetaLog_Read_def Let_def)
qed

text \<open>The position behind a record is the next block boundary.\<close>

lemma next_record_pos:
  fixes pos bs :: u64
  assumes "unat bs dvd unat pos" and "0 < unat bs" and "unat pos + n < 2 ^ 64"
  shows "(let rp = pos + of_nat n in if rp mod bs \<noteq> 0 then rp + (bs - rp mod bs) else rp)
    = pos + of_nat (pad_up (unat bs) n :: nat)"
proof -
  have rp: "unat (pos + of_nat n) = unat pos + n"
    using assms(3) by (intro unat_add_of_nat) simp
  have "(unat pos + n) mod unat bs = n mod unat bs"
    using assms(1) by (metis mod_add_left_eq add_0 dvd_imp_mod_0)
  then have mod: "unat ((pos + of_nat n) mod bs) = n mod unat bs"
    by (simp only: unat_mod_distrib rp)
  have "(pos + of_nat n) mod bs \<le> bs"
    using mod mod_less_divisor [OF assms(2), of n] by (simp add: word_le_nat_alt del: mod_less_divisor)
  then have "unat (bs - (pos + of_nat n) mod bs) = unat bs - n mod unat bs"
    using mod by (simp only: unat_sub_no_wrap)
  then have "bs - (pos + of_nat n) mod bs = of_nat (unat bs - n mod unat bs)"
    by (metis of_nat_unat ucast_id)
  then show ?thesis
    using mod by (auto simp: Let_def pad_up_def word_unat_eq_iff [of "_ mod _" 0])
qed

lemma peek_take:
  assumes "stored media d pos bs" and "k \<le> length bs"
  shows "peek media d pos k = take k bs"
  using assms by (intro nth_equalityI) (auto simp: stored_def)

lemma peek_drop:
  assumes "stored media d pos bs" and "k + n \<le> length bs"
  shows "peek media d (pos + of_nat k) n = take n (drop k bs)"
proof (intro nth_equalityI)
  fix i assume "i < length (peek media d (pos + of_nat k) n)"
  with assms(2) have i: "i < n" "k + i < length bs" by auto
  have "pos + of_nat k + of_nat i = pos + of_nat (k + i)" by (simp add: add.assoc)
  moreover have "media d (pos + of_nat (k + i)) = bs ! (k + i)"
    using assms(1) i by (simp add: stored_def del: of_nat_add)
  ultimately show "peek media d (pos + of_nat k) n ! i = take n (drop k bs) ! i"
    using i by (simp add: add.assoc)
qed (use assms(2) in simp)

lemma ReadRecord_stored:
  assumes log: "log_ok be log s" and media: "read_media be media" and small: "small (ml_bs log) data"
    and stored: "stored media (dev s) (ml_read_pos log) (record_bytes (unat (ml_bs log)) data)"
    and wp: "unat (ml_read_pos log) + length (record_bytes (unat (ml_bs log)) data)
      \<le> unat (z_wp (meta_zones s ! ml_zone log))"
  obtains d where "ReadRecord be log s = Some (OK, data, log\<lparr>ml_read_pos := ml_read_pos log +
      of_nat (length (record_bytes (unat (ml_bs log)) data))\<rparr>, s\<lparr>dev := d\<rparr>)" "media d = media (dev s)"
proof -
  let ?pos = "ml_read_pos log" and ?bs = "unat (ml_bs log)" and ?z = "meta_zones s ! ml_zone log"
  have bs: "?bs = unat (block_sz s)" "0 < ?bs" "?bs dvd unat ?pos" "unat (z_start ?z) \<le> unat ?pos"
    using log by (auto simp: log_ok_def word_less_nat_alt)
  have len: "8 + length data \<le> pad_up ?bs (8 + length data)" "unat ?pos + pad_up ?bs (8 + length data) \<le> unat (z_wp ?z)"
    using pad_up_bounds wp by (auto simp: record_bytes_length)
  have wp64: "unat ?pos + (8 + length data) < 2 ^ 64" and sz: "length data < 2 ^ 32"
    using len small unat_u64_less [of "z_wp ?z"] by (auto simp: small_def)
  have p8: "unat (?pos + 8) = unat ?pos + 8"
    using unat_add_of_nat [of ?pos 8] wp64 by simp
  have id: "log\<lparr>ml_read_pos := ml_read_pos log\<rparr> = log" by simp
  obtain d1 where h: "MetaLog_Read be log 8 s = Some (OK, peek media (dev s) ?pos 8,
      log\<lparr>ml_read_pos := ?pos + of_nat 8\<rparr>, s\<lparr>dev := d1\<rparr>)" and m1: "media d1 = media (dev s)"
    using MetaLog_Read_full [OF log media bs(4), of 8] len unfolding id by auto
  have log1: "log_ok be log (s\<lparr>dev := d1\<rparr>)" using log by (simp add: log_ok_def)
  obtain d2 where r: "MetaLog_Read be (log\<lparr>ml_read_pos := ?pos + 8\<rparr>) (length data) (s\<lparr>dev := d1\<rparr>)
      = Some (OK, peek media d1 (?pos + 8) (length data), log\<lparr>ml_read_pos := ?pos + 8 + of_nat (length data)\<rparr>,
          s\<lparr>dev := d2\<rparr>)" and m2: "media d2 = media (dev s)"
    using MetaLog_Read_full [OF log1 media, of "?pos + 8" "length data"] len p8 bs(4) m1 by auto
  have hd: "peek media (dev s) ?pos 8 = EncodeFixed32 (Mask (record_crc data)) @ EncodeFixed32 (of_nat (length data))"
    using peek_take [OF stored, of 8] len by (simp add: record_bytes_length) (simp add: record_bytes_def Let_def)
  have body: "peek media d1 (?pos + 8) (length data) = data"
    using peek_drop [OF stored, of 8 "length data"] len peek_cong [OF m1]
    by (simp add: record_bytes_length) (simp add: record_bytes_def Let_def)
  have rp: "(let rp = ?pos + 8 + of_nat (length data) in if rp mod ml_bs log \<noteq> 0
      then rp + (ml_bs log - rp mod ml_bs log) else rp) = ?pos + of_nat (pad_up ?bs (8 + length data))"
    using next_record_pos [OF bs(3,2), of "8 + length data"] wp64 by (simp add: add.assoc)
  have sz': "unat (of_nat (length data) :: u32) = length data" using sz by (simp add: unat_of_nat_small)
  have crc: "Extend 0 (Crc32c_Value 0 (EncodeFixed32 (of_nat (length data)))) data = Unmask (Mask (record_crc data))"
    by (simp add: Extend_Value [where c = 0] record_crc_def)
  have ne: "EncodeFixed32 v \<noteq> []" for v
    using length_EncodeFixed(2) [of v] by (metis list.size(3) zero_neq_numeral)
  have "ReadRecord be log s = Some (OK, data, log\<lparr>ml_read_pos := ?pos + of_nat (pad_up ?bs (8 + length data))\<rparr>,
      s\<lparr>dev := d2\<rparr>)"
    using h r body rp crc sz' ne
    by (cases "(?pos + 8 + of_nat (length data)) mod ml_bs log = 0")
      (simp_all add: ReadRecord_def zMetaHeaderSize_def hd get32_def Let_def)
  with m2 show thesis using that [of d2] by (simp add: record_bytes_length)
qed

section \<open>Logs as lists of records\<close>

text \<open>
  \<open>log_holds media bs z d recs\<close>: the written part of the zone \<open>z\<close> is the records \<open>recs\<close>, one after the
  other. \<open>log_at bs z recs k log\<close>: the log is about to read record number \<open>k\<close>.
\<close>

definition records_bytes :: "nat \<Rightarrow> bytes list \<Rightarrow> bytes" where
  "records_bytes bs recs = concat (map (record_bytes bs) recs)"

definition log_holds :: "('d \<Rightarrow> u64 \<Rightarrow> byte) \<Rightarrow> nat \<Rightarrow> Zone \<Rightarrow> 'd \<Rightarrow> bytes list \<Rightarrow> bool" where
  "log_holds media bs z d recs \<longleftrightarrow>
     unat (z_wp z) = unat (z_start z) + length (records_bytes bs recs) \<and>
     stored media d (z_start z) (records_bytes bs recs)"

definition log_at :: "Zone \<Rightarrow> bytes list \<Rightarrow> nat \<Rightarrow> ZenMetaLog \<Rightarrow> bool" where
  "log_at z recs k log \<longleftrightarrow>
     ml_read_pos log = z_start z + of_nat (length (records_bytes (unat (ml_bs log)) (take k recs)))"

lemma records_bytes_simps [simp]:
  "records_bytes bs [] = []" "records_bytes bs (r # rs) = record_bytes bs r @ records_bytes bs rs"
  "records_bytes bs (rs @ rs') = records_bytes bs rs @ records_bytes bs rs'"
  by (simp_all add: records_bytes_def)

lemma records_bytes_dvd: "0 < bs \<Longrightarrow> bs dvd length (records_bytes bs recs)"
  by (induction recs) (simp_all add: record_bytes_length pad_up_bounds(3))

lemma stored_append:
  "stored media d pos (xs @ ys) \<longleftrightarrow> stored media d pos xs \<and> stored media d (pos + of_nat (length xs)) ys"
proof -
  have eq: "pos + of_nat (length xs) + of_nat j = pos + of_nat (length xs + j)" for j
    by (simp add: add.assoc)
  have "(\<forall>i<length (xs @ ys). media d (pos + of_nat i) = (xs @ ys) ! i) \<longleftrightarrow>
      (\<forall>i<length xs. media d (pos + of_nat i) = xs ! i) \<and>
      (\<forall>j<length ys. media d (pos + of_nat (length xs + j)) = ys ! j)"
    (is "?l = (?a \<and> ?b)")
  proof
    assume l: ?l
    have "media d (pos + of_nat i) = xs ! i" if "i < length xs" for i
      using l [rule_format, of i] that by (simp add: nth_append)
    moreover have "media d (pos + of_nat (length xs + j)) = ys ! j" if "j < length ys" for j
      using l [rule_format, of "length xs + j"] that by (simp add: nth_append)
    ultimately show "?a \<and> ?b" by blast
  next
    assume r: "?a \<and> ?b"
    have "media d (pos + of_nat i) = (xs @ ys) ! i" if "i < length (xs @ ys)" for i
    proof (cases "i < length xs")
      case True
      with r show ?thesis by (simp add: nth_append)
    next
      case False
      with r [THEN conjunct2, rule_format, of "i - length xs"] that show ?thesis
        by (simp add: nth_append del: of_nat_add)
    qed
    then show ?l by blast
  qed
  then show ?thesis by (simp only: stored_def eq)
qed

lemma stored_frame:
  assumes "stored media d pos bs" and "\<And>i. i < length bs \<Longrightarrow> media d' (pos + of_nat i) = media d (pos + of_nat i)"
  shows "stored media d' pos bs"
  using assms by (simp add: stored_def)

text \<open>Reading record number \<open>k\<close>, and reading at the end.\<close>

lemma ReadRecord_next:
  assumes log: "log_ok be log s" and media: "read_media be media"
    and holds: "log_holds media (unat (ml_bs log)) (meta_zones s ! ml_zone log) (dev s) recs"
    and small: "\<forall>r\<in>set recs. small (ml_bs log) r"
    and at: "log_at (meta_zones s ! ml_zone log) recs k log" and k: "k < length recs"
  obtains log' d where "ReadRecord be log s = Some (OK, recs ! k, log', s\<lparr>dev := d\<rparr>)"
    "media d = media (dev s)" "ml_zone log' = ml_zone log" "ml_bs log' = ml_bs log"
    "log_ok be log' (s\<lparr>dev := d\<rparr>)" "log_at (meta_zones s ! ml_zone log) recs (Suc k) log'"
proof -
  let ?bs = "unat (ml_bs log)" and ?z = "meta_zones s ! ml_zone log"
  let ?pre = "records_bytes ?bs (take k recs)"
  have split: "recs = take k recs @ recs ! k # drop (Suc k) recs" by (rule id_take_nth_drop [OF k])
  then have bytes: "records_bytes ?bs recs = ?pre @ record_bytes ?bs (recs ! k) @ records_bytes ?bs (drop (Suc k) recs)"
    by (metis records_bytes_simps(2,3))
  have bound: "unat (z_start ?z) + length ?pre + length (record_bytes ?bs (recs ! k)) \<le> unat (z_wp ?z)"
    using holds by (simp add: log_holds_def bytes)
  then have pos: "unat (ml_read_pos log) = unat (z_start ?z) + length ?pre"
    using at unat_u64_less [of "z_wp ?z"] unat_add_of_nat [of "z_start ?z" "length ?pre"] by (simp add: log_at_def)
  have st: "stored media (dev s) (ml_read_pos log) (record_bytes ?bs (recs ! k))"
    using holds at by (simp add: log_holds_def bytes stored_append log_at_def)
  have sm: "small (ml_bs log) (recs ! k)" using small k by simp
  have take: "records_bytes ?bs (take (Suc k) recs) = ?pre @ record_bytes ?bs (recs ! k)"
    using k by (simp add: take_Suc_conv_app_nth)
  let ?log = "log\<lparr>ml_read_pos := ml_read_pos log + of_nat (length (record_bytes ?bs (recs ! k)))\<rparr>"
  obtain d where r: "ReadRecord be log s = Some (OK, recs ! k, ?log, s\<lparr>dev := d\<rparr>)" "media d = media (dev s)"
    by (rule ReadRecord_stored [OF log media sm st]) (use pos bound in auto)
  have "unat (ml_read_pos ?log) = unat (ml_read_pos log) + length (record_bytes ?bs (recs ! k))"
    using pos bound unat_u64_less [of "z_wp ?z"] unat_add_of_nat [of "ml_read_pos log"] by simp
  moreover have "?bs dvd length (record_bytes ?bs (recs ! k))"
    using log by (auto simp: log_ok_def record_bytes_length word_less_nat_alt intro!: pad_up_bounds(3))
  ultimately have "log_ok be ?log (s\<lparr>dev := d\<rparr>)"
    using log by (auto simp: log_ok_def)
  moreover have "log_at ?z recs (Suc k) ?log"
    using at by (simp add: log_at_def take)
  ultimately show thesis using r that [of ?log d] by simp
qed

lemma ReadRecord_end:
  assumes "log_holds media (unat (ml_bs log)) (meta_zones s ! ml_zone log) (dev s) recs"
    and "log_at (meta_zones s ! ml_zone log) recs (length recs) log"
  shows "ReadRecord be log s = Some (OK, [], log, s)"
proof -
  let ?z = "meta_zones s ! ml_zone log" and ?n = "length (records_bytes (unat (ml_bs log)) recs)"
  have "unat (z_wp ?z) = unat (z_start ?z) + ?n" using assms(1) by (simp add: log_holds_def)
  then have "z_wp ?z \<le> ml_read_pos log"
    using assms(2) unat_u64_less [of "z_wp ?z"] unat_add_of_nat [of "z_start ?z" ?n]
    by (simp add: log_at_def word_le_nat_alt)
  then show ?thesis by (simp add: ReadRecord_def MetaLog_Read_def Let_def)
qed

section \<open>Adding records\<close>

lemma upd_meta_sel [simp]:
  "meta_zones (upd_meta i z s) = (meta_zones s)[i := z]" "io_zones (upd_meta i z s) = io_zones s"
  "dev (upd_meta i z s) = dev s" "zone_sz (upd_meta i z s) = zone_sz s"
  "block_sz (upd_meta i z s) = block_sz s" "finish_threshold (upd_meta i z s) = finish_threshold s"
  "active_io_zones (upd_meta i z s) = active_io_zones s" "open_io_zones (upd_meta i z s) = open_io_zones s"
  "max_nr_active_io_zones (upd_meta i z s) = max_nr_active_io_zones s"
  "max_nr_open_io_zones (upd_meta i z s) = max_nr_open_io_zones s"
  "zone_deferred_status (upd_meta i z s) = zone_deferred_status s"
  "migrating (upd_meta i z s) = migrating s" "nr_zones (upd_meta i z s) = nr_zones s"
  "ZBD.more (upd_meta i z s) = ZBD.more s"
  by (simp_all add: upd_meta_def)

text \<open>
  What appending to a metadata zone comes to: \<open>k\<close> of the \<open>n\<close> bytes have been written at the write pointer,
  all of them if the status is OK, and none if there is no room.
\<close>

definition meta_appended ::
  "('d \<Rightarrow> u64 \<Rightarrow> byte) \<Rightarrow> nat \<Rightarrow> bytes \<Rightarrow> nat \<Rightarrow> nat \<Rightarrow> ('d, 'm) ZBD_scheme \<Rightarrow> ('d, 'm) ZBD_scheme \<Rightarrow> bool"
where
  "meta_appended media i data n k s t \<longleftrightarrow>
     (\<exists>d. t = AddBytesWritten (of_nat k) (upd_meta i (advance k (meta_zones s ! i)) (s\<lparr>dev := d\<rparr>)) \<and>
        k \<le> n \<and> k \<le> unat (z_capacity (meta_zones s ! i)) \<and>
        stored media d (z_wp (meta_zones s ! i)) (take k data) \<and>
        (\<forall>a. unat (z_capacity (meta_zones s ! i)) \<le> unat (a - z_wp (meta_zones s ! i)) \<longrightarrow>
           media d a = media (dev s) a))"

lemma append_meta_spec:
  assumes "device_ok be sz media" and "unat n \<le> length data"
  obtains st k t where "append_meta be i data n s = Some (st, t)" "meta_appended media i data (unat n) k s t"
    "ok st \<longleftrightarrow> unat n \<le> unat (z_capacity (meta_zones s ! i)) \<and> k = unat n"
    "\<not> unat n \<le> unat (z_capacity (meta_zones s ! i)) \<Longrightarrow>
       k = 0 \<and> dev t = dev s \<and> st = NoSpace ''Not enough capacity for append'' []"
    "\<not> ok st \<Longrightarrow> st_code st = kIOError"
proof -
  let ?z = "meta_zones s ! i"
  obtain st k d where app: "Zone_Append be ?z data n (dev s) = Some (st, advance k ?z, d, of_nat k)"
    and cs: "z_capacity ?z < ucast n \<and> st = NoSpace ''Not enough capacity for append'' [] \<and> k = 0 \<and> d = dev s
       \<or> \<not> z_capacity ?z < ucast n \<and> k \<le> unat n \<and>
         (st = OK \<and> k = unat n \<or> (\<exists>msg. st = IOError msg []) \<and> k < unat n) \<and>
         appended media (z_wp ?z) data (unat n) k (dev s) d"
    using Zone_Append_spec [OF device_okD(1) [OF assms(1)] assms(2), of ?z "dev s"]
      device_okD(2) [OF assms(1)] by blast
  have less: "z_capacity ?z < ucast n \<longleftrightarrow> \<not> unat n \<le> unat (z_capacity ?z)"
    by (simp add: word_less_nat_alt not_le)
  let ?t = "AddBytesWritten (of_nat k) (upd_meta i (advance k ?z) (s\<lparr>dev := d\<rparr>))"
  have "meta_appended media i data (unat n) k s ?t"
    using cs unfolding meta_appended_def less
    by (intro exI [of _ d]) (auto simp: appended_def stored_def)
  moreover have "append_meta be i data n s = Some (st, ?t)"
    using app by (simp add: append_meta_def)
  ultimately show thesis
    using cs less by (intro that [of st ?t k]) auto
qed

lemma AddRecord_spec:
  assumes "device_ok be sz media" and "small (ml_bs log) data"
  obtains st k t where "AddRecord be log data s = Some (st, t)"
    "meta_appended media (ml_zone log) (record_bytes (unat (ml_bs log)) data)
       (length (record_bytes (unat (ml_bs log)) data)) k s t"
    "ok st \<longleftrightarrow> length (record_bytes (unat (ml_bs log)) data) \<le> unat (z_capacity (meta_zones s ! ml_zone log)) \<and>
       k = length (record_bytes (unat (ml_bs log)) data)"
    "\<not> length (record_bytes (unat (ml_bs log)) data) \<le> unat (z_capacity (meta_zones s ! ml_zone log)) \<Longrightarrow>
       k = 0 \<and> dev t = dev s \<and> st = NoSpace ''Not enough capacity for append'' []"
    "\<not> ok st \<Longrightarrow> st_code st = kIOError"
proof -
  let ?r = "record_bytes (unat (ml_bs log)) data"
  have "0 < unat (ml_bs log)" using assms(2) by (simp add: small_def word_less_nat_alt)
  then have n: "unat (of_nat (length ?r) :: u32) = length ?r"
    using pad_up_bounds(2) [of "unat (ml_bs log)" "8 + length data"] assms(2)
    by (intro unat_of_nat_small) (simp add: record_bytes_length small_def)
  then have le: "unat (of_nat (length ?r) :: u32) \<le> length ?r" by simp
  show thesis
    by (rule append_meta_spec [OF assms(1) le, of "ml_zone log" s,
          unfolded AddRecord_append [OF assms(2), symmetric] n]) (rule that)
qed

lemma meta_appended_frame:
  assumes "meta_appended media i data n k s t" and "i < length (meta_zones s)"
    and "zone_wf (zone_sz s) (meta_zones s ! i)"
  shows "zone_wf (zone_sz s) (meta_zones t ! i)" "\<not> in_zone (zone_sz s) (meta_zones s ! i) a \<Longrightarrow> media (dev t) a = media (dev s) a"
    "meta_zones t = (meta_zones s)[i := advance k (meta_zones s ! i)]"
    "unat (z_wp (meta_zones t ! i)) = unat (z_wp (meta_zones s ! i)) + k"
    "unat (z_start (meta_zones s ! i)) \<le> unat a \<Longrightarrow> unat a < unat (z_wp (meta_zones s ! i)) \<Longrightarrow>
       media (dev t) a = media (dev s) a"
proof -
  let ?z = "meta_zones s ! i"
  obtain d where t: "t = AddBytesWritten (of_nat k) (upd_meta i (advance k ?z) (s\<lparr>dev := d\<rparr>))"
    and k: "k \<le> unat (z_capacity ?z)"
    and m: "\<And>a. unat (z_capacity ?z) \<le> unat (a - z_wp ?z) \<Longrightarrow> media d a = media (dev s) a"
    using assms(1) by (auto simp: meta_appended_def)
  show mz: "meta_zones t = (meta_zones s)[i := advance k ?z]" by (simp add: t)
  note adv = zone_wf_advance [OF assms(3) k]
  show "zone_wf (zone_sz s) (meta_zones t ! i)" "unat (z_wp (meta_zones t ! i)) = unat (z_wp ?z) + k"
    using adv assms(2) by (simp_all add: mz)
  show "\<not> in_zone (zone_sz s) ?z a \<Longrightarrow> media (dev t) a = media (dev s) a"
    using assms(3) by (auto simp: t in_zone_def zone_wf_def unat_sub_if' intro!: m)
  show "unat (z_start ?z) \<le> unat a \<Longrightarrow> unat a < unat (z_wp ?z) \<Longrightarrow> media (dev t) a = media (dev s) a"
    using assms(3) by (auto simp: t zone_wf_def unat_sub_if' intro!: m)
qed

text \<open>A successful append extends the list of records in the log by one.\<close>

lemma AddRecord_holds:
  assumes dev: "device_ok be sz media" and log: "log_ok be log s" and small: "small (ml_bs log) data"
    and holds: "log_holds media (unat (ml_bs log)) (meta_zones s ! ml_zone log) (dev s) recs"
    and add: "AddRecord be log data s = Some (st, t)" and "ok st"
  shows "log_holds media (unat (ml_bs log)) (meta_zones t ! ml_zone log) (dev t) (recs @ [data])"
    and "log_ok be log t"
proof -
  let ?bs = "unat (ml_bs log)" and ?i = "ml_zone log" and ?z = "meta_zones s ! ml_zone log"
  let ?r = "record_bytes ?bs data"
  have wf: "zone_wf (zone_sz s) ?z" "?i < length (meta_zones s)"
    using log by (auto simp: log_ok_def meta_zone_ok_def)
  have app: "meta_appended media ?i ?r (length ?r) (length ?r) s t"
    using AddRecord_spec [OF dev small, of s] add \<open>ok st\<close> by (metis option.inject prod.inject)
  note fr = meta_appended_frame [OF app wf(2,1)]
  have z: "meta_zones t ! ?i = advance (length ?r) ?z" using fr(3) wf(2) by simp
  have wp: "z_wp ?z = z_start ?z + of_nat (length (records_bytes ?bs recs))"
    using holds unat_u64_less [of "z_wp ?z"] unat_add_of_nat [of "z_start ?z" "length (records_bytes ?bs recs)"]
    by (simp add: log_holds_def word_unat_eq_iff [of "z_wp ?z"])
  have "stored media (dev t) (z_start ?z) (records_bytes ?bs recs)"
  proof (rule stored_frame [of media "dev s"])
    fix i assume i: "i < length (records_bytes ?bs recs)"
    then have "unat (z_start ?z + of_nat i) = unat (z_start ?z) + i"
      using holds unat_u64_less [of "z_wp ?z"] by (intro unat_add_of_nat) (simp add: log_holds_def)
    then show "media (dev t) (z_start ?z + of_nat i) = media (dev s) (z_start ?z + of_nat i)"
      using holds i by (intro fr(5)) (simp_all add: log_holds_def)
  qed (use holds in \<open>simp add: log_holds_def\<close>)
  moreover have "stored media (dev t) (z_wp ?z) ?r"
    using app by (auto simp: meta_appended_def)
  ultimately show "log_holds media ?bs (meta_zones t ! ?i) (dev t) (recs @ [data])"
    using holds fr(4) by (simp add: log_holds_def z stored_append flip: wp)
  have "unat (z_wp ?z) + length ?r + unat (z_capacity (meta_zones t ! ?i)) = unat (z_wp ?z) + unat (z_capacity ?z)"
    using app zone_wf_advance(3) [OF wf(1), of "length ?r"] by (auto simp: z meta_appended_def)
  then show "log_ok be log t"
    using log fr(1,4) app unfolding log_ok_def meta_zone_ok_def
    by (auto simp: z meta_appended_def)
qed

section \<open>Round trip\<close>

text \<open>The next \<open>n\<close> records of a log, if all of them are valid.\<close>

fun read_records :: "'d backend \<Rightarrow> nat \<Rightarrow> ZenMetaLog \<Rightarrow> ('d, 'm) ZBD_scheme \<Rightarrow> bytes list option" where
  "read_records be 0 log s = Some []"
| "read_records be (Suc n) log s =
     do {
       (st, r, log1, s1) \<leftarrow> ReadRecord be log s;
       if ok st then map_option (Cons r) (read_records be n log1 s1) else None
     }"

lemma read_records_all:
  assumes "log_ok be log s" and "read_media be media"
    and "log_holds media (unat (ml_bs log)) (meta_zones s ! ml_zone log) (dev s) recs"
    and "\<forall>r\<in>set recs. small (ml_bs log) r" and "log_at (meta_zones s ! ml_zone log) recs k log"
    and "k + n = length recs"
  shows "read_records be (n + 1) log s = Some (drop k recs @ [[]])"
  using assms
proof (induction n arbitrary: k log s)
  case 0
  then show ?case using ReadRecord_end [of media log s recs be] by simp
next
  case (Suc n)
  then have k: "k < length recs" by simp
  from ReadRecord_next [OF Suc.prems(1-5) k] obtain log' d where
    r: "ReadRecord be log s = Some (OK, recs ! k, log', s\<lparr>dev := d\<rparr>)" "media d = media (dev s)"
    "ml_zone log' = ml_zone log" "ml_bs log' = ml_bs log" "log_ok be log' (s\<lparr>dev := d\<rparr>)"
    "log_at (meta_zones s ! ml_zone log) recs (Suc k) log'" .
  then have "read_records be (n + 1) log' (s\<lparr>dev := d\<rparr>) = Some (drop (Suc k) recs @ [[]])"
    using Suc.prems by (intro Suc.IH) (simp_all add: log_holds_def stored_def)
  with r(1) show ?case
    using Cons_nth_drop_Suc [OF k] by simp
qed

text \<open>
  (C15) The metadata log keeps what is written to it. Adding a record to a log that holds the records \<open>recs\<close>
  returns. If there is no room for it, the status is NoSpace and the log holds the same records as before. If
  the status is OK, a reader that starts at the beginning of the zone gets all records in order, the new one
  last, each with a valid checksum, and after them the end of the log.
\<close>

theorem MetaLog_roundtrip:
  assumes "device_ok be (zone_sz s) media" and "log_ok be log s"
    and "log_holds media (unat (ml_bs log)) (meta_zones s ! ml_zone log) (dev s) recs"
    and "\<forall>r\<in>set (data # recs). small (ml_bs log) r"
    and "ml_read_pos log = z_start (meta_zones s ! ml_zone log)"
  shows "\<exists>st t. AddRecord be log data s = Some (st, t) \<and>
    (unat (z_capacity (meta_zones s ! ml_zone log)) < length (record_bytes (unat (ml_bs log)) data) \<longrightarrow>
       st = NoSpace ''Not enough capacity for append'' [] \<and>
       read_records be (length recs + 1) log t = Some (recs @ [[]])) \<and>
    (ok st \<longrightarrow> read_records be (length recs + 2) log t = Some (recs @ [data, []]))"
proof -
  let ?i = "ml_zone log" and ?bs = "unat (ml_bs log)"
  have sm: "small (ml_bs log) data" and rd: "read_media be media" and i: "?i < length (meta_zones s)"
    using assms(1,2,4) by (auto simp: device_ok_def log_ok_def)
  obtain st k t where t: "AddRecord be log data s = Some (st, t)"
    "meta_appended media ?i (record_bytes ?bs data) (length (record_bytes ?bs data)) k s t"
    "\<not> length (record_bytes ?bs data) \<le> unat (z_capacity (meta_zones s ! ?i)) \<Longrightarrow>
       k = 0 \<and> dev t = dev s \<and> st = NoSpace ''Not enough capacity for append'' []"
    using AddRecord_spec [OF assms(1) sm, of s] by blast
  have at: "log_at (meta_zones u ! ?i) rs 0 log" if "z_start (meta_zones u ! ?i) = z_start (meta_zones s ! ?i)"
    for u :: "('a, 'b) ZBD_scheme" and rs
    using assms(5) that by (simp add: log_at_def)
  have "read_records be (length recs + 2) log t = Some (recs @ [data, []])" if "ok st"
  proof -
    note h = AddRecord_holds [OF assms(1,2) sm assms(3) t(1) that]
    show ?thesis
      using read_records_all [OF h(2) rd h(1), of 0 "length recs + 1"] at [of t] assms(4) t(2) i
      by (simp add: meta_appended_def) (auto simp: meta_appended_def)
  qed
  moreover have "read_records be (length recs + 1) log t = Some (recs @ [[]])"
    if "\<not> length (record_bytes ?bs data) \<le> unat (z_capacity (meta_zones s ! ?i))"
  proof -
    have "k = 0" "dev t = dev s" using t(3) that by auto
    then have same: "meta_zones t = meta_zones s" "log_ok be log t"
      using t(2) assms(2) by (auto simp: meta_appended_def log_ok_def list_update_id)
    show ?thesis
      using read_records_all [OF same(2) rd, of recs 0 "length recs"] at [of t] assms(3,4) same \<open>dev t = dev s\<close>
      by simp
  qed
  ultimately show ?thesis using t(1,3) by (intro exI [of _ st] exI [of _ t]) auto
qed

text \<open>A device with two metadata zones, and the log in the first of them.\<close>

definition zml :: "(u64 \<Rightarrow> byte) ZBD" where
  "zml = zbd0\<lparr>meta_zones := [mk_zone True 0 48 0 0 0, mk_zone False 64 48 64 0 0]\<rparr>"

definition log0 :: ZenMetaLog where
  "log0 = new_ZenMetaLog 0 zml"

lemma ram_readable: "hi < 2 ^ 64 \<Longrightarrow> readable (ram_backend info zrs cap) lo hi"
  by (simp add: readable_def ram_read_def)

lemma ram_device_ok: "cap \<le> sz \<Longrightarrow> device_ok (ram_backend info zrs cap) sz id"
  by (simp add: device_ok_def)

lemma log0_ok: "log_ok be0 log0 zml"
  by (simp add: log_ok_def meta_zone_ok_def log0_def zml_def new_ZenMetaLog_def mk_zone_def zbd0_def zone_wf_def
      ram_readable)

lemma log0_holds: "log_holds id 4 (meta_zones zml ! ml_zone log0) (dev zml) []"
  by (simp add: log_holds_def log0_def zml_def new_ZenMetaLog_def mk_zone_def stored_def)

lemma log0_sel [simp]: "ml_bs log0 = 4" "ml_zone log0 = 0" "ml_read_pos log0 = 0"
  by (simp_all add: log0_def new_ZenMetaLog_def zml_def zbd0_def mk_zone_def)

lemma log0_add: "\<exists>t. AddRecord be0 log0 [1, 2, 3] zml = Some (OK, t)"
proof -
  have len: "length (record_bytes 4 [1, 2, 3]) = 12"
    by (simp add: record_bytes_length pad_up_def)
  have "AddRecord be0 log0 [1, 2, 3] zml = append_meta be0 0 (record_bytes 4 [1, 2, 3]) 12 zml"
    using AddRecord_append [of log0 "[1, 2, 3]" be0 zml] len by (simp add: small_def)
  then show ?thesis
    using len by (simp add: append_meta_def Zone_Append_def Zone_Append_loop.simps zml_def mk_zone_def
        ram_write_def rw_max_def)
qed

theorem MetaLog_roundtrip_witness:
  "\<exists>t. AddRecord be0 log0 [1, 2, 3] zml = Some (OK, t) \<and> read_records be0 2 log0 t = Some [[1, 2, 3], []]"
proof -
  have "\<forall>r\<in>set [[1, 2, 3 :: byte]]. small (ml_bs log0) r" "device_ok be0 (zone_sz zml) id"
    "ml_read_pos log0 = z_start (meta_zones zml ! ml_zone log0)"
    by (simp_all add: small_def zml_def zbd0_def ram_device_ok mk_zone_def)
  moreover have "log_holds id (unat (ml_bs log0)) (meta_zones zml ! ml_zone log0) (dev zml) []"
    using log0_holds by simp
  ultimately obtain st t where "AddRecord be0 log0 [1, 2, 3] zml = Some (st, t)"
    "ok st \<longrightarrow> read_records be0 (length ([] :: bytes list) + 2) log0 t = Some ([] @ [[1, 2, 3], []])"
    using MetaLog_roundtrip [of be0 zml id log0 "[]" "[1, 2, 3]"] log0_ok by blast
  then show ?thesis
    using log0_add by (auto simp: numeral_2_eq_2 simp del: read_records.simps)
qed

section \<open>Only checked records are returned\<close>

lemma read_mediaD:
  assumes "read_media be media" and "be_Read be n pos direct d = (res, d')"
  shows "media d' = media d" "res = ReadBytes bs \<Longrightarrow> length bs \<le> n \<and> bs = peek media d pos (length bs)"
proof -
  have "case be_Read be n pos direct d of (res, dev') \<Rightarrow> media dev' = media d \<and>
      (\<forall>bs. res = ReadBytes bs \<longrightarrow> length bs \<le> n \<and> (\<forall>i<length bs. bs ! i = media d (pos + of_nat i)))"
    using assms(1) by (simp add: read_media_def)
  with assms(2) show "media d' = media d"
    "res = ReadBytes bs \<Longrightarrow> length bs \<le> n \<and> bs = peek media d pos (length bs)"
    by (auto intro!: nth_equalityI)
qed

definition read_post ::
  "('d \<Rightarrow> u64 \<Rightarrow> byte) \<Rightarrow> 'd \<Rightarrow> u64 \<Rightarrow> nat \<Rightarrow> bytes \<Rightarrow> bytes \<Rightarrow> 'd \<Rightarrow> bool" where
  "read_post media d pos n buf buf' d' \<longleftrightarrow>
     media d' = media d \<and> (\<exists>m\<le>n. buf' = buf @ peek media d pos m)"

lemma read_post_step:
  assumes "bs = peek media d pos (length bs)" "length bs \<le> n" "media d1 = media d"
    and "read_post media d1 (pos + of_nat (length bs)) (n - length bs) (buf @ bs) buf' d'"
  shows "read_post media d pos n buf buf' d'"
proof -
  obtain m where m: "m \<le> n - length bs" "buf' = (buf @ bs) @ peek media d1 (pos + of_nat (length bs)) m"
    "media d' = media d1"
    using assms(4) by (auto simp: read_post_def)
  moreover have "bs @ peek media d1 (pos + of_nat (length bs)) m = peek media d pos (length bs + m)"
    using peek_add [of media d pos "length bs" m] assms(1) peek_cong [OF assms(3)] by simp
  ultimately show ?thesis
    using assms(2,3) unfolding read_post_def by (intro conjI exI [of _ "length bs + m"]) auto
qed

lemma ZBD_Read_loop_media:
  assumes "read_media be media" and "ZBD_Read_loop be direct n pos buf r0 d = Some (r, buf', d')"
  shows "read_post media d pos n buf buf' d'"
proof -
  have "be = be' \<longrightarrow> read_post media d pos n buf (fst (snd y)) (snd (snd y))"
    if "ZBD_Read_loop be' direct n pos buf r0 d = Some y" for be' y
  proof (rule ZBD_Read_loop.raw_induct [OF _ that])
    fix f be1 direct n pos buf r0 d and y :: "int \<times> bytes \<times> 'a"
    assume IH: "\<And>be2 direct n pos buf r0 d y. f be2 direct n pos buf r0 d = Some y \<Longrightarrow>
        be = be2 \<longrightarrow> read_post media d pos n buf (fst (snd y)) (snd (snd y))"
      and body: "(if n = 0 then Some (r0, buf, d)
        else (case be_Read be1 n pos direct d of
           (ReadError e, d') \<Rightarrow>
             if e = EINTR then f be1 direct n pos buf (-1) d' else Some (-1, buf, d')
         | (ReadBytes bs, d') \<Rightarrow>
             if bs = [] then Some (0, buf, d')
             else f be1 direct (n - length bs) (pos + of_nat (length bs)) (buf @ bs) (int (length bs)) d'))
        = Some y"
    show "be = be1 \<longrightarrow> read_post media d pos n buf (fst (snd y)) (snd (snd y))"
    proof (intro impI, cases "n = 0")
      assume "be = be1" and n: "n \<noteq> 0"
      obtain res d1 where rd: "be_Read be n pos direct d = (res, d1)" by (cases "be_Read be n pos direct d")
      note m = read_mediaD [OF assms(1) rd]
      show "read_post media d pos n buf (fst (snd y)) (snd (snd y))"
      proof (cases res)
        case (ReadError e)
        show ?thesis
        proof (cases "e = EINTR")
          case True
          then have "f be direct n pos buf (-1) d1 = Some y"
            using body n rd ReadError \<open>be = be1\<close> by simp
          from IH [OF this] show ?thesis using m(1) peek_cong [OF m(1)] by (simp add: read_post_def)
        next
          case False
          then show ?thesis using body n rd ReadError \<open>be = be1\<close> m(1) by (auto simp: read_post_def)
        qed
      next
        case (ReadBytes bs)
        show ?thesis
        proof (cases "bs = []")
          case True
          then show ?thesis using body n rd ReadBytes \<open>be = be1\<close> m(1) by (auto simp: read_post_def)
        next
          case False
          then have "f be direct (n - length bs) (pos + of_nat (length bs)) (buf @ bs) (int (length bs)) d1 = Some y"
            using body n rd ReadBytes \<open>be = be1\<close> by simp
          from IH [OF this] show ?thesis
            using read_post_step [of bs media d pos n d1 buf] m ReadBytes \<open>be = be1\<close> by simp
        qed
      qed
    next
      assume "n = 0"
      then show "read_post media d pos n buf (fst (snd y)) (snd (snd y))"
        using body by (auto simp: read_post_def)
    qed
  qed
  from this [OF assms(2)] show ?thesis by simp
qed

lemma ZBD_Read_media:
  assumes "read_media be media" and "ZBD_Read be pos n direct s = Some (r, buf, t)" and "0 \<le> r"
  shows "r = int (length buf)" "length buf \<le> n" "buf = peek media (dev s) pos (length buf)"
    "t = s\<lparr>dev := dev t\<rparr>" "media (dev t) = media (dev s)"
proof -
  obtain r' d where l: "ZBD_Read_loop be direct n pos [] (-1) (dev s) = Some (r', buf, d)"
    and r: "r = (if r' < 0 then r' else int (length buf))" and t: "t = s\<lparr>dev := d\<rparr>"
    using assms(2) by (auto simp: ZBD_Read_def bind_eq_Some_conv)
  have "read_post media (dev s) pos n [] buf d" by (rule ZBD_Read_loop_media [OF assms(1) l])
  then show "length buf \<le> n" "buf = peek media (dev s) pos (length buf)" "media (dev t) = media (dev s)"
    by (auto simp: read_post_def t)
  show "r = int (length buf)" "t = s\<lparr>dev := dev t\<rparr>" using r assms(3) t by (auto split: if_splits)
qed

definition log_read_post ::
  "('d \<Rightarrow> u64 \<Rightarrow> byte) \<Rightarrow> ('d, 'm) ZBD_scheme \<Rightarrow> u64 \<Rightarrow> nat \<Rightarrow> bytes \<Rightarrow> IOStatus \<Rightarrow> bytes \<Rightarrow> u64 \<Rightarrow>
     ('d, 'm) ZBD_scheme \<Rightarrow> bool" where
  "log_read_post media s pos n acc st bs pos' t \<longleftrightarrow>
     ok st \<longrightarrow> t = s\<lparr>dev := dev t\<rparr> \<and> media (dev t) = media (dev s) \<and> bs = acc @ peek media (dev s) pos n \<and>
       pos' = pos + of_nat n"

lemma MetaLog_Read_loop_media:
  assumes "read_media be media" and "MetaLog_Read_loop be n acc pos s = Some (st, bs, pos', t)"
  shows "log_read_post media s pos n acc st bs pos' t"
proof -
  have "be = be' \<longrightarrow> log_read_post media s pos n acc (fst y) (fst (snd y)) (fst (snd (snd y))) (snd (snd (snd y)))"
    if "MetaLog_Read_loop be' n acc pos s = Some y" for be' y
  proof (rule MetaLog_Read_loop.raw_induct [OF _ that])
    fix f be1 n acc pos s and y :: "IOStatus \<times> bytes \<times> u64 \<times> ('a, 'b) ZBD_scheme"
    assume IH: "\<And>be2 n acc pos s y. f be2 n acc pos s = Some y \<Longrightarrow>
        be = be2 \<longrightarrow> log_read_post media s pos n acc (fst y) (fst (snd y)) (fst (snd (snd y))) (snd (snd (snd y)))"
      and body: "(if n = 0 then Some (OK, acc, pos, s)
        else do {
          (ret, buf, s1) \<leftarrow> ZBD_Read be1 pos n False s;
          if ret < 0 then Some (IOError ''Read failed'' [], acc, pos, s1)
          else f be1 (n - nat ret) (acc @ buf) (pos + of_int ret) s1
        }) = Some y"
    show "be = be1 \<longrightarrow> log_read_post media s pos n acc (fst y) (fst (snd y)) (fst (snd (snd y))) (snd (snd (snd y)))"
    proof (intro impI, cases "n = 0")
      assume "n = 0"
      then show "log_read_post media s pos n acc (fst y) (fst (snd y)) (fst (snd (snd y))) (snd (snd (snd y)))"
        using body by (auto simp: log_read_post_def)
    next
      assume n: "n \<noteq> 0" and be: "be = be1"
      then obtain ret buf s1 where r: "ZBD_Read be pos n False s = Some (ret, buf, s1)"
        and y: "(if ret < 0 then Some (IOError ''Read failed'' [], acc, pos, s1)
          else f be (n - nat ret) (acc @ buf) (pos + of_int ret) s1) = Some y"
        using body by (auto simp: bind_eq_Some_conv)
      show "log_read_post media s pos n acc (fst y) (fst (snd y)) (fst (snd (snd y))) (snd (snd (snd y)))"
      proof (cases "ret < 0")
        case True
        with y show ?thesis by (auto simp: log_read_post_def)
      next
        case False
        then have pos: "0 \<le> ret" and rec: "f be (n - nat ret) (acc @ buf) (pos + of_int ret) s1 = Some y"
          using y by auto
        note rd = ZBD_Read_media [OF assms(1) r pos]
        have len: "nat ret = length buf" "(of_int ret :: u64) = of_nat (length buf)" using rd(1) by simp_all
        have "buf @ peek media (dev s1) (pos + of_nat (length buf)) (n - length buf) = peek media (dev s) pos n"
          using peek_split [OF rd(2), of media "dev s" pos] rd(3) [symmetric]
            peek_cong [of media "dev s1" "dev s", OF rd(5)] by simp
        moreover have "(of_nat (n - length buf) :: u64) = of_nat n - of_nat (length buf)"
          using rd(2) by (simp add: of_nat_diff)
        moreover have "s1\<lparr>dev := d\<rparr> = s\<lparr>dev := d\<rparr>" for d by (subst rd(4)) simp
        ultimately show ?thesis
          using IH [OF rec] rd(5) len by (auto simp: log_read_post_def)
      qed
    qed
  qed
  from this [OF assms(2)] show ?thesis by simp
qed

lemma MetaLog_Read_media:
  assumes "read_media be media" and "MetaLog_Read be log n s = Some (st, bs, log', t)" and "ok st"
  shows "t = s\<lparr>dev := dev t\<rparr>" "media (dev t) = media (dev s)"
    "bs = [] \<and> log' = log \<or> bs = peek media (dev s) (ml_read_pos log) n \<and>
       log' = log\<lparr>ml_read_pos := ml_read_pos log + of_nat n\<rparr>"
proof -
  have "(t = s \<and> bs = [] \<and> log' = log) \<or>
      (\<exists>pos. MetaLog_Read_loop be n [] (ml_read_pos log) s = Some (st, bs, pos, t) \<and>
         log' = log\<lparr>ml_read_pos := pos\<rparr>)"
    using assms(2,3) by (auto simp: MetaLog_Read_def Let_def bind_eq_Some_conv split: if_splits)
  then show "t = s\<lparr>dev := dev t\<rparr>" "media (dev t) = media (dev s)"
    "bs = [] \<and> log' = log \<or> bs = peek media (dev s) (ml_read_pos log) n \<and>
       log' = log\<lparr>ml_read_pos := ml_read_pos log + of_nat n\<rparr>"
  proof (atomize (full), elim disjE exE conjE)
    fix pos assume l: "MetaLog_Read_loop be n [] (ml_read_pos log) s = Some (st, bs, pos, t)"
      and log': "log' = log\<lparr>ml_read_pos := pos\<rparr>"
    have "log_read_post media s (ml_read_pos log) n [] st bs pos t"
      by (rule MetaLog_Read_loop_media [OF assms(1) l])
    then show "t = s\<lparr>dev := dev t\<rparr> \<and> media (dev t) = media (dev s) \<and>
        (bs = [] \<and> log' = log \<or> bs = peek media (dev s) (ml_read_pos log) n \<and>
           log' = log\<lparr>ml_read_pos := ml_read_pos log + of_nat n\<rparr>)"
      using assms(3) unfolding log_read_post_def log' append_Nil by blast
  qed simp
qed

text \<open>
  (C16) Reading the log accepts nothing that was not written as a record. On a device whose reads return what
  is on the media, a record that \<^verbatim>\<open>ReadRecord\<close> returns with status OK is what lies behind its header on the media,
  the header holds its length, and the masked checksum in the header is the one of this length and these bytes.
\<close>

theorem ReadRecord_checked:
  assumes "read_media be media" and "ReadRecord be log s = Some (st, data, log', t)" and "ok st"
    and "data \<noteq> []"
  shows "DecodeFixed32 (peek media (dev s) (ml_read_pos log) 4) = Mask (record_crc data) \<and>
    unat (DecodeFixed32 (peek media (dev s) (ml_read_pos log + 4) 4)) = length data \<and>
    data = peek media (dev s) (ml_read_pos log + 8) (length data) \<and> media (dev t) = media (dev s)"
proof -
  let ?pos = "ml_read_pos log"
  obtain st1 h log1 s1 where h: "MetaLog_Read be log 8 s = Some (st1, h, log1, s1)" "ok st1" "h \<noteq> []"
    using assms(2-4)
    by (auto simp: ReadRecord_def zMetaHeaderSize_def bind_eq_Some_conv split: if_splits)
  note hm = MetaLog_Read_media [OF assms(1) h(1,2)]
  have hd: "h = peek media (dev s) ?pos 8" "log1 = log\<lparr>ml_read_pos := ?pos + 8\<rparr>" using hm(3) h(3) by auto
  have split: "h = peek media (dev s) ?pos 4 @ peek media (dev s) (?pos + 4) 4"
    using peek_add [of media "dev s" ?pos 4 4] hd(1) by simp
  let ?crc = "DecodeFixed32 h" and ?sz = "DecodeFixed32 (drop 4 h)"
  have g: "get32 0 h = (?crc, drop 4 h)" "get32 0 (drop 4 h) = (?sz, drop 8 h)"
    by (simp_all add: get32_def GetFixed32_def hd(1))
  obtain st2 log2 where r: "MetaLog_Read be log1 (unat ?sz) s1 = Some (st2, data, log2, t)" "ok st2"
    and crc: "Extend 0 (Crc32c_Value 0 (EncodeFixed32 ?sz)) data = Unmask ?crc"
    using assms(2,3) h g
    by (auto simp: ReadRecord_def zMetaHeaderSize_def bind_eq_Some_conv Let_def split: if_splits)
  note rm = MetaLog_Read_media [OF assms(1) r]
  have d: "data = peek media (dev s1) (?pos + 8) (unat ?sz)" using rm(3) assms(4) hd(2) by auto
  then have len: "length data = unat ?sz" by simp
  have "Mask (Unmask ?crc) = Mask (record_crc data)"
    using crc len by (simp add: Extend_Value [where c = 0] record_crc_def)
  moreover have "DecodeFixed32 (peek media (dev s) ?pos 4) = ?crc" "DecodeFixed32 (peek media (dev s) (?pos + 4) 4) = ?sz"
    by (simp_all add: split DecodeFixed32_def nth_append)
  ultimately show ?thesis
    using d len rm(2) hm(2) peek_cong [of media "dev s1" "dev s", OF hm(2)] by auto
qed

theorem ReadRecord_checked_witness:
  "\<exists>t log' u. AddRecord be0 log0 [1, 2, 3] zml = Some (OK, t) \<and>
     ReadRecord be0 log0 t = Some (OK, [1, 2, 3], log', u) \<and>
     DecodeFixed32 (peek id (dev t) 0 4) = Mask (record_crc [1, 2, 3])"
proof -
  obtain t where t: "AddRecord be0 log0 [1, 2, 3] zml = Some (OK, t)" using log0_add by blast
  have sm: "small (ml_bs log0) [1, 2, 3]" and dv: "device_ok be0 64 id" by (simp_all add: small_def ram_device_ok)
  have holds: "log_holds id (unat (ml_bs log0)) (meta_zones zml ! ml_zone log0) (dev zml) []"
    using log0_holds by simp
  note add = AddRecord_holds [OF dv log0_ok sm holds t ok_simps(1), unfolded append_Nil]
  obtain k where app: "meta_appended id (ml_zone log0) (record_bytes (unat (ml_bs log0)) [1, 2, 3])
      (length (record_bytes (unat (ml_bs log0)) [1, 2, 3])) k zml t"
    using AddRecord_spec [OF dv sm, of zml] t by (metis option.inject prod.inject)
  have "z_start (meta_zones t ! ml_zone log0) = 0"
    using meta_appended_frame(3) [OF app] by (simp add: zml_def mk_zone_def zone_wf_def zbd0_def)
  then have at: "log_at (meta_zones t ! ml_zone log0) [[1, 2, 3]] 0 log0" by (simp add: log_at_def)
  have sms: "\<forall>r\<in>set [[1, 2, 3 :: byte]]. small (ml_bs log0) r" using sm by simp
  obtain log' d where "ReadRecord be0 log0 t = Some (OK, [[1, 2, 3]] ! 0, log', t\<lparr>dev := d\<rparr>)"
    using ReadRecord_next [OF add(2) ram_read_media add(1) sms at] by (metis length_Cons zero_less_Suc)
  then have r: "ReadRecord be0 log0 t = Some (OK, [1, 2, 3], log', t\<lparr>dev := d\<rparr>)" by simp
  have "DecodeFixed32 (peek id (dev t) 0 4) = Mask (record_crc [1, 2, 3])"
    using ReadRecord_checked [OF _ r, of id] by simp
  with t r show ?thesis by blast
qed

end
