(* ===== verification/Paths.thy ===== *)
theory Paths
  imports Prelude
begin

text \<open>
  Paths. ZenFS is built as C++17, where \<^verbatim>\<open>fs::path\<close> is \<^verbatim>\<open>std::filesystem::path\<close>; its lexical operations on a
  POSIX system are the first section. The class \<^verbatim>\<open>path\<close> of \<^verbatim>\<open>plugin/zenfs/fs/filesystem_utility.h\<close>, which
  replaces it before C++17, is the second one. The last section shows what both have in common and
  what \<^verbatim>\<open>ZenFS::FormatPathLexically\<close> gives.
\<close>

section \<open>Standard paths\<close>

fun split_path :: "string \<Rightarrow> string \<Rightarrow> string list" where
  "split_path [] item = [item]"
| "split_path (c # cs) item = (if c = CHR ''/'' then item # split_path cs [] else split_path cs (item @ [c]))"

definition names :: "string \<Rightarrow> string list" where
  "names p = filter (\<lambda>n. n \<noteq> []) (split_path p [])"

definition is_absolute :: "string \<Rightarrow> bool" where
  "is_absolute p \<longleftrightarrow> p \<noteq> [] \<and> hd p = CHR ''/''"

definition ends_sep :: "string \<Rightarrow> bool" where
  "ends_sep p \<longleftrightarrow> p \<noteq> [] \<and> last p = CHR ''/''"

fun join_path :: "string list \<Rightarrow> string" where
  "join_path [] = []"
| "join_path [n] = n"
| "join_path (n # ns) = n @ CHR ''/'' # join_path ns"

text \<open>
  The normal form: dots go, a name followed by two dots goes with them, and two dots at the root go.
  \<open>st\<close> holds the names kept so far, the last one first, and \<open>dir\<close> whether what was kept ends with a separator.
\<close>

fun normal_names :: "bool \<Rightarrow> string list \<Rightarrow> string list \<times> bool \<Rightarrow> string list \<times> bool" where
  "normal_names root [] acc = acc"
| "normal_names root (n # ns) (st, dir) =
     normal_names root ns
       (if n = ''.'' then (st, True)
        else if n = ''..'' then
          (case st of
             [] \<Rightarrow> (if root then ([], True) else ([''..''], False))
           | m # st' \<Rightarrow> (if m = ''..'' then (''..'' # st, False) else (st', True)))
        else (n # st, False))"

definition lexically_normal :: "string \<Rightarrow> string" where
  "lexically_normal p =
     (if p = [] then []
      else
        (let root = is_absolute p; (st, dir) = normal_names root (names p) ([], False);
             dir' = ((dir \<or> ends_sep p) \<and> st \<noteq> [] \<and> hd st \<noteq> ''..'');
             r = (if root then ''/'' else []) @ join_path (rev st) @ (if dir' then ''/'' else [])
         in if r = [] then ''.'' else r))"

definition path_append :: "string \<Rightarrow> string \<Rightarrow> string" where
  "path_append p q =
     (if is_absolute q then q
      else if p \<noteq> [] \<and> \<not> ends_sep p then p @ CHR ''/'' # q
      else p @ q)"

text \<open>The parent: what is left of the last separator, without the separators before it.\<close>

definition strip_seps :: "string \<Rightarrow> string" where
  "strip_seps p = rev (dropWhile (\<lambda>c. c = CHR ''/'') (rev p))"

definition parent_path :: "string \<Rightarrow> string" where
  "parent_path p =
     (if names p = [] then p
      else
        (let d = rev (dropWhile (\<lambda>c. c \<noteq> CHR ''/'') (rev p)); q = strip_seps d
         in if q = [] \<and> d \<noteq> [] then ''/'' else q))"

definition FormatPathLexically :: "string \<Rightarrow> string" where
  "FormatPathLexically filepath = path_append ''/'' (lexically_normal filepath)"

section \<open>The substitute path class\<close>

text \<open>
  \<open>getline_items\<close> are the items that \<^verbatim>\<open>std::getline\<close> gives: no empty item behind a final separator. The
  last name is read without a look whether there is one; an empty list has no last name, and reading it
  is undefined in the source.
\<close>

record fu_path =
  fu_src :: string
  fu_normalized :: string
  fu_parent :: string
  fu_filename :: string
  fu_has_terminator :: bool

definition getline_items :: "string \<Rightarrow> string list" where
  "getline_items p = (let items = split_path p [] in if last items = [] then butlast items else items)"

fun fu_segs :: "string list \<Rightarrow> string list \<Rightarrow> string list" where
  "fu_segs [] segs = segs"
| "fu_segs (item # items) segs =
     (if item = ''..'' \<and> length segs > 0 then fu_segs items (butlast segs)
      else if item = ''.'' then fu_segs items segs
      else if item \<noteq> [] then fu_segs items (segs @ [item])
      else fu_segs items segs)"

text \<open>The loop that writes the segments: \<open>i\<close> counts them, \<open>n\<close> is their number.\<close>

fun fu_write :: "bool \<Rightarrow> nat \<Rightarrow> nat \<Rightarrow> string list \<Rightarrow> string \<Rightarrow> string \<Rightarrow> string \<times> string" where
  "fu_write term i n [] rst parent = (rst, parent)"
| "fu_write term i n (seg # segs) rst parent =
     (let rst1 = rst @ seg;
          parent1 = (if \<not> term \<and> n \<ge> 2 \<and> i = n - 2 then rst1 @ ''/'' else parent)
      in if \<not> term \<and> i = n - 1 then (rst1, parent1)
         else fu_write term (i + 1) n segs (rst1 @ ''/'') parent1)"

definition fu_new :: "string \<Rightarrow> fu_path" where
  "fu_new src =
     (if src = []
      then \<lparr>fu_src = src, fu_normalized = [], fu_parent = [], fu_filename = [], fu_has_terminator = False\<rparr>
      else if src = ''/''
      then \<lparr>fu_src = src, fu_normalized = src, fu_parent = [], fu_filename = [], fu_has_terminator = True\<rparr>
      else
        (let segs = fu_segs (getline_items src) []; term = ends_sep src;
             filename = (if \<not> term then last segs else []);
             (normalized, parent) =
               fu_write term 0 (length segs) segs (if hd src = CHR ''/'' then ''/'' else []) []
         in \<lparr>fu_src = src, fu_normalized = normalized,
             fu_parent = (if term then normalized else parent),
             fu_filename = filename, fu_has_terminator = term\<rparr>))"

definition fu_append :: "fu_path \<Rightarrow> fu_path \<Rightarrow> fu_path" where
  "fu_append p other =
     fu_new (fu_normalized p @ (if fu_has_terminator p then [] else ''/'') @ fu_normalized other)"

definition fu_has_filename :: "fu_path \<Rightarrow> bool" where
  "fu_has_filename p \<longleftrightarrow> fu_filename p \<noteq> []"

definition fu_FormatPathLexically :: "string \<Rightarrow> string" where
  "fu_FormatPathLexically filepath = fu_normalized (fu_append (fu_new ''/'') (fu_new filepath))"

section \<open>Normal paths\<close>

definition plain :: "string \<Rightarrow> bool" where
  "plain n \<longleftrightarrow> n \<noteq> [] \<and> n \<noteq> ''.'' \<and> n \<noteq> ''..'' \<and> CHR ''/'' \<notin> set n"

text \<open>An absolute path of plain names with single separators, perhaps one at the end.\<close>

definition normal_path :: "string \<Rightarrow> bool" where
  "normal_path p \<longleftrightarrow>
     (\<exists>ns dir. list_all plain ns \<and>
        p = ''/'' @ join_path ns @ (if dir \<and> ns \<noteq> [] then ''/'' else []))"

lemma split_path_sep:
  "CHR ''/'' \<notin> set n \<Longrightarrow> split_path (n @ CHR ''/'' # p) item = (item @ n) # split_path p []"
  by (induction n arbitrary: item) auto

lemma split_path_end: "CHR ''/'' \<notin> set n \<Longrightarrow> split_path n item = [item @ n]"
  by (induction n arbitrary: item) auto

lemma names_sep [simp]: "names (CHR ''/'' # p) = names p" "names [] = []"
  by (simp_all add: names_def)

lemma names_name: "plain n \<Longrightarrow> names (n @ CHR ''/'' # p) = n # names p" "plain n \<Longrightarrow> names n = [n]"
  by (simp_all add: names_def plain_def split_path_sep split_path_end)

lemma names_join:
  "list_all plain ns \<Longrightarrow> names (join_path ns) = ns"
  "list_all plain ns \<Longrightarrow> ns \<noteq> [] \<Longrightarrow> names (join_path ns @ ''/'') = ns"
proof (induction ns rule: join_path.induct)
  case (2 n)
  { case 1 then show ?case by (simp add: names_name) }
  { case 2 then show ?case using names_name(1) [of n "[]"] by simp }
next
  case (3 n m ns)
  { case 1 with 3 show ?case by (simp add: names_name) }
  { case 2 with 3 show ?case by (simp add: names_name) }
qed simp_all

lemma split_path_items: "CHR ''/'' \<notin> set item \<Longrightarrow> n \<in> set (split_path p item) \<Longrightarrow> CHR ''/'' \<notin> set n"
  by (induction p item rule: split_path.induct) (auto split: if_splits)

lemma names_no_sep: "n \<in> set (names p) \<Longrightarrow> n \<noteq> [] \<and> CHR ''/'' \<notin> set n"
  using split_path_items [of "[]" n p] by (auto simp: names_def)

lemma normal_names_plain:
  assumes "list_all plain ns"
  shows "normal_names root ns (st, dir) = (rev ns @ st, dir \<and> ns = [])"
  using assms by (induction ns arbitrary: st dir) (simp_all add: plain_def)

text \<open>At the root nothing but plain names is kept.\<close>

lemma normal_names_root:
  assumes "\<forall>n\<in>set ns. n \<noteq> [] \<and> CHR ''/'' \<notin> set n" and "list_all plain st"
    and "normal_names True ns (st, dir) = (st', dir')"
  shows "list_all plain st'"
  using assms
proof (induction ns arbitrary: st dir)
  case (Cons n ns)
  let ?next = "if n = ''.'' then (st, True) else if n = ''..'' then
      (case st of [] \<Rightarrow> ([], True) | m # st' \<Rightarrow> (if m = ''..'' then (''..'' # st, False) else (st', True)))
      else (n # st, False)"
  have "list_all plain (fst ?next)"
    using Cons.prems(1,2) by (auto simp: list_all_iff plain_def split: list.splits)
  moreover have "normal_names True ns (fst ?next, snd ?next) = (st', dir')"
    using Cons.prems(3) by (simp only: normal_names.simps prod.collapse if_True)
  ultimately show ?case
    using Cons.IH [of "fst ?next" "snd ?next"] Cons.prems(1) by simp
qed simp

lemma join_path_last: "list_all plain ns \<Longrightarrow> ns \<noteq> [] \<Longrightarrow> join_path ns \<noteq> [] \<and> last (join_path ns) \<noteq> CHR ''/''"
proof (induction ns rule: join_path.induct)
  case (2 n)
  then show ?case by (auto simp: plain_def) (metis last_in_set)
qed simp_all

lemma join_path_hd: "list_all plain ns \<Longrightarrow> ns \<noteq> [] \<Longrightarrow> hd (join_path ns) \<noteq> CHR ''/''"
proof -
  have "plain n \<Longrightarrow> hd (n @ xs) \<noteq> CHR ''/''" for n xs by (cases n) (auto simp: plain_def)
  from this [of _ "[]"] this show "list_all plain ns \<Longrightarrow> ns \<noteq> [] \<Longrightarrow> ?thesis"
    by (cases ns rule: join_path.cases) auto
qed

lemma lexically_normal_normal:
  assumes "normal_path p"
  shows "lexically_normal p = p"
proof -
  obtain ns dir where ns: "list_all plain ns"
    and p: "p = ''/'' @ join_path ns @ (if dir \<and> ns \<noteq> [] then ''/'' else [])"
    using assms by (auto simp: normal_path_def)
  have nm: "names p = ns" using ns by (simp add: p names_join)
  have e: "ns \<noteq> [] \<Longrightarrow> ends_sep p \<longleftrightarrow> dir"
    using join_path_last [OF ns] by (auto simp: p ends_sep_def)
  have d: "ns \<noteq> [] \<Longrightarrow> last ns \<noteq> ''..''"
    using ns by (metis last_in_set list_all_iff plain_def)
  have "is_absolute p" "p \<noteq> []" by (simp_all add: p is_absolute_def)
  then have "lexically_normal p = ''/'' @ join_path ns @ (if ends_sep p \<and> ns \<noteq> [] then ''/'' else [])"
    using ns nm d by (simp add: lexically_normal_def normal_names_plain hd_rev)
  then show ?thesis using e by (cases "ns = []") (simp_all add: p)
qed

lemma lexically_normal_absolute:
  assumes "is_absolute p"
  shows "normal_path (lexically_normal p)"
proof -
  obtain st dir where n: "normal_names True (names p) ([], False) = (st, dir)"
    by (cases "normal_names True (names p) ([], False)")
  then have st: "list_all plain (rev st)"
    using normal_names_root [OF _ _ n] names_no_sep by (auto simp: list_all_iff)
  show ?thesis
    using assms n st unfolding normal_path_def
    by (intro exI [of _ "rev st"] exI [of _ "(dir \<or> ends_sep p) \<and> hd st \<noteq> ''..''"])
      (auto simp: lexically_normal_def is_absolute_def Let_def)
qed

lemma normal_path_absolute: "normal_path p \<Longrightarrow> is_absolute p"
  by (auto simp: normal_path_def is_absolute_def)

lemma Format_absolute: "is_absolute (FormatPathLexically p)"
  by (auto simp: FormatPathLexically_def path_append_def is_absolute_def ends_sep_def)

lemma Format_normal [simp]: "normal_path p \<Longrightarrow> FormatPathLexically p = p"
  by (simp add: FormatPathLexically_def lexically_normal_normal path_append_def normal_path_absolute)

lemma Format_of_absolute: "is_absolute p \<Longrightarrow> normal_path (FormatPathLexically p)"
  using lexically_normal_absolute [of p] normal_path_absolute [of "lexically_normal p"]
  by (simp add: FormatPathLexically_def path_append_def)

text \<open>
  (C26) Formatting a path: the result is absolute; for an absolute path it is normal, that is, made of plain
  names with single separators; normal paths are left alone. So formatting twice always gives a
  normal path, and formatting once does for absolute paths.
\<close>

theorem FormatPathLexically_correct:
  "is_absolute (FormatPathLexically p) \<and> (is_absolute p \<longrightarrow> normal_path (FormatPathLexically p)) \<and>
   normal_path (FormatPathLexically (FormatPathLexically p)) \<and> (normal_path p \<longrightarrow> FormatPathLexically p = p)"
  using Format_absolute Format_of_absolute Format_normal by blast

theorem FormatPathLexically_correct_witness:
  "normal_path (FormatPathLexically ''/db//./000012.sst'') \<and>
   FormatPathLexically ''/db//./000012.sst'' = ''/db/000012.sst'' \<and>
   FormatPathLexically (FormatPathLexically ''/db//./000012.sst'') = ''/db/000012.sst''"
proof -
  have "is_absolute ''/db//./000012.sst''" by (simp add: is_absolute_def)
  then have "normal_path (FormatPathLexically ''/db//./000012.sst'')"
    using FormatPathLexically_correct [of "''/db//./000012.sst''"] by blast
  moreover from this have "FormatPathLexically (FormatPathLexically ''/db//./000012.sst'')
      = FormatPathLexically ''/db//./000012.sst''"
    using FormatPathLexically_correct [of "FormatPathLexically ''/db//./000012.sst''"] by blast
  moreover have "FormatPathLexically ''/db//./000012.sst'' = ''/db/000012.sst''"
    by (simp add: FormatPathLexically_def lexically_normal_def names_def is_absolute_def ends_sep_def
        path_append_def)
  ultimately show ?thesis by simp
qed


section \<open>Agreement of the two path classes\<close>

lemma split_path_not_Nil: "split_path p item \<noteq> []"
  by (induction p item rule: split_path.induct) auto

lemma fu_segs_names:
  assumes "\<forall>n\<in>set items. n = [] \<or> plain n"
  shows "fu_segs items segs = segs @ filter (\<lambda>n. n \<noteq> []) items"
  using assms by (induction items arbitrary: segs) (auto simp: plain_def)

lemma filter_butlast: "xs \<noteq> [] \<Longrightarrow> last xs = [] \<Longrightarrow> filter (\<lambda>n. n \<noteq> []) (butlast xs) = filter (\<lambda>n. n \<noteq> []) xs"
  by (induction xs) auto

lemma fu_segs_getline:
  assumes "list_all plain (names p)"
  shows "fu_segs (getline_items p) [] = names p"
proof -
  have all: "\<forall>n\<in>set (split_path p []). n = [] \<or> plain n"
    using assms by (auto simp: names_def list_all_iff)
  moreover have "set (butlast (split_path p [])) \<subseteq> set (split_path p [])"
    by (auto dest: in_set_butlastD)
  ultimately have "\<forall>n\<in>set (getline_items p). n = [] \<or> plain n"
    by (auto simp: getline_items_def Let_def)
  then have "fu_segs (getline_items p) [] = filter (\<lambda>n. n \<noteq> []) (getline_items p)"
    by (simp add: fu_segs_names)
  also have "\<dots> = names p"
    using filter_butlast [OF split_path_not_Nil [of p "[]"]] by (simp add: getline_items_def names_def Let_def)
  finally show ?thesis .
qed

lemma fu_write_join:
  assumes "segs \<noteq> []" and "i + length segs = n"
  shows "fst (fu_write term i n segs rst parent) = rst @ join_path segs @ (if term then ''/'' else [])"
  using assms
proof (induction segs arbitrary: i rst parent rule: join_path.induct)
  case (3 m m' ms)
  let ?p = "if \<not> term \<and> n \<ge> 2 \<and> i = n - 2 then (rst @ m) @ ''/'' else parent"
  have "fst (fu_write term (i + 1) n (m' # ms) (rst @ m @ ''/'') ?p)
      = (rst @ m @ ''/'') @ join_path (m' # ms) @ (if term then ''/'' else [])"
    using 3 by (intro "3.IH") auto
  moreover have "fu_write term i n (m # m' # ms) rst parent
      = fu_write term (i + 1) n (m' # ms) (rst @ m @ ''/'') ?p"
    using "3.prems"(2) by (subst fu_write.simps) (auto simp: Let_def simp del: fu_write.simps)
  ultimately show ?case by (simp del: fu_write.simps)
qed (auto simp: Let_def)

lemma fu_normalized_plain:
  assumes "list_all plain (names p)" and "names p \<noteq> []"
  shows "fu_normalized (fu_new p) = (if is_absolute p then ''/'' else []) @ join_path (names p) @
    (if ends_sep p then ''/'' else [])"
proof -
  have p: "p \<noteq> []" "p \<noteq> ''/''" using assms(2) by auto
  let ?root = "if hd p = CHR ''/'' then ''/'' else []"
  have "fu_normalized (fu_new p) = fst (fu_write (ends_sep p) 0 (length (names p)) (names p) ?root [])"
    using p by (simp add: fu_new_def Let_def fu_segs_getline [OF assms(1)] case_prod_beta del: fu_write.simps)
  also have "\<dots> = ?root @ join_path (names p) @ (if ends_sep p then ''/'' else [])"
    using assms(2) by (simp add: fu_write_join del: fu_write.simps)
  finally show ?thesis using p(1) by (simp add: is_absolute_def)
qed

lemma lexically_normal_plain:
  assumes "list_all plain (names p)" and "names p \<noteq> []"
  shows "lexically_normal p = (if is_absolute p then ''/'' else []) @ join_path (names p) @
    (if ends_sep p then ''/'' else [])"
proof -
  have "p \<noteq> []" using assms(2) by auto
  moreover have "last (names p) \<noteq> ''..''"
    using assms by (metis last_in_set list_all_iff plain_def)
  ultimately show ?thesis
    using assms join_path_last [OF assms] by (simp add: lexically_normal_def normal_names_plain hd_rev)
qed

text \<open>
  (C27) On paths of plain names (no dots and double dots, at least one name), relative or absolute, with any
  separators between the names and with or without one at the end, the substitute path class formats
  a path exactly as the standard one does.
\<close>

theorem fu_Format_agrees:
  assumes "list_all plain (names p)" and "names p \<noteq> []"
  shows "fu_FormatPathLexically p = FormatPathLexically p"
proof -
  let ?q = "(if is_absolute p then ''/'' else []) @ join_path (names p) @ (if ends_sep p then ''/'' else [])"
  have j: "join_path (names p) \<noteq> []" "last (join_path (names p)) \<noteq> CHR ''/''"
    using join_path_last [OF assms] by auto
  have nm: "names (CHR ''/'' # ?q) = names p"
    using assms by (auto simp: names_join)
  have hd: "hd (join_path (names p)) \<noteq> CHR ''/''"
    by (rule join_path_hd [OF assms])
  have e: "ends_sep (CHR ''/'' # ?q) = ends_sep p"
    using j by (auto simp: ends_sep_def)
  have "fu_normalized (fu_new (CHR ''/'' # ?q)) = ''/'' @ join_path (names p) @ (if ends_sep p then ''/'' else [])"
    using fu_normalized_plain [of "CHR ''/'' # ?q"] assms nm e by (simp add: is_absolute_def)
  moreover have "fu_FormatPathLexically p = fu_normalized (fu_new (CHR ''/'' # ?q))"
    by (simp add: fu_FormatPathLexically_def fu_append_def fu_normalized_plain [OF assms]) (simp add: fu_new_def)
  moreover have "FormatPathLexically p = ''/'' @ join_path (names p) @ (if ends_sep p then ''/'' else [])"
    using j hd by (simp add: FormatPathLexically_def lexically_normal_plain [OF assms])
      (auto simp: path_append_def is_absolute_def ends_sep_def hd_append)
  ultimately show ?thesis by simp
qed

theorem fu_Format_agrees_witness:
  "fu_FormatPathLexically ''db//000012.sst'' = FormatPathLexically ''db//000012.sst''"
  using fu_Format_agrees [of "''db//000012.sst''"] by (simp add: names_def plain_def)

end
