(* ===== verification/FileSystem.thy ===== *)
theory FileSystem
  imports MetaLog Paths "HOL-Library.List_Lexorder" "HOL-Library.Char_ord"
begin

text \<open>
  The file system: class \<^verbatim>\<open>ZenFS\<close> of \<^verbatim>\<open>plugin/zenfs/fs/fs_zenfs.h\<close> and \<^verbatim>\<open>fs_zenfs.cc\<close>, its name space, its
  metadata journal and its recovery.

  The state extends the state of the device and of the files. \<open>files\<close> is the map from names to file
  objects, an association list ordered by name as a \<^verbatim>\<open>std::map\<close> is; a file object is an index into the
  store \<open>zfiles\<close>. A file object is shared by its names and by the open handles (\<open>handles\<close> counts these);
  when the last of them goes, the object is destroyed, which gives the zones of its extents back. An
  object that a local variable of the source keeps alive is destroyed at the same place or earlier in
  the model, where nothing looks at the zones in between.

  The auxiliary file system, the clock and the generator of unique identifiers are the parameter \<open>env\<close>, functions on
  an abstract state that the file system state carries. File names contain no zero bytes. The locks of the
  sources make the operations run one after the other. A dereference of a null pointer has no result. Logging
  and metrics are left out.
\<close>

section \<open>Ordered maps\<close>

fun map_insert :: "'k::linorder \<Rightarrow> 'v \<Rightarrow> ('k \<times> 'v) list \<Rightarrow> ('k \<times> 'v) list" where
  "map_insert k v [] = [(k, v)]"
| "map_insert k v ((k', v') # m) =
     (if k < k' then (k, v) # (k', v') # m
      else if k = k' then (k', v') # m
      else (k', v') # map_insert k v m)"

definition map_erase :: "'k \<Rightarrow> ('k \<times> 'v) list \<Rightarrow> ('k \<times> 'v) list" where
  "map_erase k m = filter (\<lambda>(k', v). k' \<noteq> k) m"

section \<open>State and environment\<close>

record 'a aux_env =
  aux_DeleteFile :: "string \<Rightarrow> 'a \<Rightarrow> IOStatus \<times> 'a"
  aux_FileExists :: "string \<Rightarrow> 'a \<Rightarrow> IOStatus \<times> 'a"
  aux_GetChildren :: "string \<Rightarrow> 'a \<Rightarrow> IOStatus \<times> string list \<times> 'a"
  aux_IsDirectory :: "string \<Rightarrow> 'a \<Rightarrow> IOStatus \<times> bool \<times> 'a"
  aux_CreateDir :: "string \<Rightarrow> 'a \<Rightarrow> IOStatus \<times> 'a"
  aux_CreateDirIfMissing :: "string \<Rightarrow> 'a \<Rightarrow> IOStatus \<times> 'a"
  aux_DeleteDir :: "string \<Rightarrow> 'a \<Rightarrow> IOStatus \<times> 'a"
  aux_RenameFile :: "string \<Rightarrow> string \<Rightarrow> 'a \<Rightarrow> IOStatus \<times> 'a"
  aux_LinkFile :: "string \<Rightarrow> string \<Rightarrow> 'a \<Rightarrow> IOStatus \<times> 'a"
  aux_NumFileLinks :: "string \<Rightarrow> 'a \<Rightarrow> IOStatus \<times> u64 \<times> 'a"
  aux_AreFilesSame :: "string \<Rightarrow> string \<Rightarrow> 'a \<Rightarrow> IOStatus \<times> bool \<times> 'a"
  aux_GetFileModificationTime :: "string \<Rightarrow> 'a \<Rightarrow> IOStatus \<times> u64 \<times> 'a"
  aux_GetFileSize :: "string \<Rightarrow> 'a \<Rightarrow> IOStatus \<times> u64 \<times> 'a"
  aux_NewSequentialFile :: "string \<Rightarrow> 'a \<Rightarrow> IOStatus \<times> nat \<times> 'a"
  aux_NewRandomAccessFile :: "string \<Rightarrow> 'a \<Rightarrow> IOStatus \<times> nat \<times> 'a"
  env_time :: "'a \<Rightarrow> u64"
  env_GenerateUniqueId :: "'a \<Rightarrow> bytes"
  env_ZENFS_VERSION :: bytes

record ('d, 'a) ZenFS = "'d FileHeap" +
  files :: "(string \<times> nat) list"
  next_file_id :: u64
  next_ptr :: nat
  handles :: "nat \<Rightarrow> nat"
  meta_log :: "ZenMetaLog option"
  superblock :: "Superblock option"
  aux :: 'a
  run_gc_worker :: bool

definition kCompleteFilesSnapshot :: u32 where "kCompleteFilesSnapshot = 1"

definition kFileUpdate :: u32 where "kFileUpdate = 2"

definition kFileDeletion :: u32 where "kFileDeletion = 3"

definition kEndRecord :: u32 where "kEndRecord = 4"

definition kFileReplace :: u32 where "kFileReplace = 5"

text \<open>
  The path of a file in the auxiliary file system and its inverse. There is a superblock when the
  file system is mounted.
\<close>

definition aux_fs_path :: "('d, 'a, 'm) ZenFS_scheme \<Rightarrow> string" where
  "aux_fs_path s = (case superblock s of None \<Rightarrow> [] | Some sb \<Rightarrow> unstr (GetAuxFsPath sb))"

definition ToAuxPath :: "('d, 'a, 'm) ZenFS_scheme \<Rightarrow> string \<Rightarrow> string" where
  "ToAuxPath s path = aux_fs_path s @ path"

definition ToZenFSPath :: "('d, 'a, 'm) ZenFS_scheme \<Rightarrow> string \<Rightarrow> string" where
  "ToZenFSPath s aux_path = drop (length (aux_fs_path s)) aux_path"

text \<open>A call of the auxiliary file system that gives a status.\<close>

definition aux_call ::
  "('a \<Rightarrow> IOStatus \<times> 'a) \<Rightarrow> ('d, 'a, 'm) ZenFS_scheme \<Rightarrow> IOStatus \<times> ('d, 'a, 'm) ZenFS_scheme" where
  "aux_call f s = (let (st, a) = f (aux s) in (st, s\<lparr>aux := a\<rparr>))"

definition aux_query ::
  "('a \<Rightarrow> IOStatus \<times> 'r \<times> 'a) \<Rightarrow> ('d, 'a, 'm) ZenFS_scheme \<Rightarrow> IOStatus \<times> 'r \<times> ('d, 'a, 'm) ZenFS_scheme" where
  "aux_query f s = (let (st, r, a) = f (aux s) in (st, r, s\<lparr>aux := a\<rparr>))"

section \<open>File objects\<close>

definition new_file ::
  "ZoneFile \<Rightarrow> ('d, 'a, 'm) ZenFS_scheme \<Rightarrow> nat \<times> ('d, 'a, 'm) ZenFS_scheme" where
  "new_file zf s =
     (next_ptr s, s\<lparr>zfiles := (zfiles s)(next_ptr s := zf), next_ptr := next_ptr s + 1\<rparr>)"

definition referenced :: "nat \<Rightarrow> ('d, 'a, 'm) ZenFS_scheme \<Rightarrow> bool" where
  "referenced f s \<longleftrightarrow> f \<in> snd ` set (files s) \<or> handles s f > 0"

text \<open>A reference to a file object goes; the last one takes the object with it.\<close>

definition drop_file :: "nat \<Rightarrow> ('d, 'a, 'm) ZenFS_scheme \<Rightarrow> ('d, 'a, 'm) ZenFS_scheme" where
  "drop_file f s =
     (if referenced f s then s
      else (let (zf, s1) = ClearExtents (zfiles s f) s in upd_file f (\<lambda>_. zf) s1))"

definition add_handle :: "nat \<Rightarrow> ('d, 'a, 'm) ZenFS_scheme \<Rightarrow> ('d, 'a, 'm) ZenFS_scheme" where
  "add_handle f s = s\<lparr>handles := (handles s)(f := handles s f + 1)\<rparr>"

definition drop_handle :: "nat \<Rightarrow> ('d, 'a, 'm) ZenFS_scheme \<Rightarrow> ('d, 'a, 'm) ZenFS_scheme" where
  "drop_handle f s = drop_file f (s\<lparr>handles := (handles s)(f := handles s f - 1)\<rparr>)"

definition ClearFiles :: "('d, 'a, 'm) ZenFS_scheme \<Rightarrow> ('d, 'a, 'm) ZenFS_scheme" where
  "ClearFiles s = fold (\<lambda>(name, f). drop_file f) (files s) (s\<lparr>files := []\<rparr>)"

text \<open>The destructor of the file system: the log gives its zone back, the files go.\<close>

definition delete_ZenFS :: "('d, 'a, 'm) ZenFS_scheme \<Rightarrow> ('d, 'a, 'm) ZenFS_scheme" where
  "delete_ZenFS s =
     (let s1 = s\<lparr>run_gc_worker := False\<rparr>;
          s2 = (case meta_log s1 of None \<Rightarrow> s1 | Some log \<Rightarrow> (delete_ZenMetaLog log s1)\<lparr>meta_log := None\<rparr>)
      in ClearFiles s2)"

section \<open>The metadata journal\<close>

definition ZenFS_EncodeSnapshotTo :: "('d, 'a, 'm) ZenFS_scheme \<Rightarrow> bytes" where
  "ZenFS_EncodeSnapshotTo s =
     (let files_string = fold (\<lambda>(name, f) out. PutLengthPrefixedSlice out (EncodeSnapshotTo [] (zfiles s f)))
            (files s) []
      in PutLengthPrefixedSlice (PutFixed32 [] kCompleteFilesSnapshot) files_string)"

definition WriteSnapshotLocked ::
  "'d backend \<Rightarrow> ZenMetaLog \<Rightarrow> ('d, 'a, 'm) ZenFS_scheme \<Rightarrow> (IOStatus \<times> ('d, 'a, 'm) ZenFS_scheme) option" where
  "WriteSnapshotLocked be log s =
     do {
       (st, s1) \<leftarrow> AddRecord be log (ZenFS_EncodeSnapshotTo s) s;
       Some (st, if ok st then fold (\<lambda>(name, f). upd_file f MetadataSynced) (files s1) s1 else s1)
     }"

definition WriteEndRecord ::
  "'d backend \<Rightarrow> ZenMetaLog \<Rightarrow> ('d, 'a, 'm) ZenFS_scheme \<Rightarrow> (IOStatus \<times> ('d, 'a, 'm) ZenFS_scheme) option" where
  "WriteEndRecord be log s = AddRecord be log (PutFixed32 [] kEndRecord) s"

definition finish_meta ::
  "'d backend \<Rightarrow> nat \<Rightarrow> ('d, 'm) ZBD_scheme \<Rightarrow> IOStatus \<times> ('d, 'm) ZBD_scheme" where
  "finish_meta be i s =
     (let (st, z, d) = Zone_Finish be (zone_sz s) (meta_zones s ! i) (dev s)
      in (st, upd_meta i z (s\<lparr>dev := d\<rparr>)))"

text \<open>
  Rolling over to a new metadata zone. The old log ends with an end record and the zone is finished, the new
  log starts with the superblock and a snapshot of all files, and then the old zone is reset. What the
  end record, the finish and the reset return is not looked at.
\<close>

definition close_old_log ::
  "'d backend \<Rightarrow> ZenMetaLog \<Rightarrow> ('d, 'a, 'm) ZenFS_scheme \<Rightarrow> ('d, 'a, 'm) ZenFS_scheme option" where
  "close_old_log be old s =
     do {
       s1 \<leftarrow> (if GetCapacityLeft (meta_zones s ! ml_zone old) \<noteq> 0
               then map_option snd (WriteEndRecord be old s) else Some s);
       Some (if GetCapacityLeft (meta_zones s1 ! ml_zone old) \<noteq> 0
             then snd (finish_meta be (ml_zone old) s1) else s1)
     }"

definition RollMetaZoneLocked ::
  "'d backend \<Rightarrow> ('d, 'a, 'm) ZenFS_scheme \<Rightarrow> (IOStatus \<times> ('d, 'a, 'm) ZenFS_scheme) option" where
  "RollMetaZoneLocked be s =
     (let (status, new_meta_zone, s1) = AllocateMetaZone be s
      in if \<not> ok status then Some (status, s1)
         else
           (case new_meta_zone of
              None \<Rightarrow> Some (NoSpace ''Out of metadata zones'' [], s1)
            | Some i \<Rightarrow>
                (let log = new_ZenMetaLog i s1
                 in do {
                      old \<leftarrow> meta_log s1;
                      s2 \<leftarrow> close_old_log be old (s1\<lparr>meta_log := Some log\<rparr>);
                      sb \<leftarrow> superblock s2;
                      (let (super_string, sb') = Superblock_EncodeTo sb
                       in do {
                            (st, s3) \<leftarrow> AddRecord be log super_string (s2\<lparr>superblock := Some sb'\<rparr>);
                            if \<not> ok st
                            then Some (IOError ''Failed writing a new superblock'' [], delete_ZenMetaLog old s3)
                            else
                              do {
                                (st, s4) \<leftarrow> WriteSnapshotLocked be log s3;
                                (let s5 = (if ok st then snd (reset_meta be (ml_zone old) s4) else s4)
                                 in Some (st, delete_ZenMetaLog old s5))
                              }
                          })
                    })))"

definition PersistSnapshot ::
  "'d backend \<Rightarrow> ZenMetaLog \<Rightarrow> ('d, 'a, 'm) ZenFS_scheme \<Rightarrow> (IOStatus \<times> ('d, 'a, 'm) ZenFS_scheme) option" where
  "PersistSnapshot be meta_writer s =
     do {
       (st, s1) \<leftarrow> WriteSnapshotLocked be meta_writer s;
       if status_eq st (NoSpace [] []) then RollMetaZoneLocked be s1 else Some (st, s1)
     }"

definition PersistRecord ::
  "'d backend \<Rightarrow> bytes \<Rightarrow> ('d, 'a, 'm) ZenFS_scheme \<Rightarrow> (IOStatus \<times> ('d, 'a, 'm) ZenFS_scheme) option" where
  "PersistRecord be record s =
     do {
       log \<leftarrow> meta_log s;
       (st, s1) \<leftarrow> AddRecord be log record s;
       if status_eq st (NoSpace [] []) then RollMetaZoneLocked be s1 else Some (st, s1)
     }"

definition update_record :: "bool \<Rightarrow> ZoneFile \<Rightarrow> bytes" where
  "update_record replace zf =
     PutLengthPrefixedSlice (PutFixed32 [] (if replace then kFileReplace else kFileUpdate)) (EncodeUpdateTo [] zf)"

definition SyncFileMetadataNoLock ::
  "'d backend \<Rightarrow> 'a aux_env \<Rightarrow> bool \<Rightarrow> nat \<Rightarrow> ('d, 'a, 'm) ZenFS_scheme \<Rightarrow>
     (IOStatus \<times> ('d, 'a, 'm) ZenFS_scheme) option" where
  "SyncFileMetadataNoLock be env replace f s =
     (if is_deleted (zfiles s f) then Some (OK, s)
      else
        (let s1 = (if replace then s else upd_file f (SetFileModificationTime (env_time env (aux s))) s)
         in do {
              (st, s2) \<leftarrow> PersistRecord be (update_record replace (zfiles s1 f)) s1;
              Some (st, if ok st then upd_file f MetadataSynced s2 else s2)
            }))"

definition SyncFileMetadata ::
  "'d backend \<Rightarrow> 'a aux_env \<Rightarrow> bool \<Rightarrow> nat \<Rightarrow> ('d, 'a, 'm) ZenFS_scheme \<Rightarrow>
     (IOStatus \<times> ('d, 'a, 'm) ZenFS_scheme) option" where
  "SyncFileMetadata be env replace f s = SyncFileMetadataNoLock be env replace f s"

definition SyncFileExtents ::
  "'d backend \<Rightarrow> 'a aux_env \<Rightarrow> nat \<Rightarrow> ZoneExtent list \<Rightarrow> ('d, 'a, 'm) ZenFS_scheme \<Rightarrow>
     (IOStatus \<times> ('d, 'a, 'm) ZenFS_scheme) option" where
  "SyncFileExtents be env f new_extents s =
     (let old_extents = extents (zfiles s f);
          s1 = upd_file f (\<lambda>zf. MetadataUnsynced (ReplaceExtentList new_extents zf)) s
      in do {
           (st, s2) \<leftarrow> SyncFileMetadata be env True f s1;
           if \<not> ok st then Some (st, s2)
           else
             Some (OK, fold (\<lambda>(old_ext, new_ext) t.
                        if e_start old_ext \<noteq> e_start new_ext
                        then sub_used (e_zone old_ext) (e_length old_ext) t else t)
                      (zip old_extents new_extents) s2)
         })"

section \<open>Names and files\<close>

definition GetFileNoLock :: "string \<Rightarrow> ('d, 'a, 'm) ZenFS_scheme \<Rightarrow> nat option" where
  "GetFileNoLock fname s = map_of (files s) (FormatPathLexically fname)"

definition GetFile :: "string \<Rightarrow> ('d, 'a, 'm) ZenFS_scheme \<Rightarrow> nat option" where
  "GetFile fname s = GetFileNoLock fname s"

definition EncodeFileDeletionTo :: "ZoneFile \<Rightarrow> bytes \<Rightarrow> string \<Rightarrow> bytes" where
  "EncodeFileDeletionTo zf output linkf =
     (let file_string = PutLengthPrefixedSlice (PutFixed64 [] (file_id zf)) (str linkf)
      in PutLengthPrefixedSlice (PutFixed32 output kFileDeletion) file_string)"

definition DeleteFileNoLock ::
  "'d backend \<Rightarrow> 'a aux_env \<Rightarrow> string \<Rightarrow> ('d, 'a, 'm) ZenFS_scheme \<Rightarrow>
     (IOStatus \<times> ('d, 'a, 'm) ZenFS_scheme) option" where
  "DeleteFileNoLock be env name s =
     (let fname = FormatPathLexically name
      in case GetFileNoLock fname s of
           None \<Rightarrow> Some (aux_call (aux_DeleteFile env (ToAuxPath s fname)) s)
         | Some f \<Rightarrow>
             (let s1 = s\<lparr>files := map_erase fname (files s)\<rparr>;
                  (st, zf) = RemoveLinkName fname (zfiles s1 f)
              in if \<not> ok st then Some (st, drop_file f s1)
                 else
                   do {
                     (st, s2) \<leftarrow> PersistRecord be (EncodeFileDeletionTo zf [] fname) (upd_file f (\<lambda>_. zf) s1);
                     if \<not> ok st
                     then Some (st, upd_file f (AddLinkName fname) (s2\<lparr>files := map_insert fname f (files s2)\<rparr>))
                     else if GetNrLinks (zfiles s2 f) > 0 then Some (st, drop_file f s2)
                     else Some (st, drop_file f (upd_file f SetDeleted s2))
                   }))"

definition DeleteFile ::
  "'d backend \<Rightarrow> 'a aux_env \<Rightarrow> string \<Rightarrow> ('d, 'a, 'm) ZenFS_scheme \<Rightarrow>
     (IOStatus \<times> ('d, 'a, 'm) ZenFS_scheme) option" where
  "DeleteFile be env fname s =
     do {
       (st, s1) \<leftarrow> DeleteFileNoLock be env fname s;
       Some (if ok st then ResetUnusedIOZones be s1 else (st, s1))
     }"

text \<open>A handle that an open operation gives: one of ZenFS, or one of the auxiliary file system.\<close>

datatype 'h opened = Zoned 'h | Aux nat

definition NewSequentialFile ::
  "'a aux_env \<Rightarrow> string \<Rightarrow> bool \<Rightarrow> ('d, 'a, 'm) ZenFS_scheme \<Rightarrow>
     IOStatus \<times> ZonedSequentialFile opened \<times> ('d, 'a, 'm) ZenFS_scheme" where
  "NewSequentialFile env filename use_direct_reads s =
     (let fname = FormatPathLexically filename
      in case GetFile fname s of
           None \<Rightarrow> (let (st, h, s1) = aux_query (aux_NewSequentialFile env (ToAuxPath s fname)) s in (st, Aux h, s1))
         | Some f \<Rightarrow> (OK, Zoned (new_ZonedSequentialFile f use_direct_reads s), add_handle f s))"

text \<open>The file is looked up a second time, by the name that is formatted once.\<close>

definition NewRandomAccessFile ::
  "'a aux_env \<Rightarrow> string \<Rightarrow> bool \<Rightarrow> ('d, 'a, 'm) ZenFS_scheme \<Rightarrow>
     (IOStatus \<times> ZonedRandomAccessFile opened \<times> ('d, 'a, 'm) ZenFS_scheme) option" where
  "NewRandomAccessFile env filename use_direct_reads s =
     (let fname = FormatPathLexically filename
      in case GetFile fname s of
           None \<Rightarrow>
             (let (st, h, s1) = aux_query (aux_NewRandomAccessFile env (ToAuxPath s fname)) s
              in Some (st, Aux h, s1))
         | Some _ \<Rightarrow>
             do {
               f \<leftarrow> map_of (files s) fname;
               Some (OK, Zoned (new_ZonedRandomAccessFile f use_direct_reads s), add_handle f s)
             })"

definition ends_with :: "string \<Rightarrow> string \<Rightarrow> bool" where
  "ends_with value ending \<longleftrightarrow>
     (if length ending > length value then False
      else drop (length value - length ending) value = ending)"

text \<open>
  Opening a file for writing. An existing file is deleted, unless it is reopened; the creation of
  the new file is persisted before it gets its name. \<open>mem\<close> is the memory for the buffer.
\<close>

definition new_writable ::
  "bytes \<Rightarrow> bool \<Rightarrow> nat \<Rightarrow> ('d, 'a, 'm) ZenFS_scheme \<Rightarrow> ZonedWritableFile \<times> ('d, 'a, 'm) ZenFS_scheme" where
  "new_writable mem use_direct_writes f s =
     (new_ZonedWritableFile mem (\<not> use_direct_writes) f s, add_handle f s)"

definition typed_file :: "bool \<Rightarrow> string \<Rightarrow> ZoneFile \<Rightarrow> ZoneFile" where
  "typed_file use_direct_writes fname zf =
     (if ends_with fname ''.log'' then SetSparse (\<not> use_direct_writes) (SetIOType kWAL zf)
      else SetIOType kUnknown zf)"

definition OpenWritableFile ::
  "'d backend \<Rightarrow> 'a aux_env \<Rightarrow> bytes \<Rightarrow> string \<Rightarrow> bool \<Rightarrow> bool \<Rightarrow> ('d, 'a, 'm) ZenFS_scheme \<Rightarrow>
     (IOStatus \<times> ZonedWritableFile option \<times> ('d, 'a, 'm) ZenFS_scheme) option" where
  "OpenWritableFile be env mem filename use_direct_writes reopen s =
     (let fname = FormatPathLexically filename; zoneFile = GetFileNoLock fname s
      in if reopen \<and> zoneFile \<noteq> None
         then
           do {
             f \<leftarrow> zoneFile;
             zf \<leftarrow> AcquireWRLock (zfiles s f);
             (let (w, s1) = new_writable mem use_direct_writes f (upd_file f (\<lambda>_. zf) s)
              in Some (OK, Some w, s1))
           }
         else
           do {
             (st, s1) \<leftarrow> (if zoneFile \<noteq> None then DeleteFileNoLock be env fname s else Some (OK, s));
             if \<not> ok st then Some (st, None, s1)
             else
               (let zf = AddLinkName fname (SetFileModificationTime (env_time env (aux s1))
                           (new_ZoneFile (next_file_id s1)));
                    (f, s2) = new_file (typed_file use_direct_writes fname zf)
                                (s1\<lparr>next_file_id := next_file_id s1 + 1\<rparr>)
                in do {
                     (st, s3) \<leftarrow> SyncFileMetadataNoLock be env False f s2;
                     if \<not> ok st then Some (st, None, drop_file f s3)
                     else
                       do {
                         zf \<leftarrow> AcquireWRLock (zfiles s3 f);
                         (let s4 = upd_file f (\<lambda>_. zf) s3;
                              s5 = s4\<lparr>files := map_insert fname f (files s4)\<rparr>;
                              (w, s6) = new_writable mem use_direct_writes f s5;
                              (st, s7) = (if zoneFile \<noteq> None then ResetUnusedIOZones be s6 else (st, s6))
                          in Some (st, Some w, s7))
                       }
                   })
           })"

definition NewWritableFile ::
  "'d backend \<Rightarrow> 'a aux_env \<Rightarrow> bytes \<Rightarrow> string \<Rightarrow> bool \<Rightarrow> ('d, 'a, 'm) ZenFS_scheme \<Rightarrow>
     (IOStatus \<times> ZonedWritableFile option \<times> ('d, 'a, 'm) ZenFS_scheme) option" where
  "NewWritableFile be env mem filename use_direct_writes s =
     OpenWritableFile be env mem (FormatPathLexically filename) use_direct_writes False s"

definition ReopenWritableFile ::
  "'d backend \<Rightarrow> 'a aux_env \<Rightarrow> bytes \<Rightarrow> string \<Rightarrow> bool \<Rightarrow> ('d, 'a, 'm) ZenFS_scheme \<Rightarrow>
     (IOStatus \<times> ZonedWritableFile option \<times> ('d, 'a, 'm) ZenFS_scheme) option" where
  "ReopenWritableFile be env mem filename use_direct_writes s =
     OpenWritableFile be env mem (FormatPathLexically filename) use_direct_writes True s"

definition ReuseWritableFile ::
  "'d backend \<Rightarrow> 'a aux_env \<Rightarrow> bytes \<Rightarrow> string \<Rightarrow> string \<Rightarrow> bool \<Rightarrow> ('d, 'a, 'm) ZenFS_scheme \<Rightarrow>
     (IOStatus \<times> ZonedWritableFile option \<times> ('d, 'a, 'm) ZenFS_scheme) option" where
  "ReuseWritableFile be env mem filename old_filename use_direct_writes s =
     (let fname = FormatPathLexically filename; old_fname = FormatPathLexically old_filename
      in if GetFile old_fname s = None then Some (NotFound ''Old file does not exist'' [], None, s)
         else
           do {
             (st, s1) \<leftarrow> DeleteFile be env old_fname s;
             if \<not> ok st then Some (st, None, s1)
             else OpenWritableFile be env mem fname use_direct_writes False s1
           })"

definition FileExists ::
  "'a aux_env \<Rightarrow> string \<Rightarrow> ('d, 'a, 'm) ZenFS_scheme \<Rightarrow> IOStatus \<times> ('d, 'a, 'm) ZenFS_scheme" where
  "FileExists env filename s =
     (let fname = FormatPathLexically filename
      in if GetFile fname s = None then aux_call (aux_FileExists env (ToAuxPath s fname)) s else (OK, s))"

definition GetFileModificationTime ::
  "'a aux_env \<Rightarrow> string \<Rightarrow> ('d, 'a, 'm) ZenFS_scheme \<Rightarrow> IOStatus \<times> u64 \<times> ('d, 'a, 'm) ZenFS_scheme" where
  "GetFileModificationTime env filename s =
     (let f = FormatPathLexically filename
      in case map_of (files s) f of
           Some zoneFile \<Rightarrow> (OK, m_time (zfiles s zoneFile), s)
         | None \<Rightarrow> aux_query (aux_GetFileModificationTime env (ToAuxPath s f)) s)"

definition GetFileSize ::
  "'a aux_env \<Rightarrow> string \<Rightarrow> ('d, 'a, 'm) ZenFS_scheme \<Rightarrow> IOStatus \<times> u64 \<times> ('d, 'a, 'm) ZenFS_scheme" where
  "GetFileSize env filename s =
     (let f = FormatPathLexically filename
      in case map_of (files s) f of
           Some zoneFile \<Rightarrow> (OK, file_size (zfiles s zoneFile), s)
         | None \<Rightarrow> aux_query (aux_GetFileSize env (ToAuxPath s f)) s)"

section \<open>Directories\<close>

definition with_sep :: "string \<Rightarrow> string" where
  "with_sep path = lexically_normal (path_append path [])"

definition string_starts_with :: "string \<Rightarrow> string \<Rightarrow> bool" where
  "string_starts_with s needle \<longleftrightarrow> take (length needle) s = needle"

definition GetZenFSChildrenNoLock ::
  "string \<Rightarrow> bool \<Rightarrow> ('d, 'a, 'm) ZenFS_scheme \<Rightarrow> string list" where
  "GetZenFSChildrenNoLock dir include_grandchildren s =
     (let dir_sep = with_sep dir
      in map (\<lambda>(name, f). drop (length dir_sep) name)
           (filter (\<lambda>(name, f).
              (let file_dir = with_sep (parent_path name)
               in string_starts_with file_dir dir_sep \<and>
                  (include_grandchildren \<or> length file_dir = length dir_sep))) (files s)))"

definition GetChildrenNoLock ::
  "'a aux_env \<Rightarrow> string \<Rightarrow> ('d, 'a, 'm) ZenFS_scheme \<Rightarrow> IOStatus \<times> string list \<times> ('d, 'a, 'm) ZenFS_scheme" where
  "GetChildrenNoLock env dir_path s =
     (let dir = FormatPathLexically dir_path;
          (st, auxfiles, s1) = aux_query (aux_GetChildren env (ToAuxPath s dir)) s
      in if \<not> ok st then (if IsNotFound st then (OK, [], s1) else (st, [], s1))
         else (st, filter (\<lambda>f. f \<noteq> ''.'' \<and> f \<noteq> ''..'') auxfiles @ GetZenFSChildrenNoLock dir False s1, s1))"

definition GetChildren ::
  "'a aux_env \<Rightarrow> string \<Rightarrow> ('d, 'a, 'm) ZenFS_scheme \<Rightarrow> IOStatus \<times> string list \<times> ('d, 'a, 'm) ZenFS_scheme" where
  "GetChildren env dir s = GetChildrenNoLock env dir s"

definition IsDirectoryNoLock ::
  "'a aux_env \<Rightarrow> string \<Rightarrow> ('d, 'a, 'm) ZenFS_scheme \<Rightarrow> IOStatus \<times> bool \<times> ('d, 'a, 'm) ZenFS_scheme" where
  "IsDirectoryNoLock env path s =
     (if GetFileNoLock path s \<noteq> None then (OK, False, s)
      else aux_query (aux_IsDirectory env (ToAuxPath s path)) s)"

definition IsDirectory ::
  "'a aux_env \<Rightarrow> string \<Rightarrow> ('d, 'a, 'm) ZenFS_scheme \<Rightarrow> IOStatus \<times> bool \<times> ('d, 'a, 'm) ZenFS_scheme" where
  "IsDirectory env path s = IsDirectoryNoLock env path s"

definition ZenFS_CreateDir ::
  "'a aux_env \<Rightarrow> string \<Rightarrow> ('d, 'a, 'm) ZenFS_scheme \<Rightarrow> IOStatus \<times> ('d, 'a, 'm) ZenFS_scheme" where
  "ZenFS_CreateDir env d s = aux_call (aux_CreateDir env (ToAuxPath s d)) s"

definition ZenFS_CreateDirIfMissing ::
  "'a aux_env \<Rightarrow> string \<Rightarrow> ('d, 'a, 'm) ZenFS_scheme \<Rightarrow> IOStatus \<times> ('d, 'a, 'm) ZenFS_scheme" where
  "ZenFS_CreateDirIfMissing env d s = aux_call (aux_CreateDirIfMissing env (ToAuxPath s d)) s"

definition ZenFS_DeleteDir ::
  "'a aux_env \<Rightarrow> string \<Rightarrow> ('d, 'a, 'm) ZenFS_scheme \<Rightarrow> IOStatus \<times> ('d, 'a, 'm) ZenFS_scheme" where
  "ZenFS_DeleteDir env d s =
     (let (st, children, s1) = GetChildren env d s
      in if length children \<noteq> 0 then (IOError ''Directory has children'' [], s1)
         else aux_call (aux_DeleteDir env (ToAuxPath s1 d)) s1)"

definition GetTestDirectory ::
  "'a aux_env \<Rightarrow> ('d, 'a, 'm) ZenFS_scheme \<Rightarrow> IOStatus \<times> string \<times> ('d, 'a, 'm) ZenFS_scheme" where
  "GetTestDirectory env s =
     (let path = ''rocksdbtest''; (st, s1) = aux_call (aux_CreateDirIfMissing env (ToAuxPath s path)) s
      in (st, path, s1))"

definition ZenFS_GetFreeSpace :: "('d, 'a, 'm) ZenFS_scheme \<Rightarrow> IOStatus \<times> u64" where
  "ZenFS_GetFreeSpace s = (OK, GetFreeSpace s)"

text \<open>
  Deleting a directory with all that is in it. The recursion follows the auxiliary file system; the
  work left is a directory, or the rest of the children of a directory.
\<close>

partial_function (option) delete_run ::
  "'d backend \<Rightarrow> 'a aux_env \<Rightarrow> string + string \<times> string list \<Rightarrow> ('d, 'a, 'm) ZenFS_scheme \<Rightarrow>
     (IOStatus \<times> ('d, 'a, 'm) ZenFS_scheme) option"
where
  "delete_run be env task s =
     (case task of
        Inl dir \<Rightarrow>
          (let d = FormatPathLexically dir; (st, children, s1) = GetChildrenNoLock env d s
           in if \<not> ok st then Some (st, s1)
              else
                do {
                  (st, s2) \<leftarrow> delete_run be env (Inr (d, children)) s1;
                  if \<not> ok st then Some (st, s2)
                  else Some (aux_call (aux_DeleteDir env (ToAuxPath s2 d)) s2)
                })
      | Inr (d, []) \<Rightarrow> Some (OK, s)
      | Inr (d, child # children) \<Rightarrow>
          (let file_to_delete = path_append d child;
               (st, is_dir, s1) = IsDirectoryNoLock env file_to_delete s
           in if \<not> ok st then Some (st, s1)
              else
                do {
                  (st, s2) \<leftarrow> (if is_dir then delete_run be env (Inl file_to_delete) s1
                               else DeleteFileNoLock be env file_to_delete s1);
                  if \<not> ok st then Some (st, s2) else delete_run be env (Inr (d, children)) s2
                }))"

definition DeleteDirRecursiveNoLock ::
  "'d backend \<Rightarrow> 'a aux_env \<Rightarrow> string \<Rightarrow> ('d, 'a, 'm) ZenFS_scheme \<Rightarrow>
     (IOStatus \<times> ('d, 'a, 'm) ZenFS_scheme) option" where
  "DeleteDirRecursiveNoLock be env dir s = delete_run be env (Inl dir) s"

definition DeleteDirRecursive ::
  "'d backend \<Rightarrow> 'a aux_env \<Rightarrow> string \<Rightarrow> ('d, 'a, 'm) ZenFS_scheme \<Rightarrow>
     (IOStatus \<times> ('d, 'a, 'm) ZenFS_scheme) option" where
  "DeleteDirRecursive be env d s =
     do {
       (st, s1) \<leftarrow> DeleteDirRecursiveNoLock be env d s;
       Some (if ok st then ResetUnusedIOZones be s1 else (st, s1))
     }"

section \<open>Renaming and linking\<close>

text \<open>
  \<^verbatim>\<open>RenameFileNoLock\<close>, \<^verbatim>\<open>RenameAuxPathNoLock\<close>, \<^verbatim>\<open>RenameChildNoLock\<close> and \<^verbatim>\<open>RollbackAuxDirRenameNoLock\<close> call each other. The work
  left is one of: rename a path; rename the rest of the children of a directory, where some are renamed
  already; take the renamings of children back.
\<close>

datatype rename_task =
    RenamePath string string
  | RenameChildren string string "string list" "string list"
  | RollbackRename string string "string list"

text \<open>When the new name cannot be persisted, the file gets its old name back.\<close>

definition rename_file ::
  "'d backend \<Rightarrow> 'a aux_env \<Rightarrow> nat \<Rightarrow> string \<Rightarrow> string \<Rightarrow> ('d, 'a, 'm) ZenFS_scheme \<Rightarrow>
     (IOStatus \<times> ('d, 'a, 'm) ZenFS_scheme) option" where
  "rename_file be env f source_path dest_path s =
     do {
       (st, s1) \<leftarrow> (if GetFileNoLock dest_path s \<noteq> None then DeleteFileNoLock be env dest_path s
                    else Some (OK, s));
       if \<not> ok st then Some (st, s1)
       else
         (let (st, zf) = RenameLink source_path dest_path (zfiles s1 f)
          in if \<not> ok st then Some (st, drop_file f s1)
             else
               (let s2 = upd_file f (\<lambda>_. zf) s1;
                    s3 = s2\<lparr>files := map_insert dest_path f (map_erase source_path (files s2))\<rparr>
                in do {
                     (st, s4) \<leftarrow> SyncFileMetadataNoLock be env False f s3;
                     if \<not> ok st
                     then
                       (let s5 = s4\<lparr>files := map_erase dest_path (files s4)\<rparr>;
                            (st, zf) = RenameLink dest_path source_path (zfiles s5 f)
                        in if \<not> ok st then Some (st, drop_file f s5)
                           else
                             (let s6 = upd_file f (\<lambda>_. zf) s5
                              in Some (st, s6\<lparr>files := map_insert source_path f (files s6)\<rparr>)))
                     else Some (st, s4)
                   }))
     }"

partial_function (option) rename_run ::
  "'d backend \<Rightarrow> 'a aux_env \<Rightarrow> rename_task \<Rightarrow> ('d, 'a, 'm) ZenFS_scheme \<Rightarrow>
     (IOStatus \<times> ('d, 'a, 'm) ZenFS_scheme) option"
where
  "rename_run be env task s =
     (case task of
        RenamePath src_path dst_path \<Rightarrow>
          (let source_path = FormatPathLexically src_path; dest_path = FormatPathLexically dst_path
           in case GetFileNoLock source_path s of
                Some f \<Rightarrow> rename_file be env f source_path dest_path s
              | None \<Rightarrow>
                  (let (st, s1) = aux_call (aux_RenameFile env (ToAuxPath s source_path) (ToAuxPath s dest_path)) s
                   in if \<not> ok st then Some (st, s1)
                      else
                        rename_run be env
                          (RenameChildren source_path dest_path (GetZenFSChildrenNoLock source_path True s1) []) s1))
      | RenameChildren source_path dest_path [] renamed \<Rightarrow> Some (OK, s)
      | RenameChildren source_path dest_path (child # children) renamed \<Rightarrow>
          do {
            (st, s1) \<leftarrow> rename_run be env
                          (RenamePath (path_append source_path child) (path_append dest_path child)) s;
            if \<not> ok st
            then
              do {
                (st', s2) \<leftarrow> rename_run be env (RollbackRename source_path dest_path renamed) s1;
                Some (if \<not> ok st' then st' else st, s2)
              }
            else rename_run be env (RenameChildren source_path dest_path children (renamed @ [child])) s1
          }
      | RollbackRename source_path dest_path [] \<Rightarrow>
          (let (st, s1) = aux_call (aux_RenameFile env (ToAuxPath s dest_path) (ToAuxPath s source_path)) s
           in Some (if \<not> ok st
                    then Corruption (''RollbackAuxDirRenameNoLock: Failed to roll back auxiliary path '' @
                           ''renaming'') []
                    else st, s1))
      | RollbackRename source_path dest_path (child # children) \<Rightarrow>
          do {
            (st, s1) \<leftarrow> rename_run be env
                          (RenamePath (path_append dest_path child) (path_append source_path child)) s;
            if \<not> ok st
            then Some (Corruption ''RollbackAuxDirRenameNoLock: Failed to roll back directory rename'' [], s1)
            else rename_run be env (RollbackRename source_path dest_path children) s1
          })"

definition RenameFileNoLock ::
  "'d backend \<Rightarrow> 'a aux_env \<Rightarrow> string \<Rightarrow> string \<Rightarrow> ('d, 'a, 'm) ZenFS_scheme \<Rightarrow>
     (IOStatus \<times> ('d, 'a, 'm) ZenFS_scheme) option" where
  "RenameFileNoLock be env src_path dst_path s = rename_run be env (RenamePath src_path dst_path) s"

definition RenameFile ::
  "'d backend \<Rightarrow> 'a aux_env \<Rightarrow> string \<Rightarrow> string \<Rightarrow> ('d, 'a, 'm) ZenFS_scheme \<Rightarrow>
     (IOStatus \<times> ('d, 'a, 'm) ZenFS_scheme) option" where
  "RenameFile be env source_path dest_path s =
     do {
       (st, s1) \<leftarrow> RenameFileNoLock be env source_path dest_path s;
       Some (if ok st then ResetUnusedIOZones be s1 else (st, s1))
     }"

definition LinkFile ::
  "'d backend \<Rightarrow> 'a aux_env \<Rightarrow> string \<Rightarrow> string \<Rightarrow> ('d, 'a, 'm) ZenFS_scheme \<Rightarrow>
     (IOStatus \<times> ('d, 'a, 'm) ZenFS_scheme) option" where
  "LinkFile be env file link s =
     (let fname = FormatPathLexically file; lname = FormatPathLexically link
      in if GetFileNoLock lname s \<noteq> None
         then Some (InvalidArgument ''Failed to create link, target exists'' [], s)
         else
           (case GetFileNoLock fname s of
              None \<Rightarrow> Some (aux_call (aux_LinkFile env (ToAuxPath s fname) (ToAuxPath s lname)) s)
            | Some f \<Rightarrow>
                (let s1 = upd_file f (AddLinkName lname) s;
                     s2 = s1\<lparr>files := map_insert lname f (files s1)\<rparr>
                 in do {
                      (st, s3) \<leftarrow> SyncFileMetadataNoLock be env False f s2;
                      if \<not> ok st
                      then
                        (let (st, zf) = RemoveLinkName lname (zfiles s3 f)
                         in if \<not> ok st then Some (st, s3)
                            else (let s4 = upd_file f (\<lambda>_. zf) s3
                                  in Some (st, s4\<lparr>files := map_erase lname (files s4)\<rparr>)))
                      else Some (st, s3)
                    })))"

definition NumFileLinks ::
  "'a aux_env \<Rightarrow> string \<Rightarrow> ('d, 'a, 'm) ZenFS_scheme \<Rightarrow> IOStatus \<times> u64 \<times> ('d, 'a, 'm) ZenFS_scheme" where
  "NumFileLinks env file s =
     (let fname = FormatPathLexically file
      in case GetFileNoLock fname s of
           Some f \<Rightarrow> (OK, of_nat (GetNrLinks (zfiles s f)), s)
         | None \<Rightarrow> aux_query (aux_NumFileLinks env (ToAuxPath s fname)) s)"

text \<open>The auxiliary file system is asked with the paths of ZenFS.\<close>

definition AreFilesSame ::
  "'a aux_env \<Rightarrow> string \<Rightarrow> string \<Rightarrow> ('d, 'a, 'm) ZenFS_scheme \<Rightarrow> IOStatus \<times> bool \<times> ('d, 'a, 'm) ZenFS_scheme" where
  "AreFilesSame env file linkf s =
     (let fname = FormatPathLexically file; link = FormatPathLexically linkf
      in case (GetFileNoLock fname s, GetFileNoLock link s) of
           (Some f, Some g) \<Rightarrow> (OK, file_id (zfiles s f) = file_id (zfiles s g), s)
         | _ \<Rightarrow> aux_query (aux_AreFilesSame env fname link) s)"

definition GetWriteLifeTimeHints :: "('d, 'a, 'm) ZenFS_scheme \<Rightarrow> (string \<times> WriteLifeTimeHint) list" where
  "GetWriteLifeTimeHints s =
     fold (\<lambda>(filename, f). map_insert filename (lifetime (zfiles s f))) (files s) []"

section \<open>Replaying the journal\<close>

fun erase_names :: "string list \<Rightarrow> (string \<times> 'v) list \<Rightarrow> bool \<times> (string \<times> 'v) list" where
  "erase_names [] m = (True, m)"
| "erase_names (name # rest) m =
     (if map_of m name \<noteq> None then erase_names rest (map_erase name m) else (False, m))"

definition insert_names :: "string list \<Rightarrow> nat \<Rightarrow> (string \<times> nat) list \<Rightarrow> (string \<times> nat) list" where
  "insert_names link_names f m = fold (\<lambda>name. map_insert name f) link_names m"

text \<open>The end of an object that only a local variable refers to.\<close>

definition discard :: "ZoneFile \<Rightarrow> ('d, 'm) ZBD_scheme \<Rightarrow> ('d, 'm) ZBD_scheme" where
  "discard zf s = snd (ClearExtents zf s)"

definition bump_file_id :: "u64 \<Rightarrow> ('d, 'a, 'm) ZenFS_scheme \<Rightarrow> ('d, 'a, 'm) ZenFS_scheme" where
  "bump_file_id fid s = (if fid \<ge> next_file_id s then s\<lparr>next_file_id := fid + 1\<rparr> else s)"

definition DecodeFileUpdateFrom ::
  "bytes \<Rightarrow> bool \<Rightarrow> ('d, 'a, 'm) ZenFS_scheme \<Rightarrow> IOStatus \<times> ('d, 'a, 'm) ZenFS_scheme" where
  "DecodeFileUpdateFrom sl replace s =
     (let (st, update, s1) = ZoneFile_DecodeFrom sl (new_ZoneFile 0) s
      in if \<not> ok st then (st, discard update s1)
         else
           (let s2 = bump_file_id (file_id update) s1
            in case find (\<lambda>(name, f). file_id update = file_id (zfiles s2 f)) (files s2) of
                 Some (_, f) \<Rightarrow>
                   (let (found, m) = erase_names (linkfiles (zfiles s2 f)) (files s2); s3 = s2\<lparr>files := m\<rparr>
                    in if \<not> found
                       then (Corruption ''DecodeFileUpdateFrom: missing link file'' [],
                             drop_file f (discard update s3))
                       else
                         (let (st, zf, s4) = MergeUpdate update replace (zfiles s3 f) s3;
                              s5 = discard update (upd_file f (\<lambda>_. zf) s4)
                          in if \<not> ok st then (st, drop_file f s5)
                             else (OK, s5\<lparr>files := insert_names (linkfiles (zfiles s5 f)) f (files s5)\<rparr>)))
               | None \<Rightarrow>
                   (let (f, s3) = new_file update s2
                    in (OK, drop_file f (s3\<lparr>files := map_insert (GetFilename update) f (files s3)\<rparr>)))))"

function (sequential) DecodeSnapshotFrom ::
  "bytes \<Rightarrow> ('d, 'a, 'm) ZenFS_scheme \<Rightarrow> IOStatus \<times> ('d, 'a, 'm) ZenFS_scheme"
where
  "DecodeSnapshotFrom input s =
     (case GetLengthPrefixedSlice input of
        None \<Rightarrow> (OK, s)
      | Some (sl, rest) \<Rightarrow>
          (let (st, zf, s1) = ZoneFile_DecodeFrom sl (new_ZoneFile 0) s
           in if \<not> ok st then (st, discard zf s1)
              else
                (let (f, s2) = new_file zf (bump_file_id (file_id zf) s1)
                 in DecodeSnapshotFrom rest
                      (drop_file f (s2\<lparr>files := insert_names (linkfiles zf) f (files s2)\<rparr>)))))"
  by pat_completeness auto
termination
  by (relation "measure (\<lambda>(input, s). length input)") (auto dest!: GetLengthPrefixedSlice_length)

declare DecodeSnapshotFrom.simps [simp del]

definition DecodeFileDeletionFrom ::
  "bytes \<Rightarrow> ('d, 'a, 'm) ZenFS_scheme \<Rightarrow> IOStatus \<times> ('d, 'a, 'm) ZenFS_scheme" where
  "DecodeFileDeletionFrom input s =
     (case GetFixed64 input of
        None \<Rightarrow> (Corruption ''Zone file deletion: file id missing'' [], s)
      | Some (fileID, rest) \<Rightarrow>
          (case GetLengthPrefixedSlice rest of
             None \<Rightarrow> (Corruption ''Zone file deletion: file name missing'' [], s)
           | Some (sl, _) \<Rightarrow>
               (let fileName = unstr sl
                in case map_of (files s) fileName of
                     None \<Rightarrow> (Corruption ''Zone file deletion: no such file'' [], s)
                   | Some f \<Rightarrow>
                       if file_id (zfiles s f) \<noteq> fileID
                       then (Corruption ''Zone file deletion: file ID missmatch'' [], s)
                       else
                         (let s1 = s\<lparr>files := map_erase fileName (files s)\<rparr>;
                              (st, zf) = RemoveLinkName fileName (zfiles s1 f)
                          in if \<not> ok st
                             then (Corruption ''Zone file deletion: file links missmatch'' [], drop_file f s1)
                             else (OK, drop_file f (upd_file f (\<lambda>_. zf) s1))))))"

section \<open>Recovery\<close>

text \<open>The loop over the records of a log. \<open>snap\<close> says whether a snapshot has been seen.\<close>

partial_function (option) RecoverFrom_loop ::
  "'d backend \<Rightarrow> bool \<Rightarrow> ZenMetaLog \<Rightarrow> ('d, 'a, 'm) ZenFS_scheme \<Rightarrow>
     (IOStatus \<times> ZenMetaLog \<times> ('d, 'a, 'm) ZenFS_scheme) option"
where
  "RecoverFrom_loop be snap log s =
     do {
       (rs, record, log1, s1) \<leftarrow> ReadRecord be log s;
       if \<not> ok rs then Some (Corruption ''ZenFS'' ''Metadata corruption'', log1, s1)
       else
         (let end_status = (if snap then OK else NotFound ''ZenFS'' ''No snapshot found'')
          in case GetFixed32 record of
               None \<Rightarrow> Some (end_status, log1, s1)
             | Some (tag, rest) \<Rightarrow>
                 if tag = kEndRecord then Some (end_status, log1, s1)
                 else
                   (case GetLengthPrefixedSlice rest of
                      None \<Rightarrow> Some (Corruption ''ZenFS'' ''No recovery record data'', log1, s1)
                    | Some (data, _) \<Rightarrow>
                        if tag = kCompleteFilesSnapshot then
                          (let (st, s2) = DecodeSnapshotFrom data (ClearFiles s1)
                           in if \<not> ok st then Some (st, log1, s2) else RecoverFrom_loop be True log1 s2)
                        else if tag = kFileUpdate then
                          (let (st, s2) = DecodeFileUpdateFrom data False s1
                           in if \<not> ok st then Some (st, log1, s2) else RecoverFrom_loop be snap log1 s2)
                        else if tag = kFileReplace then
                          (let (st, s2) = DecodeFileUpdateFrom data True s1
                           in if \<not> ok st then Some (st, log1, s2) else RecoverFrom_loop be snap log1 s2)
                        else if tag = kFileDeletion then
                          (let (st, s2) = DecodeFileDeletionFrom data s1
                           in if \<not> ok st then Some (st, log1, s2) else RecoverFrom_loop be snap log1 s2)
                        else Some (Corruption ''ZenFS'' ''Unexpected tag'', log1, s1)))
     }"

definition RecoverFrom ::
  "'d backend \<Rightarrow> ZenMetaLog \<Rightarrow> ('d, 'a, 'm) ZenFS_scheme \<Rightarrow>
     (IOStatus \<times> ZenMetaLog \<times> ('d, 'a, 'm) ZenFS_scheme) option" where
  "RecoverFrom be log s = RecoverFrom_loop be False log s"

fun Repair_loop ::
  "'d backend \<Rightarrow> (string \<times> nat) list \<Rightarrow> ('d, 'a, 'm) ZenFS_scheme \<Rightarrow>
     (IOStatus \<times> ('d, 'a, 'm) ZenFS_scheme) option"
where
  "Repair_loop be [] s = Some (OK, s)"
| "Repair_loop be ((name, f) # rest) s =
     (if HasActiveExtent (zfiles s f)
      then
        do {
          (st, s1) \<leftarrow> Recover be f s;
          if \<not> ok st then Some (st, s1) else Repair_loop be rest s1
        }
      else Repair_loop be rest s)"

definition Repair ::
  "'d backend \<Rightarrow> ('d, 'a, 'm) ZenFS_scheme \<Rightarrow> (IOStatus \<times> ('d, 'a, 'm) ZenFS_scheme) option" where
  "Repair be s = Repair_loop be (files s) s"

section \<open>Mounting\<close>

text \<open>
  The superblocks found, each with the log it was read from. The logs own the busy flags of their zones:
  a log that goes gives its zone back.
\<close>

type_synonym found = "(Superblock \<times> ZenMetaLog) list"

definition release_logs :: "ZenMetaLog list \<Rightarrow> ('d, 'm) ZBD_scheme \<Rightarrow> ('d, 'm) ZBD_scheme" where
  "release_logs logs s = fold delete_ZenMetaLog logs s"

fun find_superblocks ::
  "'d backend \<Rightarrow> nat list \<Rightarrow> found \<Rightarrow> ('d, 'a, 'm) ZenFS_scheme \<Rightarrow>
     (IOStatus \<times> found \<times> ('d, 'a, 'm) ZenFS_scheme) option"
where
  "find_superblocks be [] valid s = Some (OK, valid, s)"
| "find_superblocks be (i # is) valid s =
     (let (acquired, s1) = acquire_meta i s
      in if \<not> acquired
         then Some (Aborted (''Could not aquire busy flag of zone'' @
                      to_string (unat (GetZoneNr (zone_sz s1) (meta_zones s1 ! i)))) [], [],
                    release_logs (map snd valid) s1)
         else
           do {
             (st, super_record, log, s2) \<leftarrow> ReadRecord be (new_ZenMetaLog i s1) s1;
             if \<not> ok st \<or> length super_record = 0
             then find_superblocks be is valid (delete_ZenMetaLog log s2)
             else
               (let (st, sb, _) = Superblock_DecodeFrom super_record empty_Superblock;
                    st = (if ok st then CompatibleWith s2 sb else st)
                in if \<not> ok st then Some (st, [], release_logs (log # map snd valid) s2)
                   else find_superblocks be is (valid @ [(sb, log)]) s2)
           })"

text \<open>The superblocks by descending sequence number; among equal numbers the later zone comes first.\<close>

fun insert_desc :: "u32 \<times> nat \<Rightarrow> (u32 \<times> nat) list \<Rightarrow> (u32 \<times> nat) list" where
  "insert_desc x [] = [x]"
| "insert_desc (q, i) ((q', i') # rest) =
     (if q > q' \<or> q = q' \<and> i > i' then (q, i) # (q', i') # rest else (q', i') # insert_desc (q, i) rest)"

definition seq_map :: "found \<Rightarrow> (u32 \<times> nat) list" where
  "seq_map valid =
     fold insert_desc (zip (map (\<lambda>(sb, log). GetSeq sb) valid) [0..<length valid]) []"

text \<open>
  Recovery from the first log in this order that has a snapshot. \<open>Some i\<close> is the one that it was;
  the logs before it have given their zones back.
\<close>

fun recover_first ::
  "'d backend \<Rightarrow> found \<Rightarrow> (u32 \<times> nat) list \<Rightarrow> ('d, 'a, 'm) ZenFS_scheme \<Rightarrow>
     (IOStatus \<times> nat option \<times> ('d, 'a, 'm) ZenFS_scheme) option"
where
  "recover_first be valid [] s = Some (IOError ''Failed to mount filesystem'' [], None, s)"
| "recover_first be valid ((q, i) # rest) s =
     do {
       (st, log, s1) \<leftarrow> RecoverFrom be (snd (valid ! i)) s;
       if ok st then Some (OK, Some i, s1\<lparr>meta_log := Some log\<rparr>)
       else if IsNotFound st then recover_first be valid rest (delete_ZenMetaLog log s1)
       else Some (st, None, release_logs (log # map (\<lambda>(_, j). snd (valid ! j)) rest) s1)
     }"

text \<open>The logs behind number \<open>i\<close> in the order of recovery.\<close>

fun logs_after :: "found \<Rightarrow> nat \<Rightarrow> (u32 \<times> nat) list \<Rightarrow> ZenMetaLog list" where
  "logs_after valid i [] = []"
| "logs_after valid i ((q, j) # rest) =
     (if i = j then map (\<lambda>(_, k). snd (valid ! k)) rest else logs_after valid i rest)"

definition mount_writable ::
  "'d backend \<Rightarrow> ('d, 'a, 'm) ZenFS_scheme \<Rightarrow> (IOStatus \<times> ('d, 'a, 'm) ZenFS_scheme) option" where
  "mount_writable be s =
     do {
       (st, s1) \<leftarrow> Repair be s;
       if \<not> ok st then Some (st, s1)
       else
         do {
           (st, s2) \<leftarrow> RollMetaZoneLocked be s1;
           if \<not> ok st then Some (st, s2)
           else
             (let (st, s3) = ResetUnusedIOZones be s2
              in if \<not> ok st then Some (st, s3)
                 else
                   do {
                     sb \<leftarrow> superblock s3;
                     Some (OK, if IsGCEnabled sb then s3\<lparr>run_gc_worker := True\<rparr> else s3)
                   })
         }
     }"

definition Mount ::
  "'d backend \<Rightarrow> 'a aux_env \<Rightarrow> bool \<Rightarrow> ('d, 'a, 'm) ZenFS_scheme \<Rightarrow>
     (IOStatus \<times> ('d, 'a, 'm) ZenFS_scheme) option" where
  "Mount be env readonly s =
     (if length (meta_zones s) < 2 then Some (NotSupported [] [], s)
      else
        do {
          (st, valid, s1) \<leftarrow> find_superblocks be [0..<length (meta_zones s)] [] s;
          if \<not> ok st then Some (st, s1)
          else if valid = [] then Some (NotFound ''No valid superblock found'' [], s1)
          else
            do {
              (st, r, s2) \<leftarrow> recover_first be valid (seq_map valid) s1;
              (case r of
                 None \<Rightarrow> Some (st, s2)
               | Some i \<Rightarrow>
                   (let sb = fst (valid ! i);
                        s3 = SetFinishTreshold (GetFinishTreshold sb) (s2\<lparr>superblock := Some sb\<rparr>);
                        (st, s4) = aux_call (aux_CreateDirIfMissing env (unstr (GetAuxFsPath sb))) s3;
                        s5 = release_logs (logs_after valid i (seq_map valid)) s4
                    in if \<not> ok st then Some (st, s5)
                       else if readonly then Some (OK, s5)
                       else mount_writable be s5))
            }
        })"

section \<open>Making a file system\<close>

text \<open>All metadata zones are reset; the first for which that works becomes the zone of the log.\<close>

fun reset_meta_zones ::
  "'d backend \<Rightarrow> nat list \<Rightarrow> nat option \<Rightarrow> ('d, 'm) ZBD_scheme \<Rightarrow> IOStatus \<times> nat option \<times> ('d, 'm) ZBD_scheme"
where
  "reset_meta_zones be [] meta_zone s = (OK, meta_zone, s)"
| "reset_meta_zones be (i # is) meta_zone s =
     (let (acquired, s1) = acquire_meta i s
      in if \<not> acquired
         then (Aborted (''Could not aquire busy flag of zone '' @
                 to_string (unat (GetZoneNr (zone_sz s1) (meta_zones s1 ! i)))) [], meta_zone, s1)
         else
           (let (st, s2) = reset_meta be i s1;
                meta_zone' = (if ok st \<and> meta_zone = None then Some i else meta_zone)
            in if meta_zone' \<noteq> Some i
               then
                 (let (released, z) = Release (meta_zones s2 ! i); s3 = upd_meta i z s2
                  in if \<not> released
                     then (Aborted (''Could not unset busy flag of zone '' @
                             to_string (unat (GetZoneNr (zone_sz s3) (meta_zones s3 ! i)))) [], meta_zone', s3)
                     else reset_meta_zones be is meta_zone' s3)
               else reset_meta_zones be is meta_zone' s2))"

definition MkFS ::
  "'d backend \<Rightarrow> 'a aux_env \<Rightarrow> string \<Rightarrow> u32 \<Rightarrow> bool \<Rightarrow> ('d, 'a, 'm) ZenFS_scheme \<Rightarrow>
     (IOStatus \<times> ('d, 'a, 'm) ZenFS_scheme) option" where
  "MkFS be env aux_fs_p threshold enable_gc s =
     (let aux_fs_path = FormatPathLexically aux_fs_p
      in if length aux_fs_path > 255
         then Some (InvalidArgument (''Aux filesystem path must be less than 256 bytes'' @ [CHR 0x0A]) [], s)
         else
           (let (status, s1) = ResetUnusedIOZones be (ClearFiles s)
            in if \<not> ok status then Some (status, s1)
               else
                 (let (st, meta_zone, s2) = reset_meta_zones be [0..<length (meta_zones s1)] None s1
                  in if \<not> ok st then Some (st, s2)
                     else
                       (case meta_zone of
                          None \<Rightarrow> Some (IOError (''Not available meta zones'' @ [CHR 0x0A]) [], s2)
                        | Some i \<Rightarrow>
                            (let log = new_ZenMetaLog i s2;
                                 super = new_Superblock (env_GenerateUniqueId env (aux s2))
                                           (env_ZENFS_VERSION env) s2 (str aux_fs_path) threshold enable_gc;
                                 (super_string, _) = Superblock_EncodeTo super
                             in do {
                                  (st, s3) \<leftarrow> AddRecord be log super_string s2;
                                  if \<not> ok st then Some (st, delete_ZenMetaLog log s3)
                                  else
                                    do {
                                      (st, s4) \<leftarrow> PersistSnapshot be log s3;
                                      Some (if \<not> ok st then IOError ''Failed persist snapshot'' [] else OK,
                                            delete_ZenMetaLog log s4)
                                    }
                                })))))"

end
