(* ===== verification/GarbageCollection.thy ===== *)
theory GarbageCollection
  imports FileSystem
begin

text \<open>
  Garbage collection: \<^verbatim>\<open>plugin/zenfs/fs/snapshot.h\<close>, the functions \<^verbatim>\<open>GetZenFSSnapshot\<close>, \<^verbatim>\<open>MigrateExtents\<close>,
  \<^verbatim>\<open>MigrateFileExtents\<close> and one round of \<^verbatim>\<open>GCWorker\<close> of \<^verbatim>\<open>fs_zenfs.cc\<close>. A round starts after the sleep of the worker.
  A division by zero has no result.
\<close>

section \<open>Snapshots\<close>

record ZenFSSnapshotOptions =
  opt_zbd :: bool
  opt_zone :: bool
  opt_zone_file :: bool

record ZBDSnapshot =
  free_space :: u64
  used_space :: u64
  reclaimable_space :: u64

record ZoneSnapshot =
  zs_start :: u64
  zs_wp :: u64
  zs_capacity :: u64
  zs_used_capacity :: u64
  zs_max_capacity :: u64

record ZoneExtentSnapshot =
  es_start :: u64
  es_length :: u64
  es_zone_start :: u64
  es_filename :: string

record ZoneFileSnapshot =
  fsn_file_id :: u64
  fsn_filename :: string
  fsn_extents :: "ZoneExtentSnapshot list"

record ZenFSSnapshot =
  sn_zbd :: "ZBDSnapshot option"
  sn_zones :: "ZoneSnapshot list"
  sn_zone_files :: "ZoneFileSnapshot list"
  sn_extents :: "ZoneExtentSnapshot list"

definition new_ZBDSnapshot :: "('d, 'm) ZBD_scheme \<Rightarrow> ZBDSnapshot" where
  "new_ZBDSnapshot s =
     \<lparr>free_space = GetFreeSpace s, used_space = GetUsedSpace s, reclaimable_space = GetReclaimableSpace s\<rparr>"

definition new_ZoneSnapshot :: "Zone \<Rightarrow> ZoneSnapshot" where
  "new_ZoneSnapshot z =
     \<lparr>zs_start = z_start z, zs_wp = z_wp z, zs_capacity = z_capacity z, zs_used_capacity = z_used_capacity z,
      zs_max_capacity = z_max_capacity z\<rparr>"

definition new_ZoneExtentSnapshot :: "Zone list \<Rightarrow> string \<Rightarrow> ZoneExtent \<Rightarrow> ZoneExtentSnapshot" where
  "new_ZoneExtentSnapshot zs fname e =
     \<lparr>es_start = e_start e, es_length = e_length e, es_zone_start = z_start (zs ! e_zone e), es_filename = fname\<rparr>"

definition new_ZoneFileSnapshot :: "Zone list \<Rightarrow> ZoneFile \<Rightarrow> ZoneFileSnapshot" where
  "new_ZoneFileSnapshot zs zf =
     \<lparr>fsn_file_id = file_id zf, fsn_filename = GetFilename zf,
      fsn_extents = map (new_ZoneExtentSnapshot zs (GetFilename zf)) (extents zf)\<rparr>"

definition GetZoneSnapshot :: "('d, 'm) ZBD_scheme \<Rightarrow> ZoneSnapshot list" where
  "GetZoneSnapshot s = map new_ZoneSnapshot (io_zones s)"

text \<open>
  A snapshot skips the files that are open for writing. It takes and gives back the lock of every other
  file. The report to the metrics and the log of the garbage in the zones are left out.
\<close>

definition snapshot_file ::
  "nat \<Rightarrow> ('d, 'a, 'm) ZenFS_scheme \<times> ZenFSSnapshot \<Rightarrow> ('d, 'a, 'm) ZenFS_scheme \<times> ZenFSSnapshot" where
  "snapshot_file f acc =
     (let (s, sn) = acc; (acquired, zf) = TryAcquireWRLock (zfiles s f)
      in if \<not> acquired then (s, sn)
         else
           (upd_file f ReleaseWRLock (upd_file f (\<lambda>_. zf) s),
            sn\<lparr>sn_zone_files := sn_zone_files sn @ [new_ZoneFileSnapshot (io_zones s) zf],
               sn_extents := sn_extents sn @ map (new_ZoneExtentSnapshot (io_zones s) (GetFilename zf)) (extents zf)\<rparr>))"

definition GetZenFSSnapshot ::
  "ZenFSSnapshotOptions \<Rightarrow> ('d, 'a, 'm) ZenFS_scheme \<Rightarrow> ZenFSSnapshot \<times> ('d, 'a, 'm) ZenFS_scheme" where
  "GetZenFSSnapshot options s =
     (let sn = \<lparr>sn_zbd = (if opt_zbd options then Some (new_ZBDSnapshot s) else None),
                sn_zones = (if opt_zone options then GetZoneSnapshot s else []), sn_zone_files = [], sn_extents = []\<rparr>;
          (s1, sn1) = (if opt_zone_file options then fold (\<lambda>(name, f). snapshot_file f) (files s) (s, sn) else (s, sn))
      in (sn1, s1))"

section \<open>Migrating extents\<close>

text \<open>
  One extent of the file \<open>f\<close>. \<open>None\<close> in the second component of the result stops the migration: the file has gone.
  What \<^verbatim>\<open>MigrateData\<close> and \<^verbatim>\<open>ReleaseMigrateZone\<close> return is not looked at.
\<close>

definition migrate_extent ::
  "'d backend \<Rightarrow> nat \<Rightarrow> string \<Rightarrow> ZoneExtentSnapshot list \<Rightarrow> ZoneExtent \<Rightarrow> ('d, 'a, 'm) ZenFS_scheme \<Rightarrow>
     (ZoneExtent option \<times> ('d, 'a, 'm) ZenFS_scheme) option" where
  "migrate_extent be f fname migrate_exts ext s =
     (if find (\<lambda>es. es_start es = e_start ext \<and> es_length es = e_length ext) migrate_exts = None
      then Some (Some ext, s)
      else
        do {
          (st, zone, s1) \<leftarrow> TakeMigrateZone (lifetime (zfiles s f)) (ucast (e_length ext)) s;
          if \<not> ok st then Some (Some ext, s1)
          else
            (case zone of
               None \<Rightarrow> Some (Some ext, snd (ReleaseMigrateZone None s1))
             | Some target \<Rightarrow>
                 (let wp = z_wp (io_zones s1 ! target); sparse = is_sparse (zfiles s1 f);
                      header = (if sparse then of_nat SPARSE_HEADER_SIZE else 0) :: u64
                  in do {
                       (st, s2) \<leftarrow> MigrateData be (e_start ext - header) (ucast (e_length ext + header)) target s1;
                       (let s3 = AddGCBytesWritten (e_length ext + header) s2
                        in if GetFileNoLock fname s3 = None
                           then Some (None, snd (ReleaseMigrateZone (Some target) s3))
                           else
                             Some (Some (ext\<lparr>e_start := wp + header, e_zone := target\<rparr>),
                               snd (ReleaseMigrateZone (Some target) (add_used target (e_length ext) s3))))
                     }))
        })"

fun migrate_extents ::
  "'d backend \<Rightarrow> nat \<Rightarrow> string \<Rightarrow> ZoneExtentSnapshot list \<Rightarrow> ZoneExtent list \<Rightarrow> ('d, 'a, 'm) ZenFS_scheme \<Rightarrow>
     (ZoneExtent list \<times> ('d, 'a, 'm) ZenFS_scheme) option"
where
  "migrate_extents be f fname exts [] s = Some ([], s)"
| "migrate_extents be f fname exts (ext # rest) s =
     do {
       (r, s1) \<leftarrow> migrate_extent be f fname exts ext s;
       (case r of
          None \<Rightarrow> Some (ext # rest, s1)
        | Some ext' \<Rightarrow>
            do {
              (rest', s2) \<leftarrow> migrate_extents be f fname exts rest s1;
              Some (ext' # rest', s2)
            })
     }"

definition MigrateFileExtents ::
  "'d backend \<Rightarrow> 'a aux_env \<Rightarrow> string \<Rightarrow> ZoneExtentSnapshot list \<Rightarrow> ('d, 'a, 'm) ZenFS_scheme \<Rightarrow>
     (IOStatus \<times> ('d, 'a, 'm) ZenFS_scheme) option" where
  "MigrateFileExtents be env fname migrate_exts s =
     (case GetFile fname s of
        None \<Rightarrow> Some (OK, s)
      | Some f \<Rightarrow>
          (let (acquired, zf) = TryAcquireWRLock (zfiles s f)
           in if \<not> acquired then Some (OK, s)
              else
                do {
                  (new_extent_list, s1) \<leftarrow>
                    migrate_extents be f fname migrate_exts (extents zf) (upd_file f (\<lambda>_. zf) s);
                  (st, s2) \<leftarrow> SyncFileExtents be env f new_extent_list s1;
                  Some (OK, drop_file f (upd_file f ReleaseWRLock s2))
                }))"

text \<open>The extents grouped by file, in the order of the names.\<close>

definition group_extent ::
  "ZoneExtentSnapshot \<Rightarrow> (string \<times> ZoneExtentSnapshot list) list \<Rightarrow> (string \<times> ZoneExtentSnapshot list) list" where
  "group_extent ext m =
     (if ends_with (es_filename ext) ''.sst''
      then map (\<lambda>(name, exts). (name, if name = es_filename ext then exts @ [ext] else exts))
             (map_insert (es_filename ext) [] m)
      else m)"

fun migrate_files ::
  "'d backend \<Rightarrow> 'a aux_env \<Rightarrow> (string \<times> ZoneExtentSnapshot list) list \<Rightarrow> ('d, 'a, 'm) ZenFS_scheme \<Rightarrow>
     (IOStatus \<times> ('d, 'a, 'm) ZenFS_scheme) option"
where
  "migrate_files be env [] s = Some (OK, s)"
| "migrate_files be env ((name, exts) # rest) s =
     do {
       (st, s1) \<leftarrow> MigrateFileExtents be env name exts s;
       if \<not> ok st then Some (st, s1)
       else
         (let (st, s2) = ResetUnusedIOZones be s1
          in if \<not> ok st then Some (st, s2) else migrate_files be env rest s2)
     }"

definition MigrateExtents ::
  "'d backend \<Rightarrow> 'a aux_env \<Rightarrow> ZoneExtentSnapshot list \<Rightarrow> ('d, 'a, 'm) ZenFS_scheme \<Rightarrow>
     (IOStatus \<times> ('d, 'a, 'm) ZenFS_scheme) option" where
  "MigrateExtents be env exts s = migrate_files be env (fold group_extent exts []) s"

section \<open>The worker\<close>

definition GC_START_LEVEL :: u64 where "GC_START_LEVEL = 20"

definition GC_SLOPE :: u64 where "GC_SLOPE = 3"

text \<open>The starts of the full zones whose garbage is above the threshold, but which are not all garbage.\<close>

fun migrate_zones :: "u64 \<Rightarrow> ZoneSnapshot list \<Rightarrow> u64 list option" where
  "migrate_zones threshold [] = Some []"
| "migrate_zones threshold (z # zs) =
     (if zs_capacity z = 0
      then
        (if zs_max_capacity z = 0 then None
         else
           (let garbage = 100 - 100 * zs_used_capacity z div zs_max_capacity z
            in map_option (\<lambda>rest. if garbage > threshold \<and> garbage < 100 then zs_start z # rest else rest)
                 (migrate_zones threshold zs)))
      else migrate_zones threshold zs)"

definition gc_options :: ZenFSSnapshotOptions where
  "gc_options = \<lparr>opt_zbd = False, opt_zone = True, opt_zone_file = True\<rparr>"

definition GCWorker_round ::
  "'d backend \<Rightarrow> 'a aux_env \<Rightarrow> ('d, 'a, 'm) ZenFS_scheme \<Rightarrow> ('d, 'a, 'm) ZenFS_scheme option" where
  "GCWorker_round be env s =
     (let non_free = GetUsedSpace s + GetReclaimableSpace s; free = GetFreeSpace s
      in if free + non_free = 0 then None
         else
           (let free_percent = 100 * free div (free + non_free)
            in if free_percent > GC_START_LEVEL then Some s
               else
                 (let (snapshot, s1) = GetZenFSSnapshot gc_options s;
                      threshold = 100 - GC_SLOPE * (GC_START_LEVEL - free_percent)
                  in do {
                       starts \<leftarrow> migrate_zones threshold (sn_zones snapshot);
                       (let migrate_exts = filter (\<lambda>ext. es_zone_start ext \<in> set starts) (sn_extents snapshot)
                        in if length migrate_exts > 0
                           then map_option snd (MigrateExtents be env migrate_exts s1) else Some s1)
                     })))"

end
