(* ===== verification/Journal.thy ===== *)
theory Journal
  imports FileSystem
begin

text \<open>
  The metadata journal as the files below it see it. Writing a record to the log (\<^verbatim>\<open>PersistRecord\<close>,
  \<^verbatim>\<open>RollMetaZoneLocked\<close> and \<^verbatim>\<open>SyncFileMetadata\<close> of \<^verbatim>\<open>plugin/zenfs/fs/fs_zenfs.cc\<close>) always returns, writes
  only to metadata zones, and changes nothing of the I/O zones and of the data in them. So it is a
  metadata writer in the sense of \<^theory_text>\<open>FileWrites\<close>, and what was shown there of appends holds for the files
  of the file system.
\<close>

section \<open>Steps on the metadata zones\<close>

text \<open>
  \<open>metas_ok s\<close>: the metadata zones are well formed (\<open>meta_wf\<close>) and hold no file data. \<open>meta_step media I s t\<close>: from \<open>s\<close> to \<open>t\<close>
  only the metadata zones \<open>I\<close> and the bytes in them have changed, and the count of bytes written.
\<close>

definition meta_wf :: "u64 \<Rightarrow> Zone \<Rightarrow> bool" where
  "meta_wf sz z \<longleftrightarrow> zone_wf sz z \<and> \<not> IsUsed z \<and> z_capacity z \<le> z_max_capacity z"

definition metas_ok :: "('d, 'm) ZBD_scheme \<Rightarrow> bool" where
  "metas_ok s \<longleftrightarrow>
     (\<forall>i<length (meta_zones s). meta_wf (zone_sz s) (meta_zones s ! i))"

definition meta_step ::
  "('d \<Rightarrow> u64 \<Rightarrow> byte) \<Rightarrow> nat set \<Rightarrow> ('d, 'm) ZBD_scheme \<Rightarrow> ('d, 'm) ZBD_scheme \<Rightarrow> bool" where
  "meta_step media I s t \<longleftrightarrow>
     (\<exists>d n zs. t = s\<lparr>dev := d, bytes_written := n, meta_zones := zs\<rparr> \<and>
        length zs = length (meta_zones s) \<and>
        (\<forall>i<length zs. z_start (zs ! i) = z_start (meta_zones s ! i) \<and> meta_wf (zone_sz s) (zs ! i) \<and>
           (i \<notin> I \<longrightarrow> zs ! i = meta_zones s ! i)) \<and>
        (\<forall>a. (\<forall>i\<in>I. i < length zs \<longrightarrow> \<not> in_zone (zone_sz s) (meta_zones s ! i) a) \<longrightarrow>
           media d a = media (dev s) a))"

lemma meta_step_refl: "metas_ok s \<Longrightarrow> meta_step media I s s"
  unfolding meta_step_def
  by (rule exI [of _ "dev s"], rule exI [of _ "bytes_written s"], rule exI [of _ "meta_zones s"])
    (auto simp: metas_ok_def)

lemma meta_step_mono: "meta_step media I s t \<Longrightarrow> I \<subseteq> J \<Longrightarrow> meta_step media J s t"
  unfolding meta_step_def by (elim exE conjE, intro exI conjI, assumption+) (blast, blast)

lemma meta_stepD:
  assumes "meta_step media I s t"
  shows "metas_ok t" "length (meta_zones t) = length (meta_zones s)" "zone_sz t = zone_sz s" "block_sz t = block_sz s"
    "io_zones t = io_zones s" "ZBD.more t = ZBD.more s"
    "i < length (meta_zones s) \<Longrightarrow> z_start (meta_zones t ! i) = z_start (meta_zones s ! i)"
    "i < length (meta_zones s) \<Longrightarrow> i \<notin> I \<Longrightarrow> meta_zones t ! i = meta_zones s ! i"
    "(\<And>i. i \<in> I \<Longrightarrow> i < length (meta_zones s) \<Longrightarrow> \<not> in_zone (zone_sz s) (meta_zones s ! i) a) \<Longrightarrow>
       media (dev t) a = media (dev s) a"
  using assms by (auto simp: meta_step_def metas_ok_def)

lemma in_zone_cong: "z_start z = z_start y \<Longrightarrow> in_zone sz z a = in_zone sz y a"
  by (simp add: in_zone_def)

lemma meta_step_trans:
  assumes "meta_step media I s t" and "meta_step media I t u"
  shows "meta_step media I s u"
proof -
  obtain d n zs where t: "t = s\<lparr>dev := d, bytes_written := n, meta_zones := zs\<rparr>" "length zs = length (meta_zones s)"
    using assms(1) by (auto simp: meta_step_def)
  obtain d' n' zs' where u: "u = t\<lparr>dev := d', bytes_written := n', meta_zones := zs'\<rparr>" "length zs' = length (meta_zones t)"
    "\<forall>i<length zs'. z_start (zs' ! i) = z_start (meta_zones t ! i) \<and> meta_wf (zone_sz t) (zs' ! i) \<and>
           (i \<notin> I \<longrightarrow> zs' ! i = meta_zones t ! i)"
    using assms(2) by (auto simp: meta_step_def)
  note st = meta_stepD [OF assms(1)] and tu = meta_stepD [OF assms(2)]
  have "media d' a = media (dev s) a" if "\<forall>i\<in>I. i < length zs' \<longrightarrow> \<not> in_zone (zone_sz s) (meta_zones s ! i) a" for a
  proof -
    have "\<not> in_zone (zone_sz s) (meta_zones s ! i) a" if "i \<in> I" "i < length (meta_zones s)" for i
      using \<open>\<forall>i\<in>I. i < length zs' \<longrightarrow> \<not> in_zone (zone_sz s) (meta_zones s ! i) a\<close> that st(2) u(2) by simp
    moreover from this have "\<not> in_zone (zone_sz t) (meta_zones t ! i) a" if "i \<in> I" "i < length (meta_zones t)" for i
      using that st(2,3) in_zone_cong [OF st(7)] by metis
    ultimately show ?thesis using st(9) [of a] tu(9) [of a] u(1) by simp
  qed
  moreover have "u = s\<lparr>dev := d', bytes_written := n', meta_zones := zs'\<rparr>" using t(1) u(1) by simp
  ultimately show ?thesis
    using u st unfolding meta_step_def by (intro exI [of _ d'] exI [of _ n'] exI [of _ zs']) auto
qed

lemma meta_step_upd:
  assumes "metas_ok s" and "i \<in> I" and "i < length (meta_zones s) \<Longrightarrow> z_start z = z_start (meta_zones s ! i)"
    and "i < length (meta_zones s) \<Longrightarrow> meta_wf (zone_sz s) z"
    and "\<And>a. (\<forall>i\<in>I. i < length (meta_zones s) \<longrightarrow> \<not> in_zone (zone_sz s) (meta_zones s ! i) a) \<Longrightarrow> media d a = media (dev s) a"
  shows "meta_step media I s (AddBytesWritten n (upd_meta i z (s\<lparr>dev := d\<rparr>)))"
    and "meta_step media I s (upd_meta i z (s\<lparr>dev := d\<rparr>))"
proof -
  let ?zs = "(meta_zones s)[i := z]"
  have zs: "\<forall>j<length ?zs. z_start (?zs ! j) = z_start (meta_zones s ! j) \<and> meta_wf (zone_sz s) (?zs ! j) \<and>
           (j \<notin> I \<longrightarrow> ?zs ! j = meta_zones s ! j)"
  proof (intro allI impI)
    fix j assume "j < length ?zs"
    then show "z_start (?zs ! j) = z_start (meta_zones s ! j) \<and> meta_wf (zone_sz s) (?zs ! j) \<and>
           (j \<notin> I \<longrightarrow> ?zs ! j = meta_zones s ! j)"
      using assms(1-4) by (cases "i = j") (auto simp: metas_ok_def)
  qed
  have step: "meta_step media I s (s\<lparr>dev := d, bytes_written := m, meta_zones := ?zs\<rparr>)" for m
    unfolding meta_step_def
    by (rule exI [of _ d], rule exI [of _ m], rule exI [of _ ?zs], intro conjI)
      (rule refl, simp, rule zs, simp add: assms(5))
  have "upd_meta i z (s\<lparr>dev := d\<rparr>) = s\<lparr>dev := d, bytes_written := bytes_written s, meta_zones := ?zs\<rparr>"
    "AddBytesWritten n (upd_meta i z (s\<lparr>dev := d\<rparr>))
       = s\<lparr>dev := d, bytes_written := bytes_written s + n, meta_zones := ?zs\<rparr>"
    by (simp_all add: upd_meta_def AddBytesWritten_def)
  with step show "meta_step media I s (AddBytesWritten n (upd_meta i z (s\<lparr>dev := d\<rparr>)))"
    "meta_step media I s (upd_meta i z (s\<lparr>dev := d\<rparr>))"
    by metis+
qed

section \<open>The operations on the metadata zones\<close>

lemma memcpy_length: "length buf \<le> length (memcpy buf pos src)"
  by (simp add: memcpy_def)

lemma unat_ucast_u32: "unat (ucast (n :: u64) :: u32) \<le> unat n"
  by (simp add: unsigned_ucast_eq)

text \<open>Appending to a metadata zone returns, also for records of any length.\<close>

lemma AddRecord_step:
  assumes "device_ok be (zone_sz s) media" and "metas_ok s" and "ml_zone log < length (meta_zones s)"
  obtains st t where "AddRecord be log data s = Some (st, t)" "meta_step media {ml_zone log} s t"
proof -
  let ?i = "ml_zone log" and ?z = "meta_zones s ! ml_zone log"
  obtain n :: u32 and buf where n: "AddRecord be log data s = append_meta be ?i buf n s" "unat n \<le> length buf"
  proof -
    define sz where "sz = (let phys_sz = ucast (of_nat (length data) :: u32) + of_nat zMetaHeaderSize :: u64
      in if phys_sz mod ml_bs log \<noteq> 0 then phys_sz + (ml_bs log - phys_sz mod ml_bs log) else phys_sz)"
    let ?rs = "of_nat (length data) :: u32"
    let ?b0 = "memset0 [] 0 (unat sz)"
    let ?b1 = "memcpy ?b0 0 (EncodeFixed32 (Mask (Extend 0 (Extend 0 0 (EncodeFixed32 ?rs)) (take (unat ?rs) data))))"
    let ?b2 = "memcpy ?b1 4 (EncodeFixed32 ?rs)" and ?b3 = "take (unat ?rs) data"
    have "unat (ucast sz :: u32) \<le> length ?b0" using unat_ucast_u32 [of sz] by (simp add: memset0_def)
    then have "unat (ucast sz :: u32) \<le> length (memcpy ?b2 8 ?b3)"
      using memcpy_length order_trans by meson
    moreover have "AddRecord be log data s = append_meta be ?i (memcpy ?b2 8 ?b3) (ucast sz) s"
      by (simp add: AddRecord_def sz_def Let_def)
    ultimately show thesis using that by blast
  qed
  from append_meta_spec [OF assms(1) n(2), of ?i s] obtain st k t where
    t: "append_meta be ?i buf n s = Some (st, t)" "meta_appended media ?i buf (unat n) k s t" by blast
  have mwf: "meta_wf (zone_sz s) ?z" using assms(2,3) by (auto simp: metas_ok_def)
  then have wf: "zone_wf (zone_sz s) ?z" by (simp add: meta_wf_def)
  note fr = meta_appended_frame [OF t(2) assms(3) wf]
  obtain d where d: "t = AddBytesWritten (of_nat k) (upd_meta ?i (advance k ?z) (s\<lparr>dev := d\<rparr>))"
    and k: "k \<le> unat (z_capacity ?z)"
    using t(2) by (auto simp: meta_appended_def)
  have "meta_wf (zone_sz s) (advance k ?z)"
    using mwf zone_wf_advance [OF wf k] by (auto simp: meta_wf_def IsUsed_def word_le_nat_alt)
  then have "meta_step media {?i} s t"
    unfolding d by (intro meta_step_upd(1) [OF assms(2)]) (use fr(2) assms(3) d in auto)
  with t(1) n(1) show thesis using that by metis
qed

lemma busy_step:
  assumes "metas_ok s" and "i \<in> I"
  shows "meta_step media I s (upd_meta i ((meta_zones s ! i)\<lparr>z_busy := b\<rparr>) s)"
  using meta_step_upd(2) [OF assms, of "(meta_zones s ! i)\<lparr>z_busy := b\<rparr>" media "dev s"] assms(1)
  by (simp add: metas_ok_def meta_wf_def zone_wf_def IsUsed_def)

lemma upd_meta_same [simp]: "upd_meta i (meta_zones s ! i) s = s"
  by (simp add: upd_meta_def)

lemma acquire_meta_cases:
  "acquire_meta i s = (if z_busy (meta_zones s ! i) then (False, s)
     else (True, upd_meta i ((meta_zones s ! i)\<lparr>z_busy := True\<rparr>) s))"
  by (simp add: acquire_meta_def)

lemma release_meta_step:
  assumes "metas_ok s" and "i \<in> I"
  shows "meta_step media I s (snd (release_meta i s))"
  using busy_step [OF assms, of media False] meta_step_refl [OF assms(1), of media I]
  by (cases "z_busy (meta_zones s ! i)") (simp_all add: release_meta_def CheckRelease_def Release_def)

lemma delete_log_step:
  assumes "metas_ok s" and "ml_zone log \<in> I"
  shows "meta_step media I s (delete_ZenMetaLog log s)"
  using busy_step [OF assms, of media False] meta_step_refl [OF assms(1), of media I]
  by (cases "z_busy (meta_zones s ! ml_zone log)") (simp_all add: delete_ZenMetaLog_def Release_def)

lemma reset_meta_step:
  assumes "device_ok be (zone_sz s) media" and "metas_ok s" and "i \<in> I" and "i < length (meta_zones s)"
  shows "meta_step media I s (snd (reset_meta be i s))"
proof -
  let ?z = "meta_zones s ! i"
  obtain st z d where r: "Zone_Reset be ?z (dev s) = (st, z, d)" by (cases "Zone_Reset be ?z (dev s)")
  have wf: "zone_wf (zone_sz s) ?z" "\<not> IsUsed ?z" "z_capacity ?z \<le> z_max_capacity ?z"
    using assms(2,4) by (auto simp: metas_ok_def meta_wf_def)
  have "zone_wf (zone_sz s) z"
    using zone_wf_Reset [OF wf(1,2) device_okD(5) [OF assms(1)], of "dev s"] r by simp
  moreover have z: "z_start z = z_start ?z" "\<not> IsUsed z" "z_capacity z \<le> z_max_capacity z" "d = snd (snd (snd (be_Reset be (z_start ?z) (dev s))))"
    using r wf(2,3) by (cases rule: Zone_Reset_cases [of be ?z "dev s"]; auto simp: IsUsed_def)+
  moreover have "media d a = media (dev s) a" if "\<not> in_zone (zone_sz s) ?z a" for a
    using that wf(1) device_okD(4) [OF assms(1)] outside_zone [of "zone_sz s" ?z a]
    by (simp add: manage_media_def z(4))
  ultimately show ?thesis
    using assms r by (auto simp: reset_meta_def meta_wf_def intro!: meta_step_upd(2))
qed

lemma finish_meta_step:
  assumes "device_ok be (zone_sz s) media" and "metas_ok s" and "i \<in> I" and "i < length (meta_zones s)"
  shows "meta_step media I s (snd (finish_meta be i s))"
proof -
  let ?z = "meta_zones s ! i"
  obtain st z d where r: "Zone_Finish be (zone_sz s) ?z (dev s) = (st, z, d)"
    by (cases "Zone_Finish be (zone_sz s) ?z (dev s)")
  have wf: "zone_wf (zone_sz s) ?z" "\<not> IsUsed ?z" "z_capacity ?z \<le> z_max_capacity ?z"
    using assms(2,4) by (auto simp: metas_ok_def meta_wf_def)
  have "zone_wf (zone_sz s) z"
    using zone_wf_Finish [OF wf(1), of be "dev s"] r by simp
  moreover have z: "z_start z = z_start ?z" "\<not> IsUsed z" "z_capacity z \<le> z_max_capacity z" "d = snd (be_Finish be (z_start ?z) (dev s))"
    using r wf(2,3) by (cases rule: Zone_Finish_cases [of be "zone_sz s" ?z "dev s"]; auto simp: IsUsed_def)+
  moreover have "media d = media (dev s)"
    using device_okD(4) [OF assms(1)] by (simp add: manage_media_def z(4))
  ultimately show ?thesis
    using assms r by (auto simp: finish_meta_def meta_wf_def intro!: meta_step_upd(2))
qed

text \<open>
  Allocating a metadata zone touches no zone that is busy. The zone it returns is empty.
\<close>

lemma reset_meta_empty:
  "ok (fst (reset_meta be i s)) \<Longrightarrow> i < length (meta_zones s) \<Longrightarrow> IsEmpty (meta_zones (snd (reset_meta be i s)) ! i)"
  "i < length (meta_zones s) \<Longrightarrow> z_busy (meta_zones (snd (reset_meta be i s)) ! i) = z_busy (meta_zones s ! i)"
  by (cases rule: Zone_Reset_cases [of be "meta_zones s ! i" "dev s"];
    auto simp: reset_meta_def IsEmpty_def split: prod.splits)+

lemma AllocateMetaZone_round:
  assumes "device_ok be (zone_sz s) media" and "metas_ok s" and "i < length (meta_zones s)"
    and "i \<in> I \<or> z_busy (meta_zones s ! i)"
  obtains (found) t where "AllocateMetaZone_loop be (i # js) s = (OK, Some i, t)" "i \<in> I" "meta_step media I s t"
      "IsEmpty (meta_zones t ! i)" "z_busy (meta_zones t ! i)"
    | (stop) st t where "AllocateMetaZone_loop be (i # js) s = (st, None, t)" "\<not> ok st" "meta_step media I s t"
    | (next_zone) t where "AllocateMetaZone_loop be (i # js) s = AllocateMetaZone_loop be js t" "meta_step media I s t"
proof (cases "z_busy (meta_zones s ! i)")
  case True
  with meta_step_refl [OF assms(2)] show thesis by (intro next_zone [of s]) (simp_all add: acquire_meta_cases)
next
  case idle: False
  then have i: "i \<in> I" using assms(4) by simp
  let ?s1 = "upd_meta i ((meta_zones s ! i)\<lparr>z_busy := True\<rparr>) s"
  have s1: "meta_step media I s ?s1" by (rule busy_step [OF assms(2) i])
  have used: "\<not> IsUsed (meta_zones ?s1 ! i)" using assms(2,3) by (simp add: metas_ok_def meta_wf_def IsUsed_def)
  show thesis
  proof (cases "IsEmpty (meta_zones ?s1 ! i)")
    case True
    with used idle s1 i assms(3) show thesis by (intro found [of ?s1]) (simp_all add: acquire_meta_cases)
  next
    case False
    obtain rst s2 where r: "reset_meta be i ?s1 = (rst, s2)" by (cases "reset_meta be i ?s1")
    have s2: "meta_step media I s s2"
      using meta_step_trans [OF s1 reset_meta_step [where be = be, OF _ meta_stepD(1) [OF s1] i]] assms(1,3) r by simp
    obtain rel s3 where l: "release_meta i s2 = (rel, s3)" by (cases "release_meta i s2")
    have s3: "meta_step media I s s3"
      using meta_step_trans [OF s2 release_meta_step [OF meta_stepD(1) [OF s2] i]] l by simp
    have "AllocateMetaZone_loop be (i # js) s = (if ok rst then (OK, Some i, s2)
        else if ok rel then AllocateMetaZone_loop be js s3 else (rel, None, s3))"
      using used idle assms(3) False r l by (simp add: acquire_meta_cases)
    moreover have "ok rst \<Longrightarrow> IsEmpty (meta_zones s2 ! i)" "z_busy (meta_zones s2 ! i)"
      using reset_meta_empty [where be = be and i = i and s = ?s1] r assms(3) by simp_all
    ultimately show thesis using s2 s3 i found next_zone stop by (cases "ok rst"; cases "ok rel") auto
  qed
qed

lemma AllocateMetaZone_loop_step:
  assumes "device_ok be (zone_sz s) media" and "metas_ok s"
    and "\<forall>i\<in>set js. i < length (meta_zones s) \<and> (i \<in> I \<or> z_busy (meta_zones s ! i))"
  obtains st z t where "AllocateMetaZone_loop be js s = (st, z, t)" "meta_step media I s t"
    "\<And>i. ok st \<Longrightarrow> z = Some i \<Longrightarrow> i \<in> I \<and> i < length (meta_zones s) \<and> IsEmpty (meta_zones t ! i) \<and> z_busy (meta_zones t ! i)"
  using assms
proof (induction js arbitrary: s thesis)
  case Nil
  then show ?case using meta_step_refl by auto
next
  case (Cons i js)
  have i: "i < length (meta_zones s)" "i \<in> I \<or> z_busy (meta_zones s ! i)" using Cons.prems(4) by auto
  from Cons.prems(2,3) i show ?case
  proof (cases rule: AllocateMetaZone_round [where be = be and js = js])
    case (found t)
    with i show ?thesis by (intro Cons.prems(1) [of OK "Some i" t]) auto
  next
    case (stop st t)
    then show ?thesis by (intro Cons.prems(1) [of st None t]) auto
  next
    case (next_zone t)
    note m = meta_stepD [OF next_zone(2)]
    have tl: "\<forall>j\<in>set js. j < length (meta_zones t) \<and> (j \<in> I \<or> z_busy (meta_zones t ! j))"
      using m(2,8) Cons.prems(4) by (metis list.set_intros(2))
    have dv: "device_ok be (zone_sz t) media" "metas_ok t" using m(1,3) Cons.prems(2) by simp_all
    show ?thesis
    proof (rule Cons.IH [OF _ dv tl])
      fix st z u
      assume u: "AllocateMetaZone_loop be js t = (st, z, u)" "meta_step media I t u"
        "\<And>i. ok st \<Longrightarrow> z = Some i \<Longrightarrow> i \<in> I \<and> i < length (meta_zones t) \<and> IsEmpty (meta_zones u ! i) \<and> z_busy (meta_zones u ! i)"
      show ?thesis
        by (rule Cons.prems(1) [of st z u])
          (use u next_zone(1) meta_step_trans [OF next_zone(2) u(2)] m(2) in auto)
    qed
  qed
qed

lemma AllocateMetaZone_step:
  assumes "device_ok be (zone_sz s) media" and "metas_ok s"
  obtains st z t where "AllocateMetaZone be s = (st, z, t)"
    "meta_step media {i. i < length (meta_zones s) \<and> \<not> z_busy (meta_zones s ! i)} s t"
    "\<And>i. ok st \<Longrightarrow> z = Some i \<Longrightarrow> i < length (meta_zones s) \<and> \<not> z_busy (meta_zones s ! i) \<and>
      IsEmpty (meta_zones t ! i) \<and> z_busy (meta_zones t ! i)"
proof -
  let ?I = "{i. i < length (meta_zones s) \<and> \<not> z_busy (meta_zones s ! i)}"
  have "\<forall>i\<in>set [0..<length (meta_zones s)]. i < length (meta_zones s) \<and> (i \<in> ?I \<or> z_busy (meta_zones s ! i))"
    by simp
  from assms this show thesis
  proof (cases rule: AllocateMetaZone_loop_step [where be = be])
    case (1 st z t)
    show thesis by (rule that [of st z t]) (use 1 in \<open>auto simp: AllocateMetaZone_def\<close>)
  qed
qed

section \<open>Writing the journal\<close>

text \<open>
  \<open>journal_step media s t\<close>: the I/O zones, their data, the names, the handles and the auxiliary file system are
  as before; the files differ only in their modification time and in how many extents count as synced.
\<close>

definition journal_step ::
  "('d \<Rightarrow> u64 \<Rightarrow> byte) \<Rightarrow> ('d, 'a, 'm) ZenFS_scheme \<Rightarrow> ('d, 'a, 'm) ZenFS_scheme \<Rightarrow> bool" where
  "journal_step media s t \<longleftrightarrow>
     meta_frame media s t \<and> metas_ok t \<and> length (meta_zones t) = length (meta_zones s) \<and>
     files t = files s \<and> next_file_id t = next_file_id s \<and> next_ptr t = next_ptr s \<and>
     handles t = handles s \<and> aux t = aux s \<and> run_gc_worker t = run_gc_worker s"

lemma meta_frame_trans:
  assumes "meta_frame media s t" and "meta_frame media t u"
  shows "meta_frame media s u"
proof -
  have "file_sim (zfiles s g) (zfiles u g)" for g
    using assms file_sim_trans [of "zfiles s g" "zfiles t g" "zfiles u g"] by (simp add: meta_frame_def)
  moreover have "io_addr t a = io_addr s a" for a
    using assms(1) by (simp add: io_addr_def meta_frame_def)
  ultimately show ?thesis using assms by (simp add: meta_frame_def)
qed

lemma journal_step_trans:
  "journal_step media s t \<Longrightarrow> journal_step media t u \<Longrightarrow> journal_step media s u"
  using meta_frame_trans by (auto simp: journal_step_def)

lemma journal_step_refl: "metas_ok s \<Longrightarrow> journal_step media s s"
  by (simp add: journal_step_def meta_frame_def)

lemma journal_stepD:
  assumes "journal_step media s t"
  shows "metas_ok t" "length (meta_zones t) = length (meta_zones s)" "zone_sz t = zone_sz s" "block_sz t = block_sz s"
    "geometry t = geometry s" "files t = files s" "file_sim (zfiles s f) (zfiles t f)"
  using assms geometry_cong [of t s] by (simp_all add: journal_step_def meta_frame_def)

text \<open>The I/O zones lie outside the metadata zones.\<close>

lemma io_addr_meta: "geometry s \<Longrightarrow> io_addr s a \<Longrightarrow> \<not> meta_addr s a"
  by (fastforce simp: geometry_def io_addr_def meta_addr_def in_zone_def apart_def)

lemma meta_step_journal:
  fixes s t :: "('d, 'a, 'm) ZenFS_scheme"
  assumes "meta_step media I s t" and "geometry s"
  shows "journal_step media s t" "meta_log t = meta_log s" "superblock t = superblock s" "zfiles t = zfiles s"
proof -
  obtain d n zs where t: "t = s\<lparr>dev := d, bytes_written := n, meta_zones := zs\<rparr>"
    using assms(1) by (auto simp: meta_step_def)
  note m = meta_stepD [OF assms(1)]
  have "map z_start (meta_zones t) = map z_start (meta_zones s)"
    using m(2,7) by (intro nth_equalityI) auto
  moreover have "media (dev t) a = media (dev s) a" if "io_addr s a" for a
    using io_addr_meta [OF assms(2) that] by (intro m(9)) (auto simp: meta_addr_def)
  ultimately show "journal_step media s t"
    using m(1,2) by (simp add: journal_step_def meta_frame_def t)
  show "meta_log t = meta_log s" "superblock t = superblock s" "zfiles t = zfiles s"
    by (simp_all add: t)
qed

text \<open>Changes of the file objects and of the file system's own fields.\<close>

lemma synced_sim [simp]: "file_sim zf (MetadataSynced zf)" "file_sim zf (SetFileModificationTime n zf)"
  by (cases zf; simp add: file_sim_def MetadataSynced_def SetFileModificationTime_def)+

lemma journal_step_file:
  assumes "metas_ok s" and "\<And>zf. file_sim zf (h zf)"
  shows "journal_step media s (upd_file f h s)"
  using assms by (auto simp: journal_step_def meta_frame_def metas_ok_def upd_file_def)

lemma journal_step_files:
  assumes "metas_ok s" and "\<And>zf. file_sim zf (h zf)"
  shows "journal_step media s (fold (\<lambda>(name, f). upd_file f h) fs s)"
    "meta_log (fold (\<lambda>(name, f). upd_file f h) fs s) = meta_log s"
    "superblock (fold (\<lambda>(name, f). upd_file f h) fs s) = superblock s"
proof -
  let ?P = "\<lambda>t. journal_step media s t \<and> meta_log t = meta_log s \<and> superblock t = superblock s"
  have "?P t \<Longrightarrow> ?P (fold (\<lambda>(name, f). upd_file f h) fs t)" for t
  proof (induction fs arbitrary: t)
    case (Cons x xs)
    obtain name f where x: "x = (name, f)" by (cases x)
    have "journal_step media t (upd_file f h t)"
      using Cons.prems journal_stepD(1) by (intro journal_step_file assms(2)) blast
    then have "?P (upd_file f h t)"
      using Cons.prems journal_step_trans by (auto simp: upd_file_def)
    with Cons.IH x show ?case by simp
  qed simp
  with journal_step_refl [OF assms(1)] show "journal_step media s (fold (\<lambda>(name, f). upd_file f h) fs s)"
    "meta_log (fold (\<lambda>(name, f). upd_file f h) fs s) = meta_log s"
    "superblock (fold (\<lambda>(name, f). upd_file f h) fs s) = superblock s"
    by blast+
qed

lemma journal_step_log:
  "metas_ok s \<Longrightarrow> journal_step media s (s\<lparr>meta_log := l\<rparr>)"
  "metas_ok s \<Longrightarrow> journal_step media s (s\<lparr>superblock := b\<rparr>)"
  by (simp_all add: journal_step_def meta_frame_def metas_ok_def)

text \<open>The state in which the journal can be written.\<close>

definition writer_ok :: "'d backend \<Rightarrow> ('d \<Rightarrow> u64 \<Rightarrow> byte) \<Rightarrow> ('d, 'a, 'm) ZenFS_scheme \<Rightarrow> bool" where
  "writer_ok be media s \<longleftrightarrow>
     device_ok be (zone_sz s) media \<and> metas_ok s \<and> 0 < block_sz s \<and>
     (\<exists>log. meta_log s = Some log \<and> ml_zone log < length (meta_zones s) \<and> ml_bs log = ucast (block_sz s)) \<and>
     superblock s \<noteq> None"

lemma AddRecord_journal:
  fixes s :: "('d, 'a, 'm) ZenFS_scheme"
  assumes "device_ok be (zone_sz s) media" and "metas_ok s" and "geometry s" and "ml_zone log < length (meta_zones s)"
  obtains st t where "AddRecord be log data s = Some (st, t)" "journal_step media s t" "meta_log t = meta_log s"
    "superblock t = superblock s"
  using AddRecord_step [OF assms(1,2,4), of data] meta_step_journal [OF _ assms(3)] by metis

lemma WriteSnapshotLocked_journal:
  assumes "device_ok be (zone_sz s) media" and "metas_ok s" and "geometry s" and "ml_zone log < length (meta_zones s)"
  obtains st t where "WriteSnapshotLocked be log s = Some (st, t)" "journal_step media s t" "meta_log t = meta_log s"
    "superblock t = superblock s"
proof -
  obtain st t where t: "AddRecord be log (ZenFS_EncodeSnapshotTo s) s = Some (st, t)" "journal_step media s t"
    "meta_log t = meta_log s" "superblock t = superblock s"
    by (rule AddRecord_journal [OF assms])
  note fs = journal_step_files [where h = MetadataSynced, OF journal_stepD(1) [OF t(2)] synced_sim(1)]
  show thesis
    by (rule that [of st "if ok st then fold (\<lambda>(name, f). upd_file f MetadataSynced) (files t) t else t"])
      (use t fs journal_step_trans [OF t(2) fs(1)] in \<open>auto simp: WriteSnapshotLocked_def\<close>)
qed

lemma close_old_log_step:
  assumes "device_ok be (zone_sz s) media" and "metas_ok s" and "ml_zone old < length (meta_zones s)"
  obtains t where "close_old_log be old s = Some t" "meta_step media {ml_zone old} s t"
proof -
  let ?I = "{ml_zone old}"
  obtain u where u: "(if GetCapacityLeft (meta_zones s ! ml_zone old) \<noteq> 0
      then map_option snd (WriteEndRecord be old s) else Some s) = Some u" "meta_step media ?I s u"
  proof (cases "GetCapacityLeft (meta_zones s ! ml_zone old) = 0")
    case True
    then show thesis using that [of s] meta_step_refl [OF assms(2)] by simp
  next
    case False
    obtain st t where "WriteEndRecord be old s = Some (st, t)" "meta_step media ?I s t"
      unfolding WriteEndRecord_def by (rule AddRecord_step [OF assms])
    with False show thesis using that [of t] by simp
  qed
  let ?t = "snd (finish_meta be (ml_zone old) u)"
  have "meta_step media ?I u ?t"
    using finish_meta_step [of be u media "ml_zone old" ?I] assms meta_stepD [OF u(2)] by simp
  from meta_step_trans [OF u(2) this] u(2) show thesis
    by (intro that [of "if GetCapacityLeft (meta_zones u ! ml_zone old) \<noteq> 0 then ?t else u"])
      (auto simp: close_old_log_def u(1))
qed

lemma close_old_log_journal:
  assumes "device_ok be (zone_sz s) media" and "metas_ok s" and "geometry s" and "ml_zone old < length (meta_zones s)"
  obtains t where "close_old_log be old s = Some t" "journal_step media s t" "meta_log t = meta_log s"
    "superblock t = superblock s"
  using close_old_log_step [OF assms(1,2,4)] meta_step_journal [OF _ assms(3)] by metis

lemma writer_okD:
  assumes "writer_ok be media s"
  shows "device_ok be (zone_sz s) media" "metas_ok s"
  using assms by (simp_all add: writer_ok_def)

lemma writer_ok_step:
  assumes "writer_ok be media s" and "journal_step media s t" and "meta_log t = Some log"
    and "ml_zone log < length (meta_zones t)" and "ml_bs log = ucast (block_sz t)" and "superblock t \<noteq> None"
  shows "writer_ok be media t"
  using assms journal_stepD [OF assms(2)] by (simp add: writer_ok_def)

lemma writer_ok_same:
  assumes "writer_ok be media s" and "journal_step media s t" and "meta_log t = meta_log s"
    and "superblock t = superblock s"
  shows "writer_ok be media t"
proof -
  obtain log where "meta_log s = Some log" "ml_zone log < length (meta_zones s)" "ml_bs log = ucast (block_sz s)"
    "superblock s \<noteq> None"
    using assms(1) by (auto simp: writer_ok_def)
  with assms journal_stepD [OF assms(2)] show ?thesis by (intro writer_ok_step [OF assms(1,2)]) simp_all
qed

lemma new_log_sel [simp]: "ml_zone (new_ZenMetaLog i s) = i" "ml_bs (new_ZenMetaLog i s) = ucast (block_sz s)"
  "ml_read_pos (new_ZenMetaLog i s) = z_start (meta_zones s ! i)"
  by (simp_all add: new_ZenMetaLog_def)

text \<open>The end of a roll: the old zone is reset if the snapshot is written, and given back.\<close>

lemma roll_end_journal:
  assumes "device_ok be (zone_sz s) media" and "metas_ok s" and "geometry s" and "ml_zone old < length (meta_zones s)"
  shows "journal_step media s (delete_ZenMetaLog old (if b then snd (reset_meta be (ml_zone old) s) else s))"
    "meta_log (delete_ZenMetaLog old (if b then snd (reset_meta be (ml_zone old) s) else s)) = meta_log s"
    "superblock (delete_ZenMetaLog old (if b then snd (reset_meta be (ml_zone old) s) else s)) = superblock s"
proof -
  let ?I = "{ml_zone old}" and ?s = "if b then snd (reset_meta be (ml_zone old) s) else s"
  have "meta_step media ?I s ?s"
    using reset_meta_step [of be s media "ml_zone old" ?I] meta_step_refl [of s media ?I] assms by simp
  then have "meta_step media ?I s (delete_ZenMetaLog old ?s)"
    using meta_step_trans delete_log_step [OF meta_stepD(1)] by blast
  from meta_step_journal [OF this assms(3)] show "journal_step media s (delete_ZenMetaLog old ?s)"
    "meta_log (delete_ZenMetaLog old ?s) = meta_log s" "superblock (delete_ZenMetaLog old ?s) = superblock s"
    by blast+
qed

lemma RollMetaZoneLocked_journal:
  assumes ok: "writer_ok be media s" and geo: "geometry s"
  obtains st t where "RollMetaZoneLocked be s = Some (st, t)" "journal_step media s t" "writer_ok be media t"
proof -
  obtain st z s1 where a: "AllocateMetaZone be s = (st, z, s1)"
    "meta_step media {i. i < length (meta_zones s) \<and> \<not> z_busy (meta_zones s ! i)} s s1"
    "\<And>i. ok st \<Longrightarrow> z = Some i \<Longrightarrow> i < length (meta_zones s) \<and> \<not> z_busy (meta_zones s ! i) \<and>
      IsEmpty (meta_zones s1 ! i) \<and> z_busy (meta_zones s1 ! i)"
    by (rule AllocateMetaZone_step [OF writer_okD [OF ok]]) (rule that)
  note s1 = meta_step_journal [OF a(2) geo] and w1 = writer_ok_same [OF ok]
  show thesis
  proof (cases "ok st \<and> z \<noteq> None")
    case False
    then show thesis
      using that [of st s1] that [of "NoSpace ''Out of metadata zones'' []" s1] a(1) s1 w1 [OF s1(1-3)]
      by (cases "ok st") (auto simp: RollMetaZoneLocked_def)
  next
    case True
    then obtain i where z: "ok st" "z = Some i" by auto
    have i: "i < length (meta_zones s)" using a(3) [OF z] by simp
    obtain old sb where old: "meta_log s = Some old" "ml_zone old < length (meta_zones s)" "superblock s = Some sb"
      using ok by (auto simp: writer_ok_def)
    let ?log = "new_ZenMetaLog i s1" and ?s1 = "s1\<lparr>meta_log := Some (new_ZenMetaLog i s1)\<rparr>"
    have j1: "journal_step media s ?s1"
      using journal_step_trans [OF s1(1) journal_step_log(1) [OF journal_stepD(1) [OF s1(1)]]] .
    have here: "device_ok be (zone_sz u) media" "metas_ok u" "geometry u" "length (meta_zones u) = length (meta_zones s)"
      "block_sz u = block_sz s" if "journal_step media s u" for u
      using journal_stepD [OF that] writer_okD [OF ok] geo by simp_all
    obtain s2 where s2: "close_old_log be old ?s1 = Some s2" "journal_step media ?s1 s2" "meta_log s2 = meta_log ?s1"
      "superblock s2 = superblock ?s1"
      using close_old_log_journal [of be ?s1 media old] here [OF j1] old(2) by metis
    obtain str sb' where e: "Superblock_EncodeTo sb = (str, sb')" by (cases "Superblock_EncodeTo sb")
    let ?s2 = "s2\<lparr>superblock := Some sb'\<rparr>"
    have j2: "journal_step media s ?s2"
      using journal_step_trans [OF journal_step_trans [OF j1 s2(2)] journal_step_log(2) [OF journal_stepD(1) [OF s2(2)]]] .
    obtain st3 s3 where s3: "AddRecord be ?log str ?s2 = Some (st3, s3)" "journal_step media ?s2 s3"
      "meta_log s3 = meta_log ?s2" "superblock s3 = superblock ?s2"
      using AddRecord_journal [of be ?s2 media ?log str] here [OF j2] i by (metis new_log_sel(1))
    note j3 = journal_step_trans [OF j2 s3(2)]
    obtain st4 s4 where s4: "WriteSnapshotLocked be ?log s3 = Some (st4, s4)" "journal_step media s3 s4"
      "meta_log s4 = meta_log s3" "superblock s4 = superblock s3"
      using WriteSnapshotLocked_journal [of be s3 media ?log] here [OF j3] i by (metis new_log_sel(1))
    note j4 = journal_step_trans [OF j3 s4(2)]
    have fin: "journal_step media s (delete_ZenMetaLog old (if b then snd (reset_meta be (ml_zone old) u) else u)) \<and>
        writer_ok be media (delete_ZenMetaLog old (if b then snd (reset_meta be (ml_zone old) u) else u))"
      if "journal_step media s u" "meta_log u = Some ?log" "superblock u = Some sb'" for u b
    proof -
      note r = roll_end_journal [OF here(1-3) [OF that(1)], of old b]
      have l: "ml_zone old < length (meta_zones u)" using here(4) [OF that(1)] old(2) by simp
      note j = journal_step_trans [OF that(1) r(1) [OF l]]
      show ?thesis
        using j r(2,3) [OF l] that(2,3) here(4,5) [OF j] i journal_stepD(4) [OF s1(1)]
        by (intro conjI j writer_ok_step [OF ok j, of ?log]) simp_all
    qed
    show thesis
      using that [of "IOError ''Failed writing a new superblock'' []" "delete_ZenMetaLog old s3"]
        that [of st4 "delete_ZenMetaLog old (if ok st4 then snd (reset_meta be (ml_zone old) s4) else s4)"]
        a(1) z s1(2,3) old s2 e s3 s4 fin [OF j3, of False] fin [OF j4, of "ok st4"]
      by (cases "ok st3") (simp_all add: RollMetaZoneLocked_def Let_def split: if_splits)
  qed
qed

lemma PersistRecord_journal:
  assumes ok: "writer_ok be media s" and geo: "geometry s"
  obtains st t where "PersistRecord be record s = Some (st, t)" "journal_step media s t" "writer_ok be media t"
proof -
  obtain log where log: "meta_log s = Some log" "ml_zone log < length (meta_zones s)"
    using ok by (auto simp: writer_ok_def)
  obtain st s1 where s1: "AddRecord be log record s = Some (st, s1)" "journal_step media s s1" "meta_log s1 = meta_log s"
    "superblock s1 = superblock s"
    by (rule AddRecord_journal [OF writer_okD [OF ok] geo log(2)])
  have w: "writer_ok be media s1" and g: "geometry s1"
    using writer_ok_same [OF ok s1(2-4)] journal_stepD(5) [OF s1(2)] geo by simp_all
  obtain st2 s2 where s2: "RollMetaZoneLocked be s1 = Some (st2, s2)" "journal_step media s1 s2" "writer_ok be media s2"
    by (rule RollMetaZoneLocked_journal [OF w g])
  show thesis
    using that [of st s1] that [of st2 s2] log s1 s2 w journal_step_trans [OF s1(2) s2(2)]
    by (cases "status_eq st (NoSpace [] [])") (simp_all add: PersistRecord_def)
qed

lemma SyncFileMetadata_journal:
  assumes ok: "writer_ok be media s" and geo: "geometry s"
  obtains st t where "SyncFileMetadata be env replace f s = Some (st, t)" "journal_step media s t" "writer_ok be media t"
proof (cases "is_deleted (zfiles s f)")
  case True
  then show thesis
    using that [of OK s] ok journal_step_refl [OF writer_okD(2) [OF ok]]
    by (simp add: SyncFileMetadata_def SyncFileMetadataNoLock_def)
next
  case False
  let ?s1 = "if replace then s else upd_file f (SetFileModificationTime (env_time env (aux s))) s"
  have j1: "journal_step media s ?s1"
    using journal_step_refl [OF writer_okD(2) [OF ok]] journal_step_file [OF writer_okD(2) [OF ok] synced_sim(2)]
    by simp
  have w1: "writer_ok be media ?s1"
    by (rule writer_ok_same [OF ok j1]) (simp_all add: upd_file_def)
  obtain st s2 where s2: "PersistRecord be (update_record replace (zfiles ?s1 f)) ?s1 = Some (st, s2)"
    "journal_step media ?s1 s2" "writer_ok be media s2"
    using PersistRecord_journal [OF w1] journal_stepD(5) [OF j1] geo by metis
  note j2 = journal_step_trans [OF j1 s2(2)]
  let ?t = "if ok st then upd_file f MetadataSynced s2 else s2"
  have j3: "journal_step media s2 ?t"
    using journal_step_refl [OF writer_okD(2) [OF s2(3)]] journal_step_file [OF writer_okD(2) [OF s2(3)] synced_sim(1)]
    by simp
  have "writer_ok be media ?t"
    by (rule writer_ok_same [OF s2(3) j3]) (simp_all add: upd_file_def)
  moreover have "SyncFileMetadata be env replace f s = Some (st, ?t)"
    using False s2(1) by (simp add: SyncFileMetadata_def SyncFileMetadataNoLock_def Let_def)
  ultimately show thesis using that journal_step_trans [OF j2 j3] by blast
qed

section \<open>The file system writes the metadata of its files\<close>

text \<open>The laws of a metadata writer hold for \<^verbatim>\<open>SyncFileMetadata\<close>.\<close>

lemma writer_ok_meta_same:
  fixes s t :: "('d, 'a, 'm) ZenFS_scheme"
  assumes "writer_ok be media s" and "meta_same media s t"
  shows "writer_ok be media t"
proof -
  have "meta_log t = meta_log s" "superblock t = superblock s"
    using assms(2) by (cases s; cases t; simp add: meta_same_def)+
  with assms show ?thesis by (simp add: writer_ok_def meta_same_def metas_ok_def)
qed

interpretation zenfs: metadata_writer be "SyncFileMetadata be env False" media "writer_ok be media"
  for be :: "'d backend" and env :: "'a aux_env" and media :: "'d \<Rightarrow> u64 \<Rightarrow> byte"
proof unfold_locales
  fix s t :: "('d, 'a, 'm) ZenFS_scheme" and f
  show "writer_ok be media s \<Longrightarrow> device_ok be (zone_sz s) media" by (rule writer_okD(1))
  show "writer_ok be media s \<Longrightarrow> meta_same media s t \<Longrightarrow> writer_ok be media t" by (rule writer_ok_meta_same)
  show "\<exists>st t. SyncFileMetadata be env False f s = Some (st, t) \<and> writer_ok be media t \<and> meta_frame media s t"
    if "writer_ok be media s" "geometry s"
    by (rule SyncFileMetadata_journal [OF that, of env False f]) (auto simp: journal_step_def)
qed

section \<open>A file system in memory\<close>

text \<open>
  A mounted file system for concrete runs: two metadata zones, the first of which has the log, and two I/O zones.
  The file \<^verbatim>\<open>/a\<close> is open for writing; its first six bytes are in the first I/O zone. The auxiliary file system
  accepts everything.
\<close>

definition env0 :: "unit aux_env" where
  "env0 =
     \<lparr>aux_DeleteFile = (\<lambda>_ a. (OK, a)), aux_FileExists = (\<lambda>_ a. (NotFound [] [], a)),
      aux_GetChildren = (\<lambda>_ a. (OK, [], a)), aux_IsDirectory = (\<lambda>_ a. (OK, False, a)),
      aux_CreateDir = (\<lambda>_ a. (OK, a)), aux_CreateDirIfMissing = (\<lambda>_ a. (OK, a)), aux_DeleteDir = (\<lambda>_ a. (OK, a)),
      aux_RenameFile = (\<lambda>_ _ a. (OK, a)), aux_LinkFile = (\<lambda>_ _ a. (OK, a)), aux_NumFileLinks = (\<lambda>_ a. (OK, 0, a)),
      aux_AreFilesSame = (\<lambda>_ _ a. (OK, False, a)), aux_GetFileModificationTime = (\<lambda>_ a. (OK, 0, a)),
      aux_GetFileSize = (\<lambda>_ a. (OK, 0, a)), aux_NewSequentialFile = (\<lambda>_ a. (OK, 0, a)),
      aux_NewRandomAccessFile = (\<lambda>_ a. (OK, 0, a)), env_time = (\<lambda>_. 1700000000),
      env_GenerateUniqueId = (\<lambda>_. replicate 36 48), env_ZENFS_VERSION = []\<rparr>"

definition big_zone :: "bool \<Rightarrow> u64 \<Rightarrow> u64 \<Rightarrow> u64 \<Rightarrow> Zone" where
  "big_zone b start written used =
     \<lparr>z_busy = b, z_start = start, z_capacity = 0x10000 - written, z_max_capacity = 0x10000, z_wp = start + written,
      z_lifetime = 0, z_used_capacity = used\<rparr>"

definition file_a :: ZoneFile where
  "file_a = (new_ZoneFile 1)\<lparr>extents := [\<lparr>e_start = 0x20000, e_length = 6, e_zone = 0\<rparr>], linkfiles := [''/a''],
     active_zone := Some 0, extent_start := 0x20008, file_size := 6, io_type := kWAL, open_for_wr := True\<rparr>"

definition zfs0 :: "(u64 \<Rightarrow> byte, unit) ZenFS" where
  "zfs0 =
     \<lparr>block_sz = 4, zone_sz = 0x10000, nr_zones = 4, dev = (\<lambda>_. 0),
      io_zones = [big_zone True 0x20000 8 6, big_zone False 0x30000 0 0],
      meta_zones = [big_zone True 0 0 0, big_zone False 0x10000 0 0], finish_threshold = 0, bytes_written = 0,
      gc_bytes_written = 0, active_io_zones = 1, open_io_zones = 1, zone_deferred_status = OK, migrating = False,
      max_nr_active_io_zones = 3, max_nr_open_io_zones = 3,
      zfiles = (\<lambda>_. new_ZoneFile 0)(0 := file_a),
      files = [(''/a'', 0)], next_file_id = 2, next_ptr = 1, handles = (\<lambda>_. 0)(0 := 1),
      meta_log = Some \<lparr>ml_read_pos = 0, ml_zone = 0, ml_bs = 4\<rparr>, superblock = Some sb1, aux = (),
      run_gc_worker = False\<rparr>"

abbreviation ram1 :: "(u64 \<Rightarrow> byte) backend" where
  "ram1 \<equiv> ram_backend info0 [] 0x10000"

lemma all_less_2: "(\<forall>i<Suc (Suc 0). P i) \<longleftrightarrow> P 0 \<and> P (Suc 0)"
  by (auto simp: less_Suc_eq)

lemma zfs0_sel [simp]:
  "block_sz zfs0 = 4" "zone_sz zfs0 = 0x10000" "dev zfs0 = (\<lambda>_. 0)"
  "io_zones zfs0 = [big_zone True 0x20000 8 6, big_zone False 0x30000 0 0]"
  "meta_zones zfs0 = [big_zone True 0 0 0, big_zone False 0x10000 0 0]"
  "zfiles zfs0 = (\<lambda>_. new_ZoneFile 0)(0 := file_a)" "files zfs0 = [(''/a'', 0)]"
  "max_nr_active_io_zones zfs0 = 3" "max_nr_open_io_zones zfs0 = 3"
  by (simp_all add: zfs0_def)

lemma zfs0_writer: "writer_ok ram1 id zfs0"
  by (simp add: writer_ok_def ram_device_ok metas_ok_def all_less_2 zfs0_def big_zone_def meta_wf_def zone_wf_def IsUsed_def)

lemma zfs0_inv: "file_inv {0} zfs0"
proof -
  have own: "owners {0} zfs0 = {0}" by (auto simp: owners_def file_a_def)
  have "active_set {0} (io_zones zfs0) = {0}"
    by (auto simp: active_set_def big_zone_def is_active_def IsEmpty_def less_Suc_eq)
  then have "tokens {0} zfs0" by (simp add: tokens_def) (simp add: zfs0_def big_zone_def)
  moreover have "geometry zfs0" "zones_wf zfs0"
    by (simp_all add: geometry_def zones_wf_def all_less_2 apart_def big_zone_def zone_wf_def)
  ultimately show ?thesis
    by (simp add: file_inv_def own all_less_2 usable_def IsEmpty_def IsFull_def big_zone_def
        accounting_def ext_ok_def file_a_def)
qed

section \<open>Properties\<close>

text \<open>
  (C2) A buffered append to a file of the file system returns. It adds a prefix of the buffer to the content of
  the file and its length to the file size, all of the \<open>n\<close> bytes if the status is OK; this holds over any number
  of zone changes, each of which writes a record to the metadata log and may roll it over to the other
  metadata zone. The content of all other files, and the accounting of zones, tokens and valid data, are kept,
  and the journal can be written afterwards.
\<close>

theorem BufferedAppend_correct:
  assumes "file_inv F s" and "writer_ok be media s" and "aligned s" and "f \<in> F" and "at_wp f s" and "room F f s"
    and "\<forall>i. active_zone (zfiles s f) = Some i \<longrightarrow> \<not> IsFull (io_zones s ! i)"
    and "unat n \<le> length buffer" and "unat (block_sz s) dvd length buffer" and "length buffer < 2 ^ 32"
  shows "\<exists>st b t k. BufferedAppend be (SyncFileMetadata be env False) f buffer n s = Some (st, b, t) \<and>
    k \<le> unat n \<and> (ok st \<longrightarrow> k = unat n) \<and> content media t f = content media s f @ take k buffer \<and>
    file_size (zfiles t f) = file_size (zfiles s f) + of_nat k \<and>
    file_inv F t \<and> writer_ok be media t \<and> (\<forall>g\<in>F. g \<noteq> f \<longrightarrow> content media t g = content media s g)"
proof -
  obtain st b t where t: "BufferedAppend be (SyncFileMetadata be env False) f buffer n s = Some (st, b, t)"
    "append_post media (writer_ok be media) F f (take (unat n) buffer) st s t"
    using zenfs.BufferedAppend_spec [where be = be and env = env and media = media, OF assms] by blast
  then obtain k where k: "k \<le> length (take (unat n) buffer)"
    "content media t f = content media s f @ take k (take (unat n) buffer)"
    "file_size (zfiles t f) = file_size (zfiles s f) + of_nat k" "ok st \<longrightarrow> k = length (take (unat n) buffer)"
    and step: "file_inv F t" "writer_ok be media t" "others media f s t"
    unfolding append_post_def step_ok_def by blast
  show ?thesis
    using t(1) k step assms(8) others_content [OF step(3) assms(1)]
    by (intro exI [of _ st] exI [of _ b] exI [of _ t] exI [of _ k]) (auto simp: min_absorb2)
qed

theorem BufferedAppend_correct_witness:
  "\<exists>st b t k. BufferedAppend ram1 (SyncFileMetadata ram1 env0 False) 0 [1, 2, 3, 4, 5, 0, 0, 0] 5 zfs0 = Some (st, b, t) \<and>
    k \<le> 5 \<and> (ok st \<longrightarrow> k = 5) \<and> content id t 0 = replicate 6 0 @ take k [1, 2, 3, 4, 5, 0, 0, 0]"
proof -
  have "content id zfs0 0 = replicate 6 0"
    by (simp add: content_def file_a_def ext_addrs_def) (simp add: comp_def map_replicate_const)
  moreover have "aligned zfs0" "at_wp 0 zfs0" "room {0} 0 zfs0"
    "\<forall>i. active_zone (zfiles zfs0 0) = Some i \<longrightarrow> \<not> IsFull (io_zones zfs0 ! i)"
    by (simp_all add: aligned_def all_less_2 at_wp_def room_def file_a_def big_zone_def IsFull_def owners_def)
  moreover have "unat (block_sz zfs0) dvd length [1 :: byte, 2, 3, 4, 5, 0, 0, 0]" by simp presburger
  ultimately show ?thesis
    using BufferedAppend_correct [OF zfs0_inv zfs0_writer, of 0 5 "[1, 2, 3, 4, 5, 0, 0, 0]" env0] by simp metis
qed

end
