(* ===== verification/Replay.thy ===== *)
theory Replay
  imports Journal
begin

text \<open>
  Recovery of the name space from the journal (\<^verbatim>\<open>DecodeSnapshotFrom\<close>, \<^verbatim>\<open>DecodeFileUpdateFrom\<close>, \<^verbatim>\<open>DecodeFileDeletionFrom\<close>,
  \<^verbatim>\<open>RecoverFrom\<close> and \<^verbatim>\<open>Mount\<close> of \<^verbatim>\<open>plugin/zenfs/fs/fs_zenfs.cc\<close>). The specification is a database of file descriptions
  keyed by file identifier, with one operation per kind of record; a state of the file system represents a
  database when its names, its file objects and the used capacity of its zones are those of the database.
  Replaying a record refines the operation of the database.
\<close>

section \<open>Ordered maps\<close>

definition sorted_map :: "('k::linorder \<times> 'v) list \<Rightarrow> bool" where
  "sorted_map m \<longleftrightarrow> sorted_wrt (<) (map fst m)"

lemma sorted_map_simps [simp]:
  "sorted_map []" "sorted_map ((k, v) # m) \<longleftrightarrow> (\<forall>k'\<in>fst ` set m. k < k') \<and> sorted_map m"
  by (auto simp: sorted_map_def)

lemma map_of_greater: "\<forall>k'\<in>fst ` set m. k < k' \<Longrightarrow> map_of m k = None"
  for k :: "'k::linorder"
  by (auto simp: map_of_eq_None_iff)

lemma map_insert_keys: "fst ` set (map_insert k v m) = insert k (fst ` set m)"
  by (induction k v m rule: map_insert.induct) auto

lemma map_insert_sorted: "sorted_map m \<Longrightarrow> sorted_map (map_insert k v m)"
  by (induction k v m rule: map_insert.induct) (auto simp: map_insert_keys)

lemma map_of_map_insert:
  "sorted_map m \<Longrightarrow> map_of (map_insert k v m) x = (if x = k \<and> map_of m k = None then Some v else map_of m x)"
proof (induction k v m rule: map_insert.induct)
  case (2 k v k' v' m)
  have "map_of m k = None" if "k < k'"
    using 2(2) that by (intro map_of_greater) (auto intro: order.strict_trans)
  with 2 show ?case by auto
qed simp

lemma map_erase_sorted: "sorted_map m \<Longrightarrow> sorted_map (map_erase k m)"
  by (induction m) (auto simp: map_erase_def)

lemma map_of_map_erase: "map_of (map_erase k m) x = (if x = k then None else map_of m x)"
  by (induction m) (auto simp: map_erase_def)

lemma sorted_map_distinct: "sorted_map m \<Longrightarrow> distinct (map fst m)"
  by (simp add: sorted_map_def strict_sorted_iff)

lemma set_sorted_map: "sorted_map m \<Longrightarrow> (k, v) \<in> set m \<longleftrightarrow> map_of m k = Some v"
  using sorted_map_distinct [of m] by auto

lemma erase_names_found:
  assumes "distinct ns" and "\<forall>n\<in>set ns. map_of m n \<noteq> None"
  shows "\<exists>m'. erase_names ns m = (True, m') \<and> (sorted_map m \<longrightarrow> sorted_map m') \<and>
    map_of m' = (\<lambda>n. if n \<in> set ns then None else map_of m n)"
  using assms
proof (induction ns arbitrary: m)
  case (Cons n ns)
  have "\<forall>x\<in>set ns. map_of (map_erase n m) x \<noteq> None" using Cons.prems by (auto simp: map_of_map_erase)
  then obtain m' where m': "erase_names ns (map_erase n m) = (True, m')" "sorted_map (map_erase n m) \<longrightarrow> sorted_map m'"
    "map_of m' = (\<lambda>x. if x \<in> set ns then None else map_of (map_erase n m) x)"
    using Cons.IH [of "map_erase n m"] Cons.prems(1) by auto
  have "map_of m' = (\<lambda>x. if x \<in> set (n # ns) then None else map_of m x)"
    unfolding m'(3) by (auto simp: map_of_map_erase)
  with m'(1,2) Cons.prems(2) map_erase_sorted [of m n] show ?case by simp
qed simp

lemma insert_names_spec:
  assumes "sorted_map m"
  shows "sorted_map (insert_names ns f m)"
    "map_of (insert_names ns f m) x = (if x \<in> set ns \<and> map_of m x = None then Some f else map_of m x)"
proof -
  have "sorted_map (fold (\<lambda>name. map_insert name f) ns m) \<and>
    map_of (fold (\<lambda>name. map_insert name f) ns m) x = (if x \<in> set ns \<and> map_of m x = None then Some f else map_of m x)"
    using assms by (induction ns arbitrary: m) (auto simp: map_of_map_insert map_insert_sorted)
  then show "sorted_map (insert_names ns f m)"
    "map_of (insert_names ns f m) x = (if x \<in> set ns \<and> map_of m x = None then Some f else map_of m x)"
    by (auto simp: insert_names_def)
qed

section \<open>The database\<close>

record fdesc =
  d_id :: u64
  d_size :: u64
  d_lifetime :: WriteLifeTimeHint
  d_extents :: "ZoneExtent list"
  d_mtime :: u64
  d_start :: u64
  d_sparse :: bool
  d_links :: "string list"

definition desc :: "ZoneFile \<Rightarrow> fdesc" where
  "desc zf =
     \<lparr>d_id = file_id zf, d_size = file_size zf, d_lifetime = lifetime zf, d_extents = extents zf, d_mtime = m_time zf,
      d_start = extent_start zf, d_sparse = is_sparse zf, d_links = linkfiles zf\<rparr>"

text \<open>What the journal records: an update has the extents from number \<open>k\<close> on.\<close>

datatype entry =
    Snapshot "fdesc list"
  | Update fdesc
  | Replace fdesc
  | Deletion u64 string

type_synonym database = "u64 \<rightharpoonup> fdesc"

definition old_extents :: "u64 \<Rightarrow> database \<Rightarrow> ZoneExtent list" where
  "old_extents i db = (case db i of None \<Rightarrow> [] | Some d \<Rightarrow> d_extents d)"

fun apply_entry :: "entry \<Rightarrow> database \<Rightarrow> database" where
  "apply_entry (Snapshot ds) db = fold (\<lambda>d db. db(d_id d \<mapsto> d)) ds Map.empty"
| "apply_entry (Update d) db = db(d_id d \<mapsto> d\<lparr>d_extents := old_extents (d_id d) db @ d_extents d\<rparr>)"
| "apply_entry (Replace d) db = db(d_id d \<mapsto> d)"
| "apply_entry (Deletion i name) db =
     (case db i of
        None \<Rightarrow> db
      | Some d \<Rightarrow>
          (let links = remove1 name (d_links d)
           in if links = [] then db(i := None) else db(i \<mapsto> d\<lparr>d_links := links\<rparr>)))"

text \<open>The record of an entry.\<close>

definition of_desc :: "fdesc \<Rightarrow> ZoneFile" where
  "of_desc d = (new_ZoneFile (d_id d))\<lparr>extents := d_extents d, linkfiles := d_links d, extent_start := d_start d,
     lifetime := d_lifetime d, file_size := d_size d, m_time := d_mtime d, is_sparse := d_sparse d\<rparr>"

lemma desc_of_desc [simp]: "desc (of_desc d) = d"
  by (cases d) (simp add: desc_def of_desc_def new_ZoneFile_def)

lemma of_desc_sel [simp]:
  "extents (of_desc d) = d_extents d" "linkfiles (of_desc d) = d_links d" "file_id (of_desc d) = d_id d"
  "is_sparse (of_desc d) = d_sparse d"
  by (simp_all add: of_desc_def new_ZoneFile_def)

lemma desc_sel [simp]:
  "d_id (desc zf) = file_id zf" "d_links (desc zf) = linkfiles zf" "d_extents (desc zf) = extents zf"
  by (simp_all add: desc_def)

fun encode_entry :: "entry \<Rightarrow> bytes" where
  "encode_entry (Snapshot ds) =
     PutLengthPrefixedSlice (PutFixed32 [] kCompleteFilesSnapshot)
       (concat (map (\<lambda>d. EncodeSlice (EncodeSnapshotTo [] (of_desc d))) ds))"
| "encode_entry (Update d) = PutLengthPrefixedSlice (PutFixed32 [] kFileUpdate) (EncodeSnapshotTo [] (of_desc d))"
| "encode_entry (Replace d) = PutLengthPrefixedSlice (PutFixed32 [] kFileReplace) (EncodeSnapshotTo [] (of_desc d))"
| "encode_entry (Deletion i name) =
     PutLengthPrefixedSlice (PutFixed32 [] kFileDeletion) (PutLengthPrefixedSlice (PutFixed64 [] i) (str name))"

text \<open>These are the records that the file system writes.\<close>

definition unsynced :: "ZoneFile \<Rightarrow> fdesc" where
  "unsynced zf = (desc zf)\<lparr>d_extents := drop (unat (nr_synced_extents zf)) (extents zf)\<rparr>"

lemma encode_desc: "ZoneFile_EncodeTo [] zf k = EncodeSnapshotTo [] (of_desc ((desc zf)\<lparr>d_extents := drop k (extents zf)\<rparr>))"
  by (simp add: ZoneFile_EncodeTo_def EncodeSnapshotTo_def of_desc_def desc_def new_ZoneFile_def)

lemma update_record_entry:
  "update_record False zf = encode_entry (Update (unsynced zf))"
  "update_record True zf = encode_entry (Replace (unsynced zf))"
  by (simp_all add: update_record_def EncodeUpdateTo_def encode_desc unsynced_def)

lemma deletion_entry: "EncodeFileDeletionTo zf [] name = encode_entry (Deletion (file_id zf) name)"
  by (simp add: EncodeFileDeletionTo_def)

lemma snapshot_entry: "ZenFS_EncodeSnapshotTo s = encode_entry (Snapshot (map (\<lambda>(name, f). desc (zfiles s f)) (files s)))"
proof -
  have "fold (\<lambda>(name, f) out. PutLengthPrefixedSlice out (EncodeSnapshotTo [] (zfiles s f))) fs out
      = out @ concat (map (\<lambda>d. EncodeSlice (EncodeSnapshotTo [] (of_desc d))) (map (\<lambda>(name, f). desc (zfiles s f)) fs))"
    for fs :: "(string \<times> nat) list" and out
  proof (induction fs arbitrary: out)
    case (Cons x fs)
    have "(desc zf)\<lparr>d_extents := extents zf\<rparr> = desc zf" for zf by (simp add: desc_def)
    with encode_desc [of "zfiles s (snd x)" 0] Cons show ?case
      by (cases x) (simp add: PutLengthPrefixedSlice_append EncodeSnapshotTo_def)
  qed simp
  then show ?thesis by (simp add: ZenFS_EncodeSnapshotTo_def)
qed

section \<open>States that represent a database\<close>

text \<open>
  \<open>represents P s db\<close>: the names of \<open>s\<close> are the links of the files of \<open>db\<close>; all links of a file lead to one
  object, whose relation to the description in the database is \<open>P\<close>.
\<close>

definition represents :: "(ZoneFile \<Rightarrow> fdesc \<Rightarrow> bool) \<Rightarrow> ('d, 'a, 'm) ZenFS_scheme \<Rightarrow> database \<Rightarrow> bool" where
  "represents P s db \<longleftrightarrow>
     sorted_map (files s) \<and>
     (\<forall>n f. map_of (files s) n = Some f \<longrightarrow> f < next_ptr s \<and>
        (\<exists>d. db (file_id (zfiles s f)) = Some d \<and> n \<in> set (d_links d) \<and> P (zfiles s f) d)) \<and>
     (\<forall>i d. db i = Some d \<longrightarrow> d_id d = i \<and> d_links d \<noteq> [] \<and> distinct (d_links d) \<and>
        (\<exists>f. file_id (zfiles s f) = i \<and> (\<forall>n\<in>set (d_links d). map_of (files s) n = Some f)))"

definition objs :: "('d, 'a, 'm) ZenFS_scheme \<Rightarrow> nat set" where
  "objs s = snd ` set (files s)"

definition used_ok :: "('d, 'a, 'm) ZenFS_scheme \<Rightarrow> bool" where
  "used_ok s \<longleftrightarrow>
     (\<forall>i<length (io_zones s). z_used_capacity (io_zones s ! i) = (\<Sum>f\<in>objs s. used_by (extents (zfiles s f)) i))"

text \<open>A recovered state has the database as it is; no file is open, and the used capacity is that of the files.\<close>

definition recovered :: "('d, 'a, 'm) ZenFS_scheme \<Rightarrow> database \<Rightarrow> bool" where
  "recovered s db \<longleftrightarrow> represents (\<lambda>zf d. desc zf = d) s db \<and> handles s = (\<lambda>_. 0) \<and> used_ok s"

lemma finite_objs [simp]: "finite (objs s)"
  by (simp add: objs_def)

lemma objs_map_of: "sorted_map (files s) \<Longrightarrow> objs s = {f. \<exists>n. map_of (files s) n = Some f}"
proof -
  have "objs s = {f. \<exists>n. (n, f) \<in> set (files s)}" by (force simp: objs_def)
  then show "sorted_map (files s) \<Longrightarrow> ?thesis" by (simp add: set_sorted_map)
qed

lemma representsD:
  assumes "represents P s db"
  shows "sorted_map (files s)"
    "map_of (files s) n = Some f \<Longrightarrow> \<exists>d. db (file_id (zfiles s f)) = Some d \<and> n \<in> set (d_links d) \<and> P (zfiles s f) d"
    "map_of (files s) n = Some f \<Longrightarrow> f < next_ptr s"
    "db i = Some d \<Longrightarrow> d_id d = i" "db i = Some d \<Longrightarrow> d_links d \<noteq> []" "db i = Some d \<Longrightarrow> distinct (d_links d)"
    "db i = Some d \<Longrightarrow> \<exists>f. file_id (zfiles s f) = i \<and> (\<forall>n\<in>set (d_links d). map_of (files s) n = Some f)"
  using assms unfolding represents_def by blast+

text \<open>The object of a file of the database.\<close>

lemma represents_obj:
  assumes "represents P s db" and "db i = Some d"
  obtains f where "file_id (zfiles s f) = i" "\<And>n. map_of (files s) n = Some f \<longleftrightarrow> n \<in> set (d_links d)" "f \<in> objs s"
    "P (zfiles s f) d" "f < next_ptr s"
    "\<And>n g. map_of (files s) n = Some g \<Longrightarrow> file_id (zfiles s g) = i \<Longrightarrow> g = f"
proof -
  obtain f where f: "file_id (zfiles s f) = i" "\<forall>n\<in>set (d_links d). map_of (files s) n = Some f"
    using representsD(7) [OF assms] by blast
  have own: "n \<in> set (d_links d) \<and> P (zfiles s g) d" if "map_of (files s) n = Some g" "file_id (zfiles s g) = i" for n g
    using representsD(2) [OF assms(1) that(1)] that(2) assms(2) by auto
  obtain n where n: "n \<in> set (d_links d)" using representsD(5) [OF assms] by (cases "d_links d") auto
  have nf: "map_of (files s) n = Some f" using f(2) n by blast
  show thesis
  proof (rule that [of f])
    show "map_of (files s) n = Some f \<longleftrightarrow> n \<in> set (d_links d)" for n using f own by blast
    show "g = f" if "map_of (files s) n = Some g" "file_id (zfiles s g) = i" for n g
      using own [OF that] f(2) that(1) by auto
    show "f \<in> objs s" using nf objs_map_of [OF representsD(1) [OF assms(1)]] by blast
    show "P (zfiles s f) d" "f < next_ptr s"
      using own [OF nf f(1)] representsD(3) [OF assms(1) nf] by blast+
  qed (rule f(1))
qed

text \<open>Giving one object \<open>f\<close> a new description, or taking it away.\<close>

lemma represents_put:
  assumes rep: "represents P s db" and srt: "sorted_map (files t)"
    and nm: "map_of (files t) = (\<lambda>n. if n \<in> set (d_links d') then Some f
      else if map_of (files s) n = Some f then None else map_of (files s) n)"
    and zf: "\<And>g. g \<noteq> f \<Longrightarrow> zfiles t g = zfiles s g"
    and d': "P (zfiles t f) d'" "file_id (zfiles t f) = d_id d'" "d_links d' \<noteq> []" "distinct (d_links d')"
    and ptr: "f < next_ptr t" "next_ptr s \<le> next_ptr t"
    and free: "\<forall>n\<in>set (d_links d'). map_of (files s) n \<in> {None, Some f}"
    and own: "\<forall>n. map_of (files s) n = Some f \<longrightarrow> file_id (zfiles s f) = d_id d'"
      "\<forall>d. db (d_id d') = Some d \<longrightarrow> (\<forall>n\<in>set (d_links d). map_of (files s) n = Some f)"
  shows "represents P t (db(d_id d' \<mapsto> d'))"
  unfolding represents_def
proof (intro conjI allI impI)
  show "sorted_map (files t)" by (rule srt)
next
  fix n g
  assume n: "map_of (files t) n = Some g"
  have "g = f" if "n \<in> set (d_links d')" using n that by (simp add: nm)
  moreover have g: "map_of (files s) n = Some g" "g \<noteq> f" if "n \<notin> set (d_links d')"
    using n that by (auto simp: nm split: if_splits)
  ultimately show "g < next_ptr t" using representsD(3) [OF rep, of n g] ptr by fastforce
  show "\<exists>d. (db(d_id d' \<mapsto> d')) (file_id (zfiles t g)) = Some d \<and> n \<in> set (d_links d) \<and> P (zfiles t g) d"
  proof (cases "n \<in> set (d_links d')")
    case True
    with d' \<open>n \<in> set (d_links d') \<Longrightarrow> g = f\<close> show ?thesis by simp
  next
    case False
    from representsD(2) [OF rep g(1) [OF this]] obtain d where
      d: "db (file_id (zfiles s g)) = Some d" "n \<in> set (d_links d)" "P (zfiles s g) d" by blast
    then have "file_id (zfiles s g) \<noteq> d_id d'" using own(2) g [OF False] by auto
    with d zf [OF g(2) [OF False]] show ?thesis by simp
  qed
next
  fix i d
  assume d: "(db(d_id d' \<mapsto> d')) i = Some d"
  show "d_id d = i" "d_links d \<noteq> []" "distinct (d_links d)"
    using d d'(3,4) representsD(4-6) [OF rep, of i d] by (auto split: if_splits)
  show "\<exists>g. file_id (zfiles t g) = i \<and> (\<forall>n\<in>set (d_links d). map_of (files t) n = Some g)"
  proof (cases "i = d_id d'")
    case True
    with d d'(2) nm show ?thesis by (intro exI [of _ f]) simp
  next
    case False
    with d have di: "db i = Some d" by simp
    obtain g where g: "file_id (zfiles s g) = i" "\<And>n. map_of (files s) n = Some g \<longleftrightarrow> n \<in> set (d_links d)"
      using represents_obj [OF rep di] by metis
    obtain m where "m \<in> set (d_links d)" using representsD(5) [OF rep di] by (cases "d_links d") auto
    then have "g \<noteq> f" using g own(1) False by auto
    have "map_of (files t) n = Some g" if "n \<in> set (d_links d)" for n
      using g(2) [of n] that free \<open>g \<noteq> f\<close> by (auto simp: nm)
    with g(1) zf [OF \<open>g \<noteq> f\<close>] show ?thesis by (intro exI [of _ g]) simp
  qed
qed

lemma represents_remove:
  assumes rep: "represents P s db" and srt: "sorted_map (files t)"
    and nm: "map_of (files t) = (\<lambda>n. if map_of (files s) n = Some f then None else map_of (files s) n)"
    and zf: "\<And>g. g \<noteq> f \<Longrightarrow> zfiles t g = zfiles s g" and ptr: "next_ptr s \<le> next_ptr t"
    and own: "\<forall>n. map_of (files s) n = Some f \<longrightarrow> file_id (zfiles s f) = i"
      "\<forall>d. db i = Some d \<longrightarrow> (\<forall>n\<in>set (d_links d). map_of (files s) n = Some f)"
  shows "represents P t (db(i := None))"
  unfolding represents_def
proof (intro conjI allI impI)
  show "sorted_map (files t)" by (rule srt)
next
  fix n g
  assume "map_of (files t) n = Some g"
  then have g: "map_of (files s) n = Some g" "g \<noteq> f" by (auto simp: nm split: if_splits)
  then show "g < next_ptr t" using representsD(3) [OF rep, of n g] ptr by simp
  from representsD(2) [OF rep g(1)] obtain d where
    d: "db (file_id (zfiles s g)) = Some d" "n \<in> set (d_links d)" "P (zfiles s g) d" by blast
  then have "file_id (zfiles s g) \<noteq> i" using own(2) g by auto
  with d zf [OF g(2)] show "\<exists>d. (db(i := None)) (file_id (zfiles t g)) = Some d \<and> n \<in> set (d_links d) \<and> P (zfiles t g) d"
    by simp
next
  fix j d
  assume "(db(i := None)) j = Some d"
  then have j: "j \<noteq> i" "db j = Some d" by (auto split: if_splits)
  show "d_id d = j" "d_links d \<noteq> []" "distinct (d_links d)"
    using representsD(4-6) [OF rep j(2)] by simp_all
  obtain g where g: "file_id (zfiles s g) = j" "\<And>n. map_of (files s) n = Some g \<longleftrightarrow> n \<in> set (d_links d)"
    using represents_obj [OF rep j(2)] by metis
  obtain m where "m \<in> set (d_links d)" using representsD(5) [OF rep j(2)] by (cases "d_links d") auto
  then have "g \<noteq> f" using g own(1) j(1) by auto
  have "map_of (files t) n = Some g" if "n \<in> set (d_links d)" for n
    using g(2) [of n] that \<open>g \<noteq> f\<close> by (auto simp: nm)
  with g(1) zf [OF \<open>g \<noteq> f\<close>] show "\<exists>g. file_id (zfiles t g) = j \<and> (\<forall>n\<in>set (d_links d). map_of (files t) n = Some g)"
    by (intro exI [of _ g]) simp
qed

text \<open>The used capacity follows the extents of the objects.\<close>

lemma used_ok_change:
  fixes s t :: "('d, 'a, 'm) ZenFS_scheme"
  assumes used: "used_ok s" and io: "io_zones t = io_zones (adj u s)"
    and zf: "\<And>g. g \<noteq> f \<Longrightarrow> zfiles t g = zfiles s g" and obj: "objs t - {f} = objs s - {f}"
    and u: "\<And>i. u i = (if f \<in> objs t then used_by (extents (zfiles t f)) i else 0) -
      (if f \<in> objs s then used_by (extents (zfiles s f)) i else 0)"
  shows "used_ok t"
  unfolding used_ok_def
proof (intro allI impI)
  fix i
  assume "i < length (io_zones t)"
  then have i: "i < length (io_zones s)" by (simp add: io)
  let ?S = "\<lambda>v. \<Sum>g\<in>objs s - {f}. used_by (extents (zfiles v g)) i"
  have split: "(\<Sum>g\<in>objs v. used_by (extents (zfiles v g)) i)
      = (if f \<in> objs v then used_by (extents (zfiles v f)) i else 0) + (\<Sum>g\<in>objs v - {f}. used_by (extents (zfiles v g)) i)"
    for v :: "('d, 'a, 'm) ZenFS_scheme"
    by (auto simp: sum.remove [of "objs v" f])
  have "?S t = ?S s" using zf by (intro sum.cong) auto
  then have "(\<Sum>g\<in>objs t. used_by (extents (zfiles t g)) i) = (\<Sum>g\<in>objs s. used_by (extents (zfiles s g)) i) + u i"
    by (simp add: split [of t] split [of s] obj u)
  with used i show "z_used_capacity (io_zones t ! i) = (\<Sum>f\<in>objs t. used_by (extents (zfiles t f)) i)"
    by (simp add: io used_ok_def)
qed

section \<open>Replaying an update\<close>

text \<open>\<open>stripped s\<close> is what replaying leaves alone: all but the files and the used capacity of the zones.\<close>

definition stripped :: "('d, 'a, 'm) ZenFS_scheme \<Rightarrow> ('d, 'a, 'm) ZenFS_scheme" where
  "stripped s = s\<lparr>io_zones := map (\<lambda>z. z\<lparr>z_used_capacity := 0\<rparr>) (io_zones s), zfiles := \<lambda>_. new_ZoneFile 0, files := [],
     next_file_id := 0, next_ptr := 0\<rparr>"

definition adjz :: "(nat \<Rightarrow> u64) \<Rightarrow> Zone list \<Rightarrow> Zone list" where
  "adjz u zs = map (\<lambda>i. (zs ! i)\<lparr>z_used_capacity := z_used_capacity (zs ! i) + u i\<rparr>) [0..<length zs]"

lemma adj_adjz: "adj u s = s\<lparr>io_zones := adjz u (io_zones s)\<rparr>"
  by (simp add: adj_def adjz_def)

lemma adjz_adjz [simp]: "adjz u (adjz v zs) = adjz (\<lambda>i. u i + v i) zs"
  by (simp add: adjz_def add_ac)

lemma adjz_0 [simp]: "adjz (\<lambda>_. 0) zs = zs"
  by (simp add: adjz_def map_nth)

lemma stripped_adjz [simp]:
  "map (\<lambda>z. z\<lparr>z_used_capacity := 0\<rparr>) (adjz u zs) = map (\<lambda>z. z\<lparr>z_used_capacity := 0\<rparr>) zs"
  by (rule nth_equalityI) (simp_all add: adjz_def)

lemma stripped_sel:
  assumes "stripped t = stripped s"
  shows "dev t = dev s" "meta_zones t = meta_zones s" "zone_sz t = zone_sz s" "block_sz t = block_sz s"
    "handles t = handles s" "superblock t = superblock s" "meta_log t = meta_log s" "aux t = aux s"
    "GetIOZone t a = GetIOZone s a"
proof -
  show *: "dev t = dev s" "meta_zones t = meta_zones s" "zone_sz t = zone_sz s" "block_sz t = block_sz s"
    "handles t = handles s" "superblock t = superblock s" "meta_log t = meta_log s" "aux t = aux s"
    using arg_cong [OF assms, of dev] arg_cong [OF assms, of meta_zones] arg_cong [OF assms, of zone_sz]
      arg_cong [OF assms, of block_sz] arg_cong [OF assms, of handles] arg_cong [OF assms, of superblock]
      arg_cong [OF assms, of meta_log] arg_cong [OF assms, of aux]
    by (simp_all add: stripped_def)
  have "map z_start (io_zones v) = map z_start (io_zones (stripped v))" for v :: "('a, 'b, 'c) ZenFS_scheme"
    by (simp add: stripped_def)
  with assms have "map z_start (io_zones t) = map z_start (io_zones s)" by metis
  with *(3) show "GetIOZone t a = GetIOZone s a" by (intro GetIOZone_cong)
qed

lemma stripped_upd [simp]:
  "stripped (s\<lparr>io_zones := adjz u (io_zones s)\<rparr>) = stripped s" "stripped (s\<lparr>zfiles := z\<rparr>) = stripped s"
  "stripped (s\<lparr>files := m\<rparr>) = stripped s" "stripped (s\<lparr>next_file_id := i\<rparr>) = stripped s"
  "stripped (s\<lparr>next_ptr := p\<rparr>) = stripped s"
  by (simp_all add: stripped_def)

lemma bump_sel [simp]:
  "files (bump_file_id i s) = files s" "zfiles (bump_file_id i s) = zfiles s" "io_zones (bump_file_id i s) = io_zones s"
  "next_ptr (bump_file_id i s) = next_ptr s" "handles (bump_file_id i s) = handles s" "stripped (bump_file_id i s) = stripped s"
  by (simp_all add: bump_file_id_def)

lemma adj_fs_sel [simp]:
  "io_zones (adj u s) = adjz u (io_zones s)" "files (adj u s) = files s" "zfiles (adj u s) = zfiles s"
  "next_ptr (adj u s) = next_ptr s" "handles (adj u s) = handles s" "stripped (adj u s) = stripped s"
  by (simp_all add: adj_adjz)

lemma upd_file_fs_sel [simp]:
  "files (upd_file f h s) = files s" "next_ptr (upd_file f h s) = next_ptr s" "handles (upd_file f h s) = handles s"
  "stripped (upd_file f h s) = stripped s"
  by (simp_all add: upd_file_def)

lemma ClearExtents_adj: "ClearExtents zf s = (zf\<lparr>extents := []\<rparr>, adj (\<lambda>i. - used_by (extents zf) i) s)"
  by (simp add: ClearExtents_def drop_extents_adj)

lemma discard_adj: "discard zf s = adj (\<lambda>i. - used_by (extents zf) i) s"
  by (simp add: discard_def ClearExtents_adj)

text \<open>A description whose record can be read: its names are proper and its extents lie in zones.\<close>

definition desc_ok :: "('d, 'm) ZBD_scheme \<Rightarrow> fdesc \<Rightarrow> bool" where
  "desc_ok s d \<longleftrightarrow> (\<forall>e\<in>set (d_extents d). located s e) \<and> links_ok (d_links d)"

definition read_file :: "fdesc \<Rightarrow> ZoneFile" where
  "read_file d = decoded (of_desc d) 0 (new_ZoneFile 0)"

lemma read_file_sel [simp]:
  "desc (read_file d) = d" "extents (read_file d) = d_extents d" "linkfiles (read_file d) = d_links d"
  "file_id (read_file d) = d_id d" "file_size (read_file d) = d_size d" "lifetime (read_file d) = d_lifetime d"
  "m_time (read_file d) = d_mtime d" "extent_start (read_file d) = d_start d" "is_sparse (read_file d) = d_sparse d"
  by (cases d; simp add: read_file_def decoded_def of_desc_def new_ZoneFile_def MetadataSynced_def desc_def)+

lemma decode_desc:
  assumes "desc_ok s d"
  shows "ZoneFile_DecodeFrom (EncodeSnapshotTo [] (of_desc d)) (new_ZoneFile 0) s = (OK, read_file d, adj (used_by (d_extents d)) s)"
  using DecodeFrom_EncodeTo [of 0 "of_desc d" s "new_ZoneFile 0"] assms
  by (simp add: desc_ok_def EncodeSnapshotTo_def read_file_def use_extents_adj)

lemma MergeUpdate_read_file:
  assumes "file_id zf = d_id d"
  shows "\<exists>zf' s'. MergeUpdate (read_file d) replace zf s = (OK, zf', s') \<and>
    desc zf' = d\<lparr>d_extents := (if replace then [] else extents zf) @ d_extents d\<rparr> \<and>
    s' = adj (\<lambda>i. used_by (d_extents d) i - (if replace then used_by (extents zf) i else 0)) s"
  using assms
  by (cases d) (simp add: MergeUpdate_def ClearExtents_adj use_extents_adj desc_def MetadataSynced_def)

lemma DecodeFileUpdateFrom_known:
  assumes ok: "desc_ok s d" and f: "find (\<lambda>(name, f). d_id d = file_id (zfiles s f)) (files s) = Some (n, f)"
    and er: "erase_names (linkfiles (zfiles s f)) (files s) = (True, m)" and fid: "file_id (zfiles s f) = d_id d"
  shows "\<exists>t. DecodeFileUpdateFrom (EncodeSnapshotTo [] (of_desc d)) replace s = (OK, t) \<and>
    files t = insert_names (d_links d) f m \<and> (\<forall>g. g \<noteq> f \<longrightarrow> zfiles t g = zfiles s g) \<and>
    desc (zfiles t f) = d\<lparr>d_extents := (if replace then [] else extents (zfiles s f)) @ d_extents d\<rparr> \<and>
    io_zones t = adjz (\<lambda>i. used_by (d_extents d) i - (if replace then used_by (extents (zfiles s f)) i else 0)) (io_zones s) \<and>
    next_ptr t = next_ptr s \<and> stripped t = stripped s"
proof -
  let ?s2 = "bump_file_id (d_id d) (adj (used_by (d_extents d)) s)"
  obtain zf s4 where mu: "MergeUpdate (read_file d) replace (zfiles s f) (?s2\<lparr>files := m\<rparr>) = (OK, zf, s4)"
    and zf: "desc zf = d\<lparr>d_extents := (if replace then [] else extents (zfiles s f)) @ d_extents d\<rparr>"
    and s4: "s4 = adj (\<lambda>i. used_by (d_extents d) i - (if replace then used_by (extents (zfiles s f)) i else 0)) (?s2\<lparr>files := m\<rparr>)"
    using MergeUpdate_read_file [OF fid, of replace "?s2\<lparr>files := m\<rparr>"] by blast
  have links: "linkfiles zf = d_links d" using arg_cong [OF zf, of d_links] by simp
  have "DecodeFileUpdateFrom (EncodeSnapshotTo [] (of_desc d)) replace s =
      (OK, (discard (read_file d) (upd_file f (\<lambda>_. zf) s4))\<lparr>files := insert_names (d_links d) f m\<rparr>)"
    using decode_desc [OF ok] f er mu links
    by (simp add: DecodeFileUpdateFrom_def Let_def discard_adj s4)
  then show ?thesis
    by (intro exI conjI, assumption) (auto simp: discard_adj s4 zf algebra_simps)
qed

lemma DecodeFileUpdateFrom_new:
  assumes ok: "desc_ok s d" and f: "find (\<lambda>(name, f). d_id d = file_id (zfiles s f)) (files s) = None"
    and n: "d_links d = [n]" "map_of (files s) n = None" and srt: "sorted_map (files s)"
  shows "\<exists>t. DecodeFileUpdateFrom (EncodeSnapshotTo [] (of_desc d)) replace s = (OK, t) \<and>
    files t = map_insert n (next_ptr s) (files s) \<and> zfiles t = (zfiles s)(next_ptr s := read_file d) \<and>
    io_zones t = adjz (used_by (d_extents d)) (io_zones s) \<and>
    next_ptr t = next_ptr s + 1 \<and> stripped t = stripped s"
proof -
  let ?s2 = "bump_file_id (d_id d) (adj (used_by (d_extents d)) s)"
  let ?t = "?s2\<lparr>zfiles := (zfiles s)(next_ptr s := read_file d), next_ptr := next_ptr s + 1,
    files := map_insert n (next_ptr s) (files s)\<rparr>"
  have "map_of (map_insert n (next_ptr s) (files s)) n = Some (next_ptr s)"
    using n(2) by (simp add: map_of_map_insert [OF srt])
  then have "next_ptr s \<in> snd ` set (map_insert n (next_ptr s) (files s))"
    by (metis map_of_SomeD snd_conv image_eqI)
  then have "referenced (next_ptr s) ?t" by (simp add: referenced_def)
  then have "DecodeFileUpdateFrom (EncodeSnapshotTo [] (of_desc d)) replace s = (OK, ?t)"
    using decode_desc [OF ok] f n(1)
    by (simp add: DecodeFileUpdateFrom_def Let_def new_file_def GetFilename_def drop_file_def)
  then show ?thesis by (intro exI conjI, assumption) simp_all
qed

text \<open>Replaying an update of a file that is there, or of a new file with one name.\<close>

definition free_links :: "fdesc \<Rightarrow> database \<Rightarrow> bool" where
  "free_links d db \<longleftrightarrow>
     d_links d \<noteq> [] \<and> distinct (d_links d) \<and>
     (\<forall>i d'. db i = Some d' \<and> i \<noteq> d_id d \<longrightarrow> set (d_links d') \<inter> set (d_links d) = {})"

lemma free_links_owner:
  assumes "represents P s db" and "free_links d db" and "n \<in> set (d_links d)" and "map_of (files s) n = Some g"
  shows "file_id (zfiles s g) = d_id d"
proof (rule ccontr)
  assume "file_id (zfiles s g) \<noteq> d_id d"
  moreover obtain d' where "db (file_id (zfiles s g)) = Some d'" "n \<in> set (d_links d')"
    using representsD(2) [OF assms(1,4)] by blast
  ultimately have "set (d_links d') \<inter> set (d_links d) = {}" using assms(2) by (simp add: free_links_def)
  with assms(3) \<open>n \<in> set (d_links d')\<close> show False by blast
qed

lemma free_links_new:
  assumes "represents P s db" and "free_links d db" and "db (d_id d) = None" and "n \<in> set (d_links d)"
  shows "map_of (files s) n = None"
proof (cases "map_of (files s) n")
  case (Some g)
  from free_links_owner [OF assms(1,2,4) this] representsD(2) [OF assms(1) Some] assms(3) show ?thesis by simp
qed

lemma find_file:
  assumes rep: "represents P s db"
  shows "db i = None \<Longrightarrow> find (\<lambda>(name, f). i = file_id (zfiles s f)) (files s) = None"
    and "db i = Some d \<Longrightarrow> \<exists>n f. find (\<lambda>(name, f). i = file_id (zfiles s f)) (files s) = Some (n, f) \<and>
      map_of (files s) n = Some f \<and> file_id (zfiles s f) = i"
proof -
  have mem: "(n, f) \<in> set (files s) \<longleftrightarrow> map_of (files s) n = Some f" for n f
    by (rule set_sorted_map [OF representsD(1) [OF rep]])
  show "find (\<lambda>(name, f). i = file_id (zfiles s f)) (files s) = None" if "db i = None"
    using representsD(2) [OF rep] that by (fastforce simp: find_None_iff mem)
  show "\<exists>n f. find (\<lambda>(name, f). i = file_id (zfiles s f)) (files s) = Some (n, f) \<and>
      map_of (files s) n = Some f \<and> file_id (zfiles s f) = i" if dbi: "db i = Some d"
  proof (cases "find (\<lambda>(name, f). i = file_id (zfiles s f)) (files s)")
    case None
    obtain f where f: "file_id (zfiles s f) = i" "\<And>n. map_of (files s) n = Some f \<longleftrightarrow> n \<in> set (d_links d)"
      using represents_obj [OF rep dbi] by metis
    obtain n where "n \<in> set (d_links d)" using representsD(5) [OF rep dbi] by (cases "d_links d") auto
    then have "(n, f) \<in> set (files s)" using f(2) mem by blast
    with None f(1) show ?thesis by (auto simp: find_None_iff)
  next
    case (Some x)
    moreover obtain n f where x: "x = (n, f)" by (cases x)
    moreover have "(n, f) \<in> set (files s)" "i = file_id (zfiles s f)"
      using Some x by (auto simp: find_Some_iff) (metis nth_mem)
    ultimately show ?thesis using mem by simp
  qed
qed

lemma objs_put:
  assumes "sorted_map (files s)" and "sorted_map (files t)"
    and nm: "\<And>n. map_of (files t) n = (if n \<in> L then Some f
      else if map_of (files s) n = Some f then None else map_of (files s) n)"
    and free: "\<And>n. n \<in> L \<Longrightarrow> map_of (files s) n \<in> {None, Some f}"
  shows "objs t - {f} = objs s - {f}" and "L \<noteq> {} \<Longrightarrow> f \<in> objs t" and "L = {} \<Longrightarrow> f \<notin> objs t"
proof -
  have "(\<exists>n. map_of (files t) n = Some g) \<longleftrightarrow> (\<exists>n. map_of (files s) n = Some g)" if "g \<noteq> f" for g
  proof
    show "\<exists>n. map_of (files s) n = Some g" if "\<exists>n. map_of (files t) n = Some g"
      using that \<open>g \<noteq> f\<close> by (auto simp: nm split: if_splits)
    assume "\<exists>n. map_of (files s) n = Some g"
    then obtain n where n: "map_of (files s) n = Some g" by blast
    then have "n \<notin> L" using free [of n] that by auto
    with n that show "\<exists>n. map_of (files t) n = Some g" by (intro exI [of _ n]) (simp add: nm)
  qed
  then show "objs t - {f} = objs s - {f}"
    unfolding objs_map_of [OF assms(1)] objs_map_of [OF assms(2)] by blast
  show "f \<in> objs t" if "L \<noteq> {}"
    using that unfolding objs_map_of [OF assms(2)] by (auto simp: nm)
  show "f \<notin> objs t" if "L = {}"
    using that unfolding objs_map_of [OF assms(2)] by (auto simp: nm split: if_splits)
qed

lemma update_known:
  assumes rec: "recovered s db" and ok: "desc_ok s d" and fr: "free_links d db" and db: "db (d_id d) = Some d0"
  shows "\<exists>t. DecodeFileUpdateFrom (EncodeSnapshotTo [] (of_desc d)) replace s = (OK, t) \<and>
    recovered t (db(d_id d \<mapsto> d\<lparr>d_extents := (if replace then [] else d_extents d0) @ d_extents d\<rparr>)) \<and> stripped t = stripped s"
proof -
  have rep: "represents (\<lambda>zf d. desc zf = d) s db" and h: "handles s = (\<lambda>_. 0)" and used: "used_ok s"
    using rec by (simp_all add: recovered_def)
  note srt = representsD(1) [OF rep]
  obtain f where f: "file_id (zfiles s f) = d_id d" "\<And>n. map_of (files s) n = Some f \<longleftrightarrow> n \<in> set (d_links d0)" "f \<in> objs s"
    "desc (zfiles s f) = d0" "f < next_ptr s"
    "\<And>n g. map_of (files s) n = Some g \<Longrightarrow> file_id (zfiles s g) = d_id d \<Longrightarrow> g = f"
    by (rule represents_obj [OF rep db]) (rule that)
  obtain n where n: "find (\<lambda>(name, f). d_id d = file_id (zfiles s f)) (files s) = Some (n, f)"
    using find_file(2) [OF rep db] f(6) by blast
  have l0: "linkfiles (zfiles s f) = d_links d0" "extents (zfiles s f) = d_extents d0" using f(4) by auto
  obtain m where m: "erase_names (d_links d0) (files s) = (True, m)" "sorted_map m"
    "map_of m = (\<lambda>n. if n \<in> set (d_links d0) then None else map_of (files s) n)"
    using erase_names_found [OF representsD(6) [OF rep db], of "files s"] f(2) srt by auto
  let ?d = "d\<lparr>d_extents := (if replace then [] else d_extents d0) @ d_extents d\<rparr>"
  obtain t where t: "DecodeFileUpdateFrom (EncodeSnapshotTo [] (of_desc d)) replace s = (OK, t)"
    "files t = insert_names (d_links d) f m" "\<And>g. g \<noteq> f \<Longrightarrow> zfiles t g = zfiles s g" "desc (zfiles t f) = ?d"
    "io_zones t = adjz (\<lambda>i. used_by (d_extents d) i - (if replace then used_by (d_extents d0) i else 0)) (io_zones s)"
    "next_ptr t = next_ptr s" "stripped t = stripped s"
    using DecodeFileUpdateFrom_known [OF ok n, of m replace, unfolded l0] m(1) f(1) by blast
  have free: "map_of (files s) x \<in> {None, Some f}" if "x \<in> set (d_links d)" for x
    using free_links_owner [OF rep fr that] f(6) [of x] by (cases "map_of (files s) x") auto
  have nm: "map_of (files t) = (\<lambda>x. if x \<in> set (d_links ?d) then Some f
      else if map_of (files s) x = Some f then None else map_of (files s) x)"
  proof
    fix x
    show "map_of (files t) x = (if x \<in> set (d_links ?d) then Some f
      else if map_of (files s) x = Some f then None else map_of (files s) x)"
      using free [of x] f(2) [of x] by (auto simp: t(2) insert_names_spec(2) [OF m(2)] m(3))
  qed
  have srt': "sorted_map (files t)" using insert_names_spec(1) [OF m(2)] t(2) by simp
  have idt: "file_id (zfiles t f) = d_id ?d" using arg_cong [OF t(4), of d_id] by simp
  have "represents (\<lambda>zf d. desc zf = d) t (db(d_id ?d \<mapsto> ?d))"
    by (rule represents_put [OF rep srt' nm]) (use t f fr free idt db in \<open>auto simp: free_links_def\<close>)
  moreover have "used_ok t"
  proof (rule used_ok_change [OF used, of t "\<lambda>i. used_by (d_extents d) i - (if replace then used_by (d_extents d0) i else 0)" f])
    have o: "objs t - {f} = objs s - {f}" "f \<in> objs t"
      using objs_put [OF srt srt', of "set (d_links d)" f] nm free fr by (auto simp: free_links_def)
    have "extents (zfiles t f) = (if replace then [] else d_extents d0) @ d_extents d"
      using arg_cong [OF t(4), of d_extents] by simp
    with o f(3) l0 show "used_by (d_extents d) i - (if replace then used_by (d_extents d0) i else 0) =
        (if f \<in> objs t then used_by (extents (zfiles t f)) i else 0) - (if f \<in> objs s then used_by (extents (zfiles s f)) i else 0)"
      for i by simp
    show "objs t - {f} = objs s - {f}" by (rule o(1))
  qed (simp_all add: t(3,5))
  ultimately show ?thesis using t(1,7) h stripped_sel(5) [OF t(7)] by (auto simp: recovered_def)
qed

lemma represents_fresh: "represents P s db \<Longrightarrow> next_ptr s \<notin> objs s"
  unfolding objs_map_of [OF representsD(1)] using representsD(3) by blast

text \<open>A new object gets names that are free.\<close>

lemma recovered_new:
  fixes s t :: "('d, 'a, 'm) ZenFS_scheme"
  assumes rec: "recovered s db" and fr: "free_links d db" and db: "db (d_id d) = None"
    and t: "sorted_map (files t)" "\<And>n. map_of (files t) n = (if n \<in> set (d_links d) then Some (next_ptr s) else map_of (files s) n)"
      "zfiles t = (zfiles s)(next_ptr s := read_file d)" "io_zones t = adjz (used_by (d_extents d)) (io_zones s)"
      "next_ptr t = next_ptr s + 1" "handles t = handles s"
  shows "recovered t (db(d_id d \<mapsto> d))"
proof -
  have rep: "represents (\<lambda>zf d. desc zf = d) s db" and h: "handles s = (\<lambda>_. 0)" and used: "used_ok s"
    using rec by (simp_all add: recovered_def)
  note srt = representsD(1) [OF rep]
  let ?f = "next_ptr s"
  have new: "?f \<notin> objs s" by (rule represents_fresh [OF rep])
  then have nf: "map_of (files s) n \<noteq> Some ?f" for n by (auto simp: objs_map_of [OF srt])
  have free: "map_of (files s) n \<in> {None, Some ?f}" if "n \<in> set (d_links d)" for n
    using free_links_new [OF rep fr db that] by simp
  have nm: "map_of (files t) = (\<lambda>n. if n \<in> set (d_links d) then Some ?f
      else if map_of (files s) n = Some ?f then None else map_of (files s) n)"
    using nf by (auto simp: t(2))
  have "represents (\<lambda>zf d. desc zf = d) t (db(d_id d \<mapsto> d))"
    by (rule represents_put [OF rep t(1) nm]) (use t(3,5) fr free nf db in \<open>auto simp: free_links_def\<close>)
  moreover have "used_ok t"
  proof (rule used_ok_change [OF used, of t "used_by (d_extents d)" ?f])
    have o: "objs t - {?f} = objs s - {?f}" "?f \<in> objs t"
      using objs_put [OF srt t(1), of "set (d_links d)" ?f] nm free fr by (auto simp: free_links_def)
    then show "objs t - {?f} = objs s - {?f}" by simp
    show "used_by (d_extents d) i = (if ?f \<in> objs t then used_by (extents (zfiles t ?f)) i else 0)
        - (if ?f \<in> objs s then used_by (extents (zfiles s ?f)) i else 0)" for i
      using o new t(3) by simp
  qed (simp_all add: t(3,4))
  ultimately show ?thesis using h t(6) by (simp add: recovered_def)
qed

lemma update_new:
  assumes rec: "recovered s db" and ok: "desc_ok s d" and fr: "free_links d db" and db: "db (d_id d) = None"
    and n: "d_links d = [n]"
  shows "\<exists>t. DecodeFileUpdateFrom (EncodeSnapshotTo [] (of_desc d)) replace s = (OK, t) \<and>
    recovered t (db(d_id d \<mapsto> d)) \<and> stripped t = stripped s"
proof -
  have rep: "represents (\<lambda>zf d. desc zf = d) s db" using rec by (simp add: recovered_def)
  note srt = representsD(1) [OF rep]
  have none: "map_of (files s) n = None"
    using free_links_new [OF rep fr db, of n] n by simp
  obtain t where t: "DecodeFileUpdateFrom (EncodeSnapshotTo [] (of_desc d)) replace s = (OK, t)"
    "files t = map_insert n (next_ptr s) (files s)" "zfiles t = (zfiles s)(next_ptr s := read_file d)"
    "io_zones t = adjz (used_by (d_extents d)) (io_zones s)" "next_ptr t = next_ptr s + 1" "stripped t = stripped s"
    using DecodeFileUpdateFrom_new [OF ok find_file(1) [OF rep db] n none srt] by blast
  have "recovered t (db(d_id d \<mapsto> d))"
    by (rule recovered_new [OF rec fr db])
      (use t none n srt stripped_sel(5) [OF t(6)] in \<open>auto simp: map_insert_sorted map_of_map_insert\<close>)
  with t(1,6) show ?thesis by blast
qed

section \<open>Replaying a deletion\<close>

lemma remove1_links: "distinct xs \<Longrightarrow> set (remove1 n xs) = set xs - {n}"
  by simp

lemma deletion_replay:
  assumes rec: "recovered s db" and db: "db i = Some d" and n: "n \<in> set (d_links d)" "length n < 2 ^ 32"
  shows "\<exists>t. DecodeFileDeletionFrom (PutLengthPrefixedSlice (PutFixed64 [] i) (str n)) s = (OK, t) \<and>
    recovered t (apply_entry (Deletion i n) db) \<and> stripped t = stripped s"
proof -
  have rep: "represents (\<lambda>zf d. desc zf = d) s db" and h: "handles s = (\<lambda>_. 0)" and used: "used_ok s"
    using rec by (simp_all add: recovered_def)
  note srt = representsD(1) [OF rep]
  obtain f where f: "file_id (zfiles s f) = i" "\<And>n. map_of (files s) n = Some f \<longleftrightarrow> n \<in> set (d_links d)" "f \<in> objs s"
    "desc (zfiles s f) = d" "f < next_ptr s"
    "\<And>n g. map_of (files s) n = Some g \<Longrightarrow> file_id (zfiles s g) = i \<Longrightarrow> g = f"
    by (rule represents_obj [OF rep db]) (rule that)
  have nf: "map_of (files s) n = Some f" using f(2) n(1) by blast
  have links: "linkfiles (zfiles s f) = d_links d" "distinct (d_links d)" "extents (zfiles s f) = d_extents d" "d_id d = i"
    using f(4) representsD(4,6) [OF rep db] by auto
  let ?l = "remove1 n (d_links d)"
  let ?zf = "(zfiles s f)\<lparr>linkfiles := ?l\<rparr>"
  let ?s1 = "upd_file f (\<lambda>_. ?zf) (s\<lparr>files := map_erase n (files s)\<rparr>)"
  let ?d = "d\<lparr>d_links := ?l\<rparr>"
  have "slice_ok (str n)" using n(2) by (simp add: slice_ok_def)
  then have dec: "DecodeFileDeletionFrom (PutLengthPrefixedSlice (PutFixed64 [] i) (str n)) s = (OK, drop_file f ?s1)"
    using slice.dec_enc [of "str n" "[]"] nf f(1) n(1) links(1)
    by (simp add: DecodeFileDeletionFrom_def PutLengthPrefixedSlice_append PutFixed64_def RemoveLinkName_def)
  have srt1: "sorted_map (files ?s1)" using map_erase_sorted [OF srt] by simp
  have nm: "map_of (files ?s1) x = (if x \<in> set ?l then Some f else if map_of (files s) x = Some f then None else map_of (files s) x)" for x
    using f(2) [of x] f(2) [of n] n(1) links(2) by (auto simp: map_of_map_erase)
  have "\<And>x. x \<in> set ?l \<Longrightarrow> map_of (files s) x \<in> {None, Some f}" using f(2) links(2) by auto
  note o = objs_put [OF srt srt1 nm this]
  have ref: "referenced f ?s1 \<longleftrightarrow> ?l \<noteq> []"
    using o(2,3) h by (auto simp: referenced_def objs_def)
  show ?thesis
  proof (cases "?l = []")
    case False
    have zd: "desc ?zf = ?d" using f(4) by (simp add: desc_def) (auto simp: desc_def)
    have "represents (\<lambda>zf d. desc zf = d) ?s1 (db(d_id ?d \<mapsto> ?d))"
      by (rule represents_put [OF rep srt1]) (use nm zd f False links db in \<open>auto simp: fun_eq_iff\<close>)
    moreover have "used_ok ?s1"
      by (rule used_ok_change [OF used, of ?s1 "\<lambda>_. 0" f]) (use o False f(3) in \<open>auto simp: adj_adjz\<close>)
    ultimately show ?thesis
      using dec ref False db h links(4) by (auto simp: drop_file_def recovered_def Let_def)
  next
    case True
    let ?t = "upd_file f (\<lambda>_. ?zf\<lparr>extents := []\<rparr>) (adj (\<lambda>i. - used_by (d_extents d) i) ?s1)"
    have "represents (\<lambda>zf d. desc zf = d) ?t (db(i := None))"
      by (rule represents_remove [OF rep, of ?t f]) (use nm f True db srt1 in \<open>auto simp: fun_eq_iff\<close>)
    moreover have "used_ok ?t"
    proof (rule used_ok_change [OF used, of ?t "\<lambda>i. - used_by (d_extents d) i" f])
      have "objs ?t = objs ?s1" by (simp add: objs_def)
      with o True show "objs ?t - {f} = objs s - {f}" by simp
      show "- used_by (d_extents d) i = (if f \<in> objs ?t then used_by (extents (zfiles ?t f)) i else 0)
          - (if f \<in> objs s then used_by (extents (zfiles s f)) i else 0)" for i
        using o(3) True f(3) links(3) \<open>objs ?t = objs ?s1\<close> by simp
    qed (simp_all add: adj_adjz)
    ultimately show ?thesis
      using dec ref True db h by (auto simp: drop_file_def recovered_def Let_def ClearExtents_adj links(3))
  qed
qed

section \<open>Replaying a snapshot\<close>

lemma represents_cong:
  assumes rep: "represents P s db" and "sorted_map (files t)" and nm: "map_of (files t) = map_of (files s)"
    and zf: "\<And>g. g \<in> objs s \<Longrightarrow> zfiles t g = zfiles s g" and "next_ptr s \<le> next_ptr t"
  shows "represents P t db"
  unfolding represents_def nm
proof (intro conjI allI impI)
  have obj: "g \<in> objs s" if "map_of (files s) n = Some g" for n g
    using that by (auto simp: objs_map_of [OF representsD(1) [OF rep]])
  fix n g
  assume "map_of (files s) n = Some g"
  with representsD(2,3) [OF rep, of n g] zf [OF obj, of n g] assms(5) show "g < next_ptr t"
    "\<exists>d. db (file_id (zfiles t g)) = Some d \<and> n \<in> set (d_links d) \<and> P (zfiles t g) d" by auto
next
  fix i d
  assume d: "db i = Some d"
  show "d_id d = i" "d_links d \<noteq> []" "distinct (d_links d)"
    using representsD(4-6) [OF rep d] by simp_all
  show "\<exists>f. file_id (zfiles t f) = i \<and> (\<forall>n\<in>set (d_links d). map_of (files s) n = Some f)"
  proof (rule represents_obj [OF rep d])
    fix f
    assume "file_id (zfiles s f) = i" "\<And>n. map_of (files s) n = Some f \<longleftrightarrow> n \<in> set (d_links d)" "f \<in> objs s"
    with zf show ?thesis by (intro exI [of _ f]) simp
  qed
qed (rule assms(2))

text \<open>Clearing all files gives their space back.\<close>

lemma drop_files:
  assumes "files s = []" and "handles s = (\<lambda>_. 0)"
    and "\<forall>i<length (io_zones s). z_used_capacity (io_zones s ! i) = (\<Sum>f\<in>snd ` set fs. used_by (extents (zfiles s f)) i)"
  shows "let t = fold (\<lambda>(name, f). drop_file f) fs s in
    files t = [] \<and> stripped t = stripped s \<and> next_ptr t = next_ptr s \<and>
    (\<forall>i<length (io_zones t). z_used_capacity (io_zones t ! i) = 0)"
  using assms
proof (induction fs arbitrary: s)
  case (Cons x fs)
  obtain name f where x: "x = (name, f)" by (cases x)
  let ?s = "upd_file f (\<lambda>_. (zfiles s f)\<lparr>extents := []\<rparr>) (adj (\<lambda>i. - used_by (extents (zfiles s f)) i) s)"
  have s: "drop_file f s = ?s"
    using Cons.prems(1,2) by (simp add: drop_file_def referenced_def ClearExtents_adj)
  let ?F = "snd ` set fs" and ?S = "\<lambda>v A i. \<Sum>g\<in>A. used_by (extents (zfiles v g)) i"
  have "z_used_capacity (io_zones ?s ! i) = ?S ?s ?F i" if i: "i < length (io_zones s)" for i
  proof -
    have rest: "?S ?s (?F - {f}) i = ?S s (?F - {f}) i" by (intro sum.cong) auto
    have "?S ?s ?F i = ?S ?s (?F - {f}) i"
      by (cases "f \<in> ?F") (auto simp: sum.remove [of ?F f])
    moreover have "?S s (insert f ?F) i = used_by (extents (zfiles s f)) i + ?S s (?F - {f}) i"
      by (rule sum.insert_remove) simp
    ultimately show ?thesis using Cons.prems(3) i rest by (simp add: x adjz_def)
  qed
  with Cons.IH [of ?s] Cons.prems(1,2) show ?case by (simp add: x s adjz_def Let_def)
qed simp

lemma clear_replay:
  assumes "recovered s db"
  shows "recovered (ClearFiles s) Map.empty" and "stripped (ClearFiles s) = stripped s"
proof -
  have used: "used_ok s" and h: "handles s = (\<lambda>_. 0)" using assms by (simp_all add: recovered_def)
  let ?t = "ClearFiles s"
  have t: "files ?t = []" "stripped ?t = stripped s" "\<forall>i<length (io_zones ?t). z_used_capacity (io_zones ?t ! i) = 0"
    using drop_files [of "s\<lparr>files := []\<rparr>" "files s"] h used
    by (simp_all add: ClearFiles_def used_ok_def objs_def Let_def)
  show "stripped ?t = stripped s" by (rule t(2))
  show "recovered ?t Map.empty"
    using t h stripped_sel(5) [OF t(2)] by (simp add: recovered_def represents_def used_ok_def objs_def)
qed

text \<open>The descriptions of a snapshot: a file with several names occurs several times.\<close>

definition consistent :: "fdesc set \<Rightarrow> bool" where
  "consistent D \<longleftrightarrow>
     (\<forall>d\<in>D. d_links d \<noteq> [] \<and> distinct (d_links d) \<and>
        (\<forall>d'\<in>D. if d_id d = d_id d' then d = d' else set (d_links d) \<inter> set (d_links d') = {}))"

lemma DecodeSnapshotFrom_end: "DecodeSnapshotFrom [] s = (OK, s)"
  by (subst DecodeSnapshotFrom.simps)
    (simp add: GetLengthPrefixedSlice_def GetVarint32_def GetVarint32Ptr_eq_fallback GetVarint32PtrFallback_def)

lemma snapshot_step:
  assumes rec: "recovered s db" and ok: "desc_ok s d" and sl: "slice_ok (EncodeSnapshotTo [] (of_desc d))"
    and db: "db (d_id d) = None \<and> free_links d db \<or> db (d_id d) = Some d"
  shows "\<exists>t. DecodeSnapshotFrom (EncodeSlice (EncodeSnapshotTo [] (of_desc d)) @ rest) s = DecodeSnapshotFrom rest t \<and>
    recovered t (db(d_id d \<mapsto> d)) \<and> stripped t = stripped s"
proof -
  have rep: "represents (\<lambda>zf d. desc zf = d) s db" and h: "handles s = (\<lambda>_. 0)" and used: "used_ok s"
    using rec by (simp_all add: recovered_def)
  note srt = representsD(1) [OF rep]
  let ?f = "next_ptr s"
  let ?m = "insert_names (d_links d) ?f (files s)"
  let ?s2 = "(bump_file_id (d_id d) (adj (used_by (d_extents d)) s))
    \<lparr>zfiles := (zfiles s)(?f := read_file d), next_ptr := ?f + 1, files := ?m\<rparr>"
  have step: "DecodeSnapshotFrom (EncodeSlice (EncodeSnapshotTo [] (of_desc d)) @ rest) s
      = DecodeSnapshotFrom rest (drop_file ?f ?s2)"
    using slice.dec_enc [OF sl, of rest] decode_desc [OF ok]
    by (subst DecodeSnapshotFrom.simps) (simp add: Let_def new_file_def)
  note m = insert_names_spec [OF srt, of "d_links d" ?f]
  have new: "?f \<notin> objs s" by (rule represents_fresh [OF rep])
  show ?thesis
  proof (cases "db (d_id d)")
    case None
    then have fr: "free_links d db" using db by simp
    have nm: "map_of ?m n = (if n \<in> set (d_links d) then Some ?f else map_of (files s) n)" for n
      using m(2) [of n] free_links_new [OF rep fr None, of n] by auto
    obtain n where "n \<in> set (d_links d)" using fr by (cases "d_links d") (auto simp: free_links_def)
    with nm [of n] have "(n, ?f) \<in> set ?m" by (simp add: set_sorted_map [OF m(1)])
    then have "referenced ?f ?s2" by (force simp: referenced_def)
    moreover have "recovered ?s2 (db(d_id d \<mapsto> d))"
      by (rule recovered_new [OF rec fr None]) (simp_all add: m(1) nm)
    ultimately show ?thesis using step by (auto simp: drop_file_def)
  next
    case (Some d')
    then have dd: "db (d_id d) = Some d" using db by auto
    have nm: "map_of ?m = map_of (files s)"
      using m(2) representsD(7) [OF rep dd] by (auto simp: fun_eq_iff)
    have obj: "objs ?s2 = objs s"
      using objs_map_of [of ?s2] objs_map_of [OF srt] m(1) nm by simp
    then have nr: "\<not> referenced ?f ?s2" using new h by (simp add: referenced_def objs_def)
    let ?t = "upd_file ?f (\<lambda>_. (read_file d)\<lparr>extents := []\<rparr>) (adj (\<lambda>i. - used_by (d_extents d) i) ?s2)"
    have t: "drop_file ?f ?s2 = ?t" using nr by (simp add: drop_file_def ClearExtents_adj)
    have "represents (\<lambda>zf d. desc zf = d) ?t db"
      by (rule represents_cong [OF rep]) (use nm m(1) new in auto)
    moreover have "used_ok ?t"
    proof (rule used_ok_change [OF used, of ?t "\<lambda>_. 0" ?f])
      have "objs ?t = objs ?s2" by (simp add: objs_def)
      with obj new show "objs ?t - {?f} = objs s - {?f}"
        "0 = (if ?f \<in> objs ?t then used_by (extents (zfiles ?t ?f)) i else 0)
          - (if ?f \<in> objs s then used_by (extents (zfiles s ?f)) i else 0)" for i by simp_all
    qed (simp_all add: adj_adjz)
    moreover have "db(d_id d \<mapsto> d) = db" using dd by auto
    ultimately show ?thesis using step t h by (auto simp: recovered_def)
  qed
qed

lemma snapshot_loop:
  assumes "recovered s db" and "set ds \<subseteq> D" and "consistent D" and "\<forall>i d. db i = Some d \<longrightarrow> d \<in> D \<and> d_id d = i"
    and "\<forall>d\<in>set ds. desc_ok s d \<and> slice_ok (EncodeSnapshotTo [] (of_desc d))"
  shows "\<exists>t. DecodeSnapshotFrom (concat (map (\<lambda>d. EncodeSlice (EncodeSnapshotTo [] (of_desc d))) ds)) s = (OK, t) \<and>
    recovered t (fold (\<lambda>d db. db(d_id d \<mapsto> d)) ds db) \<and> stripped t = stripped s"
  using assms
proof (induction ds arbitrary: s db)
  case Nil
  then show ?case by (simp add: DecodeSnapshotFrom_end)
next
  case (Cons d ds)
  let ?rest = "concat (map (\<lambda>d. EncodeSlice (EncodeSnapshotTo [] (of_desc d))) ds)"
  have d: "d \<in> D" using Cons.prems(2) by simp
  have "d_links d \<noteq> []" "distinct (d_links d)" using Cons.prems(3) d by (auto simp: consistent_def)
  moreover have "set (d_links d') \<inter> set (d_links d) = {}" if "db i = Some d'" "i \<noteq> d_id d" for i d'
    using Cons.prems(3,4) d that unfolding consistent_def by metis
  ultimately have fr: "free_links d db" by (auto simp: free_links_def)
  have "db (d_id d) = None \<and> free_links d db \<or> db (d_id d) = Some d"
  proof (cases "db (d_id d)")
    case (Some d')
    then have "d' \<in> D" "d_id d' = d_id d" using Cons.prems(4) by auto
    with d Cons.prems(3) have "d' = d" unfolding consistent_def by metis
    with Some show ?thesis by simp
  qed (simp add: fr)
  with snapshot_step [OF Cons.prems(1), of d ?rest] Cons.prems(5) obtain t where
    t: "DecodeSnapshotFrom (EncodeSlice (EncodeSnapshotTo [] (of_desc d)) @ ?rest) s = DecodeSnapshotFrom ?rest t"
      "recovered t (db(d_id d \<mapsto> d))" "stripped t = stripped s"
    by fastforce
  have tl: "\<forall>d\<in>set ds. desc_ok t d \<and> slice_ok (EncodeSnapshotTo [] (of_desc d))"
    using Cons.prems(5) by (simp add: desc_ok_def located_def stripped_sel(9) [OF t(3)])
  have "set ds \<subseteq> D" "\<forall>i d'. (db(d_id d \<mapsto> d)) i = Some d' \<longrightarrow> d' \<in> D \<and> d_id d' = i"
    using Cons.prems(2,4) d by auto
  from Cons.IH [OF t(2) this(1) Cons.prems(3) this(2) tl] t(1,3) show ?case by simp
qed

section \<open>Replaying the journal\<close>

definition entry_tag :: "entry \<Rightarrow> u32" where
  "entry_tag e = (case e of Snapshot ds \<Rightarrow> kCompleteFilesSnapshot | Update d \<Rightarrow> kFileUpdate | Replace d \<Rightarrow> kFileReplace
     | Deletion i name \<Rightarrow> kFileDeletion)"

definition payload :: "entry \<Rightarrow> bytes" where
  "payload e = (case e of
       Snapshot ds \<Rightarrow> concat (map (\<lambda>d. EncodeSlice (EncodeSnapshotTo [] (of_desc d))) ds)
     | Update d \<Rightarrow> EncodeSnapshotTo [] (of_desc d) | Replace d \<Rightarrow> EncodeSnapshotTo [] (of_desc d)
     | Deletion i name \<Rightarrow> PutLengthPrefixedSlice (PutFixed64 [] i) (str name))"

lemma encode_entry_eq: "encode_entry e = EncodeFixed32 (entry_tag e) @ EncodeSlice (payload e)"
  by (cases e) (simp_all add: entry_tag_def payload_def PutLengthPrefixedSlice_append PutFixed32_def)

text \<open>
  When an entry can be replayed onto a database: the links of a file are names that no other file has, a file that
  is not in the database yet comes with one name, and a deletion is of a link that is there.
\<close>

fun valid_entry :: "('d, 'm) ZBD_scheme \<Rightarrow> entry \<Rightarrow> database \<Rightarrow> bool" where
  "valid_entry s (Snapshot ds) db \<longleftrightarrow> consistent (set ds) \<and> (\<forall>d\<in>set ds. desc_ok s d)"
| "valid_entry s (Update d) db \<longleftrightarrow> desc_ok s d \<and> free_links d db \<and> (db (d_id d) = None \<longrightarrow> length (d_links d) = 1)"
| "valid_entry s (Replace d) db \<longleftrightarrow> desc_ok s d \<and> free_links d db \<and> (db (d_id d) = None \<longrightarrow> length (d_links d) = 1)"
| "valid_entry s (Deletion i name) db \<longleftrightarrow>
     length name < 2 ^ 32 \<and> (case db i of None \<Rightarrow> False | Some d \<Rightarrow> name \<in> set (d_links d))"

fun valid_entries :: "('d, 'm) ZBD_scheme \<Rightarrow> entry list \<Rightarrow> database \<Rightarrow> bool" where
  "valid_entries s [] db \<longleftrightarrow> True"
| "valid_entries s (e # es) db \<longleftrightarrow> valid_entry s e db \<and> valid_entries s es (apply_entry e db)"

text \<open>What the recovery loop does with the data of one record.\<close>

definition replay_data :: "u32 \<Rightarrow> bytes \<Rightarrow> ('d, 'a, 'm) ZenFS_scheme \<Rightarrow> IOStatus \<times> ('d, 'a, 'm) ZenFS_scheme" where
  "replay_data tag data s =
     (if tag = kCompleteFilesSnapshot then DecodeSnapshotFrom data (ClearFiles s)
      else if tag = kFileUpdate then DecodeFileUpdateFrom data False s
      else if tag = kFileReplace then DecodeFileUpdateFrom data True s
      else DecodeFileDeletionFrom data s)"

lemmas journal_tags = kCompleteFilesSnapshot_def kFileUpdate_def kFileDeletion_def kEndRecord_def kFileReplace_def

lemma entry_replay:
  assumes rec: "recovered s db" and ok: "valid_entry s e db" and sl: "slice_ok (payload e)"
  shows "\<exists>t. replay_data (entry_tag e) (payload e) s = (OK, t) \<and> recovered t (apply_entry e db) \<and> stripped t = stripped s"
proof (cases e)
  case (Snapshot ds)
  have sub: "slice_ok (EncodeSnapshotTo [] (of_desc d))" if "d \<in> set ds" for d
  proof -
    have "length (EncodeSlice (EncodeSnapshotTo [] (of_desc d))) \<le> length (payload e)"
      using split_list [OF that] by (auto simp: Snapshot payload_def)
    then show ?thesis using sl by (simp add: slice_ok_def EncodeSlice_def PutLengthPrefixedSlice_def)
  qed
  note c = clear_replay [OF rec]
  have "\<forall>d\<in>set ds. desc_ok (ClearFiles s) d"
    using ok Snapshot by (simp add: desc_ok_def located_def stripped_sel(9) [OF c(2)])
  with snapshot_loop [OF c(1), of ds "set ds"] ok sub c(2) Snapshot show ?thesis
    by (simp add: replay_data_def entry_tag_def payload_def)
next
  case (Update d)
  have old: "old_extents (d_id d) db = (case db (d_id d) of None \<Rightarrow> [] | Some d0 \<Rightarrow> d_extents d0)"
    by (simp add: old_extents_def)
  have one: "\<exists>n. d_links d = [n]" if "length (d_links d) = 1" using that by (auto simp: length_Suc_conv)
  show ?thesis
    using update_known [OF rec, of d _ False] update_new [OF rec, of d _ False] ok one old
    by (cases "db (d_id d)") (auto simp: Update replay_data_def entry_tag_def payload_def journal_tags)
next
  case (Replace d)
  have one: "\<exists>n. d_links d = [n]" if "length (d_links d) = 1" using that by (auto simp: length_Suc_conv)
  show ?thesis
    using update_known [OF rec, of d _ True] update_new [OF rec, of d _ True] ok one
    by (cases "db (d_id d)") (auto simp: Replace replay_data_def entry_tag_def payload_def journal_tags)
next
  case (Deletion i name)
  then show ?thesis
    using deletion_replay [OF rec, of i _ name] ok
    by (auto simp: replay_data_def entry_tag_def payload_def journal_tags split: option.splits)
qed

end
