(* ===== verification/Recovery.thy ===== *)
theory Recovery
  imports Replay
begin

text \<open>
  Recovery of a file system from its device: \<^verbatim>\<open>RecoverFrom\<close> and \<^verbatim>\<open>Mount\<close> of \<^verbatim>\<open>plugin/zenfs/fs/fs_zenfs.cc\<close> read the
  database that the journal in the log describes.
\<close>

section \<open>Recovery from a log\<close>

fun is_snapshot :: "entry \<Rightarrow> bool" where
  "is_snapshot (Snapshot ds) \<longleftrightarrow> True"
| "is_snapshot _ \<longleftrightarrow> False"

lemma RecoverFrom_loop_step:
  assumes r: "ReadRecord be log s = Some (OK, encode_entry e, log1, s1)" and sl: "slice_ok (payload e)"
    and rep: "replay_data (entry_tag e) (payload e) s1 = (OK, s2)"
  shows "RecoverFrom_loop be snap log s = RecoverFrom_loop be (snap \<or> is_snapshot e) log1 s2"
proof -
  have "GetFixed32 (encode_entry e) = Some (entry_tag e, EncodeSlice (payload e))"
    by (simp add: encode_entry_eq)
  moreover have "GetLengthPrefixedSlice (EncodeSlice (payload e)) = Some (payload e, [])"
    using slice.dec_enc [OF sl, of "[]"] by simp
  ultimately show ?thesis
    using r rep
    by (subst RecoverFrom_loop.simps)
      (cases e; simp add: entry_tag_def replay_data_def journal_tags)
qed

text \<open>A log ends where nothing more is written, or with an end record.\<close>

definition log_tail :: "bytes list \<Rightarrow> bool" where
  "log_tail rs \<longleftrightarrow> (case rs of [] \<Rightarrow> True | r # _ \<Rightarrow> r = PutFixed32 [] kEndRecord)"

lemma recovered_dev [simp]: "recovered (s\<lparr>dev := d\<rparr>) db \<longleftrightarrow> recovered s db"
  by (simp add: recovered_def represents_def used_ok_def objs_def)

lemma desc_ok_cong:
  assumes "\<And>a. GetIOZone t a = GetIOZone s a"
  shows "desc_ok t d = desc_ok s d"
  using assms by (simp add: desc_ok_def located_def)

lemma valid_entries_cong:
  assumes "\<And>a. GetIOZone t a = GetIOZone s a"
  shows "valid_entry t e db = valid_entry s e db" "valid_entries t es db = valid_entries s es db"
proof -
  show *: "valid_entry t e db = valid_entry s e db" for e db
    by (cases e) (simp_all add: desc_ok_cong [OF assms])
  show "valid_entries t es db = valid_entries s es db"
    by (induction es arbitrary: db) (simp_all add: *)
qed

lemma small_payload: "small bs (encode_entry e) \<Longrightarrow> slice_ok (payload e)"
  by (simp add: small_def slice_ok_def encode_entry_eq EncodeSlice_def PutLengthPrefixedSlice_def)

lemma RecoverFrom_loop_entries:
  assumes "log_ok be log s" and media: "read_media be media"
    and "log_holds media (unat (ml_bs log)) (meta_zones s ! ml_zone log) (dev s) recs"
    and "\<forall>r\<in>set recs. small (ml_bs log) r" and "log_at (meta_zones s ! ml_zone log) recs k log"
    and "drop k recs = map encode_entry es @ rs" and tail: "log_tail rs" and "k \<le> length recs" and "recovered s db" and "valid_entries s es db"
  shows "\<exists>log' t d. RecoverFrom_loop be snap log s =
      Some (if snap \<or> (\<exists>e\<in>set es. is_snapshot e) then OK else NotFound ''ZenFS'' ''No snapshot found'', log', t) \<and>
    recovered t (fold apply_entry es db) \<and> media (dev t) = media (dev s) \<and> stripped t = stripped (s\<lparr>dev := d\<rparr>) \<and>
    ml_zone log' = ml_zone log \<and> ml_bs log' = ml_bs log"
  using assms(1,3-6,8-)
proof (induction es arbitrary: k snap log s db)
  case Nil
  let ?st = "if snap then OK else NotFound ''ZenFS'' ''No snapshot found''"
  show ?case
  proof (cases rs)
    case empty: Nil
    then have "k = length recs" using Nil.prems(5,6) by simp
    with Nil.prems have "ReadRecord be log s = Some (OK, [], log, s)" by (intro ReadRecord_end) auto
    moreover have "GetFixed32 [] = None" by (simp add: GetFixed32_def)
    ultimately have "RecoverFrom_loop be snap log s = Some (?st, log, s)"
      by (subst RecoverFrom_loop.simps) simp
    with Nil.prems(7) show ?thesis by (intro exI [of _ log] exI [of _ s] exI [of _ "dev s"]) simp
  next
    case (Cons r rs')
    have k: "k < length recs" "recs ! k = EncodeFixed32 kEndRecord"
      using Nil.prems(5) Cons tail nth_via_drop [of k recs r rs']
      by (cases "k < length recs"; simp add: log_tail_def PutFixed32_def)+
    from ReadRecord_next [OF Nil.prems(1) media Nil.prems(2-4) k(1)] obtain log1 d where
      r: "ReadRecord be log s = Some (OK, recs ! k, log1, s\<lparr>dev := d\<rparr>)" "media d = media (dev s)"
      "ml_zone log1 = ml_zone log" "ml_bs log1 = ml_bs log" .
    have "GetFixed32 (recs ! k) = Some (kEndRecord, [])" using fixed32.dec_enc [of kEndRecord "[]"] k(2) by simp
    with r(1) have "RecoverFrom_loop be snap log s = Some (?st, log1, s\<lparr>dev := d\<rparr>)"
      by (subst RecoverFrom_loop.simps) simp
    with Nil.prems(7) r show ?thesis by (intro exI [of _ log1] exI [of _ "s\<lparr>dev := d\<rparr>"] exI [of _ d]) simp
  qed
next
  case (Cons e es)
  have k: "k < length recs" "recs ! k = encode_entry e" "drop (Suc k) recs = map encode_entry es @ rs"
  proof -
    show lt: "k < length recs" using Cons.prems(5) by (cases "k < length recs") (simp_all add: not_less)
    show "recs ! k = encode_entry e" "drop (Suc k) recs = map encode_entry es @ rs"
      using Cons.prems(5) Cons_nth_drop_Suc [OF lt] by simp_all
  qed
  from ReadRecord_next [OF Cons.prems(1) media Cons.prems(2-4) k(1)] obtain log1 d where
    r: "ReadRecord be log s = Some (OK, recs ! k, log1, s\<lparr>dev := d\<rparr>)" "media d = media (dev s)"
    "ml_zone log1 = ml_zone log" "ml_bs log1 = ml_bs log" "log_ok be log1 (s\<lparr>dev := d\<rparr>)"
    "log_at (meta_zones s ! ml_zone log) recs (Suc k) log1" .
  have sl: "slice_ok (payload e)" using Cons.prems(3) k(1,2) small_payload by (metis nth_mem)
  have same: "\<And>a. GetIOZone (s\<lparr>dev := d\<rparr>) a = GetIOZone s a" by (simp add: GetIOZone_def)
  obtain s2 where s2: "replay_data (entry_tag e) (payload e) (s\<lparr>dev := d\<rparr>) = (OK, s2)"
    "recovered s2 (apply_entry e db)" "stripped s2 = stripped (s\<lparr>dev := d\<rparr>)"
    using entry_replay [of "s\<lparr>dev := d\<rparr>" db e] Cons.prems(7,8) sl valid_entries_cong(1) [OF same] by auto
  note f2 = stripped_sel [OF s2(3)]
  have ve: "valid_entries s2 es (apply_entry e db)"
    using Cons.prems(8) valid_entries_cong(2) [of s2 s] f2(9) same by simp
  have lg: "log_ok be log1 s2" "log_at (meta_zones s2 ! ml_zone log1) recs (Suc k) log1"
    "log_holds media (unat (ml_bs log1)) (meta_zones s2 ! ml_zone log1) (dev s2) recs"
    "\<forall>r\<in>set recs. small (ml_bs log1) r"
    using r(3-6) f2(1-4) Cons.prems(2,3) r(2) by (simp_all add: log_ok_def log_holds_def stored_def)
  have "Suc k \<le> length recs" using k(1) by simp
  from Cons.IH [OF lg(1,3,4,2) k(3) this s2(2) ve, of "snap \<or> is_snapshot e"] obtain log' t d' where t: "RecoverFrom_loop be (snap \<or> is_snapshot e) log1 s2 =
      Some (if (snap \<or> is_snapshot e) \<or> (\<exists>e\<in>set es. is_snapshot e) then OK else NotFound ''ZenFS'' ''No snapshot found'', log', t)"
    "recovered t (fold apply_entry es (apply_entry e db))" "media (dev t) = media (dev s2)"
    "stripped t = stripped (s2\<lparr>dev := d'\<rparr>)" "ml_zone log' = ml_zone log1" "ml_bs log' = ml_bs log1"
    by blast
  have "stripped (v\<lparr>dev := x\<rparr>) = (stripped v)\<lparr>dev := x\<rparr>" for v :: "('a, 'b, 'c) ZenFS_scheme" and x
    by (simp add: stripped_def)
  then have "stripped t = stripped (s\<lparr>dev := d'\<rparr>)" using t(4) s2(3) by simp
  with t RecoverFrom_loop_step [OF r(1) [unfolded k(2)] sl s2(1), of snap] r(2-4) f2(1) show ?case
    by (intro exI [of _ log'] exI [of _ t] exI [of _ d']) auto
qed

end
