(* ===== verification/CrashSafety.thy ===== *)
theory CrashSafety
  imports Recovery
begin

text \<open>
  Crash safety of the name space. After every operation that reports success, the log on the device holds a
  journal that recovers to the name space as it is in memory, with the extents that were synced
  (\<^verbatim>\<open>SyncFileMetadata\<close>, \<^verbatim>\<open>DeleteFile\<close>, \<^verbatim>\<open>RenameFile\<close>, \<^verbatim>\<open>LinkFile\<close> and \<^verbatim>\<open>OpenWritableFile\<close> of \<^verbatim>\<open>plugin/zenfs/fs/fs_zenfs.cc\<close>),
  whether the record was added to the log or the log was rolled over to another zone.
\<close>

section \<open>What the log holds\<close>

text \<open>The device can read the metadata zones, which start at block boundaries.\<close>

definition starts_ok :: "'d backend \<Rightarrow> ('d, 'm) ZBD_scheme \<Rightarrow> bool" where
  "starts_ok be s \<longleftrightarrow>
     0 < block_sz s \<and>
     (\<forall>i<length (meta_zones s). unat (block_sz s) dvd unat (z_start (meta_zones s ! i)) \<and>
        readable be (unat (z_start (meta_zones s ! i))) (unat (z_start (meta_zones s ! i)) + unat (zone_sz s)))"

lemma starts_ok_step: "meta_step media I s t \<Longrightarrow> starts_ok be t = starts_ok be s"
  using meta_stepD [of media I s t] by (simp add: starts_ok_def)

lemma readable_mono: "readable be lo hi \<Longrightarrow> hi' \<le> hi \<Longrightarrow> readable be lo hi'"
  by (auto simp: readable_def)

lemma zone_apart:
  assumes "geometry s" and "i < length (meta_zones s)" and "j < length (meta_zones s)" and "i \<noteq> j"
    and "in_zone (zone_sz s) (meta_zones s ! j) a"
  shows "\<not> in_zone (zone_sz s) (meta_zones s ! i) a"
  using assms by (fastforce simp: geometry_def apart_def in_zone_def)

lemma log_holds_media:
  assumes wf: "zone_wf sz z" and holds: "log_holds media bs z d recs" and same: "\<And>a. in_zone sz z a \<Longrightarrow> media d' a = media d a"
  shows "log_holds media bs z d' recs"
proof -
  let ?n = "length (records_bytes bs recs)"
  have "media d' (z_start z + of_nat i) = media d (z_start z + of_nat i)" if "i < ?n" for i
  proof (rule same)
    have wp: "unat (z_wp z) = unat (z_start z) + ?n" using holds by (simp add: log_holds_def)
    then have "unat (z_start z + of_nat i) = unat (z_start z) + i"
      using that unat_u64_less [of "z_wp z"] by (intro unat_add_of_nat) simp
    then show "in_zone sz z (z_start z + of_nat i)"
      using wf that wp by (simp add: in_zone_def zone_wf_def)
  qed
  then show ?thesis using holds unfolding log_holds_def by (auto intro: stored_frame)
qed

lemma log_holds_step:
  assumes step: "meta_step media I s t" and geo: "geometry s" and ok: "metas_ok s" and j: "j < length (meta_zones s)" "j \<notin> I"
    and holds: "log_holds media bs (meta_zones s ! j) (dev s) recs"
  shows "log_holds media bs (meta_zones t ! j) (dev t) recs"
  unfolding meta_stepD(8) [OF step j]
proof (rule log_holds_media [OF _ holds])
  show "zone_wf (zone_sz s) (meta_zones s ! j)" using ok j(1) by (simp add: metas_ok_def meta_wf_def)
  show "media (dev t) a = media (dev s) a" if "in_zone (zone_sz s) (meta_zones s ! j) a" for a
    using zone_apart [OF geo _ j(1)] j(2) that by (intro meta_stepD(9) [OF step]) blast
qed

lemma log_ok_step:
  assumes "meta_step media I s t" and "ml_zone log \<notin> I" and "log_ok be log s"
  shows "log_ok be log t"
  using assms(2,3) meta_stepD [OF assms(1)] by (simp add: log_ok_def)

text \<open>A new log in an empty zone.\<close>

lemma new_log_ok:
  assumes "metas_ok s" and "starts_ok be s" and i: "i < length (meta_zones s)" and emp: "IsEmpty (meta_zones s ! i)"
  shows "log_ok be (new_ZenMetaLog i s) s" "log_holds media bs (meta_zones s ! i) (dev s) []"
proof -
  let ?z = "meta_zones s ! i"
  have z: "zone_wf (zone_sz s) ?z" "z_capacity ?z \<le> z_max_capacity ?z" "z_wp ?z = z_start ?z"
    using assms(1) i emp by (auto simp: metas_ok_def meta_wf_def IsEmpty_def)
  have r: "readable be (unat (z_start ?z)) (unat (z_start ?z) + unat (zone_sz s))" "unat (block_sz s) dvd unat (z_start ?z)"
    "0 < block_sz s"
    using assms(2) i by (auto simp: starts_ok_def)
  have "readable be (unat (z_start ?z)) (unat (z_start ?z) + unat (z_max_capacity ?z))"
    using z(1) by (intro readable_mono [OF r(1)]) (simp add: zone_wf_def)
  then show "log_ok be (new_ZenMetaLog i s) s"
    using z r(2,3) i by (simp add: log_ok_def meta_zone_ok_def word_le_nat_alt)
  show "log_holds media bs ?z (dev s) []" using z(3) by (simp add: log_holds_def stored_def)
qed

section \<open>Rolling the log\<close>

text \<open>The state after a snapshot is written: all named files are synced.\<close>

definition sync_all :: "('d, 'a, 'm) ZenFS_scheme \<Rightarrow> nat \<Rightarrow> ZoneFile" where
  "sync_all s g = (if g \<in> objs s then MetadataSynced (zfiles s g) else zfiles s g)"

lemma MetadataSynced_idem [simp]: "MetadataSynced (MetadataSynced zf) = MetadataSynced zf"
  by (simp add: MetadataSynced_def)

lemma sync_all_fold:
  fixes s :: "('d, 'a, 'm) ZenFS_scheme"
  shows "zfiles (fold (\<lambda>(name, f). upd_file f MetadataSynced) (files s) s) = sync_all s"
proof -
  have "zfiles (fold (\<lambda>(name, f). upd_file f MetadataSynced) fs t)
      = (\<lambda>g. if g \<in> snd ` set fs then MetadataSynced (zfiles t g) else zfiles t g)"
    for fs :: "(string \<times> nat) list" and t :: "('d, 'a, 'm) ZenFS_scheme"
    by (induction fs arbitrary: t) (auto simp: fun_eq_iff)
  then show ?thesis by (simp add: fun_eq_iff sync_all_def objs_def)
qed

lemma fold_synced_sel:
  "meta_zones (fold (\<lambda>(name, f). upd_file f h) fs s) = meta_zones s" "dev (fold (\<lambda>(name, f). upd_file f h) fs s) = dev s"
  "zone_sz (fold (\<lambda>(name, f). upd_file f h) fs s) = zone_sz s" "block_sz (fold (\<lambda>(name, f). upd_file f h) fs s) = block_sz s"
  by (induction fs arbitrary: s) (auto simp: upd_file_def)

lemma AddRecord_both:
  assumes dev: "device_ok be (zone_sz s) media" and ok: "metas_ok s" and log: "log_ok be log s"
    and small: "small (ml_bs log) data"
    and holds: "log_holds media (unat (ml_bs log)) (meta_zones s ! ml_zone log) (dev s) recs"
  obtains st t where "AddRecord be log data s = Some (st, t)" "meta_step media {ml_zone log} s t"
    "z_busy (meta_zones t ! ml_zone log) = z_busy (meta_zones s ! ml_zone log)" "\<not> ok st \<Longrightarrow> st_code st = kIOError"
    "ok st \<Longrightarrow> log_ok be log t"
    "ok st \<Longrightarrow> log_holds media (unat (ml_bs log)) (meta_zones t ! ml_zone log) (dev t) (recs @ [data])"
proof -
  have i: "ml_zone log < length (meta_zones s)" using log by (simp add: log_ok_def)
  obtain st t where t: "AddRecord be log data s = Some (st, t)" "meta_step media {ml_zone log} s t"
    by (rule AddRecord_step [OF dev ok i])
  have "z_busy (meta_zones t ! ml_zone log) = z_busy (meta_zones s ! ml_zone log) \<and> (\<not> ok st \<longrightarrow> st_code st = kIOError)"
    by (rule AddRecord_spec [OF dev small, of s]) (use t(1) i in \<open>auto simp: meta_appended_def\<close>)
  with t AddRecord_holds [OF dev log small holds t(1)] show thesis by (intro that [of st t]) auto
qed

text \<open>The records in the log of the file system.\<close>

definition log_has :: "'d backend \<Rightarrow> ('d \<Rightarrow> u64 \<Rightarrow> byte) \<Rightarrow> ('d, 'a, 'm) ZenFS_scheme \<Rightarrow> bytes list \<Rightarrow> bool" where
  "log_has be media s recs \<longleftrightarrow>
     (\<exists>log. meta_log s = Some log \<and> log_ok be log s \<and> z_busy (meta_zones s ! ml_zone log) \<and>
        log_holds media (unat (ml_bs log)) (meta_zones s ! ml_zone log) (dev s) recs \<and>
        (\<forall>r\<in>set recs. small (ml_bs log) r))"

lemma log_has_cong:
  assumes "meta_log t = meta_log s" "meta_zones t = meta_zones s" "dev t = dev s" "zone_sz t = zone_sz s" "block_sz t = block_sz s"
  shows "log_has be media t recs = log_has be media s recs"
  using assms by (simp add: log_has_def log_ok_def)

lemma journal_same: "journal_step media s t \<Longrightarrow> geometry s \<Longrightarrow> geometry t"
  using journal_stepD(5) by blast

text \<open>A snapshot is added to a log that has its superblock.\<close>

lemma snapshot_holds:
  fixes s :: "('d, 'a, 'm) ZenFS_scheme"
  assumes dev: "device_ok be (zone_sz s) media" and ok: "metas_ok s" and geo: "geometry s" and log: "log_ok be log s"
    and holds: "log_holds media (unat (ml_bs log)) (meta_zones s ! ml_zone log) (dev s) recs"
    and small: "small (ml_bs log) (ZenFS_EncodeSnapshotTo s)"
  obtains st t where "WriteSnapshotLocked be log s = Some (st, t)"
    "metas_ok t" "geometry t" "zone_sz t = zone_sz s" "length (meta_zones t) = length (meta_zones s)" "meta_log t = meta_log s"
    "superblock t = superblock s" "z_busy (meta_zones t ! ml_zone log) = z_busy (meta_zones s ! ml_zone log)"
    "ok st \<Longrightarrow> log_ok be log t" "ok st \<Longrightarrow> zfiles t = sync_all s"
    "ok st \<Longrightarrow> log_holds media (unat (ml_bs log)) (meta_zones t ! ml_zone log) (dev t) (recs @ [ZenFS_EncodeSnapshotTo s])"
proof -
  let ?S = "\<lambda>u. fold (\<lambda>(name, f). upd_file f MetadataSynced) (files u) u"
  obtain st u where u: "AddRecord be log (ZenFS_EncodeSnapshotTo s) s = Some (st, u)" "meta_step media {ml_zone log} s u"
    "z_busy (meta_zones u ! ml_zone log) = z_busy (meta_zones s ! ml_zone log)" "\<not> ok st \<Longrightarrow> st_code st = kIOError"
    "ok st \<Longrightarrow> log_ok be log u"
    "ok st \<Longrightarrow> log_holds media (unat (ml_bs log)) (meta_zones u ! ml_zone log) (dev u) (recs @ [ZenFS_EncodeSnapshotTo s])"
    by (rule AddRecord_both [OF dev ok log small holds]) (rule that)
  note j = meta_step_journal [OF u(2) geo]
  note v = journal_step_files [where h = MetadataSynced and fs = "files u",
    OF journal_stepD(1) [OF j(1)] synced_sim(1)]
  have "sync_all u = sync_all s"
    using j(4) journal_stepD(6) [OF j(1)] by (simp add: sync_all_def objs_def fun_eq_iff)
  then have z: "zfiles (?S u) = sync_all s" by (simp add: sync_all_fold)
  show thesis
  proof (rule that [of st "if ok st then ?S u else u"])
    show "WriteSnapshotLocked be log s = Some (st, if ok st then ?S u else u)"
      using u(1) by (simp add: WriteSnapshotLocked_def)
    show "ok st \<Longrightarrow> log_ok be log (if ok st then ?S u else u)"
      using u(5) by (simp add: log_ok_def fold_synced_sel)
  qed (use u(3,6) z meta_stepD [OF u(2)] j v geo journal_stepD [OF v(1)] journal_same [OF j(1) geo]
      in \<open>simp_all add: fold_synced_sel\<close>)
qed

lemma roll_end_holds:
  assumes "device_ok be (zone_sz s) media" and "metas_ok s" and "geometry s"
    and "ml_zone old < length (meta_zones s)" and "ml_zone log \<noteq> ml_zone old"
    and "log_ok be log s" and "log_holds media bs (meta_zones s ! ml_zone log) (dev s) recs"
    and t_def: "t = delete_ZenMetaLog old (if b then snd (reset_meta be (ml_zone old) s) else s)"
  shows "log_ok be log t" "log_holds media bs (meta_zones t ! ml_zone log) (dev t) recs"
    "z_busy (meta_zones t ! ml_zone log) = z_busy (meta_zones s ! ml_zone log)" "ZBD.more t = ZBD.more s"
proof -
  let ?I = "{ml_zone old}" and ?s = "if b then snd (reset_meta be (ml_zone old) s) else s"
  have "meta_step media ?I s ?s"
    using reset_meta_step [of be s media "ml_zone old" ?I] meta_step_refl [of s media ?I] assms by simp
  then have step: "meta_step media ?I s t"
    unfolding t_def using meta_step_trans delete_log_step [OF meta_stepD(1)] by blast
  have i: "ml_zone log < length (meta_zones s)" "ml_zone log \<notin> ?I" using assms(5,6) by (simp_all add: log_ok_def)
  show "log_ok be log t" by (rule log_ok_step [OF step i(2) assms(6)])
  show "log_holds media bs (meta_zones t ! ml_zone log) (dev t) recs"
    by (rule log_holds_step [OF step assms(3,2) i assms(7)])
  show "z_busy (meta_zones t ! ml_zone log) = z_busy (meta_zones s ! ml_zone log)" "ZBD.more t = ZBD.more s"
    using meta_stepD(6,8) [OF step] i by simp_all
qed

lemma more_fs_sel:
  fixes s t :: "('d, 'a, 'm) ZenFS_scheme"
  assumes "ZBD.more t = ZBD.more s"
  shows "zfiles t = zfiles s" "files t = files s" "meta_log t = meta_log s" "superblock t = superblock s"
  using assms by (cases s; cases t; simp)+

text \<open>What follows when the new log is allocated and the old one closed.\<close>

definition roll_rest ::
  "'d backend \<Rightarrow> ZenMetaLog \<Rightarrow> ZenMetaLog \<Rightarrow> ('d, 'a, 'm) ZenFS_scheme \<Rightarrow> (IOStatus \<times> ('d, 'a, 'm) ZenFS_scheme) option" where
  "roll_rest be old log s2 =
     do {
       sb \<leftarrow> superblock s2;
       (let (super_string, sb') = Superblock_EncodeTo sb
        in do {
             (st, s3) \<leftarrow> AddRecord be log super_string (s2\<lparr>superblock := Some sb'\<rparr>);
             if \<not> ok st
             then Some (IOError ''Failed writing a new superblock'' [], delete_ZenMetaLog old s3)
             else
               do {
                 (st, s4) \<leftarrow> WriteSnapshotLocked be log s3;
                 (let s5 = (if ok st then snd (reset_meta be (ml_zone old) s4) else s4)
                  in Some (st, delete_ZenMetaLog old s5))
               }
           })
     }"

lemma roll_start:
  fixes s :: "('d, 'a, 'm) ZenFS_scheme"
  assumes ok: "writer_ok be media s" and geo: "geometry s" and starts: "starts_ok be s"
    and old: "meta_log s = Some old" "z_busy (meta_zones s ! ml_zone old)"
    and roll: "RollMetaZoneLocked be s = Some (st, t)" "ok st"
  obtains log s2 where "RollMetaZoneLocked be s = roll_rest be old log s2"
    "journal_step media s s2" "meta_log s2 = Some log" "superblock s2 = superblock s" "zfiles s2 = zfiles s"
    "log_ok be log s2" "log_holds media (unat (ml_bs log)) (meta_zones s2 ! ml_zone log) (dev s2) []"
    "z_busy (meta_zones s2 ! ml_zone log)" "ml_zone log \<noteq> ml_zone old"
proof -
  obtain ast z s1 where a: "AllocateMetaZone be s = (ast, z, s1)"
    "meta_step media {i. i < length (meta_zones s) \<and> \<not> z_busy (meta_zones s ! i)} s s1"
    "\<And>i. ok ast \<Longrightarrow> z = Some i \<Longrightarrow> i < length (meta_zones s) \<and> \<not> z_busy (meta_zones s ! i) \<and>
      IsEmpty (meta_zones s1 ! i) \<and> z_busy (meta_zones s1 ! i)"
    by (rule AllocateMetaZone_step [OF writer_okD [OF ok]]) (rule that)
  obtain i where z: "ok ast" "z = Some i"
    using roll a(1) by (cases "ok ast"; cases z) (auto simp: RollMetaZoneLocked_def)
  note i = a(3) [OF z] and m1 = meta_stepD [OF a(2)]
  note s1 = meta_step_journal [OF a(2) geo]
  define log where "log = new_ZenMetaLog i s1"
  have ne: "ml_zone log \<noteq> ml_zone old" using i old(2) by (auto simp: log_def)
  have nl: "log_ok be log s1" "log_holds media (unat (ml_bs log)) (meta_zones s1 ! ml_zone log) (dev s1) []"
    using new_log_ok [of s1 be i] m1(1,2) starts_ok_step [OF a(2), of be] starts i by (simp_all add: log_def)
  let ?s1 = "s1\<lparr>meta_log := Some log\<rparr>"
  have g1: "geometry ?s1" "metas_ok ?s1" "device_ok be (zone_sz ?s1) media" "log_ok be log ?s1"
    using journal_same [OF s1(1) geo] m1(1,3) writer_okD(1) [OF ok] nl(1)
    by (simp_all add: geometry_def metas_ok_def log_ok_def)
  have "ml_zone old < length (meta_zones ?s1)" using ok old(1) m1(2) by (auto simp: writer_ok_def)
  from close_old_log_step [OF g1(3,2) this] obtain s2 where
    s2: "close_old_log be old ?s1 = Some s2" "meta_step media {ml_zone old} ?s1 s2" .
  note j2 = meta_step_journal [OF s2(2) g1(1)] and m2 = meta_stepD [OF s2(2)]
  have i1: "ml_zone log < length (meta_zones ?s1)" "ml_zone log \<notin> {ml_zone old}" using nl(1) ne by (simp_all add: log_ok_def)
  have h1: "log_holds media (unat (ml_bs log)) (meta_zones ?s1 ! ml_zone log) (dev ?s1) []" using nl(2) by simp
  show thesis
  proof (rule that [of log s2])
    show "RollMetaZoneLocked be s = roll_rest be old log s2"
      using a(1) z s1(2) old(1) s2(1) by (simp add: RollMetaZoneLocked_def roll_rest_def Let_def log_def)
    show "journal_step media s s2"
      by (rule journal_step_trans [OF journal_step_trans [OF s1(1) journal_step_log(1) [OF journal_stepD(1) [OF s1(1)]]] j2(1)])
    show "log_ok be log s2" by (rule log_ok_step [OF s2(2) i1(2) g1(4)])
    show "log_holds media (unat (ml_bs log)) (meta_zones s2 ! ml_zone log) (dev s2) []"
      by (rule log_holds_step [OF s2(2) g1(1,2) i1 h1])
    show "z_busy (meta_zones s2 ! ml_zone log)" using m2(8) [OF i1] i by (simp add: log_def)
  qed (use j2 s1 ne in simp_all)
qed

lemma RollMetaZoneLocked_holds:
  fixes s :: "('d, 'a, 'm) ZenFS_scheme"
  assumes ok: "writer_ok be media s" and geo: "geometry s" and starts: "starts_ok be s"
    and old: "meta_log s = Some old" "z_busy (meta_zones s ! ml_zone old)" and sb: "superblock s = Some sb"
    and small: "small (ucast (block_sz s)) (fst (Superblock_EncodeTo sb))" "small (ucast (block_sz s)) (ZenFS_EncodeSnapshotTo s)"
    and roll: "RollMetaZoneLocked be s = Some (st, t)" "ok st"
  shows "log_has be media t [fst (Superblock_EncodeTo sb), ZenFS_EncodeSnapshotTo s]" "zfiles t = sync_all s"
    "superblock t = Some (snd (Superblock_EncodeTo sb))" "meta_log t \<noteq> meta_log s"
proof -
  obtain log s2 where s2: "RollMetaZoneLocked be s = roll_rest be old log s2"
    "journal_step media s s2" "meta_log s2 = Some log" "superblock s2 = superblock s" "zfiles s2 = zfiles s"
    "log_ok be log s2" "log_holds media (unat (ml_bs log)) (meta_zones s2 ! ml_zone log) (dev s2) []"
    "z_busy (meta_zones s2 ! ml_zone log)" "ml_zone log \<noteq> ml_zone old"
    by (rule roll_start [OF ok geo starts old roll])
  obtain str sb' where e: "Superblock_EncodeTo sb = (str, sb')" by (cases "Superblock_EncodeTo sb")
  let ?s2 = "s2\<lparr>superblock := Some sb'\<rparr>"
  note j2 = journal_stepD [OF s2(2)]
  have g2: "geometry ?s2" "metas_ok ?s2" "device_ok be (zone_sz ?s2) media" "log_ok be log ?s2" "ml_bs log = ucast (block_sz s)"
    using geo j2 writer_okD(1) [OF ok] s2(6) by (simp_all add: geometry_def metas_ok_def log_ok_def)
  have sm: "small (ml_bs log) str" using small(1) e g2(5) by simp
  have h2: "log_holds media (unat (ml_bs log)) (meta_zones ?s2 ! ml_zone log) (dev ?s2) []" using s2(7) by simp
  obtain st3 s3 where s3: "AddRecord be log str ?s2 = Some (st3, s3)" "meta_step media {ml_zone log} ?s2 s3"
    "z_busy (meta_zones s3 ! ml_zone log) = z_busy (meta_zones ?s2 ! ml_zone log)" "\<not> ok st3 \<Longrightarrow> st_code st3 = kIOError"
    "ok st3 \<Longrightarrow> log_ok be log s3"
    "ok st3 \<Longrightarrow> log_holds media (unat (ml_bs log)) (meta_zones s3 ! ml_zone log) (dev s3) ([] @ [str])"
    by (rule AddRecord_both [OF g2(3,2,4) sm h2]) (rule that)
  note j3 = meta_step_journal [OF s3(2) g2(1)] and m3 = meta_stepD [OF s3(2)]
  have g3: "geometry s3" "metas_ok s3" "device_ok be (zone_sz s3) media"
    using journal_same [OF j3(1) g2(1)] m3(1,3) g2(3) by simp_all
  have "zfiles s3 = zfiles s" "files s3 = files s" and zf3: "superblock s3 = Some sb'" "meta_log s3 = Some log"
    using s2(3,5) j2(6) j3 journal_stepD(6) [OF j3(1)] by simp_all
  then have snap: "ZenFS_EncodeSnapshotTo s3 = ZenFS_EncodeSnapshotTo s" "sync_all s3 = sync_all s"
    by (simp_all add: ZenFS_EncodeSnapshotTo_def sync_all_def objs_def fun_eq_iff)
  have ok3: "ok st3"
    using roll s2(1,4) e s3(1) sb by (auto simp: roll_rest_def split: if_splits)
  have h3: "log_holds media (unat (ml_bs log)) (meta_zones s3 ! ml_zone log) (dev s3) [str]" using s3(6) ok3 by simp
  have sm3: "small (ml_bs log) (ZenFS_EncodeSnapshotTo s3)" using small(2) g2(5) snap by simp
  obtain st4 s4 where s4: "WriteSnapshotLocked be log s3 = Some (st4, s4)"
    "metas_ok s4" "geometry s4" "zone_sz s4 = zone_sz s3" "length (meta_zones s4) = length (meta_zones s3)"
    "meta_log s4 = meta_log s3" "superblock s4 = superblock s3"
    "z_busy (meta_zones s4 ! ml_zone log) = z_busy (meta_zones s3 ! ml_zone log)"
    "ok st4 \<Longrightarrow> log_ok be log s4" "ok st4 \<Longrightarrow> zfiles s4 = sync_all s3"
    "ok st4 \<Longrightarrow> log_holds media (unat (ml_bs log)) (meta_zones s4 ! ml_zone log) (dev s4) ([str] @ [ZenFS_EncodeSnapshotTo s3])"
    by (rule snapshot_holds [OF g3(3,2,1) s3(5) [OF ok3] h3 sm3]) (rule that)
  have t: "t = delete_ZenMetaLog old (if ok st4 then snd (reset_meta be (ml_zone old) s4) else s4)" and ok4: "ok st4"
    using roll s2(1,4) e s3(1) sb s4(1) ok3 by (auto simp: roll_rest_def Let_def split: if_splits)
  have o4: "ml_zone old < length (meta_zones s4)" "device_ok be (zone_sz s4) media"
    using ok old(1) j2(2) s4(4,5) m3(2) g3(3) by (auto simp: writer_ok_def)
  note r = roll_end_holds [OF o4(2) s4(2,3) o4(1) s2(9) s4(9) [OF ok4] s4(11) [OF ok4] t]
  note f = more_fs_sel [OF r(4)]
  show "zfiles t = sync_all s" "superblock t = Some (snd (Superblock_EncodeTo sb))" "meta_log t \<noteq> meta_log s"
    using f s4(6,7,10) ok4 snap zf3 e old(1) s2(9) by auto
  show "log_has be media t [fst (Superblock_EncodeTo sb), ZenFS_EncodeSnapshotTo s]"
    unfolding log_has_def using f r s4(6,8) s3(3) s2(8) zf3(2) e snap small g2(5)
    by (intro exI [of _ log]) auto
qed

section \<open>The journal of a file system\<close>

abbreviation journal_db :: "entry list \<Rightarrow> database" where
  "journal_db es \<equiv> fold apply_entry es Map.empty"

text \<open>The record at the head of a log is the superblock in memory.\<close>

definition good_superblock :: "Superblock \<Rightarrow> bool" where
  "good_superblock sb \<longleftrightarrow> superblock_wf sb \<and> sb_magic sb = MAGIC \<and> sb_superblock_version sb = CURRENT_SUPERBLOCK_VERSION"

definition heads_log :: "bytes \<Rightarrow> ('d, 'a, 'm) ZenFS_scheme \<Rightarrow> bool" where
  "heads_log r s \<longleftrightarrow>
     (\<exists>sb. superblock s = Some sb \<and> good_superblock sb \<and> Superblock_DecodeFrom r empty_Superblock = (OK, sb, []) \<and> r \<noteq> [])"

lemma heads_new:
  assumes "good_superblock sb" and "superblock t = Some (snd (Superblock_EncodeTo sb))"
  shows "heads_log (fst (Superblock_EncodeTo sb)) t"
proof -
  obtain r sb' where e: "Superblock_EncodeTo sb = (r, sb')" by fastforce
  have "sb' = sb\<lparr>sb_sequence := sb_sequence sb + 1\<rparr>" using e by (simp add: Superblock_EncodeTo_bytes Let_def)
  then have "good_superblock sb'" using assms(1) by (simp add: good_superblock_def superblock_wf_def)
  moreover have "Superblock_DecodeFrom r empty_Superblock = (OK, sb', [])"
    using Superblock_Decode_Encode [OF _ e] assms(1) by (simp add: good_superblock_def)
  moreover have "length r = 512"
    using Superblock_EncodeTo_length [of sb] assms(1) e by (simp add: good_superblock_def ENCODED_SIZE_def)
  ultimately show ?thesis using assms(2) e by (auto simp: heads_log_def)
qed

text \<open>
  \<open>journal_ok be media s es\<close>: the log of \<open>s\<close> has the entries \<open>es\<close> behind its superblock, they can be replayed, and there
  is a snapshot among them; records can be written.
\<close>

definition journal_ok :: "'d backend \<Rightarrow> ('d \<Rightarrow> u64 \<Rightarrow> byte) \<Rightarrow> ('d, 'a, 'm) ZenFS_scheme \<Rightarrow> entry list \<Rightarrow> bool" where
  "journal_ok be media s es \<longleftrightarrow>
     writer_ok be media s \<and> geometry s \<and> zones_fit s \<and> starts_ok be s \<and>
     (\<exists>r. heads_log r s \<and> log_has be media s (r # map encode_entry es)) \<and>
     valid_entries s es Map.empty \<and> (\<exists>e\<in>set es. is_snapshot e)"

definition snapshot_of :: "('d, 'a, 'm) ZenFS_scheme \<Rightarrow> fdesc list" where
  "snapshot_of s = map (\<lambda>(name, f). desc (zfiles s f)) (files s)"

text \<open>The records that may be written fit the log.\<close>

definition fits :: "('d, 'a, 'm) ZenFS_scheme \<Rightarrow> entry \<Rightarrow> bool" where
  "fits s e \<longleftrightarrow>
     small (ucast (block_sz s)) (encode_entry e) \<and> small (ucast (block_sz s)) (encode_entry (Snapshot (snapshot_of s))) \<and>
     (\<forall>sb. superblock s = Some sb \<longrightarrow> small (ucast (block_sz s)) (fst (Superblock_EncodeTo sb)))"

lemma valid_entries_append:
  "valid_entries s (es @ es') db \<longleftrightarrow> valid_entries s es db \<and> valid_entries s es' (fold apply_entry es db)"
  by (induction es arbitrary: db) auto

lemma snapshot_set:
  assumes rep: "represents (\<lambda>zf d. desc zf = d) s db"
  shows "d \<in> set (snapshot_of s) \<longleftrightarrow> db (d_id d) = Some d"
proof
  assume "d \<in> set (snapshot_of s)"
  then obtain n f where "(n, f) \<in> set (files s)" "d = desc (zfiles s f)" by (auto simp: snapshot_of_def)
  with representsD(2) [OF rep, of n f] show "db (d_id d) = Some d"
    by (auto simp: set_sorted_map [OF representsD(1) [OF rep]])
next
  assume d: "db (d_id d) = Some d"
  obtain f where f: "\<And>n. map_of (files s) n = Some f \<longleftrightarrow> n \<in> set (d_links d)" "desc (zfiles s f) = d"
    by (rule represents_obj [OF rep d]) (rule that)
  obtain n where "n \<in> set (d_links d)" using representsD(5) [OF rep d] by (cases "d_links d") auto
  then have "(n, f) \<in> set (files s)" using f(1) map_of_SomeD by metis
  with f(2) show "d \<in> set (snapshot_of s)" by (force simp: snapshot_of_def)
qed

lemma fold_put:
  assumes "\<forall>d\<in>set ds. \<forall>d'\<in>set ds. d_id d = d_id d' \<longrightarrow> d = d'"
  shows "fold (\<lambda>d db. db(d_id d \<mapsto> d)) ds db i = (if \<exists>d\<in>set ds. d_id d = i then find (\<lambda>d. d_id d = i) ds else db i)"
  using assms
proof (induction ds arbitrary: db)
  case (Cons d ds)
  have "find (\<lambda>d. d_id d = i) ds = Some d" if i: "d_id d = i" and ex: "\<exists>x\<in>set ds. d_id x = i"
  proof -
    obtain x where "x \<in> set ds" "d_id x = i" using ex by blast
    then obtain y where y: "find (\<lambda>d. d_id d = i) ds = Some y" by (cases "find (\<lambda>d. d_id d = i) ds") (auto simp: find_None_iff)
    then have "y \<in> set ds" "d_id y = i" by (auto simp: find_Some_iff)
    then have "y = d" using Cons.prems i by auto
    with y show ?thesis by simp
  qed
  with Cons show ?case by auto
qed simp

lemma snapshot_valid:
  assumes rep: "represents (\<lambda>zf d. desc zf = d) s db" and ok: "\<forall>f\<in>objs s. desc_ok s (desc (zfiles s f))"
  shows "valid_entry s (Snapshot (snapshot_of s)) db'" "apply_entry (Snapshot (snapshot_of s)) db' = db"
proof -
  let ?ds = "snapshot_of s"
  have "d_links d \<noteq> [] \<and> distinct (d_links d) \<and>
      (\<forall>d'\<in>set ?ds. if d_id d = d_id d' then d = d' else set (d_links d) \<inter> set (d_links d') = {})" if "d \<in> set ?ds" for d
  proof (intro conjI ballI)
    have d: "db (d_id d) = Some d" using that snapshot_set [OF rep] by simp
    show "d_links d \<noteq> []" "distinct (d_links d)" using representsD(5,6) [OF rep d] by simp_all
    fix d' assume "d' \<in> set ?ds"
    then have d': "db (d_id d') = Some d'" using snapshot_set [OF rep] by simp
    show "if d_id d = d_id d' then d = d' else set (d_links d) \<inter> set (d_links d') = {}"
    proof (cases "d_id d = d_id d'")
      case True
      then have "db (d_id d) = Some d'" using d' by argo
      with d have "d = d'" by simp
      then show ?thesis by simp
    next
      case False
      obtain f where f: "file_id (zfiles s f) = d_id d" "\<And>n. map_of (files s) n = Some f \<longleftrightarrow> n \<in> set (d_links d)"
        by (rule represents_obj [OF rep d]) (rule that)
      obtain g where g: "file_id (zfiles s g) = d_id d'" "\<And>n. map_of (files s) n = Some g \<longleftrightarrow> n \<in> set (d_links d')"
        by (rule represents_obj [OF rep d']) (rule that)
      have "f \<noteq> g" using f(1) g(1) False by auto
      then have "n \<notin> set (d_links d')" if "n \<in> set (d_links d)" for n
        using f(2) [of n] g(2) [of n] that by simp
      then have "set (d_links d) \<inter> set (d_links d') = {}" by blast
      with False show ?thesis by simp
    qed
  qed
  then have con: "consistent (set ?ds)" by (simp add: consistent_def)
  have "\<forall>d\<in>set ?ds. desc_ok s d" using ok by (force simp: snapshot_of_def objs_def)
  with con show "valid_entry s (Snapshot ?ds) db'" by simp
  have uni: "\<forall>d\<in>set ?ds. \<forall>d'\<in>set ?ds. d_id d = d_id d' \<longrightarrow> d = d'" using con unfolding consistent_def by metis
  show "apply_entry (Snapshot ?ds) db' = db"
  proof
    fix i
    have "find (\<lambda>d. d_id d = i) ?ds = db i" if "d \<in> set ?ds" "d_id d = i" for d
    proof (cases "find (\<lambda>d. d_id d = i) ?ds")
      case (Some y)
      then have "y \<in> set ?ds" "d_id y = i" by (auto simp: find_Some_iff)
      with Some snapshot_set [OF rep, of y] show ?thesis by simp
    qed (use that in \<open>auto simp: find_None_iff\<close>)
    moreover have "db i = None" if "\<not> (\<exists>d\<in>set ?ds. d_id d = i)"
    proof (cases "db i")
      case (Some d)
      with representsD(4) [OF rep Some] snapshot_set [OF rep, of d] that show ?thesis by auto
    qed
    ultimately show "apply_entry (Snapshot ?ds) db' i = db i"
      by (auto simp: fold_put [OF uni])
  qed
qed

lemma journal_step_zones:
  assumes "journal_step media s t"
  shows "io_zones t = io_zones s" "GetIOZone t a = GetIOZone s a" "starts_ok be t = starts_ok be s" "next_ptr t = next_ptr s"
    "next_file_id t = next_file_id s" "handles t = handles s" "aux t = aux s" "zone_sz t = zone_sz s"
proof -
  have m: "io_zones t = io_zones s" "zone_sz t = zone_sz s" "block_sz t = block_sz s"
    "map z_start (meta_zones t) = map z_start (meta_zones s)"
    using assms by (simp_all add: journal_step_def meta_frame_def)
  then show "io_zones t = io_zones s" "GetIOZone t a = GetIOZone s a" by (simp_all add: GetIOZone_def)
  have len: "length (meta_zones t) = length (meta_zones s)" using m(4) by (metis length_map)
  have "z_start (meta_zones t ! i) = z_start (meta_zones s ! i)" if "i < length (meta_zones s)" for i
    using m(4) that len by (metis nth_map)
  with m len show "starts_ok be t = starts_ok be s" by (simp add: starts_ok_def)
  show "zone_sz t = zone_sz s" by (rule m(2))
  show "next_ptr t = next_ptr s" "next_file_id t = next_file_id s" "handles t = handles s" "aux t = aux s"
    using assms by (simp_all add: journal_step_def)
qed

lemma PersistRecord_journaled:
  fixes s :: "('d, 'a, 'm) ZenFS_scheme"
  assumes J: "journal_ok be media s es" and val: "valid_entry s e (journal_db es)" and fit: "fits s e"
    and rep: "represents (\<lambda>zf d. desc zf = d) s db" and dok: "\<forall>f\<in>objs s. desc_ok s (desc (zfiles s f))"
    and per: "PersistRecord be (encode_entry e) s = Some (st, t)" "ok st"
  obtains (added) "journal_step media s t" "journal_ok be media t (es @ [e])" "zfiles t = zfiles s" "superblock t = superblock s"
        "meta_log t = meta_log s"
    | (rolled) "journal_step media s t" "journal_ok be media t [Snapshot (snapshot_of s)]" "zfiles t = sync_all s"
        "superblock t = map_option (snd \<circ> Superblock_EncodeTo) (superblock s)" "meta_log t \<noteq> meta_log s"
proof -
  have w: "writer_ok be media s" "geometry s" "starts_ok be s" and fit0: "zones_fit s" and val0: "valid_entries s es Map.empty"
    and sn: "\<exists>e\<in>set es. is_snapshot e"
    using J by (simp_all add: journal_ok_def)
  obtain sbr log where log: "meta_log s = Some log" "log_ok be log s" "z_busy (meta_zones s ! ml_zone log)"
    "log_holds media (unat (ml_bs log)) (meta_zones s ! ml_zone log) (dev s) (sbr # map encode_entry es)"
    "\<forall>r\<in>set (sbr # map encode_entry es). small (ml_bs log) r" and head: "heads_log sbr s"
    using J by (auto simp: journal_ok_def log_has_def)
  have bs: "ml_bs log = ucast (block_sz s)" using log(2) by (simp add: log_ok_def)
  have jt: "journal_step media s t" "writer_ok be media t"
    by (rule PersistRecord_journal [OF w(1,2), of "encode_entry e"], use per in simp)+
  note zt = journal_step_zones [OF jt(1)]
  have tt: "geometry t" "starts_ok be t" "zones_fit t" and gz: "\<And>a. GetIOZone t a = GetIOZone s a"
    using journal_same [OF jt(1) w(2)] w(3) zt fit0 by (simp_all add: zones_fit_def)
  have sm: "small (ml_bs log) (encode_entry e)" using fit bs by (simp add: fits_def)
  obtain st1 s1 where s1: "AddRecord be log (encode_entry e) s = Some (st1, s1)" "meta_step media {ml_zone log} s s1"
    "z_busy (meta_zones s1 ! ml_zone log) = z_busy (meta_zones s ! ml_zone log)" "\<not> ok st1 \<Longrightarrow> st_code st1 = kIOError"
    "ok st1 \<Longrightarrow> log_ok be log s1"
    "ok st1 \<Longrightarrow> log_holds media (unat (ml_bs log)) (meta_zones s1 ! ml_zone log) (dev s1) ((sbr # map encode_entry es) @ [encode_entry e])"
    by (rule AddRecord_both [OF writer_okD [OF w(1)] log(2) sm log(4)]) (rule that)
  note j1 = meta_step_journal [OF s1(2) w(2)]
  show thesis
  proof (cases "ok st1")
    case True
    then have t: "t = s1" using per log(1) s1(1) by (auto simp: PersistRecord_def status_eq_def ok_def NoSpace_def split: if_splits)
    have "log_has be media t (sbr # map encode_entry (es @ [e]))"
      unfolding log_has_def t using log s1 j1 True sm by (intro exI [of _ log]) auto
    moreover have "valid_entries t (es @ [e]) Map.empty"
      using val0 val by (simp add: valid_entries_cong [OF gz] valid_entries_append)
    ultimately have "journal_ok be media t (es @ [e])"
      using jt(2) tt sn head j1 t unfolding journal_ok_def by (auto simp: heads_log_def)
    then show thesis using added jt(1) j1 t by simp
  next
    case False
    then have roll: "RollMetaZoneLocked be s1 = Some (st, t)"
      using per log(1) s1(1) s1(4) by (simp add: PersistRecord_def status_eq_def NoSpace_def)
    obtain sb where sb: "superblock s = Some sb" "good_superblock sb" using head by (auto simp: heads_log_def)
    have "writer_ok be media s1" "geometry s1" "starts_ok be s1" "block_sz s1 = block_sz s" "files s1 = files s"
      using writer_ok_same [OF w(1) j1(1-3)] journal_same [OF j1(1) w(2)] starts_ok_step [OF s1(2), of be] w(3)
        journal_stepD(4,6) [OF j1(1)] by simp_all
    moreover from this j1(4) have snap: "ZenFS_EncodeSnapshotTo s1 = encode_entry (Snapshot (snapshot_of s))" "sync_all s1 = sync_all s"
      by (simp_all add: snapshot_entry snapshot_of_def sync_all_def objs_def fun_eq_iff)
    ultimately have r: "log_has be media t [fst (Superblock_EncodeTo sb), encode_entry (Snapshot (snapshot_of s))]"
      "zfiles t = sync_all s" "superblock t = Some (snd (Superblock_EncodeTo sb))" "meta_log t \<noteq> meta_log s"
      using RollMetaZoneLocked_holds [of be media s1 log sb st t] j1(2,3) log(1,3) s1(3) sb fit roll per(2)
      by (simp_all add: fits_def)
    note sv = snapshot_valid(1) [OF rep dok, of Map.empty]
    have "valid_entries t [Snapshot (snapshot_of s)] Map.empty"
      using sv by (simp add: valid_entries_cong(1) [OF gz] del: valid_entry.simps)
    with r(1) jt(2) tt heads_new [OF sb(2) r(3)] have "journal_ok be media t [Snapshot (snapshot_of s)]"
      by (auto simp: journal_ok_def)
    then show thesis using rolled jt(1) r(2-4) sb by simp
  qed
qed

section \<open>The name space and its journal\<close>

text \<open>
  \<open>persisted zf d\<close>: the database has of the file \<open>zf\<close> its identifier, its names and the extents that count as synced.
  \<open>crash_safe be media s es\<close>: the journal in the log recovers to the name space of \<open>s\<close>.
\<close>

definition persisted :: "ZoneFile \<Rightarrow> fdesc \<Rightarrow> bool" where
  "persisted zf d \<longleftrightarrow>
     d_id d = file_id zf \<and> set (d_links d) = set (linkfiles zf) \<and> distinct (linkfiles zf) \<and>
     d_extents d = take (unat (nr_synced_extents zf)) (extents zf)"

definition file_ok :: "('d, 'm) ZBD_scheme \<Rightarrow> ZoneFile \<Rightarrow> bool" where
  "file_ok s zf \<longleftrightarrow> desc_ok s (desc zf) \<and> length (extents zf) < 2 ^ 32 \<and> \<not> is_deleted zf"

definition crash_safe :: "'d backend \<Rightarrow> ('d \<Rightarrow> u64 \<Rightarrow> byte) \<Rightarrow> ('d, 'a, 'm) ZenFS_scheme \<Rightarrow> entry list \<Rightarrow> bool" where
  "crash_safe be media s es \<longleftrightarrow>
     journal_ok be media s es \<and> represents persisted s (journal_db es) \<and> (\<forall>f\<in>objs s. file_ok s (zfiles s f))"

lemma represents_mono:
  assumes rep: "represents P s db" and eq: "files t = files s" "next_ptr s \<le> next_ptr t"
    and zf: "\<And>f d. f \<in> objs s \<Longrightarrow> P (zfiles s f) d \<Longrightarrow> Q (zfiles t f) d" "\<And>f. f \<in> objs s \<Longrightarrow> file_id (zfiles t f) = file_id (zfiles s f)"
  shows "represents Q t db"
  unfolding represents_def eq(1)
proof (intro conjI allI impI)
  have obj: "g \<in> objs s" if "map_of (files s) n = Some g" for n g
    using that by (auto simp: objs_map_of [OF representsD(1) [OF rep]])
  fix n g
  assume n: "map_of (files s) n = Some g"
  with representsD(3) [OF rep n] eq(2) show "g < next_ptr t" by simp
  from representsD(2) [OF rep n] zf [OF obj [OF n]]
  show "\<exists>d. db (file_id (zfiles t g)) = Some d \<and> n \<in> set (d_links d) \<and> Q (zfiles t g) d" by auto
next
  fix i d
  assume d: "db i = Some d"
  show "d_id d = i" "d_links d \<noteq> []" "distinct (d_links d)"
    using representsD(4-6) [OF rep d] by simp_all
  show "\<exists>f. file_id (zfiles t f) = i \<and> (\<forall>n\<in>set (d_links d). map_of (files s) n = Some f)"
  proof (rule represents_obj [OF rep d])
    fix f
    assume "file_id (zfiles s f) = i" "\<And>n. map_of (files s) n = Some f \<longleftrightarrow> n \<in> set (d_links d)" "f \<in> objs s"
    with zf(2) show ?thesis by (intro exI [of _ f]) simp
  qed
qed (rule representsD(1) [OF rep])

text \<open>The description of the files as they are now, as a snapshot would have it.\<close>

definition refresh :: "('d, 'a, 'm) ZenFS_scheme \<Rightarrow> database \<Rightarrow> database" where
  "refresh s db i =
     (case db i of
        None \<Rightarrow> None
      | Some d \<Rightarrow> map_option (\<lambda>f. desc (zfiles s f)) (map_of (files s) (hd (d_links d))))"

lemma refresh_obj:
  assumes rep: "represents persisted s db" and d: "db i = Some d"
  obtains f where "refresh s db i = Some (desc (zfiles s f))" "file_id (zfiles s f) = i" "f \<in> objs s"
    "\<And>n. map_of (files s) n = Some f \<longleftrightarrow> n \<in> set (linkfiles (zfiles s f))" "persisted (zfiles s f) d"
proof -
  obtain f where f: "file_id (zfiles s f) = i" "\<And>n. map_of (files s) n = Some f \<longleftrightarrow> n \<in> set (d_links d)" "f \<in> objs s"
    "persisted (zfiles s f) d"
    by (rule represents_obj [OF rep d]) (rule that)
  have "hd (d_links d) \<in> set (d_links d)" using representsD(5) [OF rep d] by simp
  with f show thesis using d by (intro that [of f]) (auto simp: refresh_def persisted_def)
qed

lemma represents_refresh:
  assumes rep: "represents persisted s db"
  shows "represents (\<lambda>zf d. desc zf = d) s (refresh s db)"
  unfolding represents_def
proof (intro conjI allI impI)
  show "sorted_map (files s)" by (rule representsD(1) [OF rep])
next
  fix n f
  assume n: "map_of (files s) n = Some f"
  then show "f < next_ptr s" by (rule representsD(3) [OF rep])
  obtain d where d: "db (file_id (zfiles s f)) = Some d" "n \<in> set (d_links d)" "persisted (zfiles s f) d"
    using representsD(2) [OF rep n] by blast
  obtain g where g: "refresh s db (file_id (zfiles s f)) = Some (desc (zfiles s g))" "persisted (zfiles s g) d"
    "\<And>n. map_of (files s) n = Some g \<longleftrightarrow> n \<in> set (linkfiles (zfiles s g))"
    by (rule refresh_obj [OF rep d(1)]) (rule that)
  have "n \<in> set (linkfiles (zfiles s g))" using d(2) g(2) by (simp add: persisted_def)
  then have "f = g" using g(3) [of n] n by simp
  with g d(2,3) show "\<exists>d. refresh s db (file_id (zfiles s f)) = Some d \<and> n \<in> set (d_links d) \<and> desc (zfiles s f) = d"
    by (auto simp: persisted_def)
next
  fix i d
  assume d: "refresh s db i = Some d"
  then obtain d0 where d0: "db i = Some d0" by (auto simp: refresh_def split: option.splits)
  obtain f where f: "refresh s db i = Some (desc (zfiles s f))" "file_id (zfiles s f) = i" "persisted (zfiles s f) d0"
    "\<And>n. map_of (files s) n = Some f \<longleftrightarrow> n \<in> set (linkfiles (zfiles s f))"
    by (rule refresh_obj [OF rep d0]) (rule that)
  have de: "d = desc (zfiles s f)" using d f(1) by simp
  have "d_links d0 \<noteq> []" using representsD(5) [OF rep d0] .
  then show "d_id d = i" "d_links d \<noteq> []" "distinct (d_links d)"
    "\<exists>f. file_id (zfiles s f) = i \<and> (\<forall>n\<in>set (d_links d). map_of (files s) n = Some f)"
    using f de by (auto simp: persisted_def)
qed

lemma synced_sel [simp]:
  "file_id (MetadataSynced zf) = file_id zf" "linkfiles (MetadataSynced zf) = linkfiles zf"
  "extents (MetadataSynced zf) = extents zf" "desc (MetadataSynced zf) = desc zf" "is_deleted (MetadataSynced zf) = is_deleted zf"
  by (simp_all add: MetadataSynced_def desc_def)

lemma persisted_synced:
  assumes "distinct (linkfiles zf)" and "length (extents zf) < 2 ^ 32"
  shows "persisted (MetadataSynced zf) (desc zf)"
  using assms by (simp add: persisted_def MetadataSynced_def unat_of_nat_small)

lemma file_ok_synced [simp]: "file_ok s (MetadataSynced zf) = file_ok s zf"
  by (simp add: file_ok_def)


lemma zones_fit_cong:
  assumes "map z_start (io_zones t) = map z_start (io_zones s)" and "zone_sz t = zone_sz s"
  shows "zones_fit t = zones_fit s"
  using assms map_eq_imp_length_eq [OF assms(1)] by (auto simp: zones_fit_def list_eq_iff_nth_eq)

lemma journal_ok_stripped:
  assumes "stripped t = stripped s"
  shows "journal_ok be media t es = journal_ok be media s es"
proof -
  note f = stripped_sel [OF assms]
  have "map z_start (io_zones v) = map z_start (io_zones (stripped v))" for v :: "('a, 'b, 'c) ZenFS_scheme"
    by (simp add: stripped_def)
  then have starts: "map z_start (io_zones t) = map z_start (io_zones s)" using assms by metis
  then have "geometry t = geometry s" using f(2,3) by (intro geometry_cong) simp_all
  moreover have "zones_fit t = zones_fit s"
    using zones_fit_cong [OF starts f(3)] .
  moreover have "valid_entries t es db = valid_entries s es db" for db
    by (rule valid_entries_cong(2)) (rule f(9))
  ultimately show ?thesis
    using f log_has_cong [of t s] by (simp add: journal_ok_def writer_ok_def metas_ok_def starts_ok_def heads_log_def)
qed

lemma file_ok_cong: "(\<And>a. GetIOZone t a = GetIOZone s a) \<Longrightarrow> file_ok t zf = file_ok s zf"
  by (simp add: file_ok_def desc_ok_cong [of t s])

lemma objs_files: "files t = files s \<Longrightarrow> objs t = objs s"
  by (simp add: objs_def)

lemma desc_in_snapshot: "f \<in> objs s \<Longrightarrow> desc (zfiles s f) \<in> set (snapshot_of s)"
  by (force simp: objs_def snapshot_of_def)

text \<open>
  Writing the update record of a named file \<open>f\<close>. The names are already as they will be; with the extents of \<open>f\<close>
  synced they represent the database of the journal with the description of \<open>f\<close> replaced.
\<close>

lemma sync_journaled:
  fixes s :: "('d, 'a, 'm) ZenFS_scheme"
  assumes J: "journal_ok be media s es"
    and R: "represents persisted (upd_file f MetadataSynced s) ((journal_db es)(file_id (zfiles s f) \<mapsto> desc (zfiles s f)))"
    and old: "old_extents (file_id (zfiles s f)) (journal_db es) = take (unat (nr_synced_extents (zfiles s f))) (extents (zfiles s f))"
    and V: "valid_entry s (Update (unsynced (zfiles s f))) (journal_db es)"
    and ok: "\<forall>g\<in>objs s. file_ok s (zfiles s g)" and f: "f \<in> objs s" and fit: "fits s (Update (unsynced (zfiles s f)))"
    and per: "PersistRecord be (update_record False (zfiles s f)) s = Some (st, t)" "ok st"
  obtains es' where "crash_safe be media (upd_file f MetadataSynced t) es'" "journal_step media s t"
    "journal_db es' (file_id (zfiles s f)) = Some (desc (zfiles s f))" "desc (zfiles t f) = desc (zfiles s f)"
proof -
  let ?zf = "zfiles s f" and ?u = "upd_file f MetadataSynced t"
  let ?db = "(journal_db es)(file_id ?zf \<mapsto> desc ?zf)"
  have R0: "represents (\<lambda>zf d. desc zf = d) s (refresh (upd_file f MetadataSynced s) ?db)"
    by (rule represents_mono [OF represents_refresh [OF R]]) (simp_all add: objs_def split: if_splits)
  have dok: "\<forall>g\<in>objs s. desc_ok s (desc (zfiles s g))" using ok by (simp add: file_ok_def)
  note per' = per [unfolded update_record_entry]
  have ob: "objs ?u = objs s" if "journal_step media s t"
    using journal_stepD(6) [OF that] by (simp add: objs_def)
  have okt: "file_ok ?u (zfiles s g) = file_ok s (zfiles s g)" if "journal_step media s t" for g
    using file_ok_cong [of ?u s] journal_step_zones(2) [OF that] by (simp add: GetIOZone_def)
  have es1: "journal_db (es @ [Update (unsynced ?zf)]) = ?db"
    using old by (simp add: unsynced_def) (simp add: desc_def)
  have dist: "distinct (linkfiles (zfiles s g))" "length (extents (zfiles s g)) < 2 ^ 32" if "g \<in> objs s" for g
  proof -
    have "refresh (upd_file f MetadataSynced s) ?db (d_id (desc (zfiles s g))) = Some (desc (zfiles s g))"
      using snapshot_set [OF R0] desc_in_snapshot [OF that] by blast
    from representsD(6) [OF R0 this] show "distinct (linkfiles (zfiles s g))" by simp
    show "length (extents (zfiles s g)) < 2 ^ 32" using ok that by (simp add: file_ok_def)
  qed
  from J V fit R0 dok per' show thesis
  proof (cases rule: PersistRecord_journaled)
    case added
    show thesis
    proof (rule that [of "es @ [Update (unsynced ?zf)]"])
      have "represents persisted ?u ?db"
        by (rule represents_mono [OF R])
          (use added(3) journal_stepD(6) [OF added(1)] journal_step_zones(4) [OF added(1)] in simp_all)
      moreover have "journal_ok be media ?u (es @ [Update (unsynced ?zf)])"
        using added(2) journal_ok_stripped [of ?u t be media "es @ [Update (unsynced ?zf)]"] by simp
      ultimately show "crash_safe be media ?u (es @ [Update (unsynced ?zf)])"
        unfolding crash_safe_def es1 using ok ob [OF added(1)] okt [OF added(1)] added(3) by auto
      show "journal_db (es @ [Update (unsynced ?zf)]) (file_id ?zf) = Some (desc ?zf)" unfolding es1 by simp
    qed (use added in simp_all)
  next
    case rolled
    let ?S = "[Snapshot (snapshot_of s)]"
    note sv = snapshot_valid [OF R0 dok, of Map.empty]
    have z: "zfiles ?u g = MetadataSynced (zfiles s g)" if "g \<in> objs s" for g
      using that rolled(3) f by (simp add: sync_all_def)
    have jdb: "journal_db ?S = refresh (upd_file f MetadataSynced s) ?db" using sv(2) by simp
    show thesis
    proof (rule that [of ?S])
      have "represents persisted ?u (journal_db ?S)"
        unfolding jdb
        by (rule represents_mono [OF R0])
          (use journal_stepD(6) [OF rolled(1)] journal_step_zones(4) [OF rolled(1)] z dist persisted_synced in auto)
      moreover have "journal_ok be media ?u ?S" using rolled(2) journal_ok_stripped [of ?u t be media ?S] by simp
      ultimately show "crash_safe be media ?u ?S"
        unfolding crash_safe_def using ok ob [OF rolled(1)] okt [OF rolled(1)] z by auto
      show "journal_db ?S (file_id ?zf) = Some (desc ?zf)"
        unfolding jdb using snapshot_set [OF R0, of "desc ?zf"] desc_in_snapshot [OF f] by simp
      show "desc (zfiles t f) = desc ?zf" using rolled(3) by (simp add: sync_all_def)
    qed (rule rolled(1))
  qed
qed

section \<open>Operations on files\<close>

lemma named_obj:
  assumes rep: "represents persisted s db" and f: "f \<in> objs s"
  obtains d0 where "db (file_id (zfiles s f)) = Some d0" "persisted (zfiles s f) d0"
    "\<And>n. map_of (files s) n = Some f \<longleftrightarrow> n \<in> set (linkfiles (zfiles s f))" "linkfiles (zfiles s f) \<noteq> []" "f < next_ptr s"
    "distinct (linkfiles (zfiles s f))"
proof -
  obtain n where n: "map_of (files s) n = Some f" using f by (auto simp: objs_map_of [OF representsD(1) [OF rep]])
  obtain d where d: "db (file_id (zfiles s f)) = Some d" "persisted (zfiles s f) d" "n \<in> set (d_links d)"
    using representsD(2) [OF rep n] by blast
  obtain g where g: "\<And>n. map_of (files s) n = Some g \<longleftrightarrow> n \<in> set (d_links d)"
    by (rule represents_obj [OF rep d(1)]) (rule that)
  have "g = f" using g [of n] n d(3) by simp
  then have nm: "map_of (files s) m = Some f \<longleftrightarrow> m \<in> set (linkfiles (zfiles s f))" for m
    using g [of m] d(2) by (simp add: persisted_def)
  show thesis
  proof (rule that [OF d(1,2) nm])
    show "linkfiles (zfiles s f) \<noteq> []" using nm [of n] n by auto
    show "distinct (linkfiles (zfiles s f))" using d(2) by (simp add: persisted_def)
  qed (rule representsD(3) [OF rep n])
qed

lemma represents_free:
  assumes rep: "represents persisted s db" and d: "d_links d \<noteq> []" "distinct (d_links d)" "d_id d = file_id (zfiles s f)"
    and nm: "\<And>n. n \<in> set (d_links d) \<Longrightarrow> map_of (files s) n \<in> {None, Some f}"
  shows "free_links d db"
  unfolding free_links_def
proof (intro conjI allI impI)
  fix i d'
  assume i: "db i = Some d' \<and> i \<noteq> d_id d"
  then have di: "db i = Some d'" by simp
  obtain g where g: "file_id (zfiles s g) = i" "\<And>n. map_of (files s) n = Some g \<longleftrightarrow> n \<in> set (d_links d')"
    by (rule represents_obj [OF rep di]) (rule that)
  have "g \<noteq> f" using g(1) d(3) i by auto
  then have "n \<notin> set (d_links d)" if "n \<in> set (d_links d')" for n
    using g(2) [of n] nm [of n] that by auto
  then show "set (d_links d') \<inter> set (d_links d) = {}" by blast
qed (rule d)+

lemma old_extents_persisted:
  "db (file_id zf) = Some d0 \<Longrightarrow> persisted zf d0 \<Longrightarrow> old_extents (file_id zf) db = take (unat (nr_synced_extents zf)) (extents zf)"
  by (simp add: old_extents_def persisted_def)

lemma unsynced_sel [simp]: "d_links (unsynced zf) = linkfiles zf" "d_id (unsynced zf) = file_id zf"
  by (simp_all add: unsynced_def desc_def)

lemma desc_ok_unsynced: "desc_ok s (desc zf) \<Longrightarrow> desc_ok s (unsynced zf)"
  by (auto simp: desc_ok_def unsynced_def dest: in_set_dropD)

text \<open>
  A change of the names of a file \<open>f\<close> to \<open>L\<close>, in memory and in the description of \<open>f\<close>: what is written to the
  journal afterwards describes it.
\<close>

lemma renamed_represents:
  fixes s t :: "('d, 'a, 'm) ZenFS_scheme"
  assumes rep: "represents persisted s db" and f: "f \<in> objs s" and srt: "sorted_map (files t)"
    and nm: "map_of (files t) = (\<lambda>n. if n \<in> set (linkfiles (zfiles t f)) then Some f
      else if map_of (files s) n = Some f then None else map_of (files s) n)"
    and zf: "\<And>g. g \<noteq> f \<Longrightarrow> zfiles t g = zfiles s g"
    and zt: "file_id (zfiles t f) = file_id (zfiles s f)" "linkfiles (zfiles t f) \<noteq> []" "distinct (linkfiles (zfiles t f))"
      "length (extents (zfiles t f)) < 2 ^ 32"
    and free: "\<And>n. n \<in> set (linkfiles (zfiles t f)) \<Longrightarrow> map_of (files s) n \<in> {None, Some f}"
    and ptr: "next_ptr s \<le> next_ptr t"
  shows "represents persisted (upd_file f MetadataSynced t) (db(file_id (zfiles t f) \<mapsto> desc (zfiles t f)))"
    "free_links (unsynced (zfiles t f)) db"
proof -
  obtain d0 where d0: "db (file_id (zfiles s f)) = Some d0" "persisted (zfiles s f) d0"
    "\<And>n. map_of (files s) n = Some f \<longleftrightarrow> n \<in> set (linkfiles (zfiles s f))" "f < next_ptr s"
    by (rule named_obj [OF rep f]) (rule that)
  have "represents persisted (upd_file f MetadataSynced t) (db(d_id (desc (zfiles t f)) \<mapsto> desc (zfiles t f)))"
    by (rule represents_put [OF rep, of _ _ f])
      (use srt nm zf zt free ptr d0 persisted_synced [OF zt(3,4)] in \<open>auto simp: persisted_def\<close>)
  then show "represents persisted (upd_file f MetadataSynced t) (db(file_id (zfiles t f) \<mapsto> desc (zfiles t f)))"
    by simp
  show "free_links (unsynced (zfiles t f)) db"
    by (rule represents_free [OF rep, of _ f]) (use zt free in simp_all)
qed

text \<open>The modification time is set before a record is written.\<close>

definition touch :: "'a aux_env \<Rightarrow> nat \<Rightarrow> ('d, 'a, 'm) ZenFS_scheme \<Rightarrow> ('d, 'a, 'm) ZenFS_scheme" where
  "touch env f s = upd_file f (SetFileModificationTime (env_time env (aux s))) s"

lemma touch_sel [simp]:
  "linkfiles (zfiles (touch env f s) f) = linkfiles (zfiles s f)" "file_id (zfiles (touch env f s) g) = file_id (zfiles s g)"
  "extents (zfiles (touch env f s) g) = extents (zfiles s g)" "is_deleted (zfiles (touch env f s) g) = is_deleted (zfiles s g)"
  "nr_synced_extents (zfiles (touch env f s) f) = nr_synced_extents (zfiles s f)"
  "files (touch env f s) = files s" "next_ptr (touch env f s) = next_ptr s" "g \<noteq> f \<Longrightarrow> zfiles (touch env f s) g = zfiles s g"
  "stripped (touch env f s) = stripped s" "objs (touch env f s) = objs s" "handles (touch env f s) = handles s"
  by (simp_all add: touch_def SetFileModificationTime_def objs_def)

lemma SyncFileMetadataNoLock_touch:
  "\<not> is_deleted (zfiles s f) \<Longrightarrow> SyncFileMetadataNoLock be env False f s =
     do {
       (st, s2) \<leftarrow> PersistRecord be (update_record False (zfiles (touch env f s) f)) (touch env f s);
       Some (st, if ok st then upd_file f MetadataSynced s2 else s2)
     }"
  by (simp add: SyncFileMetadataNoLock_def touch_def)

text \<open>
  \<open>renames f s s'\<close>: in memory, the file \<open>f\<close> gets other names, which were free or its own; nothing else changes.
\<close>

definition renames :: "nat \<Rightarrow> ('d, 'a, 'm) ZenFS_scheme \<Rightarrow> ('d, 'a, 'm) ZenFS_scheme \<Rightarrow> bool" where
  "renames f s s' \<longleftrightarrow>
     stripped s' = stripped s \<and> next_ptr s' = next_ptr s \<and> sorted_map (files s') \<and>
     (\<exists>L. zfiles s' = (zfiles s)(f := (zfiles s f)\<lparr>linkfiles := L\<rparr>) \<and> L \<noteq> [] \<and> distinct L \<and> links_ok L \<and>
        (\<forall>n\<in>set L. map_of (files s) n \<in> {None, Some f}) \<and>
        map_of (files s') = (\<lambda>n. if n \<in> set L then Some f else if map_of (files s) n = Some f then None else map_of (files s) n))"

lemma sync_named:
  fixes s s' :: "('d, 'a, 'm) ZenFS_scheme"
  assumes C: "crash_safe be media s es" and f: "f \<in> objs s" and ren: "renames f s s'"
    and fit: "fits (touch env f s') (Update (unsynced (zfiles (touch env f s') f)))"
    and run: "SyncFileMetadataNoLock be env False f s' = Some (st, t)" "ok st"
  obtains es' where "crash_safe be media t es'" "journal_db es' (file_id (zfiles s f)) = Some (desc (zfiles t f))"
    "journal_step media (touch env f s') t"
proof -
  let ?s = "touch env f s'"
  obtain L where zs: "zfiles s' = (zfiles s)(f := (zfiles s f)\<lparr>linkfiles := L\<rparr>)"
    and L: "L \<noteq> []" "distinct L" "links_ok L" "\<And>n. n \<in> set L \<Longrightarrow> map_of (files s) n \<in> {None, Some f}"
    and nm: "map_of (files s') = (\<lambda>n. if n \<in> set L then Some f else if map_of (files s) n = Some f then None else map_of (files s) n)"
    and st: "stripped s' = stripped s" "next_ptr s' = next_ptr s" "sorted_map (files s')"
    using ren unfolding renames_def by blast
  have J: "journal_ok be media s es" and rep: "represents persisted s (journal_db es)" and ok: "\<forall>g\<in>objs s. file_ok s (zfiles s g)"
    using C by (simp_all add: crash_safe_def)
  obtain d0 where d0: "(journal_db es) (file_id (zfiles s f)) = Some d0" "persisted (zfiles s f) d0"
    by (rule named_obj [OF rep f]) (rule that)
  have links: "linkfiles (zfiles ?s f) = L" "nr_synced_extents (zfiles ?s f) = nr_synced_extents (zfiles s f)"
    "file_id (zfiles ?s f) = file_id (zfiles s f)" "extents (zfiles ?s f) = extents (zfiles s f)"
    by (simp_all add: zs)
  have others: "zfiles ?s g = zfiles s g" if "g \<noteq> f" for g using that by (simp add: zs)
  have ob: "objs ?s - {f} = objs s - {f}" "f \<in> objs ?s"
    using objs_put [OF representsD(1) [OF rep], of ?s "set L" f] st(3) nm L by simp_all
  have gz: "\<And>a. GetIOZone ?s a = GetIOZone s a"
    using st(1) stripped_sel(9) [of ?s s] by simp
  have "length (extents (zfiles s f)) < 2 ^ 32" "desc_ok s (desc (zfiles s f))" "\<not> is_deleted (zfiles s f)"
    using ok f by (simp_all add: file_ok_def)
  then have okf: "file_ok ?s (zfiles ?s f)" "length (extents (zfiles ?s f)) < 2 ^ 32" "\<not> is_deleted (zfiles s' f)"
    using links L(3) by (simp_all add: file_ok_def desc_ok_def located_def gz zs)
  have okg: "\<forall>g\<in>objs ?s. file_ok ?s (zfiles ?s g)"
  proof
    fix g assume "g \<in> objs ?s"
    with ob okf(1) ok others file_ok_cong [OF gz] show "file_ok ?s (zfiles ?s g)" by (cases "g = f") auto
  qed
  note R = renamed_represents [where t = ?s, OF rep f]
  have R: "represents persisted (upd_file f MetadataSynced ?s) ((journal_db es)(file_id (zfiles ?s f) \<mapsto> desc (zfiles ?s f)))"
    "free_links (unsynced (zfiles ?s f)) (journal_db es)"
    by (rule R; use st(2,3) nm others links L okf(2) in simp)+
  have J': "journal_ok be media ?s es" using journal_ok_stripped [of ?s s] J st(1) by simp
  have V: "valid_entry ?s (Update (unsynced (zfiles ?s f))) (journal_db es)"
    using R(2) desc_ok_unsynced [of ?s "zfiles ?s f"] okf(1) d0(1) links by (simp add: file_ok_def)
  have old: "old_extents (file_id (zfiles ?s f)) (journal_db es) = take (unat (nr_synced_extents (zfiles ?s f))) (extents (zfiles ?s f))"
    using old_extents_persisted [where db = "journal_db es", OF d0] unfolding links .
  obtain u where u: "PersistRecord be (update_record False (zfiles ?s f)) ?s = Some (st, u)" "t = upd_file f MetadataSynced u"
    using run by (auto simp: SyncFileMetadataNoLock_touch [OF okf(3)] split: Option.bind_splits if_splits)
  obtain es' where es': "crash_safe be media (upd_file f MetadataSynced u) es'" "journal_step media ?s u"
    "journal_db es' (file_id (zfiles ?s f)) = Some (desc (zfiles ?s f))" "desc (zfiles u f) = desc (zfiles ?s f)"
    by (rule sync_journaled [OF J' R(1) old V okg ob(2) fit u(1) run(2)]) (rule that)
  have "journal_step media u t"
    unfolding u(2) by (rule journal_step_file [OF journal_stepD(1) [OF es'(2)]]) simp
  from journal_step_trans [OF es'(2) this] es' u(2) links(3) show thesis by (intro that [of es']) simp_all
qed

text \<open>Nothing is renamed when a file is synced.\<close>

lemma renames_refl:
  assumes "crash_safe be media s es" and "f \<in> objs s"
  shows "renames f s s"
proof -
  have rep: "represents persisted s (journal_db es)" and ok: "file_ok s (zfiles s f)"
    using assms by (simp_all add: crash_safe_def)
  obtain d0 where "\<And>n. map_of (files s) n = Some f \<longleftrightarrow> n \<in> set (linkfiles (zfiles s f))" "linkfiles (zfiles s f) \<noteq> []"
    "distinct (linkfiles (zfiles s f))"
    by (rule named_obj [OF rep assms(2)]) (rule that)
  with ok representsD(1) [OF rep] show ?thesis
    unfolding renames_def by (intro conjI exI [of _ "linkfiles (zfiles s f)"]) (auto simp: file_ok_def desc_ok_def fun_eq_iff)
qed

text \<open>Changes of objects that have no name.\<close>

lemma crash_safe_unnamed:
  fixes s t :: "('d, 'a, 'm) ZenFS_scheme"
  assumes C: "crash_safe be media s es" and st: "stripped t = stripped s" "files t = files s" "next_ptr t = next_ptr s"
    and zf: "\<And>g. g \<in> objs s \<Longrightarrow> zfiles t g = zfiles s g"
  shows "crash_safe be media t es"
proof -
  have "represents persisted t (journal_db es)"
    by (rule represents_mono [where s = s and P = persisted]) (use C st zf in \<open>auto simp: crash_safe_def\<close>)
  moreover have "file_ok t zf = file_ok s zf" for zf using file_ok_cong stripped_sel(9) [OF st(1)] by blast
  ultimately show ?thesis
    using C zf journal_ok_stripped [OF st(1)] objs_files [OF st(2)] by (simp add: crash_safe_def)
qed

lemma crash_safe_drop:
  assumes "crash_safe be media s es"
  shows "crash_safe be media (drop_file f s) es" "files (drop_file f s) = files s"
proof -
  show "files (drop_file f s) = files s" by (simp add: drop_file_def ClearExtents_adj)
  show "crash_safe be media (drop_file f s) es"
  proof (cases "referenced f s")
    case False
    then have "f \<notin> objs s" by (simp add: referenced_def objs_def)
    then show ?thesis
      by (intro crash_safe_unnamed [OF assms]) (auto simp: drop_file_def ClearExtents_adj)
  qed (simp add: drop_file_def assms)
qed

text \<open>A path that is in the form the file system gives it.\<close>

definition formatted :: "string \<Rightarrow> bool" where
  "formatted name \<longleftrightarrow> FormatPathLexically name = name"

lemma GetFile_formatted: "formatted name \<Longrightarrow> GetFileNoLock name s = map_of (files s) name"
  by (simp add: GetFileNoLock_def formatted_def)

text \<open>The state in which the record of a deletion is written.\<close>

definition unlinked :: "string \<Rightarrow> nat \<Rightarrow> ('d, 'a, 'm) ZenFS_scheme \<Rightarrow> ('d, 'a, 'm) ZenFS_scheme" where
  "unlinked name f s =
     upd_file f (\<lambda>zf. zf\<lparr>linkfiles := remove1 name (linkfiles zf)\<rparr>) (s\<lparr>files := map_erase name (files s)\<rparr>)"

lemma unlinked_sel [simp]:
  "zfiles (unlinked name f s) g = (if g = f then (zfiles s f)\<lparr>linkfiles := remove1 name (linkfiles (zfiles s f))\<rparr> else zfiles s g)"
  "files (unlinked name f s) = map_erase name (files s)" "next_ptr (unlinked name f s) = next_ptr s"
  "stripped (unlinked name f s) = stripped s"
  by (simp_all add: unlinked_def)

text \<open>After the log was rolled over, the snapshot in it is what there is in memory.\<close>

lemma rolled_crash_safe:
  fixes s t :: "('d, 'a, 'm) ZenFS_scheme"
  assumes R0: "represents (\<lambda>zf d. desc zf = d) s db" and ok: "\<forall>g\<in>objs s. file_ok s (zfiles s g)"
    and t: "journal_step media s t" "journal_ok be media t [Snapshot (snapshot_of s)]" "zfiles t = sync_all s"
  shows "crash_safe be media t [Snapshot (snapshot_of s)]" "journal_db [Snapshot (snapshot_of s)] = db"
proof -
  have dok: "\<forall>g\<in>objs s. desc_ok s (desc (zfiles s g))" using ok by (simp add: file_ok_def)
  have z: "persisted (zfiles t g) (desc (zfiles s g))" "zfiles t g = MetadataSynced (zfiles s g)" if "g \<in> objs s" for g
    using that t(3) ok representsD(6) [OF R0, of "file_id (zfiles s g)" "desc (zfiles s g)"]
      snapshot_set [OF R0, of "desc (zfiles s g)"] desc_in_snapshot [OF that] persisted_synced [of "zfiles s g"]
    by (simp_all add: sync_all_def file_ok_def)
  have okt: "file_ok t zf = file_ok s zf" for zf
    using file_ok_cong [of t s] journal_step_zones(2) [OF t(1)] by blast
  show db: "journal_db [Snapshot (snapshot_of s)] = db" using snapshot_valid(2) [OF R0 dok, of Map.empty] by simp
  have "represents persisted t db"
    by (rule represents_mono [OF R0]) (use z journal_stepD(6) [OF t(1)] journal_step_zones(4) [OF t(1)] in auto)
  with t ok okt z objs_files [OF journal_stepD(6) [OF t(1)]] show "crash_safe be media t [Snapshot (snapshot_of s)]"
    unfolding crash_safe_def db by simp
qed

text \<open>Writing a record that takes the database to what the state in memory represents already.\<close>

lemma persist_crash_safe:
  fixes s :: "('d, 'a, 'm) ZenFS_scheme"
  assumes J: "journal_ok be media s es" and R: "represents persisted s (apply_entry e (journal_db es))"
    and V: "valid_entry s e (journal_db es)" and ok: "\<forall>g\<in>objs s. file_ok s (zfiles s g)" and fit: "fits s e"
    and per: "PersistRecord be (encode_entry e) s = Some (st, t)" "ok st"
  shows "\<exists>es'. crash_safe be media t es' \<and> journal_step media s t"
proof -
  note R0 = represents_refresh [OF R]
  have dok: "\<forall>g\<in>objs s. desc_ok s (desc (zfiles s g))" using ok by (simp add: file_ok_def)
  have okt: "file_ok t zf = file_ok s zf" if "journal_step media s t" for zf
    using file_ok_cong [of t s] journal_step_zones(2) [OF that] by blast
  from J V fit R0 dok per show ?thesis
  proof (cases rule: PersistRecord_journaled)
    case added
    have "represents persisted t (journal_db (es @ [e]))"
      using represents_mono [OF R, of t persisted] added(3) journal_stepD(6) [OF added(1)] journal_step_zones(4) [OF added(1)] by simp
    with added ok okt [OF added(1)] objs_files [OF journal_stepD(6) [OF added(1)]]
    have "crash_safe be media t (es @ [e])" by (simp add: crash_safe_def)
    with added(1) show ?thesis by blast
  next
    case rolled
    note rolled_crash_safe [OF R0 ok rolled(1-3)]
    with rolled(1) show ?thesis by blast
  qed
qed

lemma unlinked_represents:
  assumes rep: "represents persisted s db" and n: "map_of (files s) name = Some f"
  shows "represents persisted (unlinked name f s) (apply_entry (Deletion (file_id (zfiles s f)) name) db)"
    "\<exists>d. db (file_id (zfiles s f)) = Some d \<and> name \<in> set (d_links d)" "objs (unlinked name f s) \<subseteq> objs s"
proof -
  have f: "f \<in> objs s" using n by (auto simp: objs_map_of [OF representsD(1) [OF rep]])
  obtain d where d: "db (file_id (zfiles s f)) = Some d" "persisted (zfiles s f) d"
    "\<And>n. map_of (files s) n = Some f \<longleftrightarrow> n \<in> set (linkfiles (zfiles s f))" "f < next_ptr s"
    "distinct (linkfiles (zfiles s f))"
    by (rule named_obj [OF rep f]) (rule that)
  let ?t = "unlinked name f s" and ?L = "remove1 name (d_links d)"
  have dl: "set (d_links d) = set (linkfiles (zfiles s f))" "distinct (d_links d)" "d_id d = file_id (zfiles s f)"
    using d(2) representsD(6) [OF rep d(1)] by (simp_all add: persisted_def)
  show "\<exists>d. db (file_id (zfiles s f)) = Some d \<and> name \<in> set (d_links d)" using d(1,3) n dl(1) by blast
  have srt: "sorted_map (files ?t)" using map_erase_sorted [OF representsD(1) [OF rep]] by (simp add: unlinked_def)
  have nm: "map_of (files ?t) x = (if x \<in> set ?L then Some f else if map_of (files s) x = Some f then None else map_of (files s) x)" for x
    using d(3) [of x] d(3) [of name] n dl(1,2) by (auto simp: unlinked_def map_of_map_erase)
  have "\<And>x. x \<in> set ?L \<Longrightarrow> map_of (files s) x \<in> {None, Some f}" using d(3) dl by auto
  note o = objs_put [OF representsD(1) [OF rep] srt nm this]
  then show "objs ?t \<subseteq> objs s" using f by blast
  show "represents persisted ?t (apply_entry (Deletion (file_id (zfiles s f)) name) db)"
  proof (cases "?L = []")
    case False
    have "represents persisted ?t (db(d_id (d\<lparr>d_links := ?L\<rparr>) \<mapsto> d\<lparr>d_links := ?L\<rparr>))"
      by (rule represents_put [OF rep srt, of _ f])
        (use nm d dl False in \<open>auto simp: unlinked_def persisted_def\<close>)
    with d(1) dl(3) False show ?thesis by (simp add: Let_def)
  next
    case True
    have "represents persisted ?t (db(file_id (zfiles s f) := None))"
      by (rule represents_remove [OF rep srt, of f]) (use nm d dl True in \<open>auto simp: unlinked_def fun_eq_iff\<close>)
    with d(1) True show ?thesis by (simp add: Let_def)
  qed
qed

lemma delete_persist:
  assumes n: "map_of (files s) name = Some f" "name \<in> set (linkfiles (zfiles s f))" and fm: "formatted name"
    and run: "DeleteFileNoLock be env name s = Some (st, t)" "ok st"
  obtains v where "PersistRecord be (encode_entry (Deletion (file_id (zfiles s f)) name)) (unlinked name f s) = Some (st, v)"
    "t = drop_file f v \<or> t = drop_file f (upd_file f SetDeleted v)" "GetNrLinks (zfiles v f) = 0 \<or> t = drop_file f v"
  using run n fm
  by (auto simp: DeleteFileNoLock_def GetFile_formatted formatted_def RemoveLinkName_def deletion_entry unlinked_def upd_file_def
      Let_def split: Option.bind_splits if_splits)

lemma DeleteFileNoLock_crash_safe:
  fixes s :: "('d, 'a, 'm) ZenFS_scheme"
  assumes C: "crash_safe be media s es" and n: "map_of (files s) name = Some f" and fm: "formatted name"
    and fit: "fits (unlinked name f s) (Deletion (file_id (zfiles s f)) name)"
    and run: "DeleteFileNoLock be env name s = Some (st, t)" "ok st"
  shows "\<exists>es'. crash_safe be media t es' \<and> files t = map_erase name (files s) \<and> (\<forall>g. file_id (zfiles t g) = file_id (zfiles s g))"
proof -
  have J: "journal_ok be media s es" and rep: "represents persisted s (journal_db es)" and ok: "\<forall>g\<in>objs s. file_ok s (zfiles s g)"
    using C by (simp_all add: crash_safe_def)
  have f: "f \<in> objs s" using n by (auto simp: objs_map_of [OF representsD(1) [OF rep]])
  let ?u = "unlinked name f s" and ?e = "Deletion (file_id (zfiles s f)) name"
  note U = unlinked_represents [OF rep n]
  have str: "stripped ?u = stripped s" by simp
  obtain d where d: "journal_db es (file_id (zfiles s f)) = Some d" "name \<in> set (d_links d)" using U(2) by blast
  have nl: "name \<in> set (linkfiles (zfiles s f))"
    by (rule named_obj [OF rep f]) (use n in blast)
  have V: "valid_entry ?u ?e (journal_db es)"
    using ok f nl d by (auto simp: file_ok_def desc_ok_def links_ok_def)
  have J': "journal_ok be media ?u es" using J journal_ok_stripped [OF str] by simp
  have gz: "\<And>a. GetIOZone ?u a = GetIOZone s a" by (rule stripped_sel(9) [OF str])
  have oku: "\<forall>g\<in>objs ?u. file_ok ?u (zfiles ?u g)"
  proof
    fix g assume "g \<in> objs ?u"
    then have "file_ok s (zfiles s g)" using U(3) ok by blast
    then show "file_ok ?u (zfiles ?u g)"
      by (cases "g = f") (auto simp: file_ok_def desc_ok_def located_def gz links_ok_def dest: set_remove1_subset [THEN subsetD])
  qed
  obtain v where v: "PersistRecord be (encode_entry ?e) ?u = Some (st, v)"
    "t = drop_file f v \<or> t = drop_file f (upd_file f SetDeleted v)" "GetNrLinks (zfiles v f) = 0 \<or> t = drop_file f v"
    by (rule delete_persist [OF n nl fm run]) (rule that)
  obtain es' where es': "crash_safe be media v es'" "journal_step media ?u v"
    using persist_crash_safe [OF J' U(1) V oku fit v(1) run(2)] by blast
  have fv: "files v = map_erase name (files s)" using journal_stepD(6) [OF es'(2)] by simp
  have "crash_safe be media (upd_file f SetDeleted v) es'" if "GetNrLinks (zfiles v f) = 0"
  proof (rule crash_safe_unnamed [OF es'(1)])
    have repv: "represents persisted v (journal_db es')" using es'(1) by (simp add: crash_safe_def)
    have "f \<notin> objs v" using named_obj [OF repv, of f] that by (auto simp: GetNrLinks_def)
    then show "zfiles (upd_file f SetDeleted v) g = zfiles v g" if "g \<in> objs v" for g using that by auto
  qed simp_all
  with v(2,3) crash_safe_drop [of be media _ es' f] es'(1) fv
  have "crash_safe be media t es'" "files t = map_erase name (files s)" by fastforce+
  moreover have "file_sim (zfiles ?u g) (zfiles v g)" for g
    using es'(2) unfolding journal_step_def meta_frame_def by blast
  then have "file_id (zfiles v g) = file_id (zfiles s g)" for g using file_sim_sel(9) [of "zfiles ?u g" "zfiles v g"] by simp
  then have "file_id (zfiles t g) = file_id (zfiles s g)" for g
    using v(2) by (auto simp: drop_file_def ClearExtents_adj SetDeleted_def)
  ultimately show ?thesis by blast
qed

text \<open>A file gets a new name for an old one, or one more.\<close>

definition moved :: "string \<Rightarrow> string \<Rightarrow> nat \<Rightarrow> ('d, 'a, 'm) ZenFS_scheme \<Rightarrow> ('d, 'a, 'm) ZenFS_scheme" where
  "moved src dst f s =
     upd_file f (\<lambda>zf. zf\<lparr>linkfiles := remove1 src (linkfiles zf) @ [dst]\<rparr>)
       (s\<lparr>files := map_insert dst f (map_erase src (files s))\<rparr>)"

definition linked :: "string \<Rightarrow> nat \<Rightarrow> ('d, 'a, 'm) ZenFS_scheme \<Rightarrow> ('d, 'a, 'm) ZenFS_scheme" where
  "linked lname f s = (upd_file f (AddLinkName lname) s)\<lparr>files := map_insert lname f (files s)\<rparr>"

definition name_ok :: "string \<Rightarrow> bool" where
  "name_ok n \<longleftrightarrow> n \<noteq> [] \<and> length n < 2 ^ 32"

lemma renames_moved:
  assumes C: "crash_safe be media s es" and n: "map_of (files s) src = Some f" and dst: "map_of (files s) dst = None" "name_ok dst"
  shows "renames f s (moved src dst f s)" "f \<in> objs s"
proof -
  have rep: "represents persisted s (journal_db es)" and ok: "\<forall>g\<in>objs s. file_ok s (zfiles s g)"
    using C by (simp_all add: crash_safe_def)
  show f: "f \<in> objs s" using n by (auto simp: objs_map_of [OF representsD(1) [OF rep]])
  obtain d where d: "\<And>n. map_of (files s) n = Some f \<longleftrightarrow> n \<in> set (linkfiles (zfiles s f))" "distinct (linkfiles (zfiles s f))"
    by (rule named_obj [OF rep f]) (rule that)
  let ?L = "remove1 src (linkfiles (zfiles s f)) @ [dst]"
  have "dst \<notin> set (linkfiles (zfiles s f))" using d(1) [of dst] dst(1) by simp
  then have L: "distinct ?L" "\<forall>n\<in>set ?L. map_of (files s) n \<in> {None, Some f}" using d dst(1) by auto
  have "links_ok ?L"
    using ok f dst(2) by (auto simp: file_ok_def desc_ok_def links_ok_def name_ok_def dest: set_remove1_subset [THEN subsetD])
  moreover have "map_of (files (moved src dst f s)) x
      = (if x \<in> set ?L then Some f else if map_of (files s) x = Some f then None else map_of (files s) x)" for x
    using d(1) [of x] d(1) [of src] d(2) n dst(1) representsD(1) [OF rep]
    by (auto simp: moved_def map_of_map_insert map_erase_sorted map_of_map_erase)
  ultimately show "renames f s (moved src dst f s)"
    unfolding renames_def using L representsD(1) [OF rep]
    by (intro conjI exI [of _ ?L]) (auto simp: moved_def map_insert_sorted map_erase_sorted)
qed

lemma renames_linked:
  assumes C: "crash_safe be media s es" and n: "map_of (files s) name = Some f" and lname: "map_of (files s) lname = None" "name_ok lname"
  shows "renames f s (linked lname f s)" "f \<in> objs s"
proof -
  have rep: "represents persisted s (journal_db es)" and ok: "\<forall>g\<in>objs s. file_ok s (zfiles s g)"
    using C by (simp_all add: crash_safe_def)
  show f: "f \<in> objs s" using n by (auto simp: objs_map_of [OF representsD(1) [OF rep]])
  obtain d where d: "\<And>n. map_of (files s) n = Some f \<longleftrightarrow> n \<in> set (linkfiles (zfiles s f))" "distinct (linkfiles (zfiles s f))"
    by (rule named_obj [OF rep f]) (rule that)
  let ?L = "linkfiles (zfiles s f) @ [lname]"
  have "lname \<notin> set (linkfiles (zfiles s f))" using d(1) [of lname] lname(1) by simp
  then have L: "distinct ?L" "\<forall>n\<in>set ?L. map_of (files s) n \<in> {None, Some f}" using d lname(1) by auto
  have "links_ok ?L"
    using ok f lname(2) by (auto simp: file_ok_def desc_ok_def links_ok_def name_ok_def)
  moreover have "map_of (files (linked lname f s)) x
      = (if x \<in> set ?L then Some f else if map_of (files s) x = Some f then None else map_of (files s) x)" for x
    using d(1) [of x] lname(1) representsD(1) [OF rep] by (auto simp: linked_def map_of_map_insert)
  ultimately show "renames f s (linked lname f s)"
    unfolding renames_def using L representsD(1) [OF rep]
    by (intro conjI exI [of _ ?L]) (auto simp: linked_def AddLinkName_def map_insert_sorted)
qed

lemma rename_file_free:
  assumes n: "src \<in> set (linkfiles (zfiles s f))" and dst: "formatted dst" "map_of (files s) dst = None"
  shows "rename_file be env f src dst s =
    do {
      (st, s4) \<leftarrow> SyncFileMetadataNoLock be env False f (moved src dst f s);
      if \<not> ok st
      then
        (let s5 = s4\<lparr>files := map_erase dst (files s4)\<rparr>;
             (st, zf) = RenameLink dst src (zfiles s5 f)
         in if \<not> ok st then Some (st, drop_file f s5)
            else
              (let s6 = upd_file f (\<lambda>_. zf) s5
               in Some (st, s6\<lparr>files := map_insert src f (files s6)\<rparr>)))
      else Some (st, s4)
    }"
proof -
  have "(upd_file f (\<lambda>_. (zfiles s f)\<lparr>linkfiles := remove1 src (linkfiles (zfiles s f)) @ [dst]\<rparr>) s)
      \<lparr>files := map_insert dst f (map_erase src (files s))\<rparr> = moved src dst f s"
    by (simp add: moved_def upd_file_def)
  with n dst show ?thesis
    unfolding rename_file_def by (simp add: GetFile_formatted RenameLink_def Let_def)
qed

text \<open>Writing the record of a file with changed names always returns; when it succeeds the journal is up to date.\<close>

lemma sync_names:
  assumes C: "crash_safe be media s es" and ren: "renames f s s'"
  obtains st t where "SyncFileMetadataNoLock be env False f s' = Some (st, t)" "files t = files s'"
    "linkfiles (zfiles t f) = linkfiles (zfiles s' f)" "\<And>g. file_id (zfiles t g) = file_id (zfiles s g)"
proof -
  have str: "stripped s' = stripped s" using ren by (simp add: renames_def)
  have ids: "file_id (zfiles s' g) = file_id (zfiles s g)" for g using ren by (auto simp: renames_def)
  have "journal_ok be media s' es" using C journal_ok_stripped [OF str] by (simp add: crash_safe_def)
  then have w: "writer_ok be media s'" "geometry s'" by (simp_all add: journal_ok_def)
  obtain st t where t: "SyncFileMetadata be env False f s' = Some (st, t)" "journal_step media s' t"
    by (rule SyncFileMetadata_journal [OF w])
  have "file_sim (zfiles s' g) (zfiles t g)" for g using t(2) by (simp add: journal_step_def meta_frame_def)
  from file_sim_sel(2) [OF this, of f] file_sim_sel(9) [OF this] t(1) ids journal_stepD(6) [OF t(2)] show thesis
    by (intro that [of st t]) (simp_all add: SyncFileMetadata_def)
qed

lemma rename_failed:
  assumes C: "crash_safe be media s es" and n: "map_of (files s) src = Some f"
    and dst: "map_of (files s) dst = None" "name_ok dst" "formatted dst"
    and sync: "SyncFileMetadataNoLock be env False f (moved src dst f s) = Some (st4, s4)" "\<not> ok st4"
  obtains st t where "rename_file be env f src dst s = Some (st, t)" "map_of (files t) = map_of (files s)" "ok st"
    "\<And>g. file_id (zfiles t g) = file_id (zfiles s g)"
proof -
  have rep: "represents persisted s (journal_db es)" using C by (simp add: crash_safe_def)
  note srt = representsD(1) [OF rep] and ren = renames_moved [OF C n dst(1,2)]
  have src: "src \<in> set (linkfiles (zfiles s f))" by (rule named_obj [OF rep ren(2)]) (use n in blast)
  have s4: "files s4 = map_insert dst f (map_erase src (files s))" "dst \<in> set (linkfiles (zfiles s4 f))"
      "\<And>g. file_id (zfiles s4 g) = file_id (zfiles s g)"
    by (rule sync_names [OF C ren(1), of env], use sync(1) in \<open>auto simp: moved_def\<close>)+
  let ?m = "map_insert src f (map_erase dst (files s4))"
  have "sorted_map (map_erase dst (files s4))" using srt s4(1) by (simp add: map_erase_sorted map_insert_sorted)
  then have "map_of ?m x = map_of (files s) x" for x
    using n dst(1) srt by (auto simp: s4(1) map_of_map_insert map_of_map_erase map_erase_sorted)
  then have "map_of ?m = map_of (files s)" by blast
  moreover have "\<exists>t. rename_file be env f src dst s = Some (OK, t) \<and> files t = ?m \<and> (\<forall>g. file_id (zfiles t g) = file_id (zfiles s g))"
    using sync s4(2,3) by (auto simp: rename_file_free [OF src dst(3,1)] RenameLink_def Let_def)
  ultimately show thesis using that by auto
qed

lemma rename_crash_safe:
  fixes s :: "('d, 'a, 'm) ZenFS_scheme"
  assumes C: "crash_safe be media s es" and n: "map_of (files s) src = Some f"
    and dst: "map_of (files s) dst = None" "name_ok dst" "formatted dst"
    and fit: "fits (touch env f (moved src dst f s)) (Update (unsynced (zfiles (touch env f (moved src dst f s)) f)))"
  obtains st t where "rename_file be env f src dst s = Some (st, t)"
    "map_of (files t) dst = Some f \<and> (\<exists>es'. crash_safe be media t es' \<and> files t = map_insert dst f (map_erase src (files s))) \<or>
     map_of (files t) = map_of (files s)" "ok st" "\<And>g. file_id (zfiles t g) = file_id (zfiles s g)"
proof -
  have rep: "represents persisted s (journal_db es)" using C by (simp add: crash_safe_def)
  note srt = representsD(1) [OF rep] and ren = renames_moved [OF C n dst(1,2)]
  have src: "src \<in> set (linkfiles (zfiles s f))" by (rule named_obj [OF rep ren(2)]) (use n in blast)
  obtain st4 s4 where s4: "SyncFileMetadataNoLock be env False f (moved src dst f s) = Some (st4, s4)"
    and fs: "files s4 = map_insert dst f (map_erase src (files s))" and ids: "\<And>g. file_id (zfiles s4 g) = file_id (zfiles s g)"
    by (rule sync_names [OF C ren(1), of env]) (rule that, assumption, simp_all add: moved_def)
  show thesis
  proof (cases "ok st4")
    case True
    then have "\<exists>es'. crash_safe be media s4 es'" by (rule sync_named [OF C ren(2,1) fit s4]) blast
    moreover have "map_of (files s4) dst = Some f"
      using dst(1) srt by (auto simp: fs map_of_map_insert map_erase_sorted map_of_map_erase)
    ultimately show thesis
      using True fs s4 ids by (intro that [of st4 s4]) (auto simp: rename_file_free [OF src dst(3,1)])
  next
    case False
    show thesis by (rule rename_failed [OF C n dst s4 False]) (rule that, assumption, simp_all)
  qed
qed

lemma LinkFile_crash_safe:
  fixes s :: "('d, 'a, 'm) ZenFS_scheme"
  assumes C: "crash_safe be media s es" and n: "map_of (files s) name = Some f" "formatted name"
    and lname: "map_of (files s) lname = None" "name_ok lname" "formatted lname"
    and fit: "fits (touch env f (linked lname f s)) (Update (unsynced (zfiles (touch env f (linked lname f s)) f)))"
  obtains st t where "LinkFile be env name lname s = Some (st, t)"
    "(\<exists>es'. crash_safe be media t es' \<and> files t = map_insert lname f (files s)) \<or> map_of (files t) = map_of (files s)" "ok st"
    "\<And>g. file_id (zfiles t g) = file_id (zfiles s g)"
proof -
  note ren = renames_linked [OF C n(1) lname(1,2)]
  have srt: "sorted_map (files s)" using C representsD(1) unfolding crash_safe_def by blast
  have run: "LinkFile be env name lname s = do {
      (st, s3) \<leftarrow> SyncFileMetadataNoLock be env False f (linked lname f s);
      if \<not> ok st
      then
        (let (st, zf) = RemoveLinkName lname (zfiles s3 f)
         in if \<not> ok st then Some (st, s3)
            else (let s4 = upd_file f (\<lambda>_. zf) s3
                  in Some (st, s4\<lparr>files := map_erase lname (files s4)\<rparr>)))
      else Some (st, s3)
    }"
    using n lname by (simp add: LinkFile_def GetFile_formatted formatted_def Let_def linked_def upd_file_def)
  obtain st4 s4 where s4: "SyncFileMetadataNoLock be env False f (linked lname f s) = Some (st4, s4)"
    and fs: "files s4 = map_insert lname f (files s)" and lf: "lname \<in> set (linkfiles (zfiles s4 f))"
    and ids: "\<And>g. file_id (zfiles s4 g) = file_id (zfiles s g)"
    by (rule sync_names [OF C ren(1), of env]) (rule that, assumption, simp_all add: linked_def AddLinkName_def)
  have cs: "\<exists>es'. crash_safe be media s4 es'" if "ok st4" using that by (rule sync_named [OF C ren(2,1) fit s4]) blast
  have "map_of (map_erase lname (files s4)) = map_of (files s)"
    using lname(1) srt by (auto simp: fun_eq_iff fs map_of_map_insert map_of_map_erase)
  with cs fs lf ids show thesis
    by (cases "ok st4") (auto intro!: that simp: run s4 RemoveLinkName_def Let_def)
qed

section \<open>Freeing the space of deleted files\<close>

lemma reset_steps_frame:
  fixes s t :: "('d, 'a, 'm) ZenFS_scheme"
  assumes "reset_steps be s t"
  shows "files t = files s \<and> zfiles t = zfiles s \<and> next_ptr t = next_ptr s \<and> meta_zones t = meta_zones s \<and>
    meta_log t = meta_log s \<and> superblock t = superblock s \<and> zone_sz t = zone_sz s \<and> block_sz t = block_sz s \<and>
    next_file_id t = next_file_id s"
  using assms by (induction rule: reset_steps.induct) (simp_all add: reset_dev_def put_if_active_def PutActiveIOZoneToken_def upd_io_def)

lemma crash_safe_reset:
  fixes s t :: "('d, 'a, 'm) ZenFS_scheme"
  assumes C: "crash_safe be media s es" and step: "reset_steps be s t"
  shows "crash_safe be media t es"
proof -
  note f = reset_steps_frame [OF step] and z = reset_steps_zone [OF step]
  have J: "writer_ok be media s" "geometry s" "starts_ok be s" "zones_fit s" "valid_entries s es Map.empty" "\<exists>e\<in>set es. is_snapshot e"
    using C by (simp_all add: crash_safe_def journal_ok_def)
  then have dok: "device_ok be (zone_sz s) media" "metas_ok s" by (simp_all add: writer_ok_def)
  have starts: "map z_start (io_zones t) = map z_start (io_zones s)" using z by (intro nth_equalityI) simp_all
  have gz: "GetIOZone t a = GetIOZone s a" for a using f starts by (intro GetIOZone_cong) simp_all
  have geo: "geometry t" using geometry_cong [of t s] f starts J(2) by simp
  have same: "media (dev t) a = media (dev s) a" if "meta_addr s a" for a
  proof (rule reset_steps_media [OF step J(4)])
    show "\<forall>v. idle s v \<and> \<not> IsUsed (io_zones s ! v) \<longrightarrow> \<not> in_zone (zone_sz s) (io_zones s ! v) a"
      using that J(2) by (fastforce simp: meta_addr_def geometry_def apart_def in_zone_def idle_def)
  qed (use dok(1) in \<open>simp_all add: device_ok_def\<close>)
  have "log_has be media t recs" if has: "log_has be media s recs" for recs
  proof -
    obtain log where log: "meta_log s = Some log" "log_ok be log s" "z_busy (meta_zones s ! ml_zone log)"
        "log_holds media (unat (ml_bs log)) (meta_zones s ! ml_zone log) (dev s) recs" "\<forall>r\<in>set recs. small (ml_bs log) r"
      using has by (auto simp: log_has_def)
    have i: "ml_zone log < length (meta_zones s)" using log(2) by (simp add: log_ok_def)
    have "log_holds media (unat (ml_bs log)) (meta_zones s ! ml_zone log) (dev t) recs"
      by (rule log_holds_media [where sz = "zone_sz s", OF _ log(4)])
        (use dok(2) i same in \<open>auto simp: metas_ok_def meta_wf_def meta_addr_def\<close>)
    with log f show ?thesis by (simp add: log_has_def log_ok_def)
  qed
  moreover have "valid_entries t es Map.empty" using valid_entries_cong(2) [OF gz] J(5) by blast
  ultimately have "journal_ok be media t es"
    using C J geo f zones_fit_cong [OF starts] by (auto simp: crash_safe_def journal_ok_def writer_ok_def metas_ok_def starts_ok_def heads_log_def)
  moreover have "represents persisted t (journal_db es)"
    by (rule represents_mono [where s = s and P = persisted]) (use C f in \<open>simp_all add: crash_safe_def\<close>)
  moreover have "file_ok t zf = file_ok s zf" for zf using file_ok_cong gz by blast
  ultimately show ?thesis using C f objs_files [of t s] by (simp add: crash_safe_def)
qed

lemma ResetUnusedIOZones_crash_safe:
  fixes s t :: "('d, 'a, 'm) ZenFS_scheme"
  assumes "crash_safe be media s es" and "ResetUnusedIOZones be s = (st, t)"
  shows "crash_safe be media t es" "files t = files s"
proof -
  have r: "reset_steps be s t"
    using ResetUnusedIOZones_loop_steps [of be "[0..<length (io_zones s)]" s st t] assms(2)
    by (simp add: ResetUnusedIOZones_def)
  show "crash_safe be media t es" by (rule crash_safe_reset [OF assms(1) r])
  show "files t = files s" using reset_steps_frame [OF r] by simp
qed

section \<open>Creating a file\<close>

definition new_named :: "'a aux_env \<Rightarrow> bool \<Rightarrow> string \<Rightarrow> ('d, 'a, 'm) ZenFS_scheme \<Rightarrow> ZoneFile" where
  "new_named env use_direct_writes name s =
     typed_file use_direct_writes name
       (AddLinkName name (SetFileModificationTime (env_time env (aux s)) (new_ZoneFile (next_file_id s))))"

definition created :: "'a aux_env \<Rightarrow> bool \<Rightarrow> string \<Rightarrow> ('d, 'a, 'm) ZenFS_scheme \<Rightarrow> ('d, 'a, 'm) ZenFS_scheme" where
  "created env use_direct_writes name s =
     s\<lparr>next_file_id := next_file_id s + 1, zfiles := (zfiles s)(next_ptr s := new_named env use_direct_writes name s),
       next_ptr := next_ptr s + 1\<rparr>"

lemma new_named_sel [simp]:
  "linkfiles (new_named env udw name s) = [name]" "file_id (new_named env udw name s) = next_file_id s"
  "extents (new_named env udw name s) = []" "nr_synced_extents (new_named env udw name s) = 0"
  "is_deleted (new_named env udw name s) = False" "open_for_wr (new_named env udw name s) = False"
  by (simp_all add: new_named_def typed_file_def AddLinkName_def SetFileModificationTime_def new_ZoneFile_def SetSparse_def
      SetIOType_def)

lemma created_sel [simp]:
  "zfiles (created env udw name s) g = (if g = next_ptr s then new_named env udw name s else zfiles s g)"
  "files (created env udw name s) = files s" "next_ptr (created env udw name s) = next_ptr s + 1"
  "aux (created env udw name s) = aux s" "stripped (created env udw name s) = stripped s" "objs (created env udw name s) = objs s"
  "meta_log (created env udw name s) = meta_log s"
  by (simp_all add: created_def stripped_def objs_def)

text \<open>The new file is locked, gets its name, and the caller a handle.\<close>

definition named_new :: "string \<Rightarrow> nat \<Rightarrow> ('d, 'a, 'm) ZenFS_scheme \<Rightarrow> ('d, 'a, 'm) ZenFS_scheme" where
  "named_new name f s =
     add_handle f ((upd_file f (\<lambda>zf. zf\<lparr>open_for_wr := True\<rparr>) s)\<lparr>files := map_insert name f (files s)\<rparr>)"

lemma OpenWritableFile_new:
  assumes "formatted name" and "map_of (files s) name = None"
    and "SyncFileMetadataNoLock be env False (next_ptr s) (created env udw name s) = Some (st, v)" and "\<not> open_for_wr (zfiles v (next_ptr s))"
  obtains w where "OpenWritableFile be env mem name udw False s =
      Some (st, if ok st then Some w else None, if ok st then named_new name (next_ptr s) v else drop_file (next_ptr s) v)"
proof -
  have "snd (new_file (new_named env udw name s) (s\<lparr>next_file_id := next_file_id s + 1\<rparr>)) = created env udw name s"
    by (simp add: new_file_def created_def)
  moreover have "fst (new_file (new_named env udw name s) (s\<lparr>next_file_id := next_file_id s + 1\<rparr>)) = next_ptr s"
    by (simp add: new_file_def)
  ultimately have "new_file (new_named env udw name s) (s\<lparr>next_file_id := next_file_id s + 1\<rparr>) = (next_ptr s, created env udw name s)"
    by (metis prod.collapse)
  moreover have "named_new name (next_ptr s) v = add_handle (next_ptr s)
      ((upd_file (next_ptr s) (\<lambda>_. (zfiles v (next_ptr s))\<lparr>open_for_wr := True\<rparr>) v)\<lparr>files := map_insert name (next_ptr s) (files v)\<rparr>)"
    by (simp add: named_new_def upd_file_def)
  ultimately show thesis
    using assms by (intro that) (auto simp: OpenWritableFile_def GetFile_formatted formatted_def Let_def new_writable_def
        AcquireWRLock_def new_named_def)
qed

lemma crash_safe_handles: "crash_safe be media s es \<Longrightarrow> crash_safe be media (s\<lparr>handles := h\<rparr>) es"
proof -
  assume C: "crash_safe be media s es"
  have gz: "GetIOZone (s\<lparr>handles := h\<rparr>) a = GetIOZone s a" for a by (simp add: GetIOZone_def)
  have "journal_ok be media (s\<lparr>handles := h\<rparr>) es"
    using C valid_entries_cong(2) [OF gz] log_has_cong [of "s\<lparr>handles := h\<rparr>" s] geometry_cong [of "s\<lparr>handles := h\<rparr>" s]
    by (simp add: crash_safe_def journal_ok_def writer_ok_def metas_ok_def starts_ok_def zones_fit_def heads_log_def)
  moreover have "represents persisted (s\<lparr>handles := h\<rparr>) (journal_db es)"
    by (rule represents_mono [where s = s and P = persisted]) (use C in \<open>simp_all add: crash_safe_def\<close>)
  ultimately show ?thesis
    using C file_ok_cong [OF gz] objs_files [of "s\<lparr>handles := h\<rparr>" s] by (simp add: crash_safe_def)
qed

text \<open>
  The creation of a file is recorded before the file gets its name. When the record goes into the log, the name space
  with the new file is safe. When the log has to be rolled over, the snapshot is one of the name space without it.
\<close>

lemma create_persist:
  fixes s :: "('d, 'a, 'm) ZenFS_scheme"
  assumes C: "crash_safe be media s es" and name: "map_of (files s) name = None" "name_ok name"
    and fresh: "journal_db es (next_file_id s) = None"
  defines "f \<equiv> next_ptr s"
  assumes fit: "fits (touch env f (created env udw name s)) (Update (unsynced (zfiles (touch env f (created env udw name s)) f)))"
    and run: "SyncFileMetadataNoLock be env False f (created env udw name s) = Some (st, v)" "ok st"
  obtains (added) es' where "meta_log v = meta_log s" "files v = files s" "crash_safe be media (named_new name f v) es'"
    | (rolled) es' where "meta_log v \<noteq> meta_log s" "files v = files s" "crash_safe be media v es'" "journal_db es' (next_file_id s) = None"
proof -
  let ?c = "touch env f (created env udw name s)"
  let ?zf = "zfiles ?c f"
  have rep: "represents persisted s (journal_db es)" and ok: "\<forall>g\<in>objs s. file_ok s (zfiles s g)" and J: "journal_ok be media s es"
    using C by (simp_all add: crash_safe_def)
  have str: "stripped ?c = stripped s" by simp
  have nf: "f \<notin> objs s" using representsD(3) [OF rep] by (auto simp: objs_map_of [OF representsD(1) [OF rep]] f_def)
  have zc: "zfiles ?c g = zfiles s g" if "g \<in> objs s" for g
  proof -
    have "g \<noteq> f" using that nf by blast
    then show ?thesis by (simp add: f_def)
  qed
  have repc: "represents persisted ?c (journal_db es)"
    by (rule represents_mono [OF rep]) (use zc in simp_all)
  have okc: "\<forall>g\<in>objs ?c. file_ok ?c (zfiles ?c g)"
    using ok zc file_ok_cong [OF stripped_sel(9) [OF str]] by simp
  then have dok: "\<forall>g\<in>objs ?c. desc_ok ?c (desc (zfiles ?c g))" by (simp add: file_ok_def)
  have sel: "linkfiles ?zf = [name]" "file_id ?zf = next_file_id s" "extents ?zf = []" "\<not> is_deleted (zfiles (created env udw name s) f)"
    by (simp_all add: f_def)
  have free: "free_links (unsynced ?zf) (journal_db es)"
    by (rule represents_free [OF repc, of _ f]) (use sel name in \<open>simp_all\<close>)
  have V: "valid_entry ?c (Update (unsynced ?zf)) (journal_db es)"
    using free sel name(2) by (simp add: desc_ok_def unsynced_def links_ok_def name_ok_def)
  have J': "journal_ok be media ?c es" using J journal_ok_stripped [OF str] by simp
  obtain u where u: "PersistRecord be (encode_entry (Update (unsynced ?zf))) ?c = Some (st, u)" "v = upd_file f MetadataSynced u"
    using run by (auto simp: SyncFileMetadataNoLock_touch [OF sel(4)] update_record_entry split: Option.bind_splits if_splits)
  have ml: "meta_log ?c = meta_log s" by (rule stripped_sel(7) [OF str])
  have vl: "meta_log v = meta_log u" "files v = files u" "stripped v = stripped u" by (simp_all add: u(2) upd_file_def stripped_def)
  note R0 = represents_refresh [OF repc]
  from J' V fit R0 dok u(1) run(2) show thesis
  proof (cases rule: PersistRecord_journaled)
    case added
    note fu = journal_stepD(6) [OF added(1)] journal_step_zones(4) [OF added(1)]
    let ?e = "Update (unsynced ?zf)"
    define t where "t = (upd_file f (\<lambda>zf. zf\<lparr>open_for_wr := True\<rparr>) v)\<lparr>files := map_insert name f (files v)\<rparr>"
    have srt: "sorted_map (files s)" by (rule representsD(1) [OF rep])
    have es1: "journal_db (es @ [?e]) = (journal_db es)(d_id (desc ?zf) \<mapsto> desc ?zf)"
      using fresh sel by (simp add: old_extents_def unsynced_def) (simp add: desc_def)
    have st: "stripped t = stripped u" "next_ptr t = next_ptr s + 1" "files t = map_insert name f (files s)" "next_ptr ?c = next_ptr s + 1"
      using fu by (simp_all add: t_def u(2) upd_file_def stripped_def)
    have zt: "zfiles t f = (MetadataSynced ?zf)\<lparr>open_for_wr := True\<rparr>" "\<And>g. g \<noteq> f \<Longrightarrow> zfiles t g = zfiles ?c g"
      using added(3) by (simp_all add: t_def u(2))
    have nm: "map_of (files t) n = (if n = name then Some f else map_of (files s) n)" "map_of (files s) n \<noteq> Some f" for n
      using nf name(1) srt by (auto simp: st(3) map_of_map_insert objs_map_of [OF srt])
    have "represents persisted t ((journal_db es)(d_id (desc ?zf) \<mapsto> desc ?zf))"
      by (rule represents_put [OF repc, of _ _ f])
        (use srt st sel nm name(1) zt fresh in \<open>auto simp: map_insert_sorted persisted_def fun_eq_iff f_def\<close>)
    moreover have "file_ok t (zfiles t g)" if "g \<in> objs t" for g
    proof (cases "g = f")
      case True
      then show ?thesis using sel name(2) zt(1) by (simp add: file_ok_def desc_ok_def links_ok_def name_ok_def f_def)
    next
      case False
      with that have "g \<in> objs s" using nm srt st(3) by (auto simp: objs_map_of [OF srt] objs_map_of map_insert_sorted split: if_splits)
      moreover have "GetIOZone t a = GetIOZone ?c a" for a
        using stripped_sel(9) [OF st(1)] journal_step_zones(2) [OF added(1)] by simp
      ultimately show ?thesis using okc zt(2) [OF False] file_ok_cong [of t ?c] by simp
    qed
    ultimately have "crash_safe be media t (es @ [?e])"
      using added(2) journal_ok_stripped [OF st(1)] unfolding crash_safe_def es1 by blast
    then have "crash_safe be media (named_new name f v) (es @ [?e])"
      unfolding named_new_def add_handle_def t_def [symmetric] by (rule crash_safe_handles)
    then show thesis using that(1) added(5) ml vl fu by simp
  next
    case rolled
    note cs = rolled_crash_safe [OF R0 okc rolled(1-3)]
    note fu = journal_stepD(6) [OF rolled(1)]
    have "f \<notin> objs u" using nf fu by (simp add: objs_def)
    then have "crash_safe be media v [Snapshot (snapshot_of ?c)]"
      by (intro crash_safe_unnamed [OF cs(1)]) (auto simp: u(2) upd_file_def stripped_def)
    moreover have "journal_db [Snapshot (snapshot_of ?c)] (next_file_id s) = None"
      unfolding cs(2) using fresh by (simp add: refresh_def)
    ultimately show thesis using that(2) rolled(5) ml vl fu by simp
  qed
qed

end
