(* ===== verification/Remount.thy ===== *)
theory Remount
  imports CrashSafety
begin

text \<open>
  Mounting: \<^verbatim>\<open>Mount\<close> of \<^verbatim>\<open>plugin/zenfs/fs/fs_zenfs.cc\<close> looks for superblocks in all metadata zones and recovers from the log
  with the highest sequence number that has a snapshot. The journal of a file system that was cut off at any
  moment between two operations is found, and replaying it gives the name space as it was.
\<close>

section \<open>Scanning the metadata zones\<close>

text \<open>The records in metadata zone \<open>i\<close>, and a log that has read \<open>k\<close> of them.\<close>

definition zone_log :: "'d backend \<Rightarrow> ('d \<Rightarrow> u64 \<Rightarrow> byte) \<Rightarrow> ('d, 'm) ZBD_scheme \<Rightarrow> nat \<Rightarrow> bytes list \<Rightarrow> bool" where
  "zone_log be media s i recs \<longleftrightarrow>
     i < length (meta_zones s) \<and> 0 < block_sz s \<and> meta_zone_ok be (zone_sz s) (block_sz s) (meta_zones s ! i) \<and>
     log_holds media (unat (block_sz s)) (meta_zones s ! i) (dev s) recs \<and> (\<forall>r\<in>set recs. small (ucast (block_sz s)) r)"

definition log_pos :: "nat \<Rightarrow> bytes list \<Rightarrow> ('d, 'm) ZBD_scheme \<Rightarrow> nat \<Rightarrow> ZenMetaLog" where
  "log_pos k recs s i =
     \<lparr>ml_read_pos = z_start (meta_zones s ! i) + of_nat (length (records_bytes (unat (block_sz s)) (take k recs))), ml_zone = i,
      ml_bs = ucast (block_sz s)\<rparr>"

text \<open>What scanning and replaying change: the busy flags of metadata zones, and the files.\<close>

definition idle_zones :: "Zone list \<Rightarrow> Zone list" where
  "idle_zones zs = map (\<lambda>z. z\<lparr>z_busy := False\<rparr>) zs"

definition scanned :: "('d \<Rightarrow> u64 \<Rightarrow> byte) \<Rightarrow> ('d, 'a, 'm) ZenFS_scheme \<Rightarrow> ('d, 'a, 'm) ZenFS_scheme \<Rightarrow> bool" where
  "scanned media s t \<longleftrightarrow>
     (\<exists>d zs. stripped t = stripped (s\<lparr>dev := d, meta_zones := zs\<rparr>) \<and> media d = media (dev s) \<and>
        idle_zones zs = idle_zones (meta_zones s))"

lemma scanned_refl [simp]: "scanned media s s"
  unfolding scanned_def by (intro exI [of _ "dev s"] exI [of _ "meta_zones s"]) simp

lemma stripped_disk:
  "stripped (s\<lparr>dev := d, meta_zones := zs\<rparr>) = (stripped s)\<lparr>dev := d, meta_zones := zs\<rparr>"
  by (simp add: stripped_def)

lemma scanned_trans: "scanned media s t \<Longrightarrow> scanned media t u \<Longrightarrow> scanned media s u"
  unfolding scanned_def
proof (elim exE conjE)
  fix d zs d' zs'
  assume t: "stripped t = stripped (s\<lparr>dev := d, meta_zones := zs\<rparr>)" "media d = media (dev s)" "idle_zones zs = idle_zones (meta_zones s)"
    and u: "stripped u = stripped (t\<lparr>dev := d', meta_zones := zs'\<rparr>)" "media d' = media (dev t)" "idle_zones zs' = idle_zones (meta_zones t)"
  have "dev t = d" "meta_zones t = zs" using stripped_sel(1,2) [OF t(1)] by simp_all
  with t u show "\<exists>d zs. stripped u = stripped (s\<lparr>dev := d, meta_zones := zs\<rparr>) \<and> media d = media (dev s) \<and>
      idle_zones zs = idle_zones (meta_zones s)"
    by (intro exI [of _ d'] exI [of _ zs']) (simp add: stripped_disk)
qed

lemma idle_zones_eq:
  assumes "idle_zones zs = idle_zones zs'"
  shows "length zs = length zs'" "i < length zs' \<Longrightarrow> z_start (zs ! i) = z_start (zs' ! i)"
    "i < length zs' \<Longrightarrow> z_wp (zs ! i) = z_wp (zs' ! i)" "i < length zs' \<Longrightarrow> z_capacity (zs ! i) = z_capacity (zs' ! i)"
    "i < length zs' \<Longrightarrow> z_max_capacity (zs ! i) = z_max_capacity (zs' ! i)"
    "i < length zs' \<Longrightarrow> z_used_capacity (zs ! i) = z_used_capacity (zs' ! i)"
proof -
  show len: "length zs = length zs'" using arg_cong [OF assms, of length] by (simp add: idle_zones_def)
  have *: "(zs ! i)\<lparr>z_busy := False\<rparr> = (zs' ! i)\<lparr>z_busy := False\<rparr>" if "i < length zs'"
    using arg_cong [OF assms, of "\<lambda>x. x ! i"] that len by (simp add: idle_zones_def)
  show "z_start (zs ! i) = z_start (zs' ! i)" if "i < length zs'" using arg_cong [OF * [OF that], of z_start] by simp
  show "z_wp (zs ! i) = z_wp (zs' ! i)" if "i < length zs'" using arg_cong [OF * [OF that], of z_wp] by simp
  show "z_capacity (zs ! i) = z_capacity (zs' ! i)" if "i < length zs'" using arg_cong [OF * [OF that], of z_capacity] by simp
  show "z_max_capacity (zs ! i) = z_max_capacity (zs' ! i)" if "i < length zs'"
    using arg_cong [OF * [OF that], of z_max_capacity] by simp
  show "z_used_capacity (zs ! i) = z_used_capacity (zs' ! i)" if "i < length zs'"
    using arg_cong [OF * [OF that], of z_used_capacity] by simp
qed

lemma scannedD:
  assumes "scanned media s t"
  shows "media (dev t) = media (dev s)" "idle_zones (meta_zones t) = idle_zones (meta_zones s)" "block_sz t = block_sz s"
    "zone_sz t = zone_sz s" "nr_zones t = nr_zones s" "handles t = handles s" "aux t = aux s" "GetIOZone t a = GetIOZone s a"
proof -
  obtain d zs where t: "stripped t = stripped (s\<lparr>dev := d, meta_zones := zs\<rparr>)" "media d = media (dev s)"
    "idle_zones zs = idle_zones (meta_zones s)"
    using assms by (auto simp: scanned_def)
  note f = stripped_sel [OF t(1)]
  show "media (dev t) = media (dev s)" "idle_zones (meta_zones t) = idle_zones (meta_zones s)" "block_sz t = block_sz s"
    "zone_sz t = zone_sz s" "handles t = handles s" "aux t = aux s"
    using f t by simp_all
  show "nr_zones t = nr_zones s" using arg_cong [OF t(1), of nr_zones] by (simp add: stripped_def)
  show "GetIOZone t a = GetIOZone s a" using f(9) [of a] by (simp add: GetIOZone_def)
qed

lemma zone_log_scanned:
  assumes "scanned media s t" and "zone_log be media s i recs"
  shows "zone_log be media t i recs" "log_pos k recs t i = log_pos k recs s i"
proof -
  note f = scannedD [OF assms(1)] and z = idle_zones_eq [OF scannedD(2) [OF assms(1)]]
  have i: "i < length (meta_zones s)" using assms(2) by (simp add: zone_log_def)
  show "log_pos k recs t i = log_pos k recs s i" using f z(2) [OF i] by (simp add: log_pos_def)
  show "zone_log be media t i recs"
    using assms(2) f z(1) z(2-) [OF i] by (simp add: zone_log_def meta_zone_ok_def zone_wf_def log_holds_def stored_def)
qed

lemma log_pos_sel [simp]: "ml_zone (log_pos k recs s i) = i" "ml_bs (log_pos k recs s i) = ucast (block_sz s)"
  by (simp_all add: log_pos_def)

lemma log_posI:
  assumes "ml_zone log = i" and "ml_bs log = ucast (block_sz s)" and "log_at (meta_zones s ! i) recs k log"
  shows "log = log_pos k recs s i"
  using assms by (cases log) (simp add: log_pos_def log_at_def)

lemma log_at_pos: "log_at (meta_zones s ! i) recs k (log_pos k recs s i)"
  by (simp add: log_at_def log_pos_def)

text \<open>The first record of a log, and the end of an empty zone.\<close>

lemma read_head:
  assumes "zone_log be media s i (r # rs)" and "read_media be media"
  obtains d where "ReadRecord be (new_ZenMetaLog i s) s = Some (OK, r, log_pos 1 (r # rs) s i, s\<lparr>dev := d\<rparr>)"
    "media d = media (dev s)" "log_ok be (log_pos 1 (r # rs) s i) s"
proof -
  let ?log = "new_ZenMetaLog i s"
  have z: "i < length (meta_zones s)" "0 < block_sz s" "meta_zone_ok be (zone_sz s) (block_sz s) (meta_zones s ! i)"
    "log_holds media (unat (block_sz s)) (meta_zones s ! i) (dev s) (r # rs)" "\<forall>x\<in>set (r # rs). small (ucast (block_sz s)) x"
    using assms(1) by (simp_all add: zone_log_def)
  have log: "log_ok be ?log s" using z by (simp add: log_ok_def new_ZenMetaLog_def meta_zone_ok_def)
  have sel: "ml_zone ?log = i" "ml_bs ?log = ucast (block_sz s)" "log_at (meta_zones s ! i) (r # rs) 0 ?log"
    by (simp_all add: new_ZenMetaLog_def log_at_def)
  have "log_holds media (unat (ml_bs ?log)) (meta_zones s ! ml_zone ?log) (dev s) (r # rs)"
    "\<forall>x\<in>set (r # rs). small (ml_bs ?log) x" "log_at (meta_zones s ! ml_zone ?log) (r # rs) 0 ?log"
    using z(4,5) sel by simp_all
  from ReadRecord_next [OF log assms(2) this] obtain log' d where
    r: "ReadRecord be ?log s = Some (OK, r, log', s\<lparr>dev := d\<rparr>)" "media d = media (dev s)"
    "ml_zone log' = i" "ml_bs log' = ucast (block_sz s)" "log_ok be log' (s\<lparr>dev := d\<rparr>)" "log_at (meta_zones s ! i) (r # rs) (Suc 0) log'"
    using sel by auto
  have "log' = log_pos 1 (r # rs) s i" using r(3,4,6) by (intro log_posI) simp_all
  moreover from this r(5) have "log_ok be (log_pos 1 (r # rs) s i) s" by (simp add: log_ok_def)
  ultimately show thesis using that [OF _ r(2)] r(1) by simp
qed

lemma read_nothing:
  assumes "zone_log be media s i []"
  shows "ReadRecord be (new_ZenMetaLog i s) s = Some (OK, [], new_ZenMetaLog i s, s)"
  by (rule ReadRecord_end [where media = media and recs = "[]"])
    (use assms in \<open>simp_all add: zone_log_def new_ZenMetaLog_def log_at_def\<close>)

lemma scanned_busy: "i < length (meta_zones s) \<Longrightarrow> scanned media s (upd_meta i ((meta_zones s ! i)\<lparr>z_busy := b\<rparr>) s)"
  unfolding scanned_def
  by (intro exI [of _ "dev s"] exI [of _ "(meta_zones s)[i := (meta_zones s ! i)\<lparr>z_busy := b\<rparr>]"])
    (auto simp: upd_meta_def stripped_def idle_zones_def map_update list_update_same_conv)

lemma scanned_dev: "media d = media (dev s) \<Longrightarrow> scanned media s (s\<lparr>dev := d\<rparr>)"
  unfolding scanned_def by (intro exI [of _ d] exI [of _ "meta_zones s"]) simp

lemma scanned_delete:
  assumes "ml_zone log < length (meta_zones s)"
  shows "scanned media s (delete_ZenMetaLog log s)"
proof -
  have "delete_ZenMetaLog log s = upd_meta (ml_zone log) ((meta_zones s ! ml_zone log)\<lparr>z_busy := False\<rparr>) s"
    by (cases "meta_zones s ! ml_zone log") (simp add: delete_ZenMetaLog_def Release_def)
  with scanned_busy [OF assms] show ?thesis by metis
qed

lemma recovered_cong:
  assumes "files t = files s" "zfiles t = zfiles s" "next_ptr t = next_ptr s" "handles t = handles s" "io_zones t = io_zones s"
  shows "recovered t db = recovered s db"
  using assms by (simp add: recovered_def represents_def used_ok_def objs_def)

lemma recovered_delete [simp]: "recovered (delete_ZenMetaLog log s) db = recovered s db"
  by (rule recovered_cong) (simp_all add: delete_ZenMetaLog_def upd_meta_def)

lemma recovered_meta [simp]: "recovered (upd_meta i z s) db = recovered s db"
  by (rule recovered_cong) (simp_all add: upd_meta_def)

text \<open>A record that is a superblock for this device.\<close>

definition superblock_record :: "('d, 'm) ZBD_scheme \<Rightarrow> bytes \<Rightarrow> Superblock \<Rightarrow> bool" where
  "superblock_record s r sb \<longleftrightarrow>
     r \<noteq> [] \<and> Superblock_DecodeFrom r empty_Superblock = (OK, sb, []) \<and> CompatibleWith s sb = OK"

lemma superblock_record_scanned: "scanned media s t \<Longrightarrow> superblock_record t r sb = superblock_record s r sb"
  using scannedD(3-5) [of media s t] by (simp add: superblock_record_def CompatibleWith_def)

lemma find_superblocks_all:
  assumes "read_media be media" and "distinct is"
    and "\<forall>i\<in>set is. zone_log be media s i (recs i) \<and> \<not> z_busy (meta_zones s ! i) \<and>
      (recs i \<noteq> [] \<longrightarrow> superblock_record s (hd (recs i)) (sb i))"
  shows "\<exists>t. find_superblocks be is valid s =
      Some (OK, valid @ map (\<lambda>i. (sb i, log_pos 1 (recs i) s i)) (filter (\<lambda>i. recs i \<noteq> []) is), t) \<and>
    scanned media s t \<and> recovered t = recovered s"
  using assms(2,3)
proof (induction "is" arbitrary: valid s)
  case Nil
  show ?case by simp
next
  case (Cons i "is")
  let ?z = "meta_zones s ! i"
  let ?s1 = "upd_meta i (?z\<lparr>z_busy := True\<rparr>) s"
  have sbi: "recs i \<noteq> [] \<longrightarrow> superblock_record s (hd (recs i)) (sb i)" using Cons.prems(2) by simp
  have zl: "zone_log be media s i (recs i)" and nb: "\<not> z_busy ?z" and i: "i < length (meta_zones s)"
    using Cons.prems(2) by (auto simp: zone_log_def)
  have acq: "acquire_meta i s = (True, ?s1)"
    using nb by (simp add: acquire_meta_def Acquire_def)
  note sc1 = scanned_busy [OF i, of media True]
  note zl1 = zone_log_scanned [OF sc1 zl]
  have rest: "\<exists>u. find_superblocks be is valid' t =
      Some (OK, valid' @ map (\<lambda>i. (sb i, log_pos 1 (recs i) s i)) (filter (\<lambda>i. recs i \<noteq> []) is), u) \<and>
      scanned media s u \<and> recovered u = recovered s"
    if sc: "scanned media s t" and same: "\<And>j. j \<noteq> i \<Longrightarrow> meta_zones t ! j = meta_zones s ! j" "recovered t = recovered s" for t valid'
  proof -
    have "\<forall>j\<in>set is. zone_log be media t j (recs j) \<and> \<not> z_busy (meta_zones t ! j) \<and>
        (recs j \<noteq> [] \<longrightarrow> superblock_record t (hd (recs j)) (sb j))"
    proof
      fix j assume j: "j \<in> set is"
      then have "j \<noteq> i" using Cons.prems(1) by auto
      with j Cons.prems(2) show "zone_log be media t j (recs j) \<and> \<not> z_busy (meta_zones t ! j) \<and>
          (recs j \<noteq> [] \<longrightarrow> superblock_record t (hd (recs j)) (sb j))"
        using zone_log_scanned(1) [OF sc] same(1) [of j] superblock_record_scanned [OF sc] by simp
    qed
    moreover have "log_pos 1 (recs j) t j = log_pos 1 (recs j) s j" if "j \<in> set is" for j
      using Cons.prems(2) that zone_log_scanned(2) [OF sc, of be j "recs j"] by simp
    ultimately show ?thesis
      using Cons.IH [of t valid'] Cons.prems(1) scanned_trans [OF sc] same(2) by (auto cong: map_cong)
  qed
  show ?case
  proof (cases "recs i")
    case Nil
    note r = read_nothing [OF zl1(1) [unfolded Nil]]
    have sel: "ml_zone (new_ZenMetaLog i ?s1) = i" by (simp add: new_ZenMetaLog_def)
    let ?t = "delete_ZenMetaLog (new_ZenMetaLog i ?s1) ?s1"
    have "scanned media s ?t"
      using scanned_trans [OF sc1 scanned_delete] sel i by simp
    moreover have "meta_zones ?t ! j = meta_zones s ! j" if "j \<noteq> i" for j
      using that by (simp add: delete_ZenMetaLog_def sel)
    moreover have "recovered ?t = recovered s" by (simp add: fun_eq_iff)
    ultimately show ?thesis using rest [of ?t valid] Nil acq r by auto
  next
    case recs: (Cons r rs)
    obtain d where r: "ReadRecord be (new_ZenMetaLog i ?s1) ?s1 = Some (OK, r, log_pos 1 (r # rs) ?s1 i, ?s1\<lparr>dev := d\<rparr>)"
      "media d = media (dev ?s1)"
      by (rule read_head [OF zl1(1) [unfolded recs] assms(1)]) (rule that)
    let ?t = "?s1\<lparr>dev := d\<rparr>"
    have sc: "scanned media s ?t" by (rule scanned_trans [OF sc1 scanned_dev [of media, OF r(2)]])
    then have "superblock_record ?t r (sb i)" using sbi recs superblock_record_scanned [OF sc] by simp
    then have sb: "r \<noteq> []" "Superblock_DecodeFrom r empty_Superblock = (OK, sb i, [])" "CompatibleWith ?t (sb i) = OK"
      unfolding superblock_record_def by blast+
    moreover have "meta_zones ?t ! j = meta_zones s ! j" if "j \<noteq> i" for j
      using that by simp
    moreover have "recovered ?t = recovered s" by (simp add: fun_eq_iff)
    ultimately show ?thesis
      using rest [OF sc, of "valid @ [(sb i, log_pos 1 (recs i) s i)]"] recs acq r(1) zl1(2) [of 1] by auto
  qed
qed

section \<open>The order of the logs\<close>

lemma insert_desc_set: "set (insert_desc x xs) = insert x (set xs)"
  by (induction x xs rule: insert_desc.induct) auto

lemma insert_desc_sorted: "sorted_wrt (\<lambda>x y. fst y \<le> fst x) xs \<Longrightarrow> sorted_wrt (\<lambda>x y. fst y \<le> fst x) (insert_desc x xs)"
  by (induction x xs rule: insert_desc.induct) (fastforce simp: insert_desc_set)+

lemma seq_map_props:
  "set (seq_map valid) = {(GetSeq (fst (valid ! j)), j) | j. j < length valid}" "sorted_wrt (\<lambda>x y. fst y \<le> fst x) (seq_map valid)"
proof -
  let ?xs = "zip (map (\<lambda>(sb, log). GetSeq sb) valid) [0..<length valid]"
  have "set (fold insert_desc xs acc) = set xs \<union> set acc \<and>
      (sorted_wrt (\<lambda>x y. fst y \<le> fst x) acc \<longrightarrow> sorted_wrt (\<lambda>x y. fst y \<le> fst x) (fold insert_desc xs acc))" for xs acc
    by (induction xs arbitrary: acc) (auto simp: insert_desc_set insert_desc_sorted)
  from this [of ?xs "[]"] have m: "set (seq_map valid) = set ?xs" "sorted_wrt (\<lambda>x y. fst y \<le> fst x) (seq_map valid)"
    by (simp_all add: seq_map_def)
  show "sorted_wrt (\<lambda>x y. fst y \<le> fst x) (seq_map valid)" by (rule m(2))
  have "?xs = map (\<lambda>j. (GetSeq (fst (valid ! j)), j)) [0..<length valid]"
    by (rule nth_equalityI) (simp_all add: split_def)
  then have "set ?xs = {(GetSeq (fst (valid ! j)), j) | j. j < length valid}" by auto
  then show "set (seq_map valid) = {(GetSeq (fst (valid ! j)), j) | j. j < length valid}" unfolding m(1) .
qed

text \<open>What comes before a log in the order has a sequence number at least as high.\<close>

lemma seq_map_split:
  assumes "n < length valid"
  obtains pre post where "seq_map valid = pre @ (GetSeq (fst (valid ! n)), n) # post"
    "\<And>q j. (q, j) \<in> set pre \<Longrightarrow> j < length valid \<and> j \<noteq> n \<and> GetSeq (fst (valid ! n)) \<le> GetSeq (fst (valid ! j))"
    "\<And>q j. (q, j) \<in> set post \<Longrightarrow> j < length valid"
proof -
  let ?x = "(GetSeq (fst (valid ! n)), n)"
  note m = seq_map_props [of valid]
  have "?x \<in> set (seq_map valid)" using assms m(1) by auto
  then obtain pre post where s: "seq_map valid = pre @ ?x # post" "?x \<notin> set pre" by (meson split_list_first)
  have el: "q = GetSeq (fst (valid ! j)) \<and> j < length valid" if "(q, j) \<in> set (seq_map valid)" for q j using that m(1) by auto
  show thesis
  proof (rule that [OF s(1)])
    fix q j
    assume p: "(q, j) \<in> set pre"
    have q: "q = GetSeq (fst (valid ! j))" "j < length valid" using el [of q j] s(1) p by simp_all
    have "sorted_wrt (\<lambda>x y. fst y \<le> fst x) (pre @ ?x # post)" using m(2) unfolding s(1) .
    with p have "GetSeq (fst (valid ! n)) \<le> q" unfolding sorted_wrt_append by fastforce
    moreover have "j \<noteq> n" using p q(1) s(2) by blast
    ultimately show "j < length valid \<and> j \<noteq> n \<and> GetSeq (fst (valid ! n)) \<le> GetSeq (fst (valid ! j))"
      using q by simp
  next
    fix q j
    assume "(q, j) \<in> set post"
    then show "j < length valid" using el [of q j] s(1) by simp
  qed
qed

section \<open>Recovery from the first log with a snapshot\<close>

lemma scanned_stripped: "stripped t = stripped (s\<lparr>dev := d\<rparr>) \<Longrightarrow> media d = media (dev s) \<Longrightarrow> scanned media s t"
  unfolding scanned_def by (intro exI [of _ d] exI [of _ "meta_zones s"]) simp

lemma RecoverFrom_zone:
  assumes zl: "zone_log be media s i (r # map encode_entry es @ rs)" and media: "read_media be media" and "log_tail rs"
    and "recovered s db" and "valid_entries s es db"
  obtains log' t where "RecoverFrom be (log_pos 1 (r # map encode_entry es @ rs) s i) s =
      Some (if \<exists>e\<in>set es. is_snapshot e then OK else NotFound ''ZenFS'' ''No snapshot found'', log', t)"
    "recovered t (fold apply_entry es db)" "scanned media s t" "ml_zone log' = i"
proof -
  let ?recs = "r # map encode_entry es @ rs"
  let ?log = "log_pos 1 ?recs s i"
  have lo: "log_ok be ?log s" by (rule read_head [OF zl media])
  have z: "log_holds media (unat (ml_bs ?log)) (meta_zones s ! ml_zone ?log) (dev s) ?recs" "\<forall>r\<in>set ?recs. small (ml_bs ?log) r"
    "log_at (meta_zones s ! ml_zone ?log) ?recs 1 ?log"
    using zl log_at_pos [of s i ?recs 1] by (simp_all add: zone_log_def)
  have d: "drop 1 ?recs = map encode_entry es @ rs" "1 \<le> length ?recs" by simp_all
  obtain log' t d where t: "RecoverFrom_loop be False ?log s =
      Some (if False \<or> (\<exists>e\<in>set es. is_snapshot e) then OK else NotFound ''ZenFS'' ''No snapshot found'', log', t)"
    "recovered t (fold apply_entry es db)" "media (dev t) = media (dev s)" "stripped t = stripped (s\<lparr>dev := d\<rparr>)" "ml_zone log' = ml_zone ?log"
    using RecoverFrom_loop_entries [OF lo media z d(1) assms(3) d(2) assms(4,5), of False] by blast
  have "media d = media (dev s)" using t(3) stripped_sel(1) [OF t(4)] by simp
  with t show thesis by (intro that [of log' t] scanned_stripped [where t = t and s = s and d = d]) (simp_all add: RecoverFrom_def)
qed

lemma recover_first_found:
  assumes media: "read_media be media" and ours: "zone_log be media s m (r # map encode_entry es @ rs)" "log_tail rs" "valid_entries s es Map.empty"
      "\<exists>e\<in>set es. is_snapshot e" "snd (valid ! n) = log_pos 1 (r # map encode_entry es @ rs) s m"
    and pre: "\<And>q j. (q, j) \<in> set pre \<Longrightarrow> \<exists>i r'. zone_log be media s i [r'] \<and> snd (valid ! j) = log_pos 1 [r'] s i"
    and rec: "recovered s Map.empty"
  shows "\<exists>log t. recover_first be valid (pre @ (q, n) # post) s = Some (OK, Some n, t\<lparr>meta_log := Some log\<rparr>) \<and>
    recovered t (journal_db es) \<and> scanned media s t"
  using ours pre rec
proof (induction pre arbitrary: s)
  case Nil
  obtain log' t where t: "RecoverFrom be (log_pos 1 (r # map encode_entry es @ rs) s m) s = Some (OK, log', t)"
    "recovered t (journal_db es)" "scanned media s t"
    by (rule RecoverFrom_zone [OF Nil.prems(1) media Nil.prems(2,7,3)]) (use Nil.prems(4) that in auto)
  then show ?case using Nil.prems(5) by auto
next
  case (Cons x pre)
  obtain q' j where x: "x = (q', j)" by fastforce
  obtain i r' where i: "zone_log be media s i [r']" "snd (valid ! j) = log_pos 1 [r'] s i" using Cons.prems(6) [of q' j] x by auto
  obtain log' t where t: "RecoverFrom be (log_pos 1 [r'] s i) s = Some (NotFound ''ZenFS'' ''No snapshot found'', log', t)"
    "recovered t Map.empty" "scanned media s t" "ml_zone log' = i"
    by (rule RecoverFrom_zone [where es = "[]" and rs = "[]" and r = r', OF _ media])
      (use i(1) Cons.prems(7) that in \<open>auto simp: log_tail_def\<close>)
  let ?t = "delete_ZenMetaLog log' t"
  have "i < length (meta_zones t)" using zone_log_scanned(1) [OF t(3) i(1)] by (simp add: zone_log_def)
  then have sc: "scanned media s ?t" using t(3,4) by (intro scanned_trans [OF t(3) scanned_delete]) simp
  have "\<exists>log u. recover_first be valid (pre @ (q, n) # post) ?t = Some (OK, Some n, u\<lparr>meta_log := Some log\<rparr>) \<and>
      recovered u (journal_db es) \<and> scanned media ?t u"
  proof (rule Cons.IH)
    show "zone_log be media ?t m (r # map encode_entry es @ rs)" "snd (valid ! n) = log_pos 1 (r # map encode_entry es @ rs) ?t m"
      using zone_log_scanned [OF sc Cons.prems(1)] Cons.prems(5) by simp_all
    show "valid_entries ?t es Map.empty" using Cons.prems(3) valid_entries_cong(2) [OF scannedD(8) [OF sc]] by blast
    show "\<exists>i r'. zone_log be media ?t i [r'] \<and> snd (valid ! j) = log_pos 1 [r'] ?t i" if "(q, j) \<in> set pre" for q j
      using Cons.prems(6) [of q j] that zone_log_scanned [OF sc] by fastforce
  qed (use t(2) Cons.prems in simp_all)
  moreover have "recover_first be valid ((x # pre) @ (q, n) # post) s = recover_first be valid (pre @ (q, n) # post) ?t"
    using t(1) i(2) x by (simp add: ok_def IsNotFound_def NotFound_def)
  ultimately show ?case using scanned_trans [OF sc] by metis
qed

section \<open>Mounting\<close>

lemma recovered_release [simp]: "recovered (release_logs logs s) db = recovered s db"
  by (induction logs arbitrary: s) (simp_all add: release_logs_def)

lemma release_superblock [simp]: "superblock (release_logs logs s) = superblock s"
  by (induction logs arbitrary: s) (simp_all add: release_logs_def delete_ZenMetaLog_def upd_meta_def)

text \<open>
  The metadata zones are empty or have a log with a superblock for the device. One log has a journal with a snapshot;
  the others have none, or a lower sequence number.
\<close>

lemma Mount_readonly:
  fixes r :: "('d, 'a, 'm) ZenFS_scheme"
  assumes media: "read_media be media" and len: "2 \<le> length (meta_zones r)"
    and zones: "\<forall>i<length (meta_zones r). zone_log be media r i (recs i) \<and> \<not> z_busy (meta_zones r ! i) \<and>
      (recs i \<noteq> [] \<longrightarrow> superblock_record r (hd (recs i)) (sb i))"
    and m: "m < length (meta_zones r)" "recs m = h # map encode_entry es @ rs" "log_tail rs" "valid_entries r es Map.empty"
      "\<exists>e\<in>set es. is_snapshot e"
    and older: "\<forall>i<length (meta_zones r). i \<noteq> m \<and> recs i \<noteq> [] \<longrightarrow> length (recs i) = 1 \<or> GetSeq (sb i) < GetSeq (sb m)"
    and dir: "aux_CreateDirIfMissing env (unstr (GetAuxFsPath (sb m))) (aux r) = (OK, a)"
    and rec: "recovered r Map.empty"
  shows "\<exists>t. Mount be env True r = Some (OK, t) \<and> recovered t (journal_db es) \<and> superblock t = Some (sb m)"
proof -
  let ?is = "filter (\<lambda>i. recs i \<noteq> []) [0..<length (meta_zones r)]"
  let ?valid = "map (\<lambda>i. (sb i, log_pos 1 (recs i) r i)) ?is"
  obtain s1 where s1: "find_superblocks be [0..<length (meta_zones r)] [] r = Some (OK, ?valid, s1)" "scanned media r s1"
    "recovered s1 Map.empty"
    using find_superblocks_all [OF media, of "[0..<length (meta_zones r)]" r recs sb "[]"] zones rec by auto
  have dist: "distinct ?is" by simp
  have "m \<in> set ?is" using m(1,2) by simp
  then obtain n where n: "n < length ?is" "?is ! n = m" by (auto simp only: in_set_conv_nth)
  have nv: "?valid ! n = (sb m, log_pos 1 (recs m) r m)" "n < length ?valid" using n by simp_all
  obtain pre post where split: "seq_map ?valid = pre @ (GetSeq (fst (?valid ! n)), n) # post"
    and pre: "\<And>q j. (q, j) \<in> set pre \<Longrightarrow> j < length ?valid \<and> j \<noteq> n \<and> GetSeq (fst (?valid ! n)) \<le> GetSeq (fst (?valid ! j))"
    by (rule seq_map_split [OF nv(2)]) (rule that)
  have zl: "zone_log be media r m (h # map encode_entry es @ rs)" using zones m(1,2) by metis
  have "\<exists>log t. recover_first be ?valid (pre @ (GetSeq (fst (?valid ! n)), n) # post) s1
      = Some (OK, Some n, t\<lparr>meta_log := Some log\<rparr>) \<and> recovered t (journal_db es) \<and> scanned media s1 t"
  proof (rule recover_first_found [OF media _ m(3) _ m(5) _ _ s1(3)])
    show "zone_log be media s1 m (h # map encode_entry es @ rs)" by (rule zone_log_scanned(1) [OF s1(2) zl])
    show "valid_entries s1 es Map.empty" using m(4) valid_entries_cong(2) [OF scannedD(8) [OF s1(2)]] by blast
    show "snd (?valid ! n) = log_pos 1 (h # map encode_entry es @ rs) s1 m"
      unfolding nv(1) zone_log_scanned(2) [OF s1(2) zl] by (simp add: m(2))
    fix q j
    assume "(q, j) \<in> set pre"
    from pre [OF this, unfolded nv(1) fst_conv length_map]
    have j: "j < length ?is" "j \<noteq> n" and le: "GetSeq (sb m) \<le> GetSeq (fst (?valid ! j))" by blast+
    let ?i = "?is ! j"
    have "?i \<in> set ?is" using j(1) by (rule nth_mem)
    then have i: "?i < length (meta_zones r)" "recs ?i \<noteq> []" by simp_all
    have "?i \<noteq> m" using j(1,2) n nth_eq_iff_index_eq [OF dist] by metis
    moreover have "GetSeq (sb m) \<le> GetSeq (sb ?i)" using le unfolding nth_map [OF j(1)] by simp
    ultimately have "length (recs ?i) = 1" using older i by fastforce
    then obtain h' where h': "recs ?i = [h']" by (auto simp: length_Suc_conv)
    have zi: "zone_log be media r ?i [h']" using zones i(1) h' by metis
    have "snd (?valid ! j) = log_pos 1 [h'] s1 ?i"
      unfolding zone_log_scanned(2) [OF s1(2) zi] nth_map [OF j(1)] h' by simp
    with zone_log_scanned(1) [OF s1(2) zi]
    show "\<exists>i r'. zone_log be media s1 i [r'] \<and> snd (?valid ! j) = log_pos 1 [r'] s1 i" by blast
  qed
  then obtain log t where t: "recover_first be ?valid (seq_map ?valid) s1 = Some (OK, Some n, t\<lparr>meta_log := Some log\<rparr>)"
    "recovered t (journal_db es)" "scanned media s1 t"
    unfolding split [symmetric] by blast
  have aux: "aux t = aux r" using scannedD(7) [OF s1(2)] scannedD(7) [OF t(3)] by simp
  let ?t = "release_logs (logs_after ?valid n (seq_map ?valid))
    ((SetFinishTreshold (GetFinishTreshold (sb m)) (t\<lparr>meta_log := Some log, superblock := Some (sb m)\<rparr>))\<lparr>aux := a\<rparr>)"
  have "Mount be env True r = Some (OK, ?t)"
    using len s1(1) nv t(1) dir aux by (auto simp: Mount_def aux_call_def SetFinishTreshold_def Let_def)
  moreover have "recovered ?t (journal_db es)"
    using t(2) recovered_cong [of "(SetFinishTreshold (GetFinishTreshold (sb m)) (t\<lparr>meta_log := Some log, superblock := Some (sb m)\<rparr>))\<lparr>aux := a\<rparr>" t]
    by (simp add: SetFinishTreshold_def)
  moreover have "superblock ?t = Some (sb m)" by (simp add: SetFinishTreshold_def)
  ultimately show ?thesis by blast
qed

section \<open>The name space across a crash\<close>

text \<open>
  What a file system shows of a name: the identifier of the file, all its names and its extents. \<open>durable\<close> counts
  the extents that were synced, \<open>visible\<close> all.
\<close>

definition view :: "(ZoneFile \<Rightarrow> ZoneExtent list) \<Rightarrow> ('d, 'a, 'm) ZenFS_scheme \<Rightarrow> string \<Rightarrow> (u64 \<times> string set \<times> ZoneExtent list) option" where
  "view X s n = map_option (\<lambda>f. (file_id (zfiles s f), set (linkfiles (zfiles s f)), X (zfiles s f))) (map_of (files s) n)"

definition durable :: "('d, 'a, 'm) ZenFS_scheme \<Rightarrow> string \<Rightarrow> (u64 \<times> string set \<times> ZoneExtent list) option" where
  "durable s = view (\<lambda>zf. take (unat (nr_synced_extents zf)) (extents zf)) s"

definition visible :: "('d, 'a, 'm) ZenFS_scheme \<Rightarrow> string \<Rightarrow> (u64 \<times> string set \<times> ZoneExtent list) option" where
  "visible s = view extents s"

lemma represents_view:
  assumes rep: "represents P s db"
    and P: "\<And>zf d. P zf d \<Longrightarrow> d_id d = file_id zf \<and> set (d_links d) = set (linkfiles zf) \<and> d_extents d = X zf"
  shows "view X s n = (if \<exists>d\<in>ran db. n \<in> set (d_links d)
      then Some (let d = (THE d. d \<in> ran db \<and> n \<in> set (d_links d)) in (d_id d, set (d_links d), d_extents d)) else None)"
proof (cases "map_of (files s) n")
  case None
  have False if d: "d \<in> ran db" "n \<in> set (d_links d)" for d
  proof -
    obtain i where i: "db i = Some d" using d(1) by (auto simp: ran_def)
    obtain g where "\<And>n. map_of (files s) n = Some g \<longleftrightarrow> n \<in> set (d_links d)" by (rule represents_obj [OF rep i]) (rule that)
    from this [of n] None d(2) show False by simp
  qed
  with None show ?thesis by (auto simp: view_def)
next
  case (Some f)
  obtain d where d: "db (file_id (zfiles s f)) = Some d" "n \<in> set (d_links d)" "P (zfiles s f) d"
    using representsD(2) [OF rep Some] by blast
  have uniq: "d' = d" if d': "d' \<in> ran db" "n \<in> set (d_links d')" for d'
  proof -
    obtain i where i: "db i = Some d'" using d'(1) by (auto simp: ran_def)
    obtain g where g: "file_id (zfiles s g) = i" "\<And>n. map_of (files s) n = Some g \<longleftrightarrow> n \<in> set (d_links d')"
      by (rule represents_obj [OF rep i]) (rule that)
    have "g = f" using g(2) [of n] d'(2) Some by simp
    with g(1) i d(1) show "d' = d" by simp
  qed
  have dr: "d \<in> ran db" using d(1) by (rule ranI)
  then have ex: "\<exists>d\<in>ran db. n \<in> set (d_links d)" using d(2) by blast
  have the: "(THE d. d \<in> ran db \<and> n \<in> set (d_links d)) = d" by (rule the_equality) (use d(2) dr uniq in blast)+
  show ?thesis unfolding if_P [OF ex] the Let_def using P [OF d(3)] by (simp add: view_def Some)
qed

lemma recovered_visible:
  assumes "represents persisted s db" and "recovered t db"
  shows "visible t = durable s"
proof
  fix n
  have "represents (\<lambda>zf d. desc zf = d) t db" using assms(2) by (simp add: recovered_def)
  from represents_view [OF this, of extents n]
  have "visible t n = (if \<exists>d\<in>ran db. n \<in> set (d_links d)
      then Some (let d = (THE d. d \<in> ran db \<and> n \<in> set (d_links d)) in (d_id d, set (d_links d), d_extents d)) else None)"
    by (simp add: visible_def desc_def)
  moreover have "durable s n = \<dots>"
    unfolding durable_def by (rule represents_view [OF assms(1)]) (simp add: persisted_def)
  ultimately show "visible t n = durable s n" by simp
qed

text \<open>
  A crash loses what is in memory. \<open>r\<close> is a file system that has opened the device of \<open>s\<close> again: it finds the metadata
  zones as they were written, and knows no file.
\<close>

definition restarted :: "('d \<Rightarrow> u64 \<Rightarrow> byte) \<Rightarrow> ('d, 'a, 'm) ZenFS_scheme \<Rightarrow> ('d, 'a, 'm) ZenFS_scheme \<Rightarrow> bool" where
  "restarted media s r \<longleftrightarrow>
     media (dev r) = media (dev s) \<and> block_sz r = block_sz s \<and> zone_sz r = zone_sz s \<and>
     map z_start (io_zones r) = map z_start (io_zones s) \<and> (\<forall>z\<in>set (io_zones r). z_used_capacity z = 0) \<and>
     length (meta_zones r) = length (meta_zones s) \<and>
     (\<forall>i<length (meta_zones s). \<not> z_busy (meta_zones r ! i) \<and> z_used_capacity (meta_zones r ! i) = 0 \<and>
        z_start (meta_zones r ! i) = z_start (meta_zones s ! i) \<and> z_wp (meta_zones r ! i) = z_wp (meta_zones s ! i) \<and>
        z_capacity (meta_zones r ! i) = z_capacity (meta_zones s ! i) \<and>
        z_max_capacity (meta_zones r ! i) = z_max_capacity (meta_zones s ! i)) \<and>
     files r = [] \<and> handles r = (\<lambda>_. 0)"

text \<open>The metadata zones other than \<open>m\<close> are empty, or have a log of which recovery takes nothing.\<close>

definition stale_logs :: "'d backend \<Rightarrow> ('d \<Rightarrow> u64 \<Rightarrow> byte) \<Rightarrow> nat \<Rightarrow> Superblock \<Rightarrow> ('d, 'm) ZBD_scheme \<Rightarrow> bool" where
  "stale_logs be media m sb r \<longleftrightarrow>
     (\<forall>i<length (meta_zones r). i \<noteq> m \<longrightarrow>
        (\<exists>recs. zone_log be media r i recs \<and>
           (recs = [] \<or> (\<exists>sb'. superblock_record r (hd recs) sb' \<and> (length recs = 1 \<or> GetSeq sb' < GetSeq sb)))))"

lemma restarted_log:
  assumes C: "crash_safe be media s es" and r: "restarted media s r" and log: "meta_log s = Some log"
  obtains h where "zone_log be media r (ml_zone log) (h # map encode_entry es)" "heads_log h s" "ml_zone log < length (meta_zones r)"
    "valid_entries r es Map.empty"
proof -
  obtain h where h: "heads_log h s" "log_has be media s (h # map encode_entry es)" and ve: "valid_entries s es Map.empty"
    using C by (auto simp: crash_safe_def journal_ok_def)
  let ?m = "ml_zone log"
  have l: "log_ok be log s" "log_holds media (unat (ml_bs log)) (meta_zones s ! ?m) (dev s) (h # map encode_entry es)"
    "\<forall>r\<in>set (h # map encode_entry es). small (ml_bs log) r"
    using h(2) log by (auto simp: log_has_def)
  have m: "?m < length (meta_zones s)" and bs: "ml_bs log = ucast (block_sz s)" "0 < block_sz s"
    using l(1) by (simp_all add: log_ok_def)
  have "zone_log be media r ?m (h # map encode_entry es)"
    using l m bs r by (simp add: zone_log_def restarted_def log_ok_def meta_zone_ok_def zone_wf_def log_holds_def stored_def)
  moreover have "GetIOZone r a = GetIOZone s a" for a using r by (intro GetIOZone_cong) (simp_all add: restarted_def)
  then have "valid_entries r es Map.empty" using ve valid_entries_cong(2) by blast
  ultimately show thesis using that h(1) m r by (simp add: restarted_def)
qed

lemma remount:
  fixes s r :: "('d, 'a, 'm) ZenFS_scheme"
  assumes C: "crash_safe be media s es" and r: "restarted media s r" and two: "2 \<le> length (meta_zones r)"
    and log: "meta_log s = Some log" "superblock s = Some sb" "CompatibleWith r sb = OK" "stale_logs be media (ml_zone log) sb r"
    and dir: "fst (aux_CreateDirIfMissing env (unstr (GetAuxFsPath sb)) (aux r)) = OK"
  shows "\<exists>t. Mount be env True r = Some (OK, t) \<and> visible t = durable s \<and> used_ok t \<and> superblock t = Some sb"
proof -
  let ?m = "ml_zone log"
  obtain h where h: "zone_log be media r ?m (h # map encode_entry es)" "heads_log h s" "?m < length (meta_zones r)"
    "valid_entries r es Map.empty"
    by (rule restarted_log [OF C r log(1)]) (rule that)
  have snap: "\<exists>e\<in>set es. is_snapshot e" and media: "read_media be media" and rep: "represents persisted s (journal_db es)"
    using C by (auto simp: crash_safe_def journal_ok_def writer_ok_def device_ok_def)
  have hs: "superblock_record r h sb" using h(2) log(2,3) by (auto simp: heads_log_def superblock_record_def)
  have "\<forall>i. \<exists>recs sb'. i < length (meta_zones r) \<longrightarrow> i \<noteq> ?m \<longrightarrow> zone_log be media r i recs \<and>
      (recs \<noteq> [] \<longrightarrow> superblock_record r (hd recs) sb' \<and> (length recs = 1 \<or> GetSeq sb' < GetSeq sb))"
    using log(4) unfolding stale_logs_def by blast
  then obtain R B where RB: "\<And>i. i < length (meta_zones r) \<Longrightarrow> i \<noteq> ?m \<Longrightarrow> zone_log be media r i (R i) \<and>
      (R i \<noteq> [] \<longrightarrow> superblock_record r (hd (R i)) (B i) \<and> (length (R i) = 1 \<or> GetSeq (B i) < GetSeq sb))"
    by metis
  let ?R = "R(?m := h # map encode_entry es)" and ?B = "B(?m := sb)"
  have "recovered r Map.empty"
    using r by (auto simp: restarted_def recovered_def represents_def used_ok_def objs_def)
  moreover have "\<forall>i<length (meta_zones r). zone_log be media r i (?R i) \<and> \<not> z_busy (meta_zones r ! i) \<and>
      (?R i \<noteq> [] \<longrightarrow> superblock_record r (hd (?R i)) (?B i))"
    using RB h(1) hs r by (auto simp: restarted_def)
  moreover have "\<forall>i<length (meta_zones r). i \<noteq> ?m \<and> ?R i \<noteq> [] \<longrightarrow> length (?R i) = 1 \<or> GetSeq (?B i) < GetSeq (?B ?m)"
    using RB by auto
  moreover have "?R ?m = h # map encode_entry es @ []" "log_tail []" by (simp_all add: log_tail_def)
  moreover have "aux_CreateDirIfMissing env (unstr (GetAuxFsPath (?B ?m))) (aux r) =
      (OK, snd (aux_CreateDirIfMissing env (unstr (GetAuxFsPath sb)) (aux r)))"
    using dir by (simp add: prod_eq_iff)
  ultimately have "\<exists>t. Mount be env True r = Some (OK, t) \<and> recovered t (journal_db es) \<and> superblock t = Some (?B ?m)"
    by (intro Mount_readonly [OF media two _ h(3) _ _ h(4) snap])
  then obtain t where t: "Mount be env True r = Some (OK, t)" "recovered t (journal_db es)" "superblock t = Some sb" by auto
  with recovered_visible [OF rep t(2)] show ?thesis by (auto simp: recovered_def)
qed

section \<open>Runs of operations\<close>

text \<open>
  The operations that change the name space, when they succeed. A renamed or linked file must have its new name
  afterwards, since both operations report success also when they could not write the record. The file identifier of
  a new file must be unused, and its record must have gone into the log that there was.
  \<open>fits\<close> bounds the size of the records.
\<close>

inductive fs_op :: "'d backend \<Rightarrow> 'a aux_env \<Rightarrow> ('d, 'a, 'm) ZenFS_scheme \<Rightarrow> ('d, 'a, 'm) ZenFS_scheme \<Rightarrow> bool"
  for be env where
  sync: "f \<in> objs s \<Longrightarrow> fits (touch env f s) (Update (unsynced (zfiles (touch env f s) f))) \<Longrightarrow>
    SyncFileMetadata be env False f s = Some (st, t) \<Longrightarrow> ok st \<Longrightarrow> fs_op be env s t"
| delete: "map_of (files s) name = Some f \<Longrightarrow> formatted name \<Longrightarrow>
    fits (unlinked name f s) (Deletion (file_id (zfiles s f)) name) \<Longrightarrow>
    DeleteFile be env name s = Some (st, t) \<Longrightarrow> ok st \<Longrightarrow> fs_op be env s t"
| rename: "map_of (files s) src = Some f \<Longrightarrow> formatted src \<Longrightarrow> map_of (files s) dst = None \<Longrightarrow> name_ok dst \<Longrightarrow> formatted dst \<Longrightarrow>
    fits (touch env f (moved src dst f s)) (Update (unsynced (zfiles (touch env f (moved src dst f s)) f))) \<Longrightarrow>
    RenameFile be env src dst s = Some (st, t) \<Longrightarrow> ok st \<Longrightarrow> map_of (files t) dst \<noteq> None \<Longrightarrow> fs_op be env s t"
| replace: "map_of (files s) src = Some f \<Longrightarrow> formatted src \<Longrightarrow> map_of (files s) dst = Some g \<Longrightarrow> name_ok dst \<Longrightarrow> formatted dst \<Longrightarrow>
    src \<noteq> dst \<Longrightarrow> fits (unlinked dst g s) (Deletion (file_id (zfiles s g)) dst) \<Longrightarrow>
    DeleteFileNoLock be env dst s = Some (OK, u) \<Longrightarrow>
    fits (touch env f (moved src dst f u)) (Update (unsynced (zfiles (touch env f (moved src dst f u)) f))) \<Longrightarrow>
    RenameFile be env src dst s = Some (st, t) \<Longrightarrow> ok st \<Longrightarrow> map_of (files t) dst \<noteq> None \<Longrightarrow> fs_op be env s t"
| link: "map_of (files s) name = Some f \<Longrightarrow> formatted name \<Longrightarrow> map_of (files s) lname = None \<Longrightarrow> name_ok lname \<Longrightarrow> formatted lname \<Longrightarrow>
    fits (touch env f (linked lname f s)) (Update (unsynced (zfiles (touch env f (linked lname f s)) f))) \<Longrightarrow>
    LinkFile be env name lname s = Some (st, t) \<Longrightarrow> map_of (files t) lname \<noteq> None \<Longrightarrow> fs_op be env s t"
| create: "map_of (files s) name = None \<Longrightarrow> name_ok name \<Longrightarrow> formatted name \<Longrightarrow>
    \<forall>g\<in>objs s. file_id (zfiles s g) \<noteq> next_file_id s \<Longrightarrow>
    fits (touch env (next_ptr s) (created env udw name s)) (Update (unsynced (zfiles (touch env (next_ptr s) (created env udw name s)) (next_ptr s)))) \<Longrightarrow>
    OpenWritableFile be env mem name udw False s = Some (st, w, t) \<Longrightarrow> ok st \<Longrightarrow> meta_log t = meta_log s \<Longrightarrow> fs_op be env s t"

text \<open>
  The abstract name space is a map from names to file identifiers. Its operations remove a name, move a name, add a
  name of a file that there is, or add a name of a new file.
\<close>

definition name_ids :: "('d, 'a, 'm) ZenFS_scheme \<Rightarrow> string \<rightharpoonup> u64" where
  "name_ids s n = map_option (\<lambda>f. file_id (zfiles s f)) (map_of (files s) n)"

inductive name_op :: "(string \<rightharpoonup> u64) \<Rightarrow> (string \<rightharpoonup> u64) \<Rightarrow> bool" where
  keep: "name_op m m"
| remove: "name_op m (m(n := None))"
| move: "m src = Some i \<Longrightarrow> src \<noteq> dst \<Longrightarrow> name_op m (m(src := None, dst \<mapsto> i))"
| share: "m n = Some i \<Longrightarrow> m l = None \<Longrightarrow> name_op m (m(l \<mapsto> i))"
| add: "m n = None \<Longrightarrow> i \<notin> ran m \<Longrightarrow> name_op m (m(n \<mapsto> i))"

lemma name_ids_same: "files t = files s \<Longrightarrow> (\<And>g. file_id (zfiles t g) = file_id (zfiles s g)) \<Longrightarrow> name_ids t = name_ids s"
  by (simp add: name_ids_def fun_eq_iff)

lemma name_ids_erase:
  "files t = map_erase n (files s) \<Longrightarrow> (\<And>g. file_id (zfiles t g) = file_id (zfiles s g)) \<Longrightarrow> name_ids t = (name_ids s)(n := None)"
  by (simp add: name_ids_def fun_eq_iff map_of_map_erase)

lemma name_ids_insert:
  assumes "files t = map_insert n f m" and "\<And>g. file_id (zfiles t g) = file_id (zfiles s g)" and "sorted_map m" and "map_of m n = None"
  shows "name_ids t = (\<lambda>x. if x = n then Some (file_id (zfiles s f)) else map_option (\<lambda>f. file_id (zfiles s f)) (map_of m x))"
  using assms by (simp add: name_ids_def fun_eq_iff map_of_map_insert)

lemma crash_safe_sorted: "crash_safe be media s es \<Longrightarrow> sorted_map (files s)"
  using representsD(1) unfolding crash_safe_def by blast

lemma Reset_names:
  assumes "ResetUnusedIOZones be s = (st, t)"
  shows "files t = files s" "zfiles t = zfiles s"
proof -
  have "reset_steps be s t"
    using ResetUnusedIOZones_loop_steps [of be "[0..<length (io_zones s)]" s st t] assms by (simp add: ResetUnusedIOZones_def)
  from reset_steps_frame [OF this] show "files t = files s" "zfiles t = zfiles s" by simp_all
qed

lemma rename_run_file:
  "formatted src \<Longrightarrow> formatted dst \<Longrightarrow> map_of (files s) src = Some f \<Longrightarrow>
     RenameFileNoLock be env src dst s = rename_file be env f src dst s"
  unfolding RenameFileNoLock_def
  by (subst rename_run.simps) (simp add: formatted_def GetFile_formatted)

lemma rename_over:
  assumes "formatted dst" and "map_of (files s) dst = Some g" and "DeleteFileNoLock be env dst s = Some (OK, u)"
    and "map_of (files u) dst = None"
  shows "rename_file be env f src dst s = rename_file be env f src dst u"
  using assms by (simp add: rename_file_def GetFile_formatted)

lemma RenameFile_cases:
  assumes "RenameFile be env src dst s = Some (st, t)" and "RenameFileNoLock be env src dst s = Some (st', u)" and "ok st'"
  shows "ResetUnusedIOZones be u = (st, t)"
  using assms by (auto simp: RenameFile_def)

lemma RenameFile_crash_safe:
  fixes s u :: "('d, 'a, 'm) ZenFS_scheme"
  assumes C: "crash_safe be media u es" and n: "map_of (files u) src = Some f"
    and dst: "map_of (files u) dst = None" "name_ok dst" "formatted dst"
    and fit: "fits (touch env f (moved src dst f u)) (Update (unsynced (zfiles (touch env f (moved src dst f u)) f)))"
    and run: "RenameFileNoLock be env src dst s = rename_file be env f src dst u" "RenameFile be env src dst s = Some (st, t)"
    and new: "map_of (files t) dst \<noteq> None"
  shows "\<exists>es'. crash_safe be media t es' \<and> name_ids t = (name_ids u)(src := None, dst \<mapsto> file_id (zfiles u f))"
proof -
  obtain st' v where v: "rename_file be env f src dst u = Some (st', v)" "ok st'"
    "map_of (files v) dst = Some f \<and> (\<exists>es'. crash_safe be media v es' \<and> files v = map_insert dst f (map_erase src (files u))) \<or>
     map_of (files v) = map_of (files u)" "\<And>g. file_id (zfiles v g) = file_id (zfiles u g)"
    by (rule rename_crash_safe [OF C n dst fit]) (rule that)
  have r: "ResetUnusedIOZones be v = (st, t)" using RenameFile_cases [OF run(2)] run(1) v(1,2) by simp
  have "map_of (files v) dst \<noteq> None" using new Reset_names [OF r] by simp
  with v(3) dst(1) obtain es' where es': "crash_safe be media v es'" "files v = map_insert dst f (map_erase src (files u))" by auto
  have srt: "sorted_map (map_erase src (files u))" using crash_safe_sorted [OF C] by (rule map_erase_sorted)
  have "name_ids t = (name_ids u)(src := None, dst \<mapsto> file_id (zfiles u f))"
    using name_ids_insert [OF es'(2) v(4) srt] dst(1) name_ids_same [of t v] Reset_names [OF r] n
    by (auto simp: fun_eq_iff map_of_map_erase name_ids_def)
  with ResetUnusedIOZones_crash_safe(1) [OF es'(1) r] show ?thesis by blast
qed

lemma named_new_sel [simp]: "meta_log (named_new name f s) = meta_log s" "files (named_new name f s) = map_insert name f (files s)"
  by (simp_all add: named_new_def add_handle_def upd_file_def)

lemma OpenWritableFile_create:
  fixes s :: "('d, 'a, 'm) ZenFS_scheme"
  assumes C: "crash_safe be media s es" and name: "map_of (files s) name = None" "name_ok name" "formatted name"
    and id: "\<forall>g\<in>objs s. file_id (zfiles s g) \<noteq> next_file_id s"
  defines "f \<equiv> next_ptr s"
  assumes fit: "fits (touch env f (created env udw name s)) (Update (unsynced (zfiles (touch env f (created env udw name s)) f)))"
  obtains st w v where "OpenWritableFile be env mem name udw False s =
      Some (st, if ok st then Some w else None, if ok st then named_new name f v else drop_file f v)" "files v = files s"
    "\<And>g. file_id (zfiles v g) = (if g = f then next_file_id s else file_id (zfiles s g))"
    "ok st \<Longrightarrow> meta_log v = meta_log s \<Longrightarrow> \<exists>es'. crash_safe be media (named_new name f v) es'"
    "ok st \<Longrightarrow> meta_log v \<noteq> meta_log s \<Longrightarrow> \<exists>es'. crash_safe be media v es'"
proof -
  let ?c = "created env udw name s"
  have rep: "represents persisted s (journal_db es)" using C by (simp add: crash_safe_def)
  have fresh: "journal_db es (next_file_id s) = None"
  proof (rule ccontr)
    assume "journal_db es (next_file_id s) \<noteq> None"
    then obtain d where d: "journal_db es (next_file_id s) = Some d" by blast
    obtain g where "file_id (zfiles s g) = next_file_id s" "g \<in> objs s" by (rule represents_obj [OF rep d]) (rule that)
    with id show False by blast
  qed
  have "journal_ok be media ?c es" using C journal_ok_stripped [of ?c s be media es] by (simp add: crash_safe_def)
  then have w: "writer_ok be media ?c" "geometry ?c" by (simp_all add: journal_ok_def)
  obtain st v where v: "SyncFileMetadata be env False f ?c = Some (st, v)" "journal_step media ?c v"
    by (rule SyncFileMetadata_journal [OF w])
  have run: "SyncFileMetadataNoLock be env False f ?c = Some (st, v)" using v(1) by (simp add: SyncFileMetadata_def)
  have sim: "file_sim (zfiles ?c g) (zfiles v g)" for g using v(2) unfolding journal_step_def meta_frame_def by blast
  from file_sim_sel(10) [OF this, of f] have nw: "\<not> open_for_wr (zfiles v f)" by (simp add: f_def)
  have ids: "file_id (zfiles v g) = (if g = f then next_file_id s else file_id (zfiles s g))" for g
    using file_sim_sel(9) [OF sim, of g] by (simp add: f_def)
  have fs: "files v = files s" using journal_stepD(6) [OF v(2)] by simp
  obtain w where op: "OpenWritableFile be env mem name udw False s =
      Some (st, if ok st then Some w else None, if ok st then named_new name f v else drop_file f v)"
    using OpenWritableFile_new [OF name(3,1) run [unfolded f_def] nw [unfolded f_def]] unfolding f_def by blast
  show thesis
  proof (rule that [OF op fs ids])
    assume ok: "ok st"
    note cp = create_persist [OF C name(1,2) fresh fit [unfolded f_def] run [unfolded f_def] ok, folded f_def]
    show "\<exists>es'. crash_safe be media (named_new name f v) es'" if ml: "meta_log v = meta_log s"
      by (rule cp) (use ml in blast)+
    show "\<exists>es'. crash_safe be media v es'" if ml: "meta_log v \<noteq> meta_log s"
      by (rule cp) (use ml in blast)+
  qed
qed

lemma fs_op_step:
  fixes s t :: "('d, 'a, 'm) ZenFS_scheme"
  assumes "fs_op be env s t" and C: "crash_safe be media s es"
  shows "(\<exists>es'. crash_safe be media t es') \<and> name_op (name_ids s) (name_ids t)"
  using assms(1)
proof cases
  case (sync f st)
  note run = sync(3) [unfolded SyncFileMetadata_def]
  have "\<exists>es'. crash_safe be media t es'"
    by (rule sync_named [OF C sync(1) renames_refl [OF C sync(1)] sync(2) run sync(4)]) blast
  moreover have "name_ids t = name_ids s"
    by (rule sync_names [OF C renames_refl [OF C sync(1)], of env]) (use run in \<open>auto intro: name_ids_same\<close>)
  ultimately show ?thesis by (simp add: name_op.keep)
next
  case (delete name f st)
  obtain st' u where u: "DeleteFileNoLock be env name s = Some (st', u)" "(if ok st' then ResetUnusedIOZones be u else (st', u)) = (st, t)"
    using delete(4) by (auto simp: DeleteFile_def split: Option.bind_splits)
  then have st': "ok st'" and r: "ResetUnusedIOZones be u = (st, t)" using delete(5) by (auto split: if_splits)
  from DeleteFileNoLock_crash_safe [OF C delete(1,2,3) u(1) st'] obtain es' where es': "crash_safe be media u es'"
    "files u = map_erase name (files s)" "\<forall>g. file_id (zfiles u g) = file_id (zfiles s g)" by blast
  have "name_ids t = (name_ids s)(name := None)"
    using name_ids_erase [OF es'(2)] es'(3) name_ids_same [of t u] Reset_names [OF r] by simp
  with ResetUnusedIOZones_crash_safe(1) [OF es'(1) r] show ?thesis by (auto intro: name_op.remove)
next
  case (rename src f dst st)
  have i: "name_ids s src = Some (file_id (zfiles s f))" "src \<noteq> dst" using rename(1,3) by (auto simp: name_ids_def)
  from RenameFile_crash_safe [OF C rename(1,3,4,5,6) rename_run_file [OF rename(2,5,1)] rename(7,9)]
  show ?thesis using name_op.move [of "name_ids s", OF i] by auto
next
  case (replace src f dst g u st)
  from DeleteFileNoLock_crash_safe [OF C replace(3,5,7,8)] obtain es' where u: "crash_safe be media u es'" "files u = map_erase dst (files s)"
      "\<forall>g. file_id (zfiles u g) = file_id (zfiles s g)"
    by (auto simp: ok_def OK_def)
  have n: "map_of (files u) src = Some f" "map_of (files u) dst = None" using u(2) replace(1,6) by (simp_all add: map_of_map_erase)
  have "RenameFileNoLock be env src dst s = rename_file be env f src dst u"
    using rename_run_file [OF replace(2,5,1)] rename_over [OF replace(5,3,8) n(2)] by simp
  from RenameFile_crash_safe [OF u(1) n replace(4,5,9) this replace(10,12)]
  have t: "\<exists>es'. crash_safe be media t es'" "name_ids t = (name_ids u)(src := None, dst \<mapsto> file_id (zfiles u f))" by auto
  have i: "name_ids s src = Some (file_id (zfiles s f))" using replace(1) by (simp add: name_ids_def)
  have "name_ids t = (name_ids s)(src := None, dst \<mapsto> file_id (zfiles s f))"
    using t(2) name_ids_erase [OF u(2)] u(3) by (auto simp: fun_eq_iff)
  with t(1) name_op.move [of "name_ids s", OF i replace(6)] show ?thesis by simp
next
  case (link name f lname st)
  obtain st' t' where t': "LinkFile be env name lname s = Some (st', t')"
    "(\<exists>es'. crash_safe be media t' es' \<and> files t' = map_insert lname f (files s)) \<or> map_of (files t') = map_of (files s)"
    "\<And>g. file_id (zfiles t' g) = file_id (zfiles s g)"
    by (rule LinkFile_crash_safe [OF C link(1-6)]) (rule that)
  have "t' = t" using t'(1) link(7) by simp
  with t'(2) link(3,8) have t: "\<exists>es'. crash_safe be media t es'" "files t = map_insert lname f (files s)" by auto
  have i: "name_ids s name = Some (file_id (zfiles s f))" "name_ids s lname = None" using link(1,3) by (simp_all add: name_ids_def)
  have "name_ids t = (name_ids s)(lname \<mapsto> file_id (zfiles s f))"
    using name_ids_insert [OF t(2) _ crash_safe_sorted [OF C] link(3), of s] t'(3) \<open>t' = t\<close> by (auto simp: fun_eq_iff name_ids_def)
  with t(1) name_op.share [of "name_ids s", OF i] show ?thesis by simp
next
  case (create name udw mem st w)
  obtain st' w' v where v: "OpenWritableFile be env mem name udw False s =
      Some (st', if ok st' then Some w' else None, if ok st' then named_new name (next_ptr s) v else drop_file (next_ptr s) v)"
    "files v = files s" "\<And>g. file_id (zfiles v g) = (if g = next_ptr s then next_file_id s else file_id (zfiles s g))"
    "ok st' \<Longrightarrow> meta_log v = meta_log s \<Longrightarrow> \<exists>es'. crash_safe be media (named_new name (next_ptr s) v) es'"
    by (rule OpenWritableFile_create [OF C create(1-5)]) (rule that)
  have t: "t = named_new name (next_ptr s) v" "ok st'" using v(1) create(6,7) by (auto split: if_splits)
  have rep: "represents persisted s (journal_db es)" using C by (simp add: crash_safe_def)
  have i: "name_ids s name = None" "next_file_id s \<notin> ran (name_ids s)"
    using create(1,4) by (auto simp: name_ids_def ran_def objs_map_of [OF representsD(1) [OF rep]])
  have ids: "file_id (zfiles t g) = file_id (zfiles v g)" for g by (simp add: t(1) named_new_def add_handle_def)
  have nm: "map_of (files t) n = (if n = name then Some (next_ptr s) else map_of (files s) n)" for n
    using crash_safe_sorted [OF C] create(1) by (simp add: t(1) v(2) map_of_map_insert)
  have "name_ids t n = ((name_ids s)(name \<mapsto> next_file_id s)) n" for n
  proof (cases "map_of (files s) n")
    case None
    then show ?thesis by (simp add: name_ids_def nm ids v(3))
  next
    case (Some g)
    then have "g \<noteq> next_ptr s" "n \<noteq> name" using representsD(3) [OF rep Some] create(1) by auto
    with Some show ?thesis by (simp add: name_ids_def nm ids v(3))
  qed
  then have "name_ids t = (name_ids s)(name \<mapsto> next_file_id s)" by blast
  with name_op.add [of "name_ids s", OF i] v(4) t create(8) show ?thesis by auto
qed

lemma runs_crash_safe:
  assumes "(fs_op be env)\<^sup>*\<^sup>* s t" and "crash_safe be media s es"
  obtains es' where "crash_safe be media t es'"
  using assms
proof (induction arbitrary: thesis)
  case (step u v)
  then show ?case using fs_op_step by metis
qed blast

end
