(* ===== verification/NameSpace.thy ===== *)
theory NameSpace
  imports Remount
begin

text \<open>
  The name space of the file system as its users see it: what survives a crash and what does not, with concrete file
  systems on which the operations of \<^verbatim>\<open>plugin/zenfs/fs/fs_zenfs.cc\<close> are run.
\<close>

section \<open>A file system with its log\<close>

text \<open>Memory as a device accepts every write that fits the zone.\<close>

lemma ram_append:
  assumes "sz \<noteq> 0" and "length data = unat sz" and "unat sz \<le> rw_max" and "ucast sz \<le> z_capacity z"
  shows "Zone_Append (ram_backend info zrs cap) z data sz d =
    Some (OK, advance (unat sz) z, snd (ram_write data (z_wp z) d), ucast sz)"
proof -
  have "\<not> z_capacity z < ucast sz" using assms(4) by simp
  moreover have "be_Write (ram_backend info zrs cap) (take (unat sz) data) (z_wp z) d = (int (unat sz), snd (ram_write data (z_wp z) d))"
    using assms(2,3) by (simp add: ram_write_def Let_def)
  from Zone_Append_loop_step [OF assms(1) this]
  have "Zone_Append_loop (ram_backend info zrs cap) data sz z d 0 =
      Zone_Append_loop (ram_backend info zrs cap) [] 0 (advance (unat sz) z) (snd (ram_write data (z_wp z) d)) (of_nat (unat sz))"
    using assms(2) by simp
  moreover have "(of_nat (unat sz) :: u64) = ucast sz" by simp
  ultimately show ?thesis
    by (simp add: Zone_Append_def) (subst Zone_Append_loop.simps, simp)
qed

lemma ram_AddRecord:
  assumes "small (ml_bs log) data" and "length (record_bytes (unat (ml_bs log)) data) \<le> rw_max"
    and "length (record_bytes (unat (ml_bs log)) data) \<le> unat (z_capacity (meta_zones s ! ml_zone log))"
  obtains d where "AddRecord (ram_backend info zrs cap) log data s =
    Some (OK, AddBytesWritten (of_nat (length (record_bytes (unat (ml_bs log)) data)))
      (upd_meta (ml_zone log) (advance (length (record_bytes (unat (ml_bs log)) data)) (meta_zones s ! ml_zone log)) (s\<lparr>dev := d\<rparr>)))"
proof -
  let ?n = "length (record_bytes (unat (ml_bs log)) data)"
  have n: "unat (of_nat ?n :: u32) = ?n" using assms(2) by (intro unat_of_nat_small) (simp add: rw_max_def)
  have "0 < ?n" using pad_up_bounds(1) [of "8 + length data" "unat (ml_bs log)"] by (simp add: record_bytes_length)
  then have "(of_nat ?n :: u32) \<noteq> 0" using n by (metis unat_0 less_numeral_extra(3))
  moreover have "(ucast (of_nat ?n :: u32) :: u64) = of_nat ?n" using n by (metis of_nat_unat)
  moreover have "ucast (of_nat ?n :: u32) \<le> z_capacity (meta_zones s ! ml_zone log)"
    using assms(3) n by (simp add: word_le_nat_alt)
  ultimately show thesis
    using that AddRecord_append [OF assms(1), of "ram_backend info zrs cap" s] n assms(2)
    by (simp add: append_meta_def ram_append)
qed

definition file_b :: ZoneFile where
  "file_b = (new_ZoneFile 1)\<lparr>extents := [\<lparr>e_start = 0x20000, e_length = 6, e_zone = 0\<rparr>], linkfiles := [''/a''],
     nr_synced_extents := 1, file_size := 6, io_type := kWAL\<rparr>"

definition sb2 :: Superblock where
  "sb2 = new_Superblock (str ''7f6d'') (str ''v2.1'') zfs0 (str ''/aux'') 10 False"

definition log1 :: "bytes list" where
  "log1 = [fst (Superblock_EncodeTo sb2), encode_entry (Snapshot [desc file_b])]"

text \<open>The log is in the first metadata zone; its snapshot has the file \<^verbatim>\<open>/a\<close>, which nobody has open.\<close>

definition zfs1 :: "(u64 \<Rightarrow> byte, unit) ZenFS" where
  "zfs1 = zfs0\<lparr>dev := (\<lambda>a. let bs = records_bytes 4 log1 in if unat a < length bs then bs ! unat a else 0),
     io_zones := [big_zone False 0x20000 8 6, big_zone False 0x30000 0 0],
     meta_zones := [big_zone True 0 (of_nat (length (records_bytes 4 log1))) 0, big_zone False 0x10000 0 0],
     active_io_zones := 1, open_io_zones := 0, zfiles := (\<lambda>_. new_ZoneFile 0)(0 := file_b), handles := (\<lambda>_. 0),
     superblock := Some (snd (Superblock_EncodeTo sb2))\<rparr>"

lemma log1_length: "length (records_bytes 4 log1) = 620"
proof -
  have "superblock_wf sb2" unfolding sb2_def by (rule new_Superblock_wf)
  then have "length (fst (Superblock_EncodeTo sb2)) = 512" by (simp add: Superblock_EncodeTo_length ENCODED_SIZE_def)
  moreover have "length (encode_entry (Snapshot [desc file_b])) = 90"
    by code_simp
  ultimately show ?thesis by (simp add: log1_def record_bytes_length pad_up_def)
qed

lemma log1_app: "fst (Superblock_EncodeTo sb2) # map encode_entry [Snapshot [desc file_b]] @ [] = log1"
  by (simp add: log1_def)

lemma file_b_sel [simp]:
  "linkfiles file_b = [''/a'']" "file_id file_b = 1" "extents file_b = [\<lparr>e_start = 0x20000, e_length = 6, e_zone = 0\<rparr>]"
  "nr_synced_extents file_b = 1" "is_deleted file_b = False" "open_for_wr file_b = False" "file_size file_b = 6"
  by (simp_all add: file_b_def new_ZoneFile_def)

lemma zfs1_sel [simp]:
  "block_sz zfs1 = 4" "zone_sz zfs1 = 0x10000" "io_zones zfs1 = [big_zone False 0x20000 8 6, big_zone False 0x30000 0 0]"
  "meta_zones zfs1 = [big_zone True 0 620 0, big_zone False 0x10000 0 0]" "nr_zones zfs1 = 4" "aux zfs1 = ()"
  "zfiles zfs1 = (\<lambda>_. new_ZoneFile 0)(0 := file_b)" "files zfs1 = [(''/a'', 0)]" "handles zfs1 = (\<lambda>_. 0)" "next_ptr zfs1 = 1"
  "meta_log zfs1 = Some \<lparr>ml_read_pos = 0, ml_zone = 0, ml_bs = 4\<rparr>" "superblock zfs1 = Some (snd (Superblock_EncodeTo sb2))"
  "next_file_id zfs1 = 2"
  by (simp_all add: zfs1_def log1_length) (simp_all add: zfs0_def)

lemma big_zone_sel [simp]:
  "z_busy (big_zone b s w u) = b" "z_start (big_zone b s w u) = s" "z_capacity (big_zone b s w u) = 0x10000 - w"
  "z_max_capacity (big_zone b s w u) = 0x10000" "z_wp (big_zone b s w u) = s + w" "z_used_capacity (big_zone b s w u) = u"
  by (simp_all add: big_zone_def)

lemma zfs1_located: "GetIOZone zfs1 0x20000 = Some 0"
  by (simp add: GetIOZone_def)

lemma sb2_good: "good_superblock sb2"
  using new_Superblock_wf [of "str ''7f6d''" "str ''v2.1''" zfs0 "str ''/aux''" 10 False]
  by (simp add: good_superblock_def sb2_def) (simp add: new_Superblock_def Let_def)

lemma zfs1_log: "log_has ram1 id zfs1 log1"
proof -
  have "id (dev zfs1) (0 + of_nat i) = records_bytes 4 log1 ! i" if "i < length (records_bytes 4 log1)" for i
    using that by (simp add: zfs1_def Let_def log1_length unat_of_nat_small)
  then have "log_holds id 4 (big_zone True 0 620 0) (dev zfs1) log1"
    by (simp add: log_holds_def log1_length stored_def)
  moreover have "\<forall>r\<in>set log1. length r < 4096"
  proof -
    have "record_bytes 4 (log1 ! 0) @ record_bytes 4 (log1 ! 1) = records_bytes 4 log1" by (simp add: log1_def)
    from arg_cong [OF this, of length] have "pad_up 4 (8 + length (log1 ! 0)) + pad_up 4 (8 + length (log1 ! 1)) = 620"
      by (simp add: log1_length record_bytes_length)
    then show ?thesis
      using pad_up_bounds(1) [of "8 + length (log1 ! 0)" 4] pad_up_bounds(1) [of "8 + length (log1 ! 1)" 4] by (auto simp: log1_def)
  qed
  then have "\<forall>r\<in>set log1. small 4 r" by (fastforce simp: small_def)
  moreover have "log_ok ram1 \<lparr>ml_read_pos = 0, ml_zone = 0, ml_bs = 4\<rparr> zfs1"
    by (simp add: log_ok_def meta_zone_ok_def zone_wf_def ram_readable)
  ultimately show ?thesis by (simp add: log_has_def)
qed

lemma zfs1_journal: "journal_ok ram1 id zfs1 [Snapshot [desc file_b]]"
proof -
  have "writer_ok ram1 id zfs1"
    by (simp add: writer_ok_def ram_device_ok metas_ok_def all_less_2 meta_wf_def zone_wf_def IsUsed_def)
  moreover have "geometry zfs1" "zones_fit zfs1"
    by (simp_all add: geometry_def zones_fit_def all_less_2 apart_def)
  moreover have "starts_ok ram1 zfs1"
    by (simp add: starts_ok_def all_less_2 ram_readable)
  moreover have "heads_log (fst (Superblock_EncodeTo sb2)) zfs1" by (rule heads_new [OF sb2_good]) simp
  moreover have "valid_entries zfs1 [Snapshot [desc file_b]] Map.empty"
    by (simp add: consistent_def desc_ok_def located_def zfs1_located links_ok_def)
  ultimately show ?thesis using zfs1_log by (auto simp: journal_ok_def log1_def)
qed

lemma zfs1_objs: "objs zfs1 = {0}"
  by (simp add: objs_def)

lemma zfs1_crash_safe: "crash_safe ram1 id zfs1 [Snapshot [desc file_b]]"
proof -
  have "represents persisted zfs1 (journal_db [Snapshot [desc file_b]])"
    by (auto simp: represents_def persisted_def sorted_map_def split: if_splits)
  moreover have "file_ok zfs1 file_b"
    by (simp add: file_ok_def desc_ok_def located_def zfs1_located links_ok_def)
  ultimately show ?thesis using zfs1_journal zfs1_objs by (simp add: crash_safe_def)
qed

definition restart_of :: "('d, 'a, 'm) ZenFS_scheme \<Rightarrow> ('d, 'a, 'm) ZenFS_scheme" where
  "restart_of s = s\<lparr>files := [], handles := (\<lambda>_. 0), io_zones := map (\<lambda>z. z\<lparr>z_used_capacity := 0\<rparr>) (io_zones s),
     meta_zones := map (\<lambda>z. z\<lparr>z_busy := False, z_used_capacity := 0\<rparr>) (meta_zones s)\<rparr>"

lemma restarted_of: "restarted media s (restart_of s)"
  by (simp add: restarted_def restart_of_def)

definition file_c :: ZoneFile where
  "file_c = file_b\<lparr>linkfiles := [''/b''], m_time := 1700000000\<rparr>"

lemma file_c_touch: "zfiles (touch env0 0 (moved ''/a'' ''/b'' 0 zfs1)) 0 = file_c"
  by (simp add: touch_def moved_def SetFileModificationTime_def env0_def file_c_def)

lemma file_c_length:
  "length (encode_entry (Update (unsynced file_c))) = 68" "length (encode_entry (Snapshot [desc file_c])) = 90"
  by code_simp+

lemma paths_formatted: "formatted ''/a''" "formatted ''/b''"
  unfolding formatted_def by code_simp+

lemma moved_files: "files (moved ''/a'' ''/b'' 0 zfs1) = [(''/b'', 0)]"
  by (simp add: moved_def map_erase_def)

lemma moved_fits: "fits (touch env0 0 (moved ''/a'' ''/b'' 0 zfs1)) (Update (unsynced file_c))"
proof -
  let ?c = "touch env0 0 (moved ''/a'' ''/b'' 0 zfs1)"
  have "snapshot_of ?c = [desc file_c]" by (simp add: snapshot_of_def moved_files file_c_touch)
  moreover have "block_sz ?c = 4" "superblock ?c = Some (snd (Superblock_EncodeTo sb2))"
    by (simp_all add: touch_def moved_def upd_file_def)
  moreover have "superblock_wf (snd (Superblock_EncodeTo sb2))"
    using heads_new [OF sb2_good, of zfs1] by (auto simp: heads_log_def good_superblock_def)
  ultimately show ?thesis
    using file_c_length by (simp add: fits_def small_def Superblock_EncodeTo_length ENCODED_SIZE_def del: encode_entry.simps)
qed


section \<open>Properties\<close>



section \<open>A log that is full\<close>

lemma ram_AddRecord_full:
  assumes "small (ml_bs log) data" and "length (record_bytes (unat (ml_bs log)) data) \<le> rw_max"
    and "z_capacity (meta_zones s ! ml_zone log) = 0"
  shows "AddRecord (ram_backend info zrs cap) log data s =
    Some (NoSpace ''Not enough capacity for append'' [], AddBytesWritten 0 (upd_meta (ml_zone log) (meta_zones s ! ml_zone log) s))"
proof -
  let ?n = "length (record_bytes (unat (ml_bs log)) data)"
  have n: "unat (of_nat ?n :: u32) = ?n" using assms(2) by (intro unat_of_nat_small) (simp add: rw_max_def)
  have "0 < ?n" using pad_up_bounds(1) [of "8 + length data" "unat (ml_bs log)"] by (simp add: record_bytes_length)
  then have "(0 :: u64) < ucast (of_nat ?n :: u32)" using n by (simp add: word_less_nat_alt)
  then show ?thesis
    using AddRecord_append [OF assms(1), of "ram_backend info zrs cap" s] assms(3) by (simp add: append_meta_def Zone_Append_def)
qed

lemma fold_synced_more:
  "meta_log (fold (\<lambda>(name, f). upd_file f h) fs s) = meta_log s" "superblock (fold (\<lambda>(name, f). upd_file f h) fs s) = superblock s"
  "nr_zones (fold (\<lambda>(name, f). upd_file f h) fs s) = nr_zones s"
  by (induction fs arbitrary: s) (auto simp: upd_file_def)

text \<open>Rolling over from the first, full metadata zone to the second, empty one.\<close>

lemma ram_roll:
  fixes s :: "(u64 \<Rightarrow> byte, 'a, 'm) ZenFS_scheme"
  assumes zs: "meta_zones s = [z0, z1]" "z_busy z0" "z_capacity z0 = 0" "\<not> z_busy z1" "IsEmpty z1" "\<not> IsUsed z1"
    and log: "meta_log s = Some old" "ml_zone old = 0" "superblock s = Some sb"
  defines "r1 \<equiv> fst (Superblock_EncodeTo sb)" and "r2 \<equiv> ZenFS_EncodeSnapshotTo s"
  assumes sz: "small (ucast (block_sz s)) r1" "small (ucast (block_sz s)) r2" "length (record_bytes (unat (block_sz s)) r1) + length (record_bytes (unat (block_sz s)) r2) \<le> unat (z_capacity z1)"
    "unat (z_capacity z1) \<le> rw_max"
  obtains t where "RollMetaZoneLocked (ram_backend info zrs cap) s = Some (OK, t)" "meta_log t = Some (new_ZenMetaLog 1 s)"
    "superblock t = Some (snd (Superblock_EncodeTo sb))" "length (meta_zones t) = 2"
    "meta_zones t ! 0 = z0\<lparr>z_busy := False, z_capacity := cap, z_max_capacity := cap, z_wp := z_start z0, z_lifetime := WLTH_NOT_SET\<rparr>"
    "nr_zones t = nr_zones s" "block_sz t = block_sz s" "zone_sz t = zone_sz s"
proof -
  let ?be = "ram_backend info zrs cap" and ?log = "new_ZenMetaLog 1 s"
  let ?n1 = "length (record_bytes (unat (block_sz s)) r1)" and ?n2 = "length (record_bytes (unat (block_sz s)) r2)"
  have log': "ml_zone ?log = 1" "ml_bs ?log = ucast (block_sz s)" by (simp_all add: new_ZenMetaLog_def)
  define s1 where "s1 = upd_meta 1 (z1\<lparr>z_busy := True\<rparr>) (upd_meta 0 z0 s)"
  have al: "AllocateMetaZone ?be s = (OK, Some 1, s1)"
    using zs by (simp add: AllocateMetaZone_def upt_rec acquire_meta_def Acquire_def s1_def IsUsed_def IsEmpty_def)
  have s1: "meta_zones s1 = [z0, z1\<lparr>z_busy := True\<rparr>]" "meta_log s1 = Some old" "superblock s1 = Some sb" "files s1 = files s" "zfiles s1 = zfiles s"
    "new_ZenMetaLog 1 s1 = ?log" "nr_zones s1 = nr_zones s" "block_sz s1 = block_sz s" "zone_sz s1 = zone_sz s"
    using zs log by (simp_all add: s1_def upd_meta_def new_ZenMetaLog_def)
  define s2 where "s2 = s1\<lparr>meta_log := Some ?log, superblock := Some (snd (Superblock_EncodeTo sb))\<rparr>"
  have cl: "close_old_log ?be old (s1\<lparr>meta_log := Some ?log\<rparr>) = Some (s1\<lparr>meta_log := Some ?log\<rparr>)"
    using s1 log(2) zs(3) by (simp add: close_old_log_def GetCapacityLeft_def)
  have s2: "meta_zones s2 = [z0, z1\<lparr>z_busy := True\<rparr>]" "meta_log s2 = Some ?log" "superblock s2 = Some (snd (Superblock_EncodeTo sb))"
      "files s2 = files s" "zfiles s2 = zfiles s" "nr_zones s2 = nr_zones s" "block_sz s2 = block_sz s" "zone_sz s2 = zone_sz s"
    using s1 by (simp_all add: s2_def)
  obtain d3 where a1: "AddRecord ?be ?log r1 s2 =
      Some (OK, AddBytesWritten (of_nat ?n1) (upd_meta 1 (advance ?n1 (z1\<lparr>z_busy := True\<rparr>)) (s2\<lparr>dev := d3\<rparr>)))"
    by (rule ram_AddRecord [where log = ?log and data = r1 and s = s2 and info = info and zrs = zrs and cap = cap])
      (use log' sz s2 in simp_all)
  define s3 where "s3 = AddBytesWritten (of_nat ?n1) (upd_meta 1 (advance ?n1 (z1\<lparr>z_busy := True\<rparr>)) (s2\<lparr>dev := d3\<rparr>))"
  have s3: "meta_zones s3 = [z0, advance ?n1 (z1\<lparr>z_busy := True\<rparr>)]" "meta_log s3 = Some ?log" "superblock s3 = Some (snd (Superblock_EncodeTo sb))"
      "files s3 = files s" "zfiles s3 = zfiles s" "nr_zones s3 = nr_zones s" "block_sz s3 = block_sz s" "zone_sz s3 = zone_sz s"
    using s2 by (simp_all add: s3_def AddBytesWritten_def upd_meta_def)
  have r2: "ZenFS_EncodeSnapshotTo s3 = r2" using s3 by (simp add: ZenFS_EncodeSnapshotTo_def r2_def)
  have "unat (z_capacity (advance ?n1 (z1\<lparr>z_busy := True\<rparr>))) = unat (z_capacity z1) - ?n1"
    using sz(3) unat_u64_less [of "z_capacity z1"] by (simp add: unat_sub_if' unat_of_nat_small)
  then have le: "?n2 \<le> unat (z_capacity (meta_zones s3 ! ml_zone ?log))" using sz(3) s3(1) log' by simp
  obtain d4 where a2: "AddRecord ?be ?log r2 s3 =
      Some (OK, AddBytesWritten (of_nat ?n2) (upd_meta 1 (advance ?n2 (advance ?n1 (z1\<lparr>z_busy := True\<rparr>))) (s3\<lparr>dev := d4\<rparr>)))"
    by (rule ram_AddRecord [where log = ?log and data = r2 and s = s3 and info = info and zrs = zrs and cap = cap])
      (use log' sz s3 le in simp_all)
  define s4 where "s4 = AddBytesWritten (of_nat ?n2) (upd_meta 1 (advance ?n2 (advance ?n1 (z1\<lparr>z_busy := True\<rparr>))) (s3\<lparr>dev := d4\<rparr>))"
  define s5 where "s5 = fold (\<lambda>(name, f). upd_file f MetadataSynced) (files s4) s4"
  have "meta_log s5 = meta_log s4" "superblock s5 = superblock s4" "nr_zones s5 = nr_zones s4"
    unfolding s5_def by (rule fold_synced_more)+
  with s3 have s5: "meta_zones s5 = [z0, advance ?n2 (advance ?n1 (z1\<lparr>z_busy := True\<rparr>))]" "meta_log s5 = Some ?log"
      "superblock s5 = Some (snd (Superblock_EncodeTo sb))" "nr_zones s5 = nr_zones s" "block_sz s5 = block_sz s" "zone_sz s5 = zone_sz s"
    by (simp_all add: s5_def fold_synced_sel) (simp_all add: s4_def AddBytesWritten_def upd_meta_def)
  have ws: "WriteSnapshotLocked ?be ?log s3 = Some (OK, s5)"
    using a2 by (simp add: WriteSnapshotLocked_def r2 s5_def s4_def)
  obtain sb' where enc: "Superblock_EncodeTo sb = (r1, sb')" by (metis prod.collapse r1_def)
  let ?t = "delete_ZenMetaLog old (snd (reset_meta ?be 0 s5))"
  have "RollMetaZoneLocked ?be s = Some (OK, ?t)"
    using al cl s1 a1 ws enc log(2) by (simp add: RollMetaZoneLocked_def s2_def s3_def)
  moreover have "meta_log ?t = Some ?log" "superblock ?t = Some (snd (Superblock_EncodeTo sb))" "length (meta_zones ?t) = 2"
    "meta_zones ?t ! 0 = z0\<lparr>z_busy := False, z_capacity := cap, z_max_capacity := cap, z_wp := z_start z0, z_lifetime := WLTH_NOT_SET\<rparr>"
    "nr_zones ?t = nr_zones s" "block_sz ?t = block_sz s" "zone_sz ?t = zone_sz s"
    using s5 log(2) by (simp_all add: delete_ZenMetaLog_def reset_meta_def Zone_Reset_def status_eq_def Release_def upd_meta_def)
  ultimately show thesis by (rule that)
qed

definition zfs2 :: "(u64 \<Rightarrow> byte, unit) ZenFS" where
  "zfs2 = zfs1\<lparr>meta_zones := [(big_zone True 0 620 0)\<lparr>z_capacity := 0\<rparr>, big_zone False 0x10000 0 0]\<rparr>"

lemma zfs2_sel [simp]:
  "block_sz zfs2 = 4" "zone_sz zfs2 = 0x10000" "io_zones zfs2 = io_zones zfs1"
  "meta_zones zfs2 = [(big_zone True 0 620 0)\<lparr>z_capacity := 0\<rparr>, big_zone False 0x10000 0 0]" "nr_zones zfs2 = 4" "aux zfs2 = ()"
  "zfiles zfs2 = (\<lambda>_. new_ZoneFile 0)(0 := file_b)" "files zfs2 = [(''/a'', 0)]" "handles zfs2 = (\<lambda>_. 0)" "next_ptr zfs2 = 1"
  "meta_log zfs2 = Some \<lparr>ml_read_pos = 0, ml_zone = 0, ml_bs = 4\<rparr>" "superblock zfs2 = Some (snd (Superblock_EncodeTo sb2))"
  "next_file_id zfs2 = 2" "dev zfs2 = dev zfs1"
  by (simp_all add: zfs2_def)

lemma zfs2_crash_safe: "crash_safe ram1 id zfs2 [Snapshot [desc file_b]]"
proof -
  have gz: "GetIOZone zfs2 a = GetIOZone zfs1 a" for a by (rule GetIOZone_cong) simp_all
  have l: "log_holds id 4 (big_zone True 0 620 0) (dev zfs1) log1" "\<forall>r\<in>set log1. small 4 r"
    using zfs1_log by (simp_all add: log_has_def)
  have "log_has ram1 id zfs2 log1"
    using l by (simp add: log_has_def log_ok_def meta_zone_ok_def zone_wf_def ram_readable log_holds_def)
  moreover have "writer_ok ram1 id zfs2"
    by (simp add: writer_ok_def ram_device_ok metas_ok_def all_less_2 meta_wf_def zone_wf_def IsUsed_def)
  moreover have "geometry zfs2" "zones_fit zfs2" "starts_ok ram1 zfs2"
    by (simp_all add: geometry_def zones_fit_def all_less_2 apart_def starts_ok_def ram_readable)
  moreover have "heads_log (fst (Superblock_EncodeTo sb2)) zfs2" by (rule heads_new [OF sb2_good]) simp
  moreover have "valid_entries zfs2 [Snapshot [desc file_b]] Map.empty"
    using zfs1_journal unfolding journal_ok_def valid_entries_cong(2) [OF gz] by blast
  ultimately have "journal_ok ram1 id zfs2 [Snapshot [desc file_b]]" by (auto simp: journal_ok_def log1_def)
  moreover have "represents persisted zfs2 (journal_db [Snapshot [desc file_b]])"
    by (rule represents_mono [where s = zfs1 and P = persisted]) (use zfs1_crash_safe in \<open>simp_all add: crash_safe_def\<close>)
  ultimately show ?thesis
    using zfs1_crash_safe file_ok_cong [OF gz] objs_files [of zfs2 zfs1] by (simp add: crash_safe_def)
qed

definition file_n :: ZoneFile where
  "file_n = (new_ZoneFile 2)\<lparr>linkfiles := [''/n''], m_time := 1700000000\<rparr>"

definition creating_n :: "(u64 \<Rightarrow> byte, unit) ZenFS" where
  "creating_n = touch env0 (Suc 0) (created env0 True ''/n'' zfs2)"

lemma creating_n_sel:
  "zfiles creating_n (Suc 0) = file_n" "zfiles creating_n 0 = file_b" "files creating_n = [(''/a'', 0)]" "block_sz creating_n = 4" "nr_zones creating_n = 4"
  "zone_sz creating_n = 0x10000" "meta_zones creating_n = meta_zones zfs2" "meta_log creating_n = meta_log zfs2"
  "superblock creating_n = superblock zfs2" "next_ptr creating_n = 2"
  by (simp_all add: creating_n_def touch_def created_def upd_file_def new_named_def typed_file_def ends_with_def SetFileModificationTime_def
      AddLinkName_def SetIOType_def env0_def file_n_def new_ZoneFile_def)

lemma file_n_length: "length (encode_entry (Update (unsynced file_n))) = 68" "formatted ''/n''"
  unfolding formatted_def by code_simp+

lemma creating_n_snapshot: "snapshot_of creating_n = [desc file_b]" "length (ZenFS_EncodeSnapshotTo creating_n) = 90"
proof -
  show s: "snapshot_of creating_n = [desc file_b]" by (simp add: snapshot_of_def creating_n_sel)
  have "ZenFS_EncodeSnapshotTo creating_n = encode_entry (Snapshot [desc file_b])"
    unfolding snapshot_entry snapshot_of_def [symmetric] s by simp
  moreover have "length (encode_entry (Snapshot [desc file_b])) = 90" by code_simp
  ultimately show "length (ZenFS_EncodeSnapshotTo creating_n) = 90" by simp
qed

lemma sb2_length: "length (fst (Superblock_EncodeTo (snd (Superblock_EncodeTo sb2)))) = 512"
proof -
  have "superblock_wf (snd (Superblock_EncodeTo sb2))"
    using heads_new [OF sb2_good, of zfs1] by (auto simp: heads_log_def good_superblock_def)
  then show ?thesis by (simp add: Superblock_EncodeTo_length ENCODED_SIZE_def)
qed

lemma creating_n_fits: "fits creating_n (Update (unsynced (zfiles creating_n 1)))"
proof -
  have "length (encode_entry (Snapshot (snapshot_of creating_n))) = 90"
    using creating_n_snapshot(2) unfolding snapshot_entry snapshot_of_def [symmetric] .
  then show ?thesis
    using file_n_length sb2_length by (simp add: fits_def small_def creating_n_sel del: encode_entry.simps)
qed

lemma zfs2_create:
  obtains w t where "OpenWritableFile ram1 env0 [] ''/n'' True False zfs2 = Some (OK, w, t)"
    "meta_log t = Some \<lparr>ml_read_pos = 0x10000, ml_zone = 1, ml_bs = 4\<rparr>" "length (meta_zones t) = 2"
    "superblock t = Some (snd (Superblock_EncodeTo (snd (Superblock_EncodeTo sb2))))"
    "meta_zones t ! 0 = big_zone False 0 0 0" "nr_zones t = 4" "block_sz t = 4" "zone_sz t = 0x10000"
proof -
  let ?log = "\<lparr>ml_read_pos = 0, ml_zone = 0, ml_bs = 4\<rparr> :: ZenMetaLog" and ?r = "encode_entry (Update (unsynced file_n))"
  define s1 where "s1 = AddBytesWritten 0 (upd_meta 0 (meta_zones zfs2 ! 0) creating_n)"
  have "AddRecord ram1 ?log ?r creating_n = Some (NoSpace ''Not enough capacity for append'' [], s1)"
    using ram_AddRecord_full [where log = ?log and data = ?r and s = creating_n and info = info0 and zrs = "[]" and cap = "0x10000"] file_n_length
    by (simp add: s1_def small_def rw_max_def record_bytes_length pad_up_def creating_n_sel del: encode_entry.simps)
  then have per: "PersistRecord ram1 ?r creating_n = RollMetaZoneLocked ram1 s1"
    by (simp add: PersistRecord_def creating_n_sel status_eq_def NoSpace_def del: encode_entry.simps)
  have s1: "meta_zones s1 = [(big_zone True 0 620 0)\<lparr>z_capacity := 0\<rparr>, big_zone False 0x10000 0 0]" "meta_log s1 = Some ?log"
    "superblock s1 = Some (snd (Superblock_EncodeTo sb2))" "block_sz s1 = 4" "nr_zones s1 = 4" "zone_sz s1 = 0x10000"
    "ZenFS_EncodeSnapshotTo s1 = ZenFS_EncodeSnapshotTo creating_n" "new_ZenMetaLog 1 s1 = \<lparr>ml_read_pos = 0x10000, ml_zone = 1, ml_bs = 4\<rparr>"
    by (simp_all add: s1_def AddBytesWritten_def upd_meta_def creating_n_sel ZenFS_EncodeSnapshotTo_def new_ZenMetaLog_def)
  obtain v where v: "RollMetaZoneLocked ram1 s1 = Some (OK, v)" "meta_log v = Some \<lparr>ml_read_pos = 0x10000, ml_zone = 1, ml_bs = 4\<rparr>"
    "superblock v = Some (snd (Superblock_EncodeTo (snd (Superblock_EncodeTo sb2))))" "length (meta_zones v) = 2"
    "meta_zones v ! 0 = big_zone False 0 0 0" "nr_zones v = 4" "block_sz v = 4" "zone_sz v = 0x10000"
  proof (rule ram_roll [where s = s1 and info = info0 and zrs = "[]" and cap = "0x10000", OF s1(1) _ _ _ _ _ s1(2) _ s1(3)])
    show "small (ucast (block_sz s1)) (fst (Superblock_EncodeTo (snd (Superblock_EncodeTo sb2))))"
      "small (ucast (block_sz s1)) (ZenFS_EncodeSnapshotTo s1)"
      using sb2_length creating_n_snapshot(2) s1(4,7) by (simp_all add: small_def)
    show "length (record_bytes (unat (block_sz s1)) (fst (Superblock_EncodeTo (snd (Superblock_EncodeTo sb2))))) +
        length (record_bytes (unat (block_sz s1)) (ZenFS_EncodeSnapshotTo s1)) \<le> unat (z_capacity (big_zone False 0x10000 0 0))"
      using sb2_length creating_n_snapshot(2) s1(4,7) by (simp add: record_bytes_length pad_up_def)
  next
    fix t
    assume "RollMetaZoneLocked ram1 s1 = Some (OK, t)" "meta_log t = Some (new_ZenMetaLog 1 s1)"
      "superblock t = Some (snd (Superblock_EncodeTo (snd (Superblock_EncodeTo sb2))))" "length (meta_zones t) = 2"
      "meta_zones t ! 0 = (big_zone True 0 620 0)\<lparr>z_capacity := 0, z_busy := False, z_capacity := 0x10000, z_max_capacity := 0x10000,
         z_wp := z_start ((big_zone True 0 620 0)\<lparr>z_capacity := 0\<rparr>), z_lifetime := WLTH_NOT_SET\<rparr>"
      "nr_zones t = nr_zones s1" "block_sz t = block_sz s1" "zone_sz t = zone_sz s1"
    with s1 show thesis by (intro that [of t]) (simp_all add: big_zone_def WLTH_NOT_SET_def)
  qed (simp_all add: IsEmpty_def IsUsed_def rw_max_def)
  let ?c = "created env0 True ''/n'' zfs2"
  have run: "SyncFileMetadataNoLock ram1 env0 False (next_ptr zfs2) ?c = Some (OK, upd_file 1 MetadataSynced v)"
    using per v(1) by (simp add: SyncFileMetadataNoLock_touch creating_n_def [symmetric] update_record_entry creating_n_sel
        del: encode_entry.simps)
  have "journal_ok ram1 id ?c [Snapshot [desc file_b]]"
    using zfs2_crash_safe unfolding crash_safe_def journal_ok_stripped [OF created_sel(5)] by blast
  then have "writer_ok ram1 id ?c" "geometry ?c" by (simp_all add: journal_ok_def)
  then have "journal_step id ?c (upd_file 1 MetadataSynced v)"
    by (rule SyncFileMetadata_journal [where env = env0 and replace = False and f = 1]) (use run in \<open>simp add: SyncFileMetadata_def\<close>)
  then have "file_sim (zfiles ?c 1) (zfiles (upd_file 1 MetadataSynced v) 1)"
    unfolding journal_step_def meta_frame_def by blast
  from file_sim_sel [OF this] have nw: "\<not> open_for_wr (zfiles (upd_file 1 MetadataSynced v) (next_ptr zfs2))" by simp
  obtain w where op: "OpenWritableFile ram1 env0 [] ''/n'' True False zfs2 =
      Some (OK, Some w, named_new ''/n'' 1 (upd_file 1 MetadataSynced v))"
    by (rule OpenWritableFile_new [OF file_n_length(2) _ run nw, of "[]"]) (use that in simp_all)
  show thesis by (rule that [OF op]) (use v in \<open>simp_all add: named_new_def add_handle_def upd_file_def\<close>)
qed

text \<open>
  (C33) A new file can be lost. \<^verbatim>\<open>OpenWritableFile\<close> writes the record of a new file before the file gets its name. When the
  log is full at that moment and is rolled over, the snapshot in the new log is one without the file, and the record
  itself is dropped: the operation returns OK, the file has its name in memory, and a mount after a crash does not find it.
\<close>

theorem creation_lost_when_log_rolls:
  assumes "crash_safe be media s es" and "map_of (files s) name = None" and "name_ok name" and "formatted name"
    and "\<forall>g\<in>objs s. file_id (zfiles s g) \<noteq> next_file_id s"
    and "fits (touch env (next_ptr s) (created env udw name s))
      (Update (unsynced (zfiles (touch env (next_ptr s) (created env udw name s)) (next_ptr s))))"
    and "OpenWritableFile be env mem name udw False s = Some (st, w, t)" and "ok st" and "meta_log t \<noteq> meta_log s"
    and "restarted media t r" and "2 \<le> length (meta_zones r)" and "meta_log t = Some log" and "superblock t = Some sb"
    and "CompatibleWith r sb = OK" and "stale_logs be media (ml_zone log) sb r"
    and "fst (aux_CreateDirIfMissing env (unstr (GetAuxFsPath sb)) (aux r)) = OK"
  shows "map_of (files t) name = Some (next_ptr s) \<and> (\<exists>u. Mount be env True r = Some (OK, u) \<and> visible u name = None)"
proof -
  obtain st' w' v where v: "OpenWritableFile be env mem name udw False s =
      Some (st', if ok st' then Some w' else None, if ok st' then named_new name (next_ptr s) v else drop_file (next_ptr s) v)"
    "files v = files s" "ok st' \<Longrightarrow> meta_log v \<noteq> meta_log s \<Longrightarrow> \<exists>es'. crash_safe be media v es'"
    by (rule OpenWritableFile_create [OF assms(1-6)]) (rule that)
  have t: "t = named_new name (next_ptr s) v" "ok st'" using v(1) assms(7,8) by (auto split: if_splits)
  obtain es' where C: "crash_safe be media v es'" using v(3) t assms(9) by auto
  have same: "dev t = dev v" "block_sz t = block_sz v" "zone_sz t = zone_sz v" "io_zones t = io_zones v" "meta_zones t = meta_zones v"
    "meta_log t = meta_log v" "superblock t = superblock v"
    by (simp_all add: t(1) named_new_def add_handle_def upd_file_def)
  then have r: "restarted media v r" using assms(10) by (simp add: restarted_def)
  obtain u where u: "Mount be env True r = Some (OK, u)" "visible u = durable v"
    using remount [OF C r assms(11) _ _ assms(14-16)] assms(12,13) same by auto
  have "sorted_map (files v)" using C representsD(1) unfolding crash_safe_def by blast
  then have "map_of (files t) name = Some (next_ptr s)" using t(1) v(2) assms(2) by (simp add: map_of_map_insert)
  moreover have "visible u name = None" using u(2) v(2) assms(2) by (simp add: durable_def view_def)
  ultimately show ?thesis using u(1) by blast
qed

theorem creation_lost_when_log_rolls_witness:
  "\<exists>w t u. OpenWritableFile ram1 env0 [] ''/n'' True False zfs2 = Some (OK, w, t) \<and> map_of (files t) ''/n'' \<noteq> None \<and>
     Mount ram1 env0 True (restart_of t) = Some (OK, u) \<and> visible u ''/n'' = None"
proof -
  let ?log = "\<lparr>ml_read_pos = 0x10000, ml_zone = 1, ml_bs = 4\<rparr> :: ZenMetaLog" and ?sb = "snd (Superblock_EncodeTo (snd (Superblock_EncodeTo sb2)))"
  obtain w t where t: "OpenWritableFile ram1 env0 [] ''/n'' True False zfs2 = Some (OK, w, t)"
    "meta_log t = Some ?log" "length (meta_zones t) = 2" "superblock t = Some ?sb"
    "meta_zones t ! 0 = big_zone False 0 0 0" "nr_zones t = 4" "block_sz t = 4" "zone_sz t = 0x10000"
    by (rule zfs2_create) (rule that)
  let ?r = "restart_of t"
  have r: "length (meta_zones ?r) = 2" "zone_sz ?r = 0x10000" "block_sz ?r = 4" "nr_zones ?r = 4" "meta_zones ?r ! 0 = big_zone False 0 0 0"
    using t(3,5-8) by (simp_all add: restart_of_def big_zone_def)
  have "zone_log ram1 id ?r 0 []"
    using r by (simp add: zone_log_def meta_zone_ok_def zone_wf_def ram_readable log_holds_def stored_def)
  then have st: "stale_logs ram1 id (ml_zone ?log) ?sb ?r"
    using r(1) by (auto simp: stale_logs_def less_Suc_eq numeral_2_eq_2)
  have cw: "CompatibleWith ?r ?sb = OK"
    using r zfs1_sel(5) by (simp add: CompatibleWith_def Superblock_EncodeTo_bytes sb2_def new_Superblock_def Let_def zfs1_def)
  have id: "\<forall>g\<in>objs zfs2. file_id (zfiles zfs2 g) \<noteq> next_file_id zfs2" by (simp add: objs_def)
  have fit: "fits (touch env0 (next_ptr zfs2) (created env0 True ''/n'' zfs2))
      (Update (unsynced (zfiles (touch env0 (next_ptr zfs2) (created env0 True ''/n'' zfs2)) (next_ptr zfs2))))"
    using creating_n_fits by (simp add: creating_n_def)
  have "map_of (files t) ''/n'' = Some (next_ptr zfs2) \<and> (\<exists>u. Mount ram1 env0 True ?r = Some (OK, u) \<and> visible u ''/n'' = None)"
    by (rule creation_lost_when_log_rolls [OF zfs2_crash_safe _ _ file_n_length(2) id fit t(1) _ _ restarted_of _ t(2) t(4) cw st])
      (use r(1) t(2) in \<open>simp_all add: name_ok_def env0_def\<close>)
  with t(1) show ?thesis by auto
qed

section \<open>Operations that cannot write their record\<close>

lemma crash_safe_backend:
  assumes C: "crash_safe be media s es" and dev: "device_ok be' (zone_sz s) media" and read: "\<And>lo hi. readable be lo hi \<Longrightarrow> readable be' lo hi"
  shows "crash_safe be' media s es"
proof -
  have "writer_ok be' media s" using C dev by (simp add: crash_safe_def journal_ok_def writer_ok_def)
  moreover have "starts_ok be' s" using C read by (simp add: crash_safe_def journal_ok_def starts_ok_def)
  moreover have "log_has be' media s recs" if "log_has be media s recs" for recs
    using that read by (auto simp: log_has_def log_ok_def meta_zone_ok_def)
  ultimately show ?thesis using C by (auto simp: crash_safe_def journal_ok_def)
qed

text \<open>Memory that has become read-only.\<close>

definition worn :: "(u64 \<Rightarrow> byte) backend" where
  "worn = ram1\<lparr>be_Write := (\<lambda>_ _ d. (-1, d))\<rparr>"

lemma worn_sel [simp]: "be_Write worn data pos d = (-1, d)" "be_Read worn = ram_read"
  by (simp_all add: worn_def)

lemma worn_device: "device_ok worn 0x10000 id" "readable ram1 lo hi \<Longrightarrow> readable worn lo hi"
proof -
  have "device_ok ram1 0x10000 id" by (rule ram_device_ok) simp
  then show "device_ok worn 0x10000 id"
    by (simp add: device_ok_def write_progress_def write_media_def read_media_def manage_media_def reset_capacity_def) (simp add: worn_def)
  show "readable ram1 lo hi \<Longrightarrow> readable worn lo hi" by (simp add: readable_def)
qed

lemma worn_AddRecord:
  assumes "small (ml_bs log) data" and "AddRecord worn log data s = Some (st, t)"
  shows "\<not> ok st"
proof -
  let ?b = "record_bytes (unat (ml_bs log)) data"
  let ?n = "of_nat (length ?b) :: u32"
  have "length ?b < 2 ^ 31"
    using pad_up_bounds(2) [of "unat (ml_bs log)" "8 + length data"] assms(1)
    by (simp add: small_def record_bytes_length word_less_nat_alt)
  then have n: "unat ?n = length ?b" by (intro unat_of_nat_small) simp
  have "0 < length ?b" using pad_up_bounds(1) [of "8 + length data" "unat (ml_bs log)"] by (simp add: record_bytes_length)
  then have "?n \<noteq> 0" using n by (metis unat_0 less_numeral_extra(3))
  then have "Zone_Append worn z ?b ?n d = Some (st', z', d', k) \<Longrightarrow> \<not> ok st'" for z d st' z' d' k
    by (subst (asm) Zone_Append_def, subst (asm) Zone_Append_loop.simps) (auto simp: ok_def NoSpace_def IOError_def split: if_splits)
  then show ?thesis
    using assms(2) AddRecord_append [OF assms(1), of worn s] by (auto simp: append_meta_def split: Option.bind_splits)
qed

lemma worn_PersistRecord:
  assumes J: "journal_ok worn id s es" and fit: "fits s e" and run: "PersistRecord worn (encode_entry e) s = Some (st, t)"
  shows "\<not> ok st"
proof
  assume okst: "ok st"
  obtain log r where log: "meta_log s = Some log" "log_ok worn log s" "z_busy (meta_zones s ! ml_zone log)"
      "log_holds id (unat (ml_bs log)) (meta_zones s ! ml_zone log) (dev s) (r # map encode_entry es)"
    using J by (auto simp: journal_ok_def log_has_def)
  have w: "writer_ok worn id s" "geometry s" "starts_ok worn s" using J by (simp_all add: journal_ok_def)
  have sm: "small (ml_bs log) (encode_entry e)" using log(2) fit by (simp add: log_ok_def fits_def)
  obtain st1 s1 where s1: "AddRecord worn log (encode_entry e) s = Some (st1, s1)" "meta_step id {ml_zone log} s s1"
    "z_busy (meta_zones s1 ! ml_zone log) = z_busy (meta_zones s ! ml_zone log)"
    by (rule AddRecord_both [OF writer_okD [OF w(1)] log(2) sm log(4)]) (rule that)
  note j1 = meta_step_journal [OF s1(2) w(2)]
  have roll: "RollMetaZoneLocked worn s1 = Some (st, t)"
    using run log(1) s1(1) worn_AddRecord [OF sm s1(1)] okst by (auto simp: PersistRecord_def split: if_splits)
  have w1: "writer_ok worn id s1" "geometry s1" "starts_ok worn s1" "meta_log s1 = Some log" "z_busy (meta_zones s1 ! ml_zone log)"
    using writer_ok_same [OF w(1) j1(1-3)] journal_same [OF j1(1) w(2)] starts_ok_step [OF s1(2)] w(3) j1 log(1,3) s1(3) by simp_all
  obtain log' s2 where s2: "RollMetaZoneLocked worn s1 = roll_rest worn log log' s2" "superblock s2 = superblock s1"
      "log_ok worn log' s2" "journal_step id s1 s2"
    by (rule roll_start [OF w1 roll okst]) (rule that)
  obtain sb where sb: "superblock s = Some sb" using w(1) by (auto simp: writer_ok_def)
  have "ml_bs log' = ucast (block_sz s)" using s2(3) journal_stepD(4) [OF s2(4)] journal_stepD(4) [OF j1(1)] by (simp add: log_ok_def)
  then have "small (ml_bs log') (fst (Superblock_EncodeTo sb))" using fit sb by (simp add: fits_def)
  note bad = worn_AddRecord [OF this, where s = "s2\<lparr>superblock := Some (snd (Superblock_EncodeTo sb))\<rparr>"]
  have "roll_rest worn log log' s2 = Some (st, t)" using roll s2(1) by simp
  with okst bad s2(2) j1(3) sb show False
    by (auto simp: roll_rest_def split_def Let_def ok_def IOError_def split: Option.bind_splits if_splits)
qed

lemma delete_links:
  assumes C: "crash_safe be media s es" and n: "map_of (files s) name = Some f" and fm: "formatted name"
    and run: "DeleteFileNoLock be env name s = Some (st, t)" "ok st"
  shows "linkfiles (zfiles t f) = remove1 name (linkfiles (zfiles s f))"
proof -
  have rep: "represents persisted s (journal_db es)" using C by (simp add: crash_safe_def)
  have f: "f \<in> objs s" using n by (auto simp: objs_map_of [OF representsD(1) [OF rep]])
  have nl: "name \<in> set (linkfiles (zfiles s f))" by (rule named_obj [OF rep f]) (use n in blast)
  let ?u = "unlinked name f s" and ?e = "Deletion (file_id (zfiles s f)) name"
  obtain v where v: "PersistRecord be (encode_entry ?e) ?u = Some (st, v)" "t = drop_file f v \<or> t = drop_file f (upd_file f SetDeleted v)"
    by (rule delete_persist [OF n nl fm run]) (rule that)
  have "journal_ok be media ?u es" using C unfolding crash_safe_def journal_ok_stripped [OF unlinked_sel(4)] by blast
  then have w: "writer_ok be media ?u" "geometry ?u" by (simp_all add: journal_ok_def)
  have "journal_step media ?u v" by (rule PersistRecord_journal [OF w, of "encode_entry ?e"]) (use v(1) in simp)
  then have "file_sim (zfiles ?u f) (zfiles v f)" unfolding journal_step_def meta_frame_def by blast
  from file_sim_sel(2) [OF this] have "linkfiles (zfiles v f) = remove1 name (linkfiles (zfiles s f))" by simp
  with v(2) show ?thesis by (auto simp: drop_file_def ClearExtents_adj SetDeleted_def)
qed

lemma zfs1_worn: "crash_safe worn id zfs1 [Snapshot [desc file_b]]"
  by (rule crash_safe_backend [OF zfs1_crash_safe]) (use worn_device in simp_all)

lemma worn_rename:
  obtains st4 s4 where "SyncFileMetadataNoLock worn env0 False 0 (moved ''/a'' ''/b'' 0 zfs1) = Some (st4, s4)" "\<not> ok st4"
proof -
  let ?m = "moved ''/a'' ''/b'' 0 zfs1"
  have ren: "renames 0 zfs1 ?m" by (rule renames_moved [OF zfs1_worn]) (simp_all add: name_ok_def)
  then have str: "stripped (touch env0 0 ?m) = stripped zfs1" by (simp add: renames_def)
  have J: "journal_ok worn id (touch env0 0 ?m) [Snapshot [desc file_b]]"
    using zfs1_worn unfolding crash_safe_def journal_ok_stripped [OF str] by blast
  obtain st4 s4 where s4: "SyncFileMetadataNoLock worn env0 False 0 ?m = Some (st4, s4)" by (rule sync_names [OF zfs1_worn ren])
  have nd: "\<not> is_deleted (zfiles ?m 0)" by (simp add: moved_def)
  obtain v where "PersistRecord worn (encode_entry (Update (unsynced file_c))) (touch env0 0 ?m) = Some (st4, v)"
    using s4 by (auto simp: SyncFileMetadataNoLock_touch [OF nd] update_record_entry file_c_touch split: Option.bind_splits)
  from worn_PersistRecord [OF J moved_fits this] s4 show thesis by (rule that [rotated])
qed

text \<open>
  (C34) A renaming that could not be written is reported as success. When the record with the new name cannot be
  persisted, \<^verbatim>\<open>RenameFileNoLock\<close> gives the file its old name back and returns the status of that, which is OK: the
  caller is told that the file is renamed, while no name has changed.
\<close>

theorem rename_reports_success_when_not_persisted:
  assumes "crash_safe be media s es" and "map_of (files s) src = Some f" and "formatted src"
    and "map_of (files s) dst = None" and "name_ok dst" and "formatted dst"
    and "SyncFileMetadataNoLock be env False f (moved src dst f s) = Some (st4, s4)" and "\<not> ok st4"
  shows "\<exists>st t. RenameFileNoLock be env src dst s = Some (st, t) \<and> ok st \<and> map_of (files t) = map_of (files s)"
  unfolding rename_run_file [OF assms(3,6,2)]
  by (rule rename_failed [OF assms(1,2,4-8)]) blast

theorem rename_reports_success_when_not_persisted_witness:
  "\<exists>st t. RenameFileNoLock worn env0 ''/a'' ''/b'' zfs1 = Some (st, t) \<and> ok st \<and> map_of (files t) ''/a'' = Some 0 \<and>
     map_of (files t) ''/b'' = None"
proof -
  obtain st4 s4 where s4: "SyncFileMetadataNoLock worn env0 False 0 (moved ''/a'' ''/b'' 0 zfs1) = Some (st4, s4)" "\<not> ok st4"
    by (rule worn_rename) (rule that)
  have "\<exists>st t. RenameFileNoLock worn env0 ''/a'' ''/b'' zfs1 = Some (st, t) \<and> ok st \<and> map_of (files t) = map_of (files zfs1)"
    by (rule rename_reports_success_when_not_persisted [OF zfs1_worn _ paths_formatted(1) _ _ paths_formatted(2) s4])
      (simp_all add: name_ok_def)
  then show ?thesis by auto
qed

text \<open>
  (C35) Renaming a file to the name it has deletes it. \<^verbatim>\<open>RenameFileNoLock\<close> first deletes the destination, which is the file
  itself; then it does not find the name any more and fails, and the file is gone from the name space.
\<close>

theorem rename_onto_itself_deletes:
  assumes "crash_safe be media s es" and "map_of (files s) name = Some f" and "formatted name"
    and "DeleteFileNoLock be env name s = Some (st1, u)" and "ok st1" and "map_of (files u) name = None"
  shows "\<exists>st t. RenameFileNoLock be env name name s = Some (st, t) \<and> \<not> ok st \<and> map_of (files t) name = None"
proof -
  have rep: "represents persisted s (journal_db es)" using assms(1) by (simp add: crash_safe_def)
  have f: "f \<in> objs s" using assms(2) by (auto simp: objs_map_of [OF representsD(1) [OF rep]])
  have "distinct (linkfiles (zfiles s f))" by (rule named_obj [OF rep f])
  then have "name \<notin> set (linkfiles (zfiles u f))" using delete_links [OF assms(1-5)] by simp
  then show ?thesis
    unfolding rename_run_file [OF assms(3,3,2)] using assms(2-6)
    by (simp add: rename_file_def GetFile_formatted RenameLink_def drop_file_def ClearExtents_adj ok_def IOError_def)
qed

lemma zfs1_delete:
  obtains t where "DeleteFileNoLock ram1 env0 ''/a'' zfs1 = Some (OK, t)" "files t = []"
    "io_zones t = [big_zone False 0x20000 8 0, big_zone False 0x30000 0 0]"
proof -
  let ?u = "unlinked ''/a'' 0 zfs1" and ?r = "encode_entry (Deletion 1 ''/a'')" and ?log = "\<lparr>ml_read_pos = 0, ml_zone = 0, ml_bs = 4\<rparr> :: ZenMetaLog"
  have len: "length ?r = 16" by code_simp
  have u: "meta_log ?u = Some ?log" "meta_zones ?u = meta_zones zfs1" "files ?u = []"
    by (simp_all add: unlinked_def upd_file_def map_erase_def)
  obtain d where add: "AddRecord ram1 ?log ?r ?u = Some (OK, AddBytesWritten 24 (upd_meta 0 (advance 24 (meta_zones zfs1 ! 0)) (?u\<lparr>dev := d\<rparr>)))"
  proof (rule ram_AddRecord [where log = ?log and data = ?r and s = ?u and info = info0 and zrs = "[]" and cap = "0x10000"])
    show "small (ml_bs ?log) ?r" using len by (simp add: small_def del: encode_entry.simps)
  qed (use that u len in \<open>simp_all add: rw_max_def record_bytes_length pad_up_def del: encode_entry.simps\<close>)
  let ?v = "AddBytesWritten 24 (upd_meta 0 (advance 24 (meta_zones zfs1 ! 0)) (?u\<lparr>dev := d\<rparr>))"
  have per: "PersistRecord ram1 ?r ?u = Some (OK, ?v)"
    using add u(1) by (simp add: PersistRecord_def status_eq_def del: encode_entry.simps)
  have v: "zfiles ?v = zfiles ?u" "files ?v = []" using u(3) by (simp_all add: AddBytesWritten_def upd_meta_def)
  have "DeleteFileNoLock ram1 env0 ''/a'' zfs1 = Some (OK, drop_file 0 (upd_file 0 SetDeleted ?v))"
    using per paths_formatted(1) v(1)
    by (simp add: DeleteFileNoLock_def GetFile_formatted formatted_def RemoveLinkName_def deletion_entry unlinked_def upd_file_def
        Let_def GetNrLinks_def del: encode_entry.simps)
  moreover have "files (drop_file 0 (upd_file 0 SetDeleted ?v)) = []"
    using v(2) by (simp add: drop_file_def ClearExtents_adj upd_file_def)
  moreover have "io_zones (drop_file 0 (upd_file 0 SetDeleted ?v)) = [big_zone False 0x20000 8 0, big_zone False 0x30000 0 0]"
    by (simp add: drop_file_def ClearExtents_def upd_file_def referenced_def SetDeleted_def unlinked_def AddBytesWritten_def upd_meta_def
        sub_used_def upd_io_def map_erase_def big_zone_def)
  ultimately show thesis by (rule that)
qed

theorem rename_onto_itself_deletes_witness:
  "\<exists>st t. RenameFileNoLock ram1 env0 ''/a'' ''/a'' zfs1 = Some (st, t) \<and> \<not> ok st \<and> map_of (files t) ''/a'' = None"
proof -
  obtain u where u: "DeleteFileNoLock ram1 env0 ''/a'' zfs1 = Some (OK, u)" "files u = []" by (rule zfs1_delete) (rule that)
  show ?thesis
    by (rule rename_onto_itself_deletes [OF zfs1_crash_safe _ paths_formatted(1) u(1)]) (simp_all add: u(2))
qed

section \<open>The name space as a map\<close>





section \<open>Reclaiming space\<close>

lemma reset_loop_reclaims:
  assumes "ResetUnusedIOZones_loop be is s = (st, t)" and "ok st" and "\<forall>i\<in>set is. i < length (io_zones s)"
    and "j \<in> set is" and "idle s j" and "\<not> IsUsed (io_zones s ! j)"
  shows "IsEmpty (io_zones t ! j)"
  using assms
proof (induction "is" arbitrary: s)
  case (Cons i "is")
  have i: "i < length (io_zones s)" using Cons.prems by simp
  from i show ?case
  proof (cases rule: ResetUnusedIOZones_loop_cons [of i s be "is"])
    case skip
    with Cons.prems(1) have run: "ResetUnusedIOZones_loop be is s = (st, t)" by simp
    show ?thesis
    proof (cases "j \<in> set is")
      case False
      then have "IsEmpty (io_zones s ! j)" using skip(2) Cons.prems(4-6) by auto
      moreover have "reset_steps be s t" using ResetUnusedIOZones_loop_steps [OF run] Cons.prems(3) by simp
      from reset_steps_zone [OF this] Cons.prems(5) have "io_zones t ! j = io_zones s ! j \<or> IsEmpty (io_zones t ! j)" by (auto simp: idle_def)
      ultimately show ?thesis by auto
    qed (use Cons.IH [OF run] Cons.prems in simp)
  next
    case (fail st')
    with Cons.prems(1,2) show ?thesis by simp
  next
    case (reset z d)
    let ?s = "put_if_active (io_zones s ! i) (upd_io i z (reset_dev be i s))"
    have run: "ResetUnusedIOZones_loop be is ?s = (st, t)" using reset(1) Cons.prems(1) by simp
    have bd: "\<forall>i\<in>set is. i < length (io_zones ?s)" using Cons.prems(3) by simp
    note z = Zone_Reset_ok [OF reset(2)]
    show ?thesis
    proof (cases "j = i")
      case True
      have "IsEmpty (io_zones ?s ! j)" using True i z(6) by simp
      moreover have "reset_steps be ?s t" by (rule ResetUnusedIOZones_loop_steps [OF run bd])
      from reset_steps_zone [OF this] True i have "io_zones t ! j = io_zones ?s ! j \<or> IsEmpty (io_zones t ! j)" by auto
      ultimately show ?thesis by auto
    next
      case False
      then show ?thesis using Cons.IH [OF run _ bd] Cons.prems by (simp add: idle_def)
    qed
  qed
qed simp

text \<open>
  (C32) The space of deleted files comes back. Whenever \<^verbatim>\<open>DeleteFile\<close> returns OK, every I/O zone that nobody holds and that
  has no valid data left is empty and can be written again; this includes the zones that the deleted file was the last to use.
\<close>

theorem DeleteFile_reclaims_space:
  assumes "DeleteFile be env name s = Some (st, t)" and "ok st"
  shows "\<forall>i<length (io_zones t). z_busy (io_zones t ! i) \<or> IsUsed (io_zones t ! i) \<or> IsEmpty (io_zones t ! i)"
proof (intro allI impI)
  fix i
  assume i: "i < length (io_zones t)"
  obtain u where u: "ResetUnusedIOZones be u = (st, t)"
    using assms by (auto simp: DeleteFile_def split: Option.bind_splits if_splits)
  then have loop: "ResetUnusedIOZones_loop be [0..<length (io_zones u)] u = (st, t)" by (simp add: ResetUnusedIOZones_def)
  from ResetUnusedIOZones_loop_steps [OF loop] have "reset_steps be u t" by simp
  from reset_steps_zone [OF this] i have z: "i < length (io_zones u)" "z_busy (io_zones t ! i) = z_busy (io_zones u ! i)"
    "IsUsed (io_zones t ! i) = IsUsed (io_zones u ! i)"
    by (auto simp: IsUsed_def)
  with reset_loop_reclaims [OF loop assms(2), of i]
  show "z_busy (io_zones t ! i) \<or> IsUsed (io_zones t ! i) \<or> IsEmpty (io_zones t ! i)" by (auto simp: idle_def)
qed

theorem DeleteFile_reclaims_space_witness:
  "\<exists>t. DeleteFile ram1 env0 ''/a'' zfs1 = Some (OK, t) \<and> \<not> IsEmpty (io_zones zfs1 ! 0) \<and> IsEmpty (io_zones t ! 0)"
proof -
  obtain u where u: "DeleteFileNoLock ram1 env0 ''/a'' zfs1 = Some (OK, u)" "io_zones u = [big_zone False 0x20000 8 0, big_zone False 0x30000 0 0]"
    by (rule zfs1_delete) (rule that)
  have "\<exists>t. ResetUnusedIOZones ram1 u = (OK, t) \<and> length (io_zones t) = 2 \<and> \<not> z_busy (io_zones t ! 0) \<and> \<not> IsUsed (io_zones t ! 0)"
    using u(2) by (simp add: ResetUnusedIOZones_def upt_rec acquire_io_def release_io_def reset_io_def Zone_Reset_def Let_def Acquire_def
        CheckRelease_def Release_def IsUsed_def IsEmpty_def IsFull_def upd_io_def PutActiveIOZoneToken_def status_eq_def)
  then obtain t where t: "ResetUnusedIOZones ram1 u = (OK, t)" "length (io_zones t) = 2" "\<not> z_busy (io_zones t ! 0)" "\<not> IsUsed (io_zones t ! 0)"
    by blast
  have run: "DeleteFile ram1 env0 ''/a'' zfs1 = Some (OK, t)" using u(1) t(1) by (simp add: DeleteFile_def)
  from DeleteFile_reclaims_space [OF run] t(2-4) have "IsEmpty (io_zones t ! 0)" by (auto dest!: spec [where x = 0])
  with run show ?thesis by (simp add: IsEmpty_def)
qed

section \<open>Replaying a log\<close>

text \<open>
  (C4) Recovery computes the database that the log describes. The log of a metadata zone starts with a superblock, which has been
  read, and goes on with the records of the journal entries \<open>es\<close> up to its end. From a state that represents the
  database \<open>db\<close>, \<^verbatim>\<open>RecoverFrom\<close> returns, with OK if there is a snapshot among the entries and with NotFound if there is
  none, and the state represents what the entries, applied in order, make of \<open>db\<close>; the device and the zones are as before.
\<close>

theorem RecoverFrom_refines_journal:
  assumes "zone_log be media s i (h # map encode_entry es @ rs)" and "log_tail rs" and "read_media be media"
    and "recovered s db" and "valid_entries s es db"
  shows "\<exists>log' t. RecoverFrom be (log_pos 1 (h # map encode_entry es @ rs) s i) s =
      Some (if \<exists>e\<in>set es. is_snapshot e then OK else NotFound ''ZenFS'' ''No snapshot found'', log', t) \<and>
    recovered t (fold apply_entry es db) \<and> scanned media s t"
  by (rule RecoverFrom_zone [OF assms(1,3,2,4,5)]) blast

theorem RecoverFrom_refines_journal_witness:
  "\<exists>log' t. RecoverFrom ram1 (log_pos 1 log1 (restart_of zfs1) 0) (restart_of zfs1) = Some (OK, log', t) \<and>
     recovered t [1 \<mapsto> desc file_b]"
proof -
  have l: "log_holds id 4 (big_zone True 0 620 0) (dev zfs1) log1" "\<forall>r\<in>set log1. small 4 r"
    using zfs1_log by (simp_all add: log_has_def)
  have zl: "zone_log ram1 id (restart_of zfs1) 0 (fst (Superblock_EncodeTo sb2) # map encode_entry [Snapshot [desc file_b]] @ [])"
    unfolding log1_app using l by (simp add: restart_of_def zone_log_def meta_zone_ok_def zone_wf_def ram_readable log_holds_def)
  have ve: "valid_entries (restart_of zfs1) [Snapshot [desc file_b]] Map.empty"
    by (rule restarted_log [OF zfs1_crash_safe restarted_of]) simp_all
  have "recovered (restart_of zfs1) Map.empty"
    by (auto simp: restart_of_def recovered_def represents_def used_ok_def objs_def sorted_map_def all_less_2)
  then show ?thesis
    using RecoverFrom_refines_journal [OF zl _ _ _ ve] unfolding log1_app by (auto simp: log_tail_def)
qed

end
