(* ===== verification/ZoneFs.thy ===== *)
theory ZoneFs
  imports Zone "HOL-Library.Multiset"
begin

text \<open>
  The backend on zonefs: \<^verbatim>\<open>plugin/zenfs/fs/zonefs_zenfs.h\<close> and \<^verbatim>\<open>zonefs_zenfs.cc\<close>. Every zone is a file
  of the zonefs mount point; the open files are kept in three caches that forget the least recently
  used one.

  The system calls are a parameter of the model, a record of functions on an abstract state of the
  operating system. \<open>posix_files\<close> states what the code relies on of them. The theory shows that the
  caches are what a plain list in the order of use is, that they stay within their limits, and that the backend keeps
  the contract that the zones rely on in every state that it reaches.
\<close>

section \<open>System calls\<close>

definition O_RDONLY :: u32 where "O_RDONLY = 0"

definition O_WRONLY :: u32 where "O_WRONLY = 1"

definition O_DIRECT :: u32 where "O_DIRECT = 0x4000"

record file_stat =
  st_size :: u64
  st_blocks :: u64
  st_blksize :: u64
  st_mode :: u32

text \<open>
  A failed call gives -1 or no value; \<open>px_errno\<close> and \<open>px_strerror\<close> then tell why. \<open>px_mounts\<close> is the
  table of mounts, each with its directory and its device; \<open>px_sysfs\<close> reads a number from a
  file of sysfs, 0 when there is no number in it.
\<close>

record 'o posix =
  px_open :: "string \<Rightarrow> u32 \<Rightarrow> 'o \<Rightarrow> int \<times> 'o"
  px_close :: "int \<Rightarrow> 'o \<Rightarrow> 'o"
  px_flock :: "int \<Rightarrow> 'o \<Rightarrow> int \<times> 'o"
  px_stat :: "string \<Rightarrow> 'o \<Rightarrow> file_stat option \<times> 'o"
  px_fstat :: "int \<Rightarrow> 'o \<Rightarrow> file_stat option \<times> 'o"
  px_truncate :: "string \<Rightarrow> u64 \<Rightarrow> 'o \<Rightarrow> int \<times> 'o"
  px_pread :: "int \<Rightarrow> nat \<Rightarrow> u64 \<Rightarrow> 'o \<Rightarrow> read_result \<times> 'o"
  px_pwrite :: "int \<Rightarrow> bytes \<Rightarrow> nat \<Rightarrow> u64 \<Rightarrow> 'o \<Rightarrow> int \<times> 'o"
  px_fadvise :: "int \<Rightarrow> u64 \<Rightarrow> u64 \<Rightarrow> 'o \<Rightarrow> int \<times> 'o"
  px_mounts :: "'o \<Rightarrow> (string \<times> string) list option \<times> 'o"
  px_sysfs :: "string \<Rightarrow> 'o \<Rightarrow> u32 option \<times> 'o"
  px_errno :: "'o \<Rightarrow> int"
  px_strerror :: "'o \<Rightarrow> string"

section \<open>The cache of open files\<close>

text \<open>
  \<^verbatim>\<open>list_\<close> holds the zones and their open files, the most recently used one first, and \<^verbatim>\<open>map_\<close> an
  iterator into the list for every zone in it. An iterator is the number of a node of the list. A file that leaves
  the list is closed.
\<close>

record ZoneFsFileCache =
  c_list :: "(nat \<times> u64 \<times> int) list"
  c_map :: "u64 \<Rightarrow> nat option"
  c_nodes :: nat
  c_max :: u32
  c_flags :: u32

definition ZENFS_ZONEFS_DEFAULT_MAX_LIMIT :: u32 where "ZENFS_ZONEFS_DEFAULT_MAX_LIMIT = 14"

definition ZENFS_ZONEFS_DEFAULT_MAX_RD_LIMIT :: u32 where "ZENFS_ZONEFS_DEFAULT_MAX_RD_LIMIT = 100"

definition new_ZoneFsFileCache :: "u32 \<Rightarrow> ZoneFsFileCache" where
  "new_ZoneFsFileCache flags =
     \<lparr>c_list = [], c_map = (\<lambda>_. None), c_nodes = 0,
      c_max = (if flags AND O_RDONLY \<noteq> 0 then ZENFS_ZONEFS_DEFAULT_MAX_RD_LIMIT
               else ZENFS_ZONEFS_DEFAULT_MAX_LIMIT),
      c_flags = flags\<rparr>"

definition node_at :: "nat \<Rightarrow> (nat \<times> u64 \<times> int) list \<Rightarrow> nat \<times> u64 \<times> int" where
  "node_at it ns = hd (filter (\<lambda>n. fst n = it) ns)"

definition node_erase :: "nat \<Rightarrow> (nat \<times> u64 \<times> int) list \<Rightarrow> (nat \<times> u64 \<times> int) list" where
  "node_erase it ns = filter (\<lambda>n. fst n \<noteq> it) ns"

definition Cache_Put ::
  "'o posix \<Rightarrow> u64 \<Rightarrow> ZoneFsFileCache \<Rightarrow> 'o \<Rightarrow> ZoneFsFileCache \<times> 'o" where
  "Cache_Put px zone c os =
     (case c_map c zone of
        None \<Rightarrow> (c, os)
      | Some it \<Rightarrow>
          (let (_, _, fd) = node_at it (c_list c)
           in (c\<lparr>c_list := node_erase it (c_list c), c_map := (c_map c)(zone := None)\<rparr>, px_close px fd os)))"

function Prune ::
  "'o posix \<Rightarrow> u32 \<Rightarrow> ZoneFsFileCache \<Rightarrow> 'o \<Rightarrow> ZoneFsFileCache \<times> 'o" where
  "Prune px limit c os =
     (if length (c_list c) > unat limit
      then
        (let (_, zone, fd) = last (c_list c)
         in Prune px limit (c\<lparr>c_map := (c_map c)(zone := None), c_list := butlast (c_list c)\<rparr>)
              (px_close px fd os))
      else (c, os))"
  by pat_completeness auto
termination
  by (relation "measure (\<lambda>(px, limit, c, os). length (c_list c))") auto

declare Prune.simps [simp del]

definition Cache_Get ::
  "'o posix \<Rightarrow> u64 \<Rightarrow> string \<Rightarrow> ZoneFsFileCache \<Rightarrow> 'o \<Rightarrow> int option \<times> ZoneFsFileCache \<times> 'o" where
  "Cache_Get px zone filename c os =
     (case c_map c zone of
        None \<Rightarrow>
          (let (fd, os1) = px_open px filename (c_flags c) os
           in if fd = -1 then (None, c, os1)
              else
                (let (c1, os2) = Prune px (c_max c - 1) c os1;
                     it = c_nodes c1
                 in (Some fd,
                     c1\<lparr>c_list := (it, zone, fd) # c_list c1, c_map := (c_map c1)(zone \<mapsto> it),
                        c_nodes := it + 1\<rparr>, os2)))
      | Some it \<Rightarrow>
          (let n = node_at it (c_list c)
           in (Some (snd (snd n)), c\<lparr>c_list := n # node_erase it (c_list c)\<rparr>, os)))"

definition Cache_Resize ::
  "'o posix \<Rightarrow> u32 \<Rightarrow> ZoneFsFileCache \<Rightarrow> 'o \<Rightarrow> ZoneFsFileCache \<times> 'o" where
  "Cache_Resize px new_size c os =
     (let (c1, os1) = (if new_size < c_max c then Prune px new_size c os else (c, os))
      in (c1\<lparr>c_max := new_size\<rparr>, os1))"

section \<open>The backend\<close>

record 'o ZoneFsBackend =
  mountpoint :: string
  zone_zero_fd :: int
  zfs_readonly :: bool
  rd_fds :: ZoneFsFileCache
  direct_rd_fds :: ZoneFsFileCache
  wr_fds :: ZoneFsFileCache
  zfs_block_sz :: u32
  zfs_zone_sz :: u64
  zfs_nr_zones :: u32
  zos :: 'o

definition new_ZoneFsBackend :: "string \<Rightarrow> 'o \<Rightarrow> 'o ZoneFsBackend" where
  "new_ZoneFsBackend mp os =
     \<lparr>mountpoint = mp, zone_zero_fd = -1, zfs_readonly = False, rd_fds = new_ZoneFsFileCache O_RDONLY,
      direct_rd_fds = new_ZoneFsFileCache (O_RDONLY OR O_DIRECT),
      wr_fds = new_ZoneFsFileCache (O_WRONLY OR O_DIRECT),
      zfs_block_sz = 0, zfs_zone_sz = 0, zfs_nr_zones = 0, zos = os\<rparr>"

text \<open>The lock of zone 0 goes first, then the caches and the files in them.\<close>

definition delete_cache :: "'o posix \<Rightarrow> ZoneFsFileCache \<Rightarrow> 'o \<Rightarrow> 'o" where
  "delete_cache px c os = fold (\<lambda>(it, zone, fd). px_close px fd) (c_list c) os"

definition delete_ZoneFsBackend :: "'o posix \<Rightarrow> 'o ZoneFsBackend \<Rightarrow> 'o" where
  "delete_ZoneFsBackend px b =
     (let os = (if zone_zero_fd b \<noteq> -1 then px_close px (zone_zero_fd b) (zos b) else zos b)
      in delete_cache px (rd_fds b) (delete_cache px (direct_rd_fds b) (delete_cache px (wr_fds b) os)))"

definition zone_file :: "string \<Rightarrow> nat \<Rightarrow> string" where
  "zone_file mp n = mp @ ''/seq/'' @ to_string n"

definition LBAToZoneFile :: "u64 \<Rightarrow> 'o ZoneFsBackend \<Rightarrow> string" where
  "LBAToZoneFile start b = zone_file (mountpoint b) (unat (start div zfs_zone_sz b))"

definition LBAToZoneOffset :: "u64 \<Rightarrow> 'o ZoneFsBackend \<Rightarrow> u64" where
  "LBAToZoneOffset pos b = pos - (pos div zfs_zone_sz b) * zfs_zone_sz b"

text \<open>The part of a device name after its last slash, if there is one.\<close>

definition after_slash :: "string \<Rightarrow> string option" where
  "after_slash s =
     (if CHR 0x2F \<in> set s then Some (rev (takeWhile (\<lambda>ch. ch \<noteq> CHR 0x2F) (rev s))) else None)"

fun backing_device :: "string \<Rightarrow> (string \<times> string) list \<Rightarrow> string" where
  "backing_device mp [] = []"
| "backing_device mp ((mnt_dir, mnt_fsname) # mnts) =
     (if mnt_dir = mp
      then (case after_slash mnt_fsname of Some dev_name \<Rightarrow> dev_name | None \<Rightarrow> backing_device mp mnts)
      else backing_device mp mnts)"

definition GetBackingDevice :: "'o posix \<Rightarrow> string \<Rightarrow> 'o \<Rightarrow> string \<times> 'o" where
  "GetBackingDevice px mp os =
     (let (mnts, os1) = px_mounts px os
      in (case mnts of None \<Rightarrow> [] | Some ms \<Rightarrow> backing_device mp ms, os1))"

definition GetSysFsValue :: "'o posix \<Rightarrow> string \<Rightarrow> string \<Rightarrow> 'o \<Rightarrow> u32 \<times> 'o" where
  "GetSysFsValue px dev_name field os =
     (let (val, os1) = px_sysfs px (''/sys/fs/zonefs/'' @ dev_name @ ''/'' @ field) os
      in (case val of None \<Rightarrow> ZENFS_ZONEFS_DEFAULT_MAX_LIMIT | Some v \<Rightarrow> v, os1))"

definition zonefs_limits :: "'o posix \<Rightarrow> string \<Rightarrow> 'o \<Rightarrow> u32 \<times> u32 \<times> 'o" where
  "zonefs_limits px mp os =
     (let (backing_dev, os1) = GetBackingDevice px mp os
      in if backing_dev \<noteq> []
         then
           (let (max_active, os2) = GetSysFsValue px backing_dev ''max_active_seq_files'' os1;
                (max_open, os3) = GetSysFsValue px backing_dev ''max_wro_seq_files'' os2
            in (max_active, max_open, os3))
         else (ZENFS_ZONEFS_DEFAULT_MAX_LIMIT, ZENFS_ZONEFS_DEFAULT_MAX_LIMIT, os1))"

definition geometry_info :: "u32 \<Rightarrow> u32 \<Rightarrow> 'o ZoneFsBackend \<Rightarrow> open_info" where
  "geometry_info max_active max_open b =
     \<lparr>oi_block_sz = zfs_block_sz b, oi_zone_sz = zfs_zone_sz b, oi_nr_zones = zfs_nr_zones b,
      oi_max_active_zones = max_active, oi_max_open_zones = max_open\<rparr>"

text \<open>The lock on zone 0 keeps the mount point for one user; whether exclusive use is asked for does not matter.\<close>

definition ZoneFs_Open ::
  "'o posix \<Rightarrow> bool \<Rightarrow> bool \<Rightarrow> 'o ZoneFsBackend \<Rightarrow> IOStatus \<times> open_info \<times> 'o ZoneFsBackend" where
  "ZoneFs_Open px readonly exclusive b =
     (let failed = (\<lambda>msg b'. (InvalidArgument (msg @ px_strerror px (zos b')) [], geometry_info 0 0 b', b'));
          seqdirname = mountpoint b @ ''/seq'';
          (dir, os1) = px_stat px seqdirname (zos b)
      in case dir of
           None \<Rightarrow> failed ''Failed to access zonefs sequential zone directory: '' (b\<lparr>zos := os1\<rparr>)
         | Some dir_stat \<Rightarrow>
             (let (fd, os2) = px_open px (seqdirname @ ''/0'') O_RDONLY os1;
                  b1 = b\<lparr>zfs_nr_zones := ucast (st_size dir_stat), zos := os2\<rparr>
              in if fd < 0 then failed ''Failed to open zonefs sequential zone 0: '' b1
                 else
                   (let (ret, os3) = px_flock px fd os2
                    in if ret = -1
                       then failed ''Failed to lock zonefs sequential zone 0: '' (b1\<lparr>zos := px_close px fd os3\<rparr>)
                       else
                         (let (zero, os4) = px_fstat px fd os3
                          in case zero of
                               None \<Rightarrow> failed ''Failed to access zonefs sequential zone 0: ''
                                         (b1\<lparr>zos := px_close px fd os4\<rparr>)
                             | Some zero_stat \<Rightarrow>
                                 (let (max_active, max_open, os5) = zonefs_limits px (mountpoint b) os4;
                                      (wr, os6) = Cache_Resize px max_active (wr_fds b1) os5;
                                      b2 = b1\<lparr>zfs_zone_sz := st_blocks zero_stat * 512,
                                              zfs_block_sz := ucast (st_blksize zero_stat),
                                              zone_zero_fd := fd, wr_fds := wr, zfs_readonly := readonly,
                                              zos := os6\<rparr>
                                  in (OK, geometry_info max_active max_open b2, b2))))))"

section \<open>The zones of the mount point\<close>

definition ZENFS_ZONEFS_ZONE_OFFLINE :: "u32 \<Rightarrow> bool" where
  "ZENFS_ZONEFS_ZONE_OFFLINE f_mode \<longleftrightarrow> f_mode AND 0x1B6 = 0"

definition ZoneFs_rep :: "u64 \<Rightarrow> nat \<Rightarrow> file_stat \<Rightarrow> zone_rep" where
  "ZoneFs_rep zone_sz idx z =
     \<lparr>ZoneIsSwr = True, ZoneIsOffline = ZENFS_ZONEFS_ZONE_OFFLINE (st_mode z),
      ZoneIsWritable = (st_size z < zone_sz \<and> st_mode z AND 0x92 \<noteq> 0),
      ZoneIsActive = (st_size z > 0 \<and> st_size z < zone_sz), ZoneIsOpen = False,
      ZoneStart = of_nat idx * zone_sz, ZoneMaxCapacity = zone_sz,
      ZoneWp = of_nat idx * zone_sz + st_size z\<rparr>"

fun stat_zones :: "'o posix \<Rightarrow> string \<Rightarrow> nat list \<Rightarrow> 'o \<Rightarrow> file_stat list option \<times> 'o" where
  "stat_zones px mp [] os = (Some [], os)"
| "stat_zones px mp (i # idxs) os =
     (case px_stat px (zone_file mp i) os of
        (None, os1) \<Rightarrow> (None, os1)
      | (Some z, os1) \<Rightarrow>
          (case stat_zones px mp idxs os1 of
             (None, os2) \<Rightarrow> (None, os2)
           | (Some zs, os2) \<Rightarrow> (Some (z # zs), os2)))"

definition ZoneFs_ListZones ::
  "'o posix \<Rightarrow> 'o ZoneFsBackend \<Rightarrow> zone_rep list option \<times> 'o ZoneFsBackend" where
  "ZoneFs_ListZones px b =
     (let (zs, os) = stat_zones px (mountpoint b) [0..<unat (zfs_nr_zones b)] (zos b)
      in (map_option (\<lambda>l. map (\<lambda>(i, z). ZoneFs_rep (zfs_zone_sz b) i z) (enumerate 0 l)) zs, b\<lparr>zos := os\<rparr>))"

section \<open>Operations on a zone\<close>

text \<open>
  The file of the zone that holds an address, in the cache for the given flags.
\<close>

definition GetZoneFile :: "'o posix \<Rightarrow> u64 \<Rightarrow> u32 \<Rightarrow> 'o ZoneFsBackend \<Rightarrow> int option \<times> 'o ZoneFsBackend" where
  "GetZoneFile px start flags b =
     (let get = Cache_Get px (start div zfs_zone_sz b) (LBAToZoneFile start b)
      in if flags AND O_WRONLY \<noteq> 0
         then (let (f, c, os) = get (wr_fds b) (zos b) in (f, b\<lparr>wr_fds := c, zos := os\<rparr>))
         else if flags AND O_DIRECT \<noteq> 0
         then (let (f, c, os) = get (direct_rd_fds b) (zos b) in (f, b\<lparr>direct_rd_fds := c, zos := os\<rparr>))
         else (let (f, c, os) = get (rd_fds b) (zos b) in (f, b\<lparr>rd_fds := c, zos := os\<rparr>)))"

definition PutZoneFile :: "'o posix \<Rightarrow> u64 \<Rightarrow> u32 \<Rightarrow> 'o ZoneFsBackend \<Rightarrow> 'o ZoneFsBackend" where
  "PutZoneFile px start flags b =
     (if flags AND O_WRONLY \<noteq> 0
      then (let (c, os) = Cache_Put px (start div zfs_zone_sz b) (wr_fds b) (zos b)
            in b\<lparr>wr_fds := c, zos := os\<rparr>)
      else b)"

text \<open>On an error the output parameters are not written; the caller does not read them then.\<close>

definition ZoneFs_Reset ::
  "'o posix \<Rightarrow> u64 \<Rightarrow> 'o ZoneFsBackend \<Rightarrow> IOStatus \<times> bool \<times> u64 \<times> 'o ZoneFsBackend" where
  "ZoneFs_Reset px start b =
     (let filename = LBAToZoneFile start b;
          (ret, os1) = px_truncate px filename 0 (zos b)
      in if ret \<noteq> 0
         then (IOError (''Zone reset failed: '' @ px_strerror px os1) [], False, 0, b\<lparr>zos := os1\<rparr>)
         else
           (let b1 = PutZoneFile px start O_WRONLY (b\<lparr>zos := os1\<rparr>);
                (z, os2) = px_stat px filename (zos b1);
                b2 = b1\<lparr>zos := os2\<rparr>
            in case z of
                 None \<Rightarrow> (InvalidArgument (''Failed to access zonefs sequential zone '' @ filename @ '': '' @
                            px_strerror px os2) [], False, 0, b2)
               | Some file_stat \<Rightarrow>
                   if ZENFS_ZONEFS_ZONE_OFFLINE (st_mode file_stat) then (OK, True, 0, b2)
                   else (OK, False, zfs_zone_sz b, b2)))"

definition ZoneFs_Finish :: "'o posix \<Rightarrow> u64 \<Rightarrow> 'o ZoneFsBackend \<Rightarrow> IOStatus \<times> 'o ZoneFsBackend" where
  "ZoneFs_Finish px start b =
     (let (ret, os1) = px_truncate px (LBAToZoneFile start b) (zfs_zone_sz b) (zos b)
      in if ret \<noteq> 0 then (IOError (''Zone finish failed: '' @ px_strerror px os1) [], b\<lparr>zos := os1\<rparr>)
         else (OK, PutZoneFile px start O_WRONLY (b\<lparr>zos := os1\<rparr>)))"

definition ZoneFs_Close :: "'o posix \<Rightarrow> u64 \<Rightarrow> 'o ZoneFsBackend \<Rightarrow> IOStatus \<times> 'o ZoneFsBackend" where
  "ZoneFs_Close px start b = (OK, PutZoneFile px start O_WRONLY b)"

definition EINVAL :: int where "EINVAL = 22"

definition ZoneFs_InvalidateCache ::
  "'o posix \<Rightarrow> u64 \<Rightarrow> u64 \<Rightarrow> 'o ZoneFsBackend \<Rightarrow> int \<times> 'o ZoneFsBackend" where
  "ZoneFs_InvalidateCache px pos sz b =
     (let (f, b1) = GetZoneFile px pos O_RDONLY b
      in case f of
           None \<Rightarrow> (- EINVAL, b1)
         | Some fd \<Rightarrow>
             (let (ret, os) = px_fadvise px fd (LBAToZoneOffset pos b) sz (zos b1) in (ret, b1\<lparr>zos := os\<rparr>)))"

text \<open>The number of bytes of a transfer: a 64-bit value that is stored in an \<^verbatim>\<open>int\<close> and handed on as a \<^verbatim>\<open>size_t\<close>.\<close>

definition int_count :: "u64 \<Rightarrow> nat" where
  "int_count v = unat (scast (ucast v :: u32) :: u64)"

text \<open>
  The loops of \<^verbatim>\<open>Read\<close> and \<^verbatim>\<open>Write\<close>. \<^verbatim>\<open>pread\<close> and \<^verbatim>\<open>pwrite\<close> transfer at most the bytes they are asked for, and a
  loop goes on only after a call that has transferred some.
\<close>

function read_loop ::
  "'o posix \<Rightarrow> int \<Rightarrow> nat \<Rightarrow> u64 \<Rightarrow> bytes \<Rightarrow> 'o \<Rightarrow> read_result \<times> 'o" where
  "read_loop px fd read_from_zone offset buf os =
     (if read_from_zone = 0 then (ReadBytes buf, os)
      else
        (case px_pread px fd read_from_zone offset os of
           (ReadBytes bs, os1) \<Rightarrow>
             (let got = take read_from_zone bs; ret = length got
              in if ret > 0
                 then read_loop px fd (read_from_zone - ret) (offset + of_nat ret) (buf @ got) os1
                 else (ReadBytes buf, os1))
         | (ReadError e, os1) \<Rightarrow> (ReadError e, os1)))"
  by pat_completeness auto
termination
  by (relation "measure (\<lambda>(px, fd, n, offset, buf, os). n)") simp_all

declare read_loop.simps [simp del]

definition ZoneFs_Read ::
  "'o posix \<Rightarrow> nat \<Rightarrow> u64 \<Rightarrow> bool \<Rightarrow> 'o ZoneFsBackend \<Rightarrow> read_result \<times> 'o ZoneFsBackend" where
  "ZoneFs_Read px sz pos direct b =
     (let flags = (if direct then O_RDONLY OR O_DIRECT else O_RDONLY);
          offset = LBAToZoneOffset pos b;
          read_from_zone = int_count (min (of_nat sz) (zfs_zone_sz b - offset));
          (f, b1) = GetZoneFile px pos flags b
      in case f of
           None \<Rightarrow> (ReadError (px_errno px (zos b1)), b1)
         | Some fd \<Rightarrow>
             (let (res, os) = read_loop px fd read_from_zone offset [] (zos b1) in (res, b1\<lparr>zos := os\<rparr>)))"

text \<open>A zone that is full gives its file up.\<close>

function write_loop ::
  "'o posix \<Rightarrow> int \<Rightarrow> u64 \<Rightarrow> bytes \<Rightarrow> nat \<Rightarrow> u64 \<Rightarrow> int \<Rightarrow> 'o ZoneFsBackend \<Rightarrow> int \<times> 'o ZoneFsBackend" where
  "write_loop px fd pos data write_to_zone offset written b =
     (if write_to_zone = 0 then (written, b)
      else
        (let (ret, os) = px_pwrite px fd data write_to_zone offset (zos b);
             b1 = b\<lparr>zos := os\<rparr>
         in if ret > 0
            then
              (let n = min (nat ret) write_to_zone;
                   offset1 = offset + of_nat n;
                   b2 = (if offset1 = zfs_zone_sz b1 then PutZoneFile px pos O_WRONLY b1 else b1)
               in write_loop px fd pos (drop n data) (write_to_zone - n) offset1 (written + int n) b2)
            else (if ret < 0 then ret else written, b1)))"
  by pat_completeness auto
termination
  by (relation "measure (\<lambda>(px, fd, pos, data, n, offset, written, b). n)") simp_all

declare write_loop.simps [simp del]

definition ZoneFs_Write ::
  "'o posix \<Rightarrow> bytes \<Rightarrow> u64 \<Rightarrow> 'o ZoneFsBackend \<Rightarrow> int \<times> 'o ZoneFsBackend" where
  "ZoneFs_Write px data pos b =
     (let offset = LBAToZoneOffset pos b;
          write_to_zone = int_count (min (of_nat (length data)) (zfs_zone_sz b - offset))
      in if zfs_readonly b then (-1, b)
         else
           (let (f, b1) = GetZoneFile px pos (O_WRONLY OR O_DIRECT) b
            in case f of
                 None \<Rightarrow> (-1, b1)
               | Some fd \<Rightarrow> write_loop px fd pos data write_to_zone offset 0 b1))"

definition zonefs_backend :: "'o posix \<Rightarrow> 'o ZoneFsBackend backend" where
  "zonefs_backend px =
     \<lparr>be_Open = ZoneFs_Open px, be_ListZones = ZoneFs_ListZones px, be_Reset = ZoneFs_Reset px,
      be_Finish = ZoneFs_Finish px, be_Close = ZoneFs_Close px, be_Read = ZoneFs_Read px,
      be_Write = ZoneFs_Write px, be_InvalidateCache = ZoneFs_InvalidateCache px,
      be_strerror = (\<lambda>b. px_strerror px (zos b))\<rparr>"

section \<open>The cache is a list in the order of use\<close>

definition cache_inv :: "ZoneFsFileCache \<Rightarrow> bool" where
  "cache_inv c \<longleftrightarrow>
     distinct (map fst (c_list c)) \<and> (\<forall>n \<in> set (c_list c). fst n < c_nodes c) \<and>
     (\<forall>z it. c_map c z = Some it \<longleftrightarrow> (\<exists>fd. (it, z, fd) \<in> set (c_list c)))"

text \<open>The zones and files of a cache, the most recently used one first.\<close>

definition entries :: "ZoneFsFileCache \<Rightarrow> (u64 \<times> int) list" where
  "entries c = map snd (c_list c)"

definition lru_put :: "u64 \<Rightarrow> (u64 \<times> int) list \<Rightarrow> (u64 \<times> int) list" where
  "lru_put zone l = filter (\<lambda>e. fst e \<noteq> zone) l"

definition close_all :: "'o posix \<Rightarrow> (u64 \<times> int) list \<Rightarrow> 'o \<Rightarrow> 'o" where
  "close_all px l os = foldr (\<lambda>(zone, fd). px_close px fd) l os"

lemma cache_inv_new: "cache_inv (new_ZoneFsFileCache flags)"
  by (simp add: cache_inv_def new_ZoneFsFileCache_def)

lemma entries_new [simp]: "entries (new_ZoneFsFileCache flags) = []"
  by (simp add: entries_def new_ZoneFsFileCache_def)

lemma node_unique:
  assumes "distinct (map fst ns)" and "(it, z, fd) \<in> set ns"
  shows "filter (\<lambda>n. fst n = it) ns = [(it, z, fd)]"
  using assms
proof (induction ns)
  case (Cons n ns)
  show ?case
  proof (cases "fst n = it")
    case True
    then have "n = (it, z, fd)"
      using Cons.prems image_eqI [of it fst "(it, z, fd)" "set ns"] by auto
    moreover have "it \<notin> fst ` set ns"
      using True Cons.prems(1) by simp
    then have "filter (\<lambda>n. fst n = it) ns = []"
      by (intro filter_False ballI notI) (metis imageI)
    ultimately show ?thesis using True by simp
  next
    case False
    then show ?thesis using Cons by auto
  qed
qed simp

lemma node_at_in:
  assumes "cache_inv c" and "(it, z, fd) \<in> set (c_list c)"
  shows "node_at it (c_list c) = (it, z, fd)"
  using assms node_unique [of "c_list c" it z fd] by (simp add: node_at_def cache_inv_def)

lemma cache_zone_unique:
  assumes "cache_inv c" and "(it, z, fd) \<in> set (c_list c)" and "(it', z, fd') \<in> set (c_list c)"
  shows "it' = it" and "fd' = fd"
proof -
  have "c_map c z = Some it" "c_map c z = Some it'"
    using assms unfolding cache_inv_def by blast+
  then show it: "it' = it" by simp
  have "node_at it (c_list c) = (it, z, fd)" "node_at it' (c_list c) = (it', z, fd')"
    using node_at_in assms by blast+
  with it show "fd' = fd" by simp
qed

lemma erase_zone:
  assumes "cache_inv c" and "(it, z, fd) \<in> set (c_list c)"
  shows "map snd (node_erase it (c_list c)) = lru_put z (entries c)"
proof -
  have "fst n \<noteq> it \<longleftrightarrow> fst (snd n) \<noteq> z" if "n \<in> set (c_list c)" for n
  proof (cases n)
    case (fields i y g)
    have "i = it" if "y = z"
      using cache_zone_unique(1) [OF assms] that fields \<open>n \<in> set (c_list c)\<close> by blast
    moreover have "y = z" if "i = it"
      using node_at_in [OF assms] node_at_in [OF assms(1), of i y g] that fields \<open>n \<in> set (c_list c)\<close> by simp
    ultimately show ?thesis using fields by auto
  qed
  then have "node_erase it (c_list c) = filter (\<lambda>n. fst (snd n) \<noteq> z) (c_list c)"
    unfolding node_erase_def by (intro filter_cong) auto
  then show ?thesis
    by (simp add: lru_put_def entries_def filter_map o_def)
qed

lemma cache_inv_erase:
  assumes "cache_inv c" and "(it, z, fd) \<in> set (c_list c)"
  shows "cache_inv (c\<lparr>c_list := node_erase it (c_list c), c_map := (c_map c)(z := None)\<rparr>)"
proof -
  have "(\<exists>g. (i, y, g) \<in> set (node_erase it (c_list c))) \<longleftrightarrow>
      y \<noteq> z \<and> (\<exists>g. (i, y, g) \<in> set (c_list c))" for y i
  proof -
    have "i \<noteq> it \<longleftrightarrow> y \<noteq> z" if "(i, y, g) \<in> set (c_list c)" for g
      using cache_zone_unique(1) [OF assms, of i g] node_at_in [OF assms] node_at_in [OF assms(1) that] that by auto
    then show ?thesis by (auto simp: node_erase_def)
  qed
  moreover have "distinct (map fst (node_erase it (c_list c)))"
    using assms(1) by (simp add: cache_inv_def node_erase_def distinct_map_filter)
  ultimately show ?thesis
    using assms(1) by (auto simp: cache_inv_def node_erase_def)
qed

lemma entries_distinct:
  assumes "cache_inv c"
  shows "distinct (map fst (entries c))"
proof -
  have "inj_on (\<lambda>n. fst (snd n)) (set (c_list c))"
    using cache_zone_unique [OF assms] by (fastforce simp: inj_on_def)
  moreover have "distinct (c_list c)"
    using assms by (simp add: cache_inv_def distinct_map)
  ultimately show ?thesis by (simp add: entries_def distinct_map o_def)
qed

lemma filter_single:
  assumes "distinct (map fst l)" and "map_of l z = Some v"
  shows "filter (\<lambda>e. fst e = z) l = [(z, v)]"
  using assms
proof (induction l)
  case (Cons e l)
  show ?case
  proof (cases "fst e = z")
    case True
    have "filter (\<lambda>e. fst e = z) l = []"
      using True Cons.prems(1) by (intro filter_False ballI notI) (metis distinct.simps(2) imageI list.set_map list.simps(9))
    with True Cons.prems show ?thesis by (cases e) simp
  next
    case False
    with Cons show ?thesis by (cases e) simp
  qed
qed simp

lemma map_of_entries:
  assumes "cache_inv c"
  shows "map_of (entries c) z = (case c_map c z of None \<Rightarrow> None | Some it \<Rightarrow> Some (snd (snd (node_at it (c_list c)))))"
proof (cases "c_map c z")
  case None
  then have "z \<notin> fst ` set (entries c)"
    using assms unfolding cache_inv_def entries_def by force
  with None show ?thesis by (simp add: map_of_eq_None_iff)
next
  case (Some it)
  then obtain fd where n: "(it, z, fd) \<in> set (c_list c)"
    using assms unfolding cache_inv_def by blast
  have "map_of (entries c) z = Some fd"
    using entries_distinct [OF assms] image_eqI [of "(z, fd)" snd, OF _ n] by (intro map_of_is_SomeI) (simp_all add: entries_def)
  with Some node_at_in [OF assms n] show ?thesis by simp
qed

lemma erase_last:
  assumes "distinct (map fst ns)" and "ns \<noteq> []"
  shows "node_erase (fst (last ns)) ns = butlast ns"
proof -
  obtain ms n where ns: "ns = ms @ [n]"
    using assms(2) by (cases ns rule: rev_cases) auto
  then have "fst n \<notin> fst ` set ms" using assms(1) by simp
  then have "filter (\<lambda>m. fst m \<noteq> fst n) ms = ms"
    by (intro filter_True ballI notI) (metis imageI)
  with ns show ?thesis by (simp add: node_erase_def)
qed

lemma Prune_spec:
  assumes "cache_inv c"
  shows "\<exists>c'. Prune px limit c os = (c', close_all px (drop (unat limit) (entries c)) os) \<and> cache_inv c' \<and>
    entries c' = take (unat limit) (entries c) \<and> c_max c' = c_max c \<and> c_flags c' = c_flags c \<and>
    c_nodes c' = c_nodes c"
  using assms
proof (induction px limit c os rule: Prune.induct)
  case (1 px limit c os)
  show ?case
  proof (cases "length (c_list c) > unat limit")
    case False
    with 1(2) show ?thesis by (subst Prune.simps) (simp add: entries_def close_all_def)
  next
    case True
    then obtain ms it z fd where ns: "c_list c = ms @ [(it, z, fd)]"
      by (cases "c_list c" rule: rev_cases) auto
    define c1 where "c1 = c\<lparr>c_map := (c_map c)(z := None), c_list := ms\<rparr>"
    have "node_erase it (c_list c) = ms"
      using erase_last [of "c_list c"] 1(2) ns by (simp add: cache_inv_def)
    then have inv: "cache_inv c1"
      using cache_inv_erase [OF 1(2), of it z fd] ns by (simp add: c1_def cache_inv_def)
    have step: "Prune px limit c os = Prune px limit c1 (px_close px fd os)"
      using True ns by (subst Prune.simps) (simp add: c1_def)
    have e: "entries c = entries c1 @ [(z, fd)]" "unat limit \<le> length (entries c1)"
      using True ns by (simp_all add: entries_def c1_def)
    have "\<exists>c'. Prune px limit c1 (px_close px fd os)
        = (c', close_all px (drop (unat limit) (entries c1)) (px_close px fd os)) \<and> cache_inv c' \<and>
        entries c' = take (unat limit) (entries c1) \<and> c_max c' = c_max c1 \<and> c_flags c' = c_flags c1 \<and>
        c_nodes c' = c_nodes c1"
      using 1(1) [OF True, of "(it, z, fd)" it "(z, fd)" z fd] inv ns by (simp add: c1_def)
    then show ?thesis
      unfolding step using e by (auto simp: close_all_def c1_def)
  qed
qed

lemma Put_spec:
  assumes "cache_inv c"
  shows "\<exists>c'. Cache_Put px zone c os
      = (c', close_all px (filter (\<lambda>e. fst e = zone) (entries c)) os) \<and> cache_inv c' \<and>
    entries c' = lru_put zone (entries c) \<and> c_max c' = c_max c \<and> c_flags c' = c_flags c"
proof (cases "c_map c zone")
  case None
  then have "\<forall>e \<in> set (entries c). fst e \<noteq> zone"
    using assms unfolding cache_inv_def entries_def by force
  then have "filter (\<lambda>e. fst e = zone) (entries c) = []" "lru_put zone (entries c) = entries c"
    by (auto simp: lru_put_def filter_empty_conv intro!: filter_True)
  with None assms show ?thesis by (simp add: Cache_Put_def close_all_def)
next
  case (Some it)
  then obtain fd where n: "(it, zone, fd) \<in> set (c_list c)"
    using assms unfolding cache_inv_def by blast
  have "filter (\<lambda>e. fst e = zone) (entries c) = [(zone, fd)]"
    using map_of_entries [OF assms, of zone] Some node_at_in [OF assms n]
    by (intro filter_single entries_distinct assms) simp
  then show ?thesis
    using Some node_at_in [OF assms n] cache_inv_erase [OF assms n] erase_zone [OF assms n]
    by (simp add: Cache_Put_def close_all_def entries_def)
qed

lemma Resize_spec:
  assumes "cache_inv c"
  shows "\<exists>c'. Cache_Resize px m c os
      = (c', if m < c_max c then close_all px (drop (unat m) (entries c)) os else os) \<and> cache_inv c' \<and>
    entries c' = (if m < c_max c then take (unat m) (entries c) else entries c) \<and> c_max c' = m \<and>
    c_flags c' = c_flags c"
  using Prune_spec [OF assms, of px m os] assms
  by (auto simp: Cache_Resize_def cache_inv_def entries_def)

lemma cache_invI:
  assumes "distinct (map fst l)" and "\<And>n. n \<in> set l \<Longrightarrow> fst n < k"
    and "\<And>z it. m z = Some it \<longleftrightarrow> (\<exists>fd. (it, z, fd) \<in> set l)"
  shows "cache_inv (c\<lparr>c_list := l, c_map := m, c_nodes := k\<rparr>)"
  unfolding cache_inv_def using assms by simp

lemma cache_invD:
  assumes "cache_inv c"
  shows "distinct (map fst (c_list c))" and "n \<in> set (c_list c) \<Longrightarrow> fst n < c_nodes c"
    and "c_map c z = Some it \<longleftrightarrow> (\<exists>fd. (it, z, fd) \<in> set (c_list c))"
  using assms unfolding cache_inv_def by blast+

lemma cache_inv_move:
  assumes "cache_inv c" and n: "(it, z, fd) \<in> set (c_list c)"
  shows "cache_inv (c\<lparr>c_list := (it, z, fd) # node_erase it (c_list c)\<rparr>)"
proof -
  have "m = (it, z, fd)" if "m \<in> set (c_list c)" "fst m = it" for m
    using node_at_in [OF assms(1) n] node_at_in [OF assms(1), of "fst m" "fst (snd m)" "snd (snd m)"] that by (cases m) simp
  then have s: "set ((it, z, fd) # node_erase it (c_list c)) = set (c_list c)"
    using n unfolding node_erase_def set_filter list.set by blast
  have "distinct (map fst ((it, z, fd) # node_erase it (c_list c)))"
    using cache_invD(1) [OF assms(1)] by (auto simp: node_erase_def distinct_map_filter)
  moreover have "fst m < c_nodes c" if "m \<in> set ((it, z, fd) # node_erase it (c_list c))" for m
    using that cache_invD(2) [OF assms(1)] unfolding s by blast
  moreover have "c_map c y = Some i \<longleftrightarrow> (\<exists>g. (i, y, g) \<in> set ((it, z, fd) # node_erase it (c_list c)))" for y i
    unfolding s by (rule cache_invD(3) [OF assms(1)])
  ultimately have "cache_inv (c\<lparr>c_list := (it, z, fd) # node_erase it (c_list c), c_map := c_map c, c_nodes := c_nodes c\<rparr>)"
    by (rule cache_invI)
  then show ?thesis by simp
qed

lemma cache_inv_add:
  assumes "cache_inv c" and "z \<notin> fst ` set (entries c)"
  shows "cache_inv (c\<lparr>c_list := (c_nodes c, z, fd) # c_list c, c_map := (c_map c)(z \<mapsto> c_nodes c),
    c_nodes := c_nodes c + 1\<rparr>)"
proof (rule cache_invI)
  have new: "(i, z, g) \<notin> set (c_list c)" for i g
    using assms(2) image_eqI [of "(z, g)" snd "(i, z, g)" "set (c_list c)"]
      image_eqI [of z fst "(z, g)" "snd ` set (c_list c)"] by (auto simp: entries_def)
  show "((c_map c)(z \<mapsto> c_nodes c)) y = Some it \<longleftrightarrow> (\<exists>g. (it, y, g) \<in> set ((c_nodes c, z, fd) # c_list c))" for y it
    using new by (cases "y = z") (simp_all add: cache_invD(3) [OF assms(1)] eq_commute [of it])
  have "c_nodes c \<notin> fst ` set (c_list c)"
    using cache_invD(2) [OF assms(1)] by (metis imageE less_irrefl)
  then show "distinct (map fst ((c_nodes c, z, fd) # c_list c))"
    using cache_invD(1) [OF assms(1)] by simp
  show "fst n < c_nodes c + 1" if "n \<in> set ((c_nodes c, z, fd) # c_list c)" for n
    using that cache_invD(2) [OF assms(1), of n] by auto
qed

lemma Get_hit:
  assumes "cache_inv c" and "map_of (entries c) zone = Some fd"
  shows "\<exists>c'. Cache_Get px zone filename c os = (Some fd, c', os) \<and> cache_inv c' \<and>
    entries c' = (zone, fd) # lru_put zone (entries c) \<and> c_max c' = c_max c \<and> c_flags c' = c_flags c"
proof -
  obtain it where m: "c_map c zone = Some it"
    using assms map_of_entries [OF assms(1), of zone] by (cases "c_map c zone") auto
  then obtain g where n: "(it, zone, g) \<in> set (c_list c)"
    using assms(1) unfolding cache_inv_def by blast
  moreover have "g = fd"
    using map_of_entries [OF assms(1), of zone] m node_at_in [OF assms(1) n] assms(2) by simp
  ultimately show ?thesis
    using m node_at_in [OF assms(1) n] cache_inv_move [OF assms(1) n] erase_zone [OF assms(1) n]
    by (simp add: Cache_Get_def entries_def)
qed

lemma Get_miss:
  assumes "cache_inv c" and "map_of (entries c) zone = None" and "px_open px filename (c_flags c) os = (fd, os1)"
    and "fd \<noteq> -1"
  shows "\<exists>c'. Cache_Get px zone filename c os
      = (Some fd, c', close_all px (drop (unat (c_max c - 1)) (entries c)) os1) \<and> cache_inv c' \<and>
    entries c' = (zone, fd) # take (unat (c_max c - 1)) (entries c) \<and> c_max c' = c_max c \<and> c_flags c' = c_flags c"
proof -
  obtain c1 where p: "Prune px (c_max c - 1) c os1 = (c1, close_all px (drop (unat (c_max c - 1)) (entries c)) os1)"
    and inv: "cache_inv c1" and e: "entries c1 = take (unat (c_max c - 1)) (entries c)"
    and f: "c_max c1 = c_max c" "c_flags c1 = c_flags c" "c_nodes c1 = c_nodes c"
    using Prune_spec [OF assms(1), of px "c_max c - 1" os1] by blast
  have "c_map c zone = None"
    using assms(2) map_of_entries [OF assms(1), of zone] by (cases "c_map c zone") auto
  moreover have "zone \<notin> fst ` set (entries c1)"
    using assms(2) e by (auto simp: map_of_eq_None_iff dest: in_set_takeD)
  then have "cache_inv (c1\<lparr>c_list := (c_nodes c, zone, fd) # c_list c1,
      c_map := (c_map c1)(zone \<mapsto> c_nodes c), c_nodes := c_nodes c + 1\<rparr>)"
    using cache_inv_add [OF inv, of zone fd] f by simp
  ultimately show ?thesis
    using assms(3,4) p e f by (simp add: Cache_Get_def entries_def Let_def)
qed

lemma Get_failed:
  assumes "cache_inv c" and "map_of (entries c) zone = None" and "px_open px filename (c_flags c) os = (-1, os1)"
  shows "Cache_Get px zone filename c os = (None, c, os1)"
proof -
  have "c_map c zone = None"
    using assms(2) map_of_entries [OF assms(1), of zone] by (cases "c_map c zone") auto
  then show ?thesis using assms(3) by (simp add: Cache_Get_def)
qed

text \<open>Sequences of operations on a cache, and on the list that it stands for.\<close>

datatype cache_op = GetOp u64 string | PutOp u64 | ResizeOp u32

fun cache_step :: "'o posix \<Rightarrow> cache_op \<Rightarrow> ZoneFsFileCache \<times> 'o \<Rightarrow> ZoneFsFileCache \<times> 'o" where
  "cache_step px (GetOp zone filename) (c, os) = snd (Cache_Get px zone filename c os)"
| "cache_step px (PutOp zone) (c, os) = Cache_Put px zone c os"
| "cache_step px (ResizeOp n) (c, os) = Cache_Resize px n c os"

fun lru_step ::
  "'o posix \<Rightarrow> u32 \<Rightarrow> cache_op \<Rightarrow> u32 \<times> (u64 \<times> int) list \<times> 'o \<Rightarrow> u32 \<times> (u64 \<times> int) list \<times> 'o" where
  "lru_step px flags (GetOp zone filename) (m, l, os) =
     (case map_of l zone of
        Some fd \<Rightarrow> (m, (zone, fd) # lru_put zone l, os)
      | None \<Rightarrow>
          (let (fd, os1) = px_open px filename flags os
           in if fd = -1 then (m, l, os1)
              else (m, (zone, fd) # take (unat (m - 1)) l, close_all px (drop (unat (m - 1)) l) os1)))"
| "lru_step px flags (PutOp zone) (m, l, os) =
     (m, lru_put zone l, close_all px (filter (\<lambda>e. fst e = zone) l) os)"
| "lru_step px flags (ResizeOp n) (m, l, os) =
     (if n < m then (n, take (unat n) l, close_all px (drop (unat n) l) os) else (n, l, os))"

fun lru_of :: "ZoneFsFileCache \<times> 'o \<Rightarrow> u32 \<times> (u64 \<times> int) list \<times> 'o" where
  "lru_of (c, os) = (c_max c, entries c, os)"

lemma cache_step_refines:
  assumes "cache_inv (fst s)"
  shows "cache_inv (fst (cache_step px op s))" and "c_flags (fst (cache_step px op s)) = c_flags (fst s)"
    and "lru_of (cache_step px op s) = lru_step px (c_flags (fst s)) op (lru_of s)"
proof -
  obtain c os where s: "s = (c, os)" by (cases s)
  then have inv: "cache_inv c" using assms by simp
  have "cache_inv (fst (cache_step px op s)) \<and> c_flags (fst (cache_step px op s)) = c_flags (fst s) \<and>
    lru_of (cache_step px op s) = lru_step px (c_flags (fst s)) op (lru_of s)"
  proof (cases op)
    case (GetOp zone filename)
    obtain fd os1 where o: "px_open px filename (c_flags c) os = (fd, os1)"
      by (cases "px_open px filename (c_flags c) os")
    show ?thesis
    proof (cases "map_of (entries c) zone")
      case (Some g)
      with Get_hit [OF inv Some, of px filename os] s GetOp show ?thesis by auto
    next
      case None
      with Get_miss [OF inv None o] Get_failed [OF inv None, of px filename os os1] o s GetOp inv show ?thesis
        by (cases "fd = -1") auto
    qed
  next
    case (PutOp zone)
    with Put_spec [OF inv, of px zone os] s show ?thesis by auto
  next
    case (ResizeOp n)
    with Resize_spec [OF inv, of px n os] s show ?thesis by auto
  qed
  then show "cache_inv (fst (cache_step px op s))" "c_flags (fst (cache_step px op s)) = c_flags (fst s)"
    "lru_of (cache_step px op s) = lru_step px (c_flags (fst s)) op (lru_of s)" by blast+
qed

section \<open>What the code relies on of the system calls\<close>

text \<open>
  \<open>fdf os fd\<close> is the file that the descriptor \<open>fd\<close> is open on, and \<open>content os f i\<close> the byte of the file \<open>f\<close> at the
  offset \<open>i\<close>, zero after the end of the file. A new descriptor is one that is not in use. A write that does not fail
  transfers at least one byte. Truncating a file keeps what is before the new end.
\<close>

definition opened_at ::
  "('o \<Rightarrow> int \<Rightarrow> string option) \<Rightarrow> ('o \<Rightarrow> string \<Rightarrow> nat \<Rightarrow> byte) \<Rightarrow> string \<Rightarrow> 'o \<Rightarrow> int \<times> 'o \<Rightarrow> bool" where
  "opened_at fdf content f os res \<longleftrightarrow>
     (case res of (fd, os') \<Rightarrow>
        content os' = content os \<and>
        (if fd = -1 then fdf os' = fdf os
         else 0 \<le> fd \<and> fdf os fd = None \<and> fdf os' = (fdf os)(fd \<mapsto> f)))"

definition closed_at :: "('o \<Rightarrow> int \<Rightarrow> string option) \<Rightarrow> ('o \<Rightarrow> string \<Rightarrow> nat \<Rightarrow> byte) \<Rightarrow> int \<Rightarrow> 'o \<Rightarrow> 'o \<Rightarrow> bool" where
  "closed_at fdf content fd os os' \<longleftrightarrow> content os' = content os \<and> fdf os' = (fdf os)(fd := None)"

definition read_at :: "('o \<Rightarrow> int \<Rightarrow> string option) \<Rightarrow> ('o \<Rightarrow> string \<Rightarrow> nat \<Rightarrow> byte) \<Rightarrow> int \<Rightarrow> nat \<Rightarrow> u64 \<Rightarrow> 'o \<Rightarrow> read_result \<times> 'o \<Rightarrow> bool" where
  "read_at fdf content fd n off os res \<longleftrightarrow>
     (case res of (r, os') \<Rightarrow>
        content os' = content os \<and> fdf os' = fdf os \<and>
        (\<forall>f bs. fdf os fd = Some f \<and> r = ReadBytes bs \<longrightarrow>
           length bs \<le> n \<and> (\<forall>i < length bs. bs ! i = content os f (unat off + i))))"

definition written_at :: "('o \<Rightarrow> int \<Rightarrow> string option) \<Rightarrow> ('o \<Rightarrow> string \<Rightarrow> nat \<Rightarrow> byte) \<Rightarrow> int \<Rightarrow> bytes \<Rightarrow> nat \<Rightarrow> u64 \<Rightarrow> 'o \<Rightarrow> int \<times> 'o \<Rightarrow> bool" where
  "written_at fdf content fd data n off os res \<longleftrightarrow>
     (\<forall>f. fdf os fd = Some f \<and> 0 < n \<and> n \<le> length data \<longrightarrow>
        (case res of (ret, os') \<Rightarrow>
           fdf os' = fdf os \<and> ret \<noteq> 0 \<and> ret \<le> int n \<and>
           (\<forall>g i. g \<noteq> f \<or> i < unat off \<or> unat off + n \<le> i \<longrightarrow> content os' g i = content os g i) \<and>
           (\<forall>i < nat ret. content os' f (unat off + i) = data ! i)))"

definition truncated_at :: "('o \<Rightarrow> int \<Rightarrow> string option) \<Rightarrow> ('o \<Rightarrow> string \<Rightarrow> nat \<Rightarrow> byte) \<Rightarrow> string \<Rightarrow> u64 \<Rightarrow> 'o \<Rightarrow> int \<times> 'o \<Rightarrow> bool" where
  "truncated_at fdf content f n os res \<longleftrightarrow>
     (case res of (ret, os') \<Rightarrow>
        fdf os' = fdf os \<and> (\<forall>g i. g \<noteq> f \<or> i < unat n \<longrightarrow> content os' g i = content os g i))"

definition queries :: "'o posix \<Rightarrow> ('o \<Rightarrow> 'a) \<Rightarrow> bool" where
  "queries px view \<longleftrightarrow>
     (\<forall>f os. view (snd (px_stat px f os)) = view os) \<and> (\<forall>fd os. view (snd (px_fstat px fd os)) = view os) \<and>
     (\<forall>fd os. view (snd (px_flock px fd os)) = view os) \<and> (\<forall>os. view (snd (px_mounts px os)) = view os) \<and>
     (\<forall>f os. view (snd (px_sysfs px f os)) = view os) \<and>
     (\<forall>fd off n os. view (snd (px_fadvise px fd off n os)) = view os)"

definition posix_files :: "'o posix \<Rightarrow> ('o \<Rightarrow> int \<Rightarrow> string option) \<Rightarrow> ('o \<Rightarrow> string \<Rightarrow> nat \<Rightarrow> byte) \<Rightarrow> bool" where
  "posix_files px fdf content \<longleftrightarrow>
     (\<forall>f flags os. opened_at fdf content f os (px_open px f flags os)) \<and>
     (\<forall>fd os. closed_at fdf content fd os (px_close px fd os)) \<and>
     (\<forall>fd n off os. read_at fdf content fd n off os (px_pread px fd n off os)) \<and>
     (\<forall>fd data n off os. written_at fdf content fd data n off os (px_pwrite px fd data n off os)) \<and>
     (\<forall>f n os. truncated_at fdf content f n os (px_truncate px f n os)) \<and>
     queries px fdf \<and> queries px content"

lemma posix_filesD:
  assumes "posix_files px fdf content"
  shows "opened_at fdf content f os (px_open px f flags os)"
    and "closed_at fdf content fd os (px_close px fd os)"
    and "read_at fdf content fd n off os (px_pread px fd n off os)"
    and "written_at fdf content fd data n off os (px_pwrite px fd data n off os)"
    and "truncated_at fdf content f w os (px_truncate px f w os)"
  using assms unfolding posix_files_def by blast+

lemma px_openD:
  assumes "posix_files px fdf content" and "px_open px f flags os = (fd, os')"
  shows "content os' = content os" and "fd = -1 \<Longrightarrow> fdf os' = fdf os"
    and "fd \<noteq> -1 \<Longrightarrow> 0 \<le> fd \<and> fdf os fd = None \<and> fdf os' = (fdf os)(fd \<mapsto> f)"
  using posix_filesD(1) [OF assms(1), of f os flags] assms(2) by (simp_all add: opened_at_def)

lemma px_closeD:
  assumes "posix_files px fdf content"
  shows "content (px_close px fd os) = content os" and "fdf (px_close px fd os) = (fdf os)(fd := None)"
  using posix_filesD(2) [OF assms, of fd os] by (simp_all add: closed_at_def)

lemma px_preadD:
  assumes "posix_files px fdf content" and "px_pread px fd n off os = (res, os')"
  shows "content os' = content os" and "fdf os' = fdf os"
    and "fdf os fd = Some f \<Longrightarrow> res = ReadBytes bs \<Longrightarrow>
      length bs \<le> n \<and> (\<forall>i < length bs. bs ! i = content os f (unat off + i))"
  using posix_filesD(3) [OF assms(1), of fd n off os] assms(2) by (simp_all add: read_at_def)

lemma px_pwriteD:
  assumes "posix_files px fdf content" and "px_pwrite px fd data n off os = (ret, os')"
    and "fdf os fd = Some f" and "0 < n" and "n \<le> length data"
  shows "fdf os' = fdf os" and "ret \<noteq> 0" and "ret \<le> int n"
    and "g \<noteq> f \<or> i < unat off \<or> unat off + n \<le> i \<Longrightarrow> content os' g i = content os g i"
    and "i < nat ret \<Longrightarrow> content os' f (unat off + i) = data ! i"
  using posix_filesD(4) [OF assms(1), of fd data n off os] assms(2-5) by (simp_all add: written_at_def)

lemma px_truncateD:
  assumes "posix_files px fdf content" and "px_truncate px f n os = (ret, os')"
  shows "fdf os' = fdf os" and "g \<noteq> f \<or> i < unat n \<Longrightarrow> content os' g i = content os g i"
  using posix_filesD(5) [OF assms(1), of f n os] assms(2) by (simp_all add: truncated_at_def)

lemma queriesD:
  assumes "queries px view"
  shows "px_stat px f os = (st, os') \<Longrightarrow> view os' = view os"
    and "px_fstat px fd os = (st, os') \<Longrightarrow> view os' = view os"
    and "px_flock px fd os = (ret, os') \<Longrightarrow> view os' = view os"
    and "px_mounts px os = (ms, os') \<Longrightarrow> view os' = view os"
    and "px_sysfs px f os = (val, os') \<Longrightarrow> view os' = view os"
    and "px_fadvise px fd off n os = (ret, os') \<Longrightarrow> view os' = view os"
  using assms unfolding queries_def by (metis snd_conv)+

lemma posix_queries:
  assumes "posix_files px fdf content"
  shows "queries px fdf" and "queries px content"
  using assms by (simp_all add: posix_files_def)

section \<open>The names of the zone files\<close>

lemma to_string_last:
  "to_string n = (if n < 10 then [] else to_string (n div 10)) @ [char_of (48 + n mod 10)]"
  by (subst to_string.simps) simp

lemma digit_inj:
  assumes "(char_of (48 + m mod 10 :: nat) :: char) = char_of (48 + n mod 10)"
  shows "m mod 10 = n mod 10"
proof -
  have "of_char (char_of (48 + m mod 10 :: nat) :: char) = (of_char (char_of (48 + n mod 10 :: nat) :: char) :: nat)"
    using assms by simp
  moreover have "48 + k mod 10 < (256 :: nat)" for k by simp
  ultimately show ?thesis by (simp del: of_char_eq_iff)
qed

lemma to_string_not_empty: "to_string n \<noteq> []"
  by (subst to_string_last) simp

lemma to_string_inj: "to_string m = to_string n \<Longrightarrow> m = n"
proof (induction m arbitrary: n rule: less_induct)
  case (less m)
  have eq: "(if m < 10 then [] else to_string (m div 10)) @ [char_of (48 + m mod 10)]
      = (if n < 10 then [] else to_string (n div 10)) @ [char_of (48 + n mod 10)]"
    using less.prems by (simp only: to_string_last [symmetric])
  then have d: "m mod 10 = n mod 10" and h: "(if m < 10 then [] else to_string (m div 10))
      = (if n < 10 then [] else to_string (n div 10))"
    using digit_inj by auto
  show ?case
  proof (cases "m < 10")
    case True
    with h have "n < 10" using to_string_not_empty [of "n div 10"] by (auto split: if_splits)
    with True d show ?thesis by simp
  next
    case False
    with h have "\<not> n < 10" using to_string_not_empty [of "m div 10"] by (auto split: if_splits)
    with False h have "to_string (m div 10) = to_string (n div 10)" by simp
    then have "m div 10 = n div 10" using less.IH [of "m div 10"] False by simp
    with d show ?thesis by (metis div_mult_mod_eq)
  qed
qed

lemma zone_file_inj [simp]: "zone_file mp m = zone_file mp n \<longleftrightarrow> m = n"
  using to_string_inj by (auto simp: zone_file_def)

section \<open>The open files\<close>

text \<open>Every open file of the caches is the one of its zone, and no descriptor is in two places.\<close>

definition files_ok :: "('o \<Rightarrow> int \<Rightarrow> string option) \<Rightarrow> string \<Rightarrow> 'o \<Rightarrow> (u64 \<times> int) list \<Rightarrow> bool" where
  "files_ok fdf mp os l \<longleftrightarrow>
     (\<forall>e \<in> set l. fdf os (snd e) = Some (zone_file mp (unat (fst e)))) \<and> distinct (map snd l)"

lemma files_ok_perm:
  assumes "mset l = mset l'"
  shows "files_ok fdf mp os l \<longleftrightarrow> files_ok fdf mp os l'"
  unfolding files_ok_def using mset_eq_setD [OF assms] mset_eq_imp_distinct_iff [of "map snd l" "map snd l'"] assms
  by simp

lemma files_okD: "files_ok fdf mp os l \<Longrightarrow> (zone, fd) \<in> set l \<Longrightarrow> fdf os fd = Some (zone_file mp (unat zone))"
  by (fastforce simp: files_ok_def)

lemma files_ok_view: "fdf os' = fdf os \<Longrightarrow> files_ok fdf mp os' l = files_ok fdf mp os l"
  by (simp add: files_ok_def)

lemma close_all_spec:
  assumes "posix_files px fdf content"
  shows "content (close_all px l os) = content os"
    and "fdf (close_all px l os) = (\<lambda>fd. if fd \<in> snd ` set l then None else fdf os fd)"
proof (induction l)
  case (Cons e l)
  case 1
  show ?case using Cons px_closeD [OF assms] by (cases e) (simp add: close_all_def)
  case 2
  show ?case using Cons px_closeD [OF assms] by (cases e) (auto simp: close_all_def)
qed (simp_all add: close_all_def)

lemma files_ok_close:
  assumes px: "posix_files px fdf content" and ok: "files_ok fdf mp os (d @ l)"
  shows "files_ok fdf mp (close_all px d os) l"
proof -
  have "snd e \<notin> snd ` set d" if "e \<in> set l" for e
    using ok that by (fastforce simp: files_ok_def)
  then show ?thesis
    using ok close_all_spec(2) [OF px] by (simp add: files_ok_def)
qed

lemma files_ok_open:
  assumes px: "posix_files px fdf content" and ok: "files_ok fdf mp os l"
    and o: "px_open px (zone_file mp (unat zone)) flags os = (fd, os')" and fd: "fd \<noteq> -1"
  shows "files_ok fdf mp os' ((zone, fd) # l)"
proof -
  have n: "fdf os fd = None" "fdf os' = (fdf os)(fd \<mapsto> zone_file mp (unat zone))"
    using px_openD(3) [OF px o fd] by auto
  then have "snd e \<noteq> fd" if "e \<in> set l" for e
    using ok that by (auto simp: files_ok_def)
  then show ?thesis
    using ok n by (auto simp: files_ok_def)
qed

lemma mset_split: "mset (filter P l) + mset (filter (\<lambda>e. \<not> P e) l) = mset l"
  by (induction l) simp_all

lemma mset_take_drop: "mset (take n l) + mset (drop n l) = mset l"
  by (simp flip: mset_append)

lemma Put_files:
  assumes px: "posix_files px fdf content" and inv: "cache_inv c" and ok: "files_ok fdf mp os (entries c @ rest)"
    and p: "Cache_Put px zone c os = (c', os')"
  shows "cache_inv c'" and "files_ok fdf mp os' (entries c' @ rest)" and "content os' = content os"
proof -
  have c': "cache_inv c'" "entries c' = lru_put zone (entries c)"
    "os' = close_all px (filter (\<lambda>e. fst e = zone) (entries c)) os"
    using Put_spec [OF inv, of px zone os] p by auto
  then show "cache_inv c'" "content os' = content os"
    using close_all_spec(1) [OF px] by auto
  have "files_ok fdf mp os (filter (\<lambda>e. fst e = zone) (entries c) @ lru_put zone (entries c) @ rest)"
    using ok files_ok_perm [of "entries c @ rest" "filter (\<lambda>e. fst e = zone) (entries c) @ lru_put zone (entries c) @ rest" fdf mp os]
      mset_split [of "\<lambda>e. fst e = zone" "entries c"] by (simp add: lru_put_def ac_simps)
  then show "files_ok fdf mp os' (entries c' @ rest)"
    using files_ok_close [OF px] c' by simp
qed

lemma Get_files:
  assumes px: "posix_files px fdf content" and inv: "cache_inv c" and ok: "files_ok fdf mp os (entries c @ rest)"
    and g: "Cache_Get px zone (zone_file mp (unat zone)) c os = (f, c', os')"
  shows "cache_inv c'" and "files_ok fdf mp os' (entries c' @ rest)" and "content os' = content os"
    and "f = Some fd \<Longrightarrow> fdf os' fd = Some (zone_file mp (unat zone))"
proof -
  obtain fd1 os1 where o: "px_open px (zone_file mp (unat zone)) (c_flags c) os = (fd1, os1)" by fastforce
  have "cache_inv c' \<and> files_ok fdf mp os' (entries c' @ rest) \<and> content os' = content os \<and>
      (\<forall>fd. f = Some fd \<longrightarrow> (zone, fd) \<in> set (entries c'))"
  proof (cases "map_of (entries c) zone")
    case (Some fd2)
    have c': "cache_inv c'" "os' = os" "entries c' = (zone, fd2) # lru_put zone (entries c)" "f = Some fd2"
      using Get_hit [OF inv Some, of px "zone_file mp (unat zone)" os] g by auto
    have "filter (\<lambda>e. fst e = zone) (entries c) = [(zone, fd2)]"
      by (intro filter_single entries_distinct inv Some)
    then have "mset (entries c') = mset (entries c)"
      using c'(3) mset_split [of "\<lambda>e. fst e = zone" "entries c"] by (simp add: lru_put_def)
    then have "mset (entries c' @ rest) = mset (entries c @ rest)" by simp
    from files_ok_perm [OF this, of fdf mp os] ok c' show ?thesis by simp
  next
    case None
    show ?thesis
    proof (cases "fd1 = -1")
      case True
      then show ?thesis
        using Get_failed [OF inv None, of px "zone_file mp (unat zone)" os os1] o g inv ok px_openD [OF px o]
          files_ok_view [of fdf os1 os mp "entries c @ rest"] by auto
    next
      case False
      let ?n = "unat (c_max c - 1)"
      have c': "cache_inv c'" "entries c' = (zone, fd1) # take ?n (entries c)" "f = Some fd1"
        "os' = close_all px (drop ?n (entries c)) os1"
        using Get_miss [OF inv None o False] g by auto
      have new: "files_ok fdf mp os1 ((zone, fd1) # entries c @ rest)"
        by (rule files_ok_open [OF px ok o False])
      have m: "mset ((zone, fd1) # entries c @ rest)
          = mset (drop ?n (entries c) @ ((zone, fd1) # take ?n (entries c)) @ rest)"
        using mset_take_drop [of ?n "entries c"] by (simp add: ac_simps)
      have "files_ok fdf mp os1 (drop ?n (entries c) @ ((zone, fd1) # take ?n (entries c)) @ rest)"
        by (rule files_ok_perm [OF m, THEN iffD1, OF new])
      then have "files_ok fdf mp os' (entries c' @ rest)"
        using files_ok_close [OF px] c' by simp
      then show ?thesis
        using c' close_all_spec(1) [OF px] px_openD(1) [OF px o] by auto
    qed
  qed
  then show "cache_inv c'" "files_ok fdf mp os' (entries c' @ rest)" "content os' = content os"
    "f = Some fd \<Longrightarrow> fdf os' fd = Some (zone_file mp (unat zone))"
    by (auto intro: files_okD)
qed

section \<open>The states of the backend\<close>

definition all_files :: "'o ZoneFsBackend \<Rightarrow> (u64 \<times> int) list" where
  "all_files b = entries (rd_fds b) @ entries (direct_rd_fds b) @ entries (wr_fds b)"

definition zonefs_ok :: "('o \<Rightarrow> int \<Rightarrow> string option) \<Rightarrow> 'o ZoneFsBackend \<Rightarrow> bool" where
  "zonefs_ok fdf b \<longleftrightarrow>
     cache_inv (rd_fds b) \<and> cache_inv (direct_rd_fds b) \<and> cache_inv (wr_fds b) \<and>
     files_ok fdf (mountpoint b) (zos b) (all_files b) \<and> 0 < zfs_zone_sz b \<and>
     unat (zfs_nr_zones b) * unat (zfs_zone_sz b) < 2 ^ 64"

definition same_mount :: "'o ZoneFsBackend \<Rightarrow> 'o ZoneFsBackend \<Rightarrow> bool" where
  "same_mount b b' \<longleftrightarrow>
     mountpoint b' = mountpoint b \<and> zfs_zone_sz b' = zfs_zone_sz b \<and> zfs_nr_zones b' = zfs_nr_zones b \<and>
     zfs_block_sz b' = zfs_block_sz b \<and> zfs_readonly b' = zfs_readonly b"

lemma same_mount_refl [simp]: "same_mount b (b\<lparr>zos := os\<rparr>)" "same_mount b b"
  by (simp_all add: same_mount_def)

lemma same_mount_trans: "same_mount b b' \<Longrightarrow> same_mount b' b'' \<Longrightarrow> same_mount b b''"
  by (simp add: same_mount_def)

lemma zonefs_ok_os: "zonefs_ok fdf b \<Longrightarrow> fdf os = fdf (zos b) \<Longrightarrow> zonefs_ok fdf (b\<lparr>zos := os\<rparr>)"
  by (simp add: zonefs_ok_def all_files_def files_ok_def)

lemma LBAToZoneFile_eq: "LBAToZoneFile pos b = zone_file (mountpoint b) (unat (pos div zfs_zone_sz b))"
  by (simp add: LBAToZoneFile_def)

lemma GetZoneFile_spec:
  assumes px: "posix_files px fdf content" and ok: "zonefs_ok fdf b" and g: "GetZoneFile px pos flags b = (f, b')"
  shows "zonefs_ok fdf b'" and "content (zos b') = content (zos b)" and "same_mount b b'"
    and "f = Some fd \<Longrightarrow> fdf (zos b') fd = Some (LBAToZoneFile pos b)"
proof -
  have inv: "cache_inv (rd_fds b)" "cache_inv (direct_rd_fds b)" "cache_inv (wr_fds b)"
    and fok: "files_ok fdf (mountpoint b) (zos b) (all_files b)"
    using ok by (simp_all add: zonefs_ok_def)
  have ok_cong: "files_ok fdf (mountpoint b) os l' \<Longrightarrow> mset l = mset l' \<Longrightarrow> files_ok fdf (mountpoint b) os l" for os l l'
    using files_ok_perm [of l l' fdf "mountpoint b" os] by simp
  have "zonefs_ok fdf b' \<and> content (zos b') = content (zos b) \<and> same_mount b b' \<and>
      (\<forall>fd. f = Some fd \<longrightarrow> fdf (zos b') fd = Some (LBAToZoneFile pos b))"
  proof (cases "flags AND O_WRONLY \<noteq> 0")
    case True
    obtain c os where s: "Cache_Get px (pos div zfs_zone_sz b) (LBAToZoneFile pos b) (wr_fds b) (zos b) = (f, c, os)"
      and b': "b' = b\<lparr>wr_fds := c, zos := os\<rparr>"
      using g True by (auto simp: GetZoneFile_def split: prod.splits)
    have "files_ok fdf (mountpoint b) (zos b) (entries (wr_fds b) @ entries (rd_fds b) @ entries (direct_rd_fds b))"
      by (rule ok_cong [OF fok]) (simp add: all_files_def ac_simps)
    note n = Get_files [OF px inv(3) this s [unfolded LBAToZoneFile_eq]]
    have "files_ok fdf (mountpoint b) os (all_files b')"
      by (rule ok_cong [OF n(2)]) (simp add: all_files_def b' ac_simps)
    then show ?thesis using n ok by (simp add: b' zonefs_ok_def same_mount_def LBAToZoneFile_eq)
  next
    case rd: False
    show ?thesis
    proof (cases "flags AND O_DIRECT \<noteq> 0")
      case True
      obtain c os where s: "Cache_Get px (pos div zfs_zone_sz b) (LBAToZoneFile pos b) (direct_rd_fds b) (zos b) = (f, c, os)"
        and b': "b' = b\<lparr>direct_rd_fds := c, zos := os\<rparr>"
        using g True rd by (auto simp: GetZoneFile_def split: prod.splits)
      have "files_ok fdf (mountpoint b) (zos b) (entries (direct_rd_fds b) @ entries (rd_fds b) @ entries (wr_fds b))"
        by (rule ok_cong [OF fok]) (simp add: all_files_def ac_simps)
      note n = Get_files [OF px inv(2) this s [unfolded LBAToZoneFile_eq]]
      have "files_ok fdf (mountpoint b) os (all_files b')"
        by (rule ok_cong [OF n(2)]) (simp add: all_files_def b' ac_simps)
      then show ?thesis using n ok by (simp add: b' zonefs_ok_def same_mount_def LBAToZoneFile_eq)
    next
      case False
      obtain c os where s: "Cache_Get px (pos div zfs_zone_sz b) (LBAToZoneFile pos b) (rd_fds b) (zos b) = (f, c, os)"
        and b': "b' = b\<lparr>rd_fds := c, zos := os\<rparr>"
        using g False rd by (auto simp: GetZoneFile_def split: prod.splits)
      note n = Get_files [OF px inv(1) fok [unfolded all_files_def] s [unfolded LBAToZoneFile_eq]]
      then show ?thesis using ok by (simp add: b' zonefs_ok_def same_mount_def LBAToZoneFile_eq all_files_def)
    qed
  qed
  then show "zonefs_ok fdf b'" "content (zos b') = content (zos b)" "same_mount b b'"
    "f = Some fd \<Longrightarrow> fdf (zos b') fd = Some (LBAToZoneFile pos b)" by blast+
qed

lemma PutZoneFile_spec:
  assumes px: "posix_files px fdf content" and ok: "zonefs_ok fdf b"
  shows "zonefs_ok fdf (PutZoneFile px pos flags b)"
    and "content (zos (PutZoneFile px pos flags b)) = content (zos b)" and "same_mount b (PutZoneFile px pos flags b)"
proof -
  obtain c os where p: "Cache_Put px (pos div zfs_zone_sz b) (wr_fds b) (zos b) = (c, os)"
    by (cases "Cache_Put px (pos div zfs_zone_sz b) (wr_fds b) (zos b)")
  have inv: "cache_inv (wr_fds b)"
    and fok: "files_ok fdf (mountpoint b) (zos b) (all_files b)"
    using ok by (simp_all add: zonefs_ok_def)
  have ok_cong: "files_ok fdf (mountpoint b) os l' \<Longrightarrow> mset l = mset l' \<Longrightarrow> files_ok fdf (mountpoint b) os l" for os l l'
    using files_ok_perm [of l l' fdf "mountpoint b" os] by simp
  have "files_ok fdf (mountpoint b) (zos b) (entries (wr_fds b) @ entries (rd_fds b) @ entries (direct_rd_fds b))"
    by (rule ok_cong [OF fok]) (simp add: all_files_def ac_simps)
  note n = Put_files [OF px inv this p]
  have "files_ok fdf (mountpoint b) os (all_files (b\<lparr>wr_fds := c, zos := os\<rparr>))"
    by (rule ok_cong [OF n(2)]) (simp add: all_files_def ac_simps)
  then show "zonefs_ok fdf (PutZoneFile px pos flags b)"
    "content (zos (PutZoneFile px pos flags b)) = content (zos b)" "same_mount b (PutZoneFile px pos flags b)"
    using n ok p by (simp_all add: PutZoneFile_def zonefs_ok_def same_mount_def)
qed

section \<open>Transfers\<close>

lemma read_loop_spec:
  assumes px: "posix_files px fdf content" and f: "fdf os fd = Some f" and "unat off + n < 2 ^ 64"
    and "read_loop px fd n off buf os = (res, os')"
  shows "content os' = content os \<and> fdf os' = fdf os \<and>
    (\<forall>bs. res = ReadBytes bs \<longrightarrow> (\<exists>got. bs = buf @ got \<and> length got \<le> n \<and>
       (\<forall>i < length got. got ! i = content os f (unat off + i))))"
  using assms(2-)
proof (induction n arbitrary: off buf os rule: less_induct)
  case (less n)
  obtain r os1 where p: "px_pread px fd n off os = (r, os1)" by fastforce
  note rd = px_preadD [OF px p]
  show ?case
  proof (cases "n = 0")
    case True
    with less.prems(3) show ?thesis by (subst (asm) read_loop.simps) auto
  next
    case n: False
    show ?thesis
    proof (cases r)
      case (ReadError e)
      with less.prems(3) n p rd show ?thesis by (subst (asm) read_loop.simps) auto
    next
      case (ReadBytes got)
      have got: "length got \<le> n" "\<And>i. i < length got \<Longrightarrow> got ! i = content os f (unat off + i)"
        using rd(3) [OF less.prems(1) ReadBytes] by auto
      show ?thesis
      proof (cases "got = []")
        case True
        with less.prems(3) n p rd ReadBytes show ?thesis by (subst (asm) read_loop.simps) auto
      next
        case False
        let ?k = "length got"
        have loop: "read_loop px fd (n - ?k) (off + of_nat ?k) (buf @ got) os1 = (res, os')"
          using less.prems(3) n p ReadBytes got(1) False by (subst (asm) read_loop.simps) (simp add: Let_def)
        have u: "unat (off + of_nat ?k) = unat off + ?k"
          using less.prems(2) got(1) by (simp add: unat_plus_if' unat_of_nat_small)
        have "n - ?k < n" using n False by simp
        from less.IH [OF this _ _ loop] less.prems(1,2) got(1) rd(1,2) u
        have ih: "content os' = content os" "fdf os' = fdf os"
          and ex: "\<And>bs. res = ReadBytes bs \<Longrightarrow> \<exists>more. bs = (buf @ got) @ more \<and> length more \<le> n - ?k \<and>
             (\<forall>i < length more. more ! i = content os f (unat off + ?k + i))"
          by auto
        have "\<exists>got'. bs = buf @ got' \<and> length got' \<le> n \<and> (\<forall>i < length got'. got' ! i = content os f (unat off + i))"
          if res: "res = ReadBytes bs" for bs
        proof -
          obtain more where m: "bs = (buf @ got) @ more" "length more \<le> n - ?k"
            "\<forall>i < length more. more ! i = content os f (unat off + ?k + i)"
            using ex [OF res] by blast
          then show ?thesis
            using got by (intro exI [of _ "got @ more"]) (auto simp: nth_append add.assoc)
        qed
        with ih show ?thesis by blast
      qed
    qed
  qed
qed

text \<open>
  What a write of \<open>n\<close> bytes has done to the file \<open>f\<close>: nothing outside the range is touched, and as many bytes as it
  reports are in place.
\<close>

definition transferred ::
  "('o \<Rightarrow> string \<Rightarrow> nat \<Rightarrow> byte) \<Rightarrow> string \<Rightarrow> nat \<Rightarrow> bytes \<Rightarrow> nat \<Rightarrow> nat \<Rightarrow> 'o \<Rightarrow> 'o \<Rightarrow> bool" where
  "transferred content f off data n k os os' \<longleftrightarrow>
     (\<forall>g i. g \<noteq> f \<or> i < off \<or> off + n \<le> i \<longrightarrow> content os' g i = content os g i) \<and>
     (\<forall>i < k. content os' f (off + i) = data ! i)"

lemma transferred_trans:
  assumes "transferred content f off data n k os os1" and "k \<le> n" and "n \<le> length data"
    and "transferred content f (off + k) (drop k data) (n - k) j os1 os2"
  shows "transferred content f off data n (k + j) os os2"
proof -
  have "content os2 f (off + i) = data ! i" if "i < k + j" for i
  proof (cases "i < k")
    case True
    then show ?thesis using assms(1,4) by (simp add: transferred_def)
  next
    case False
    then have "content os2 f (off + k + (i - k)) = drop k data ! (i - k)"
      using assms(4) that unfolding transferred_def by (metis add_diff_inverse_nat nat_add_left_cancel_less)
    with False assms(2,3) show ?thesis by simp
  qed
  then show ?thesis
    using assms(1,2,4) by (auto simp: transferred_def)
qed

lemma write_loop_spec:
  assumes px: "posix_files px fdf content" and "zonefs_ok fdf b" and "0 < n \<Longrightarrow> fdf (zos b) fd = Some f"
    and "n \<le> length data" and "unat off + n \<le> unat (zfs_zone_sz b)"
    and "write_loop px fd pos data n off written b = (ret, b')" and "0 \<le> written"
  shows "zonefs_ok fdf b' \<and> same_mount b b' \<and>
    (\<exists>k. transferred content f (unat off) data n k (zos b) (zos b') \<and> (ret < 0 \<or> ret = written + int k \<and> k \<le> n \<and> (0 < n \<longrightarrow> 0 < k)))"
  using assms(2-)
proof (induction n arbitrary: off data written b rule: less_induct)
  case (less n)
  obtain r os1 where p: "px_pwrite px fd data n off (zos b) = (r, os1)" by fastforce
  show ?case
  proof (cases "n = 0")
    case True
    with less.prems show ?thesis by (subst (asm) write_loop.simps) (auto simp: transferred_def)
  next
    case n: False
    then have f: "fdf (zos b) fd = Some f" and "0 < n" using less.prems(2) by auto
    note w = px_pwriteD [OF px p f \<open>0 < n\<close> less.prems(3)]
    have b1: "zonefs_ok fdf (b\<lparr>zos := os1\<rparr>)"
      using zonefs_ok_os [OF less.prems(1)] w(1) by simp
    show ?thesis
    proof (cases "r < 0")
      case True
      then have "b' = b\<lparr>zos := os1\<rparr>" "ret = r"
        using less.prems(5) n p by (simp_all add: write_loop.simps)
      with True b1 w(4) show ?thesis
        by (auto simp: transferred_def intro!: exI [of _ 0])
    next
      case False
      define k where "k = nat r"
      have k: "0 < k" "k \<le> n" "r = int k" using False w(2,3) by (auto simp: k_def)
      define b2 where "b2 = (if off + of_nat k = zfs_zone_sz b then PutZoneFile px pos O_WRONLY (b\<lparr>zos := os1\<rparr>) else b\<lparr>zos := os1\<rparr>)"
      have loop: "write_loop px fd pos (drop k data) (n - k) (off + of_nat k) (written + int k) b2 = (ret, b')"
        using less.prems(5) n p k by (subst (asm) write_loop.simps) (simp add: b2_def Let_def split: if_splits)
      have kb: "unat (of_nat k :: u64) = k" and u: "unat (off + of_nat k) = unat off + k"
      proof -
        have lt: "unat off + k < 2 ^ 64"
          using less.prems(4) k(2) unat_u64_less [of "zfs_zone_sz b"] by simp
        then show "unat (of_nat k :: u64) = k" by (intro unat_of_nat_small) simp
        with lt show "unat (off + of_nat k) = unat off + k" by (simp add: unat_plus_if')
      qed
      have b2: "zonefs_ok fdf b2" "content (zos b2) = content os1" "same_mount b b2"
        using PutZoneFile_spec [OF px b1, of pos O_WRONLY] b1 by (auto simp: b2_def same_mount_def)
      have fd: "fdf (zos b2) fd = Some f" if "0 < n - k"
      proof -
        have "off + of_nat k \<noteq> zfs_zone_sz b"
          using u less.prems(4) that by auto
        then show ?thesis using f w(1) by (simp add: b2_def)
      qed
      have "n - k < n" "n - k \<le> length (drop k data)" "unat (off + of_nat k) + (n - k) \<le> unat (zfs_zone_sz b2)"
        "0 \<le> written + int k"
        using k less.prems(3,4,6) u b2(3) by (auto simp: same_mount_def)
      from less.IH [OF this(1) b2(1) fd this(2,3) loop this(4)] obtain j where
        ih: "zonefs_ok fdf b'" "same_mount b2 b'" "transferred content f (unat off + k) (drop k data) (n - k) j (zos b2) (zos b')"
        and ret: "ret < 0 \<or> ret = written + int k + int j \<and> j \<le> n - k"
        unfolding u by auto
      have "transferred content f (unat off) data n k (zos b) os1"
        using w(4,5) k by (auto simp: transferred_def)
      then have "transferred content f (unat off) data n k (zos b) (zos b2)"
        using b2(2) by (simp add: transferred_def)
      from transferred_trans [OF this k(2) less.prems(3) ih(3)]
      show ?thesis
        using ih(1) same_mount_trans [OF b2(3) ih(2)] ret k by (intro conjI exI [of _ "k + j"]) auto
    qed
  qed
qed

section \<open>The contract of the backend\<close>

text \<open>The byte at an address of the device: the byte of the file of its zone at the offset in the zone.\<close>

definition zmedia :: "('o \<Rightarrow> string \<Rightarrow> nat \<Rightarrow> byte) \<Rightarrow> 'o ZoneFsBackend \<Rightarrow> u64 \<Rightarrow> byte" where
  "zmedia content b a =
     content (zos b) (zone_file (mountpoint b) (unat a div unat (zfs_zone_sz b))) (unat a mod unat (zfs_zone_sz b))"

text \<open>
  What \<^const>\<open>write_progress\<close>, \<^const>\<open>write_media\<close>, \<^const>\<open>read_media\<close>, \<^const>\<open>manage_media\<close> and
  \<^const>\<open>reset_capacity\<close> ask for, in one state of the device, for positions on the device and for transfers whose
  length is an \<^verbatim>\<open>int\<close>.
\<close>

definition contract_at :: "'d backend \<Rightarrow> ('d \<Rightarrow> u64 \<Rightarrow> byte) \<Rightarrow> u64 \<Rightarrow> nat \<Rightarrow> 'd \<Rightarrow> bool" where
  "contract_at be media zone_sz nz dev \<longleftrightarrow>
     (\<forall>data pos ret dev'. unat pos < nz * unat zone_sz \<and> length data < 2 ^ 31 \<and> be_Write be data pos dev = (ret, dev') \<longrightarrow>
        (data \<noteq> [] \<longrightarrow> ret < 0 \<or> 0 < ret \<and> ret \<le> int (length data)) \<and>
        (\<forall>a. length data \<le> unat (a - pos) \<longrightarrow> media dev' a = media dev a) \<and>
        (\<forall>i < nat ret. media dev' (pos + of_nat i) = data ! i)) \<and>
     (\<forall>n pos direct res dev'. unat pos < nz * unat zone_sz \<and> n < 2 ^ 31 \<and> be_Read be n pos direct dev = (res, dev') \<longrightarrow>
        media dev' = media dev \<and>
        (\<forall>bs. res = ReadBytes bs \<longrightarrow>
           length bs \<le> n \<and> (\<forall>i < length bs. bs ! i = media dev (pos + of_nat i)))) \<and>
     (\<forall>k < nz. let start = of_nat k * zone_sz in
        media (snd (be_Finish be start dev)) = media dev \<and> media (snd (be_Close be start dev)) = media dev \<and>
        fst (snd (snd (be_Reset be start dev))) \<le> zone_sz \<and>
        (\<forall>a. unat zone_sz \<le> unat (a - start) \<longrightarrow>
           media (snd (snd (snd (be_Reset be start dev)))) a = media dev a))"

lemma unat_offset: "unat (LBAToZoneOffset pos b) = unat pos mod unat (zfs_zone_sz b)"
proof -
  have "LBAToZoneOffset pos b = pos mod zfs_zone_sz b"
    by (simp add: LBAToZoneOffset_def minus_div_mult_eq_mod)
  then show ?thesis by (simp add: unat_mod)
qed

lemma zone_of: "unat (pos div zfs_zone_sz b) = unat pos div unat (zfs_zone_sz b)"
  by (simp add: unat_div)

lemma int_count_small:
  assumes "unat v < 2 ^ 31"
  shows "int_count v = unat v"
proof -
  have "unat (ucast v :: u32) = unat v"
    using assms unat_ucast_small [of v, where 'b = 32] by simp
  then have u: "uint (ucast v :: u32) = int (unat v)"
    by (simp only: uint_nat)
  have self: "signed_take_bit 31 (int m) = int m" if "m < 2 ^ 31" for m :: nat
    using that by (intro signed_take_bit_int_eq_self) auto
  have "sint (ucast v :: u32) = int (unat v)"
    unfolding sint_uint u using self [OF assms] by simp
  then have "(scast (ucast v :: u32) :: u64) = word_of_int (int (unat v))"
    by (metis of_int_sint)
  then show ?thesis by (simp add: int_count_def)
qed

lemma addr_in_zone:
  fixes pos :: u64
  assumes "unat pos < nz * sz" and "nz * sz < 2 ^ 64" and "i < sz - unat pos mod sz"
  shows "unat (pos + of_nat i) = unat pos + i" and "(unat pos + i) div sz = unat pos div sz"
    and "(unat pos + i) mod sz = unat pos mod sz + i"
proof -
  have sz: "0 < sz" using assms(3) by simp
  have q: "unat pos = unat pos div sz * sz + unat pos mod sz" by simp
  have "unat pos div sz < nz" using assms(1) sz by (simp add: less_mult_imp_div_less)
  then have "unat pos div sz * sz + sz \<le> nz * sz"
    by (metis Suc_leI add.commute mult_Suc mult_le_mono1)
  then have lt: "unat pos + i < 2 ^ 64"
    using q assms(2,3) by linarith
  then have "unat (of_nat i :: u64) = i" by (intro unat_of_nat_small) simp
  with lt show "unat (pos + of_nat i) = unat pos + i" by (simp add: unat_plus_if')
  have s: "unat pos + i = unat pos div sz * sz + (unat pos mod sz + i)" "unat pos mod sz + i < sz"
    using q assms(3) by auto
  show "(unat pos + i) div sz = unat pos div sz"
    using s(2) by (subst s(1)) (simp only: div_mult_self3 [OF less_imp_neq [OF sz, symmetric]] div_less add_0_right)
  show "(unat pos + i) mod sz = unat pos mod sz + i"
    using s(2) by (subst s(1)) (simp only: mod_mult_self3 mod_less)
qed

lemma addr_outside:
  fixes pos a :: u64
  assumes "n \<le> unat (a - pos)" and "unat a div sz = unat pos div sz"
  shows "unat a mod sz < unat pos mod sz \<or> unat pos mod sz + n \<le> unat a mod sz"
proof (cases "unat a < unat pos")
  case True
  then show ?thesis using assms(2) by (metis div_mult_mod_eq nat_add_left_cancel_less)
next
  case False
  then have "unat (a - pos) = unat a - unat pos" by (simp add: unat_sub word_le_nat_alt)
  moreover have "unat a = unat pos div sz * sz + unat a mod sz" "unat pos = unat pos div sz * sz + unat pos mod sz"
    using assms(2) by (metis div_mult_mod_eq)+
  ultimately show ?thesis using assms(1) False by linarith
qed

lemma in_zone_bound:
  assumes "0 < s"
  shows "p mod s + min n (s - p mod s) \<le> (s :: nat)"
proof -
  have "p mod s < s" using assms by (rule mod_less_divisor)
  then show ?thesis by linarith
qed

lemma transfer_count:
  assumes "m < 2 ^ 31" and sz: "0 < zfs_zone_sz b"
  shows "int_count (min (of_nat m) (zfs_zone_sz b - LBAToZoneOffset pos b))
    = min m (unat (zfs_zone_sz b) - unat pos mod unat (zfs_zone_sz b))"
proof -
  have "0 < unat (zfs_zone_sz b)" using sz by (simp add: word_less_nat_alt)
  then have "unat (LBAToZoneOffset pos b) \<le> unat (zfs_zone_sz b)"
    unfolding unat_offset by (intro less_imp_le mod_less_divisor)
  then have "unat (zfs_zone_sz b - LBAToZoneOffset pos b) = unat (zfs_zone_sz b) - unat pos mod unat (zfs_zone_sz b)"
    unfolding unat_offset [symmetric] by (intro unat_sub_no_wrap) (simp only: word_le_nat_alt)
  moreover have "unat (of_nat m :: u64) = m"
    using assms(1) by (intro unat_of_nat_small) simp
  moreover have "unat (min v w) = min (unat v) (unat w)" for v w :: u64
    by (simp add: min_def word_le_nat_alt)
  ultimately have "unat (min (of_nat m) (zfs_zone_sz b - LBAToZoneOffset pos b))
      = min m (unat (zfs_zone_sz b) - unat pos mod unat (zfs_zone_sz b))"
    by (simp only:)
  then show ?thesis
    using assms(1) by (subst int_count_small) (simp_all only: min_less_iff_disj simp_thms)
qed

lemma ZoneFs_Read_spec:
  assumes px: "posix_files px fdf content" and ok: "zonefs_ok fdf b" and n: "n < 2 ^ 31"
    and r: "ZoneFs_Read px n pos direct b = (res, b')"
  shows "zonefs_ok fdf b'" and "content (zos b') = content (zos b)" and "same_mount b b'"
    and "res = ReadBytes bs \<Longrightarrow> length bs \<le> n \<and> length bs \<le> unat (zfs_zone_sz b) - unat pos mod unat (zfs_zone_sz b) \<and>
      (\<forall>i < length bs. bs ! i = content (zos b) (LBAToZoneFile pos b) (unat pos mod unat (zfs_zone_sz b) + i))"
proof -
  have sz: "0 < zfs_zone_sz b" using ok by (simp add: zonefs_ok_def)
  then have usz: "0 < unat (zfs_zone_sz b)" by (simp add: word_less_nat_alt)
  let ?flags = "if direct then O_RDONLY OR O_DIRECT else O_RDONLY"
  let ?n = "min n (unat (zfs_zone_sz b) - unat pos mod unat (zfs_zone_sz b))"
  obtain f b1 where g: "GetZoneFile px pos ?flags b = (f, b1)" by fastforce
  note gs = GetZoneFile_spec [OF px ok g]
  have "zonefs_ok fdf b' \<and> content (zos b') = content (zos b) \<and> same_mount b b' \<and>
    (\<forall>bs. res = ReadBytes bs \<longrightarrow> length bs \<le> ?n \<and>
      (\<forall>i < length bs. bs ! i = content (zos b) (LBAToZoneFile pos b) (unat pos mod unat (zfs_zone_sz b) + i)))"
  proof (cases f)
    case None
    then have "b' = b1" "res = ReadError (px_errno px (zos b1))"
      using r g by (auto simp: ZoneFs_Read_def Let_def)
    with gs show ?thesis by simp
  next
    case (Some fd)
    obtain os where l: "read_loop px fd ?n (LBAToZoneOffset pos b) [] (zos b1) = (res, os)" and b': "b' = b1\<lparr>zos := os\<rparr>"
      using r g Some transfer_count [OF n sz, of pos] by (auto simp: ZoneFs_Read_def Let_def split: prod.splits)
    have "unat (zfs_zone_sz b) < 2 ^ 64" using unat_u64_less [of "zfs_zone_sz b"] by simp
    then have "unat (LBAToZoneOffset pos b) + ?n < 2 ^ 64"
      unfolding unat_offset by (rule le_less_trans [OF in_zone_bound [OF usz]])
    from read_loop_spec [OF px gs(4) [OF Some] this l]
    show ?thesis
      using gs zonefs_ok_os [OF gs(1)] by (auto simp: b' unat_offset same_mount_def)
  qed
  then show "zonefs_ok fdf b'" "content (zos b') = content (zos b)" "same_mount b b'"
    "res = ReadBytes bs \<Longrightarrow> length bs \<le> n \<and> length bs \<le> unat (zfs_zone_sz b) - unat pos mod unat (zfs_zone_sz b) \<and>
      (\<forall>i < length bs. bs ! i = content (zos b) (LBAToZoneFile pos b) (unat pos mod unat (zfs_zone_sz b) + i))"
    by auto
qed

lemma ZoneFs_Write_spec:
  assumes px: "posix_files px fdf content" and ok: "zonefs_ok fdf b" and n: "length data < 2 ^ 31"
    and w: "ZoneFs_Write px data pos b = (ret, b')"
  shows "zonefs_ok fdf b'" and "same_mount b b'"
    and "\<exists>n k. n \<le> length data \<and> n \<le> unat (zfs_zone_sz b) - unat pos mod unat (zfs_zone_sz b) \<and>
      transferred content (LBAToZoneFile pos b) (unat pos mod unat (zfs_zone_sz b)) data n k (zos b) (zos b') \<and>
      (ret < 0 \<or> ret = int k \<and> k \<le> n \<and> (data \<noteq> [] \<longrightarrow> 0 < k))"
proof -
  let ?n = "min (length data) (unat (zfs_zone_sz b) - unat pos mod unat (zfs_zone_sz b))"
  obtain f b1 where g: "GetZoneFile px pos (O_WRONLY OR O_DIRECT) b = (f, b1)" by fastforce
  note gs = GetZoneFile_spec [OF px ok g]
  have sz: "0 < zfs_zone_sz b" using ok by (simp add: zonefs_ok_def)
  then have usz: "0 < unat (zfs_zone_sz b)" by (simp add: word_less_nat_alt)
  have "zonefs_ok fdf b' \<and> same_mount b b' \<and>
    (\<exists>k. transferred content (LBAToZoneFile pos b) (unat pos mod unat (zfs_zone_sz b)) data ?n k (zos b) (zos b') \<and>
      (ret < 0 \<or> ret = int k \<and> k \<le> ?n \<and> (0 < ?n \<longrightarrow> 0 < k)))"
  proof (cases "zfs_readonly b \<or> f = None")
    case True
    then have "ret = -1" "b' = b \<or> b' = b1"
      using w g by (auto simp: ZoneFs_Write_def Let_def split: if_splits)
    with ok gs show ?thesis by (auto simp: transferred_def intro!: exI [of _ 0])
  next
    case False
    then obtain fd where fd: "f = Some fd" by auto
    have l: "write_loop px fd pos data ?n (LBAToZoneOffset pos b) 0 b1 = (ret, b')"
      using w g fd False transfer_count [OF n sz, of pos] by (simp add: ZoneFs_Write_def Let_def)
    have "unat (LBAToZoneOffset pos b) + ?n \<le> unat (zfs_zone_sz b1)"
      using in_zone_bound [OF usz, of "unat pos" "length data"] gs(3) unfolding unat_offset same_mount_def by simp
    from write_loop_spec [OF px gs(1) gs(4) [OF fd] _ this l] obtain k where
      k: "zonefs_ok fdf b'" "same_mount b1 b'"
      "transferred content (LBAToZoneFile pos b) (unat pos mod unat (zfs_zone_sz b)) data ?n k (zos b1) (zos b')"
      "ret < 0 \<or> ret = int k \<and> k \<le> ?n \<and> (0 < ?n \<longrightarrow> 0 < k)"
      by (auto simp: unat_offset)
    have "transferred content (LBAToZoneFile pos b) (unat pos mod unat (zfs_zone_sz b)) data ?n k (zos b) (zos b')"
      using k(3) unfolding transferred_def gs(2) .
    with k(1,4) same_mount_trans [OF gs(3) k(2)] show ?thesis
      by (intro conjI exI [of _ k])
  qed
  then obtain k where k: "zonefs_ok fdf b'" "same_mount b b'"
    "transferred content (LBAToZoneFile pos b) (unat pos mod unat (zfs_zone_sz b)) data ?n k (zos b) (zos b')"
    "ret < 0 \<or> ret = int k \<and> k \<le> ?n \<and> (0 < ?n \<longrightarrow> 0 < k)" by (elim conjE exE)
  then show "zonefs_ok fdf b'" "same_mount b b'" by blast+
  have "0 < ?n" if "data \<noteq> []"
    using that mod_less_divisor [OF usz, of "unat pos"] by simp
  then have "ret < 0 \<or> ret = int k \<and> k \<le> ?n \<and> (data \<noteq> [] \<longrightarrow> 0 < k)"
    using k(4) by (elim disjE) simp_all
  then show "\<exists>n k. n \<le> length data \<and> n \<le> unat (zfs_zone_sz b) - unat pos mod unat (zfs_zone_sz b) \<and>
      transferred content (LBAToZoneFile pos b) (unat pos mod unat (zfs_zone_sz b)) data n k (zos b) (zos b') \<and>
      (ret < 0 \<or> ret = int k \<and> k \<le> n \<and> (data \<noteq> [] \<longrightarrow> 0 < k))"
    using k(3) by (intro exI [of _ ?n] exI [of _ k] conjI min.cobounded1 min.cobounded2)
qed

lemma ZoneFs_Finish_spec:
  assumes px: "posix_files px fdf content" and ok: "zonefs_ok fdf b" and r: "ZoneFs_Finish px start b = (st, b')"
  shows "zonefs_ok fdf b'" and "same_mount b b'"
    and "f \<noteq> LBAToZoneFile start b \<or> i < unat (zfs_zone_sz b) \<Longrightarrow> content (zos b') f i = content (zos b) f i"
proof -
  obtain ret os where t: "px_truncate px (LBAToZoneFile start b) (zfs_zone_sz b) (zos b) = (ret, os)" by fastforce
  note tr = px_truncateD [OF px t]
  have ok1: "zonefs_ok fdf (b\<lparr>zos := os\<rparr>)" by (rule zonefs_ok_os [OF ok tr(1)])
  have "b' = b\<lparr>zos := os\<rparr> \<or> b' = PutZoneFile px start O_WRONLY (b\<lparr>zos := os\<rparr>)"
    using r t by (auto simp: ZoneFs_Finish_def split: if_splits)
  then have b': "zonefs_ok fdf b'" "content (zos b') = content os" "same_mount (b\<lparr>zos := os\<rparr>) b'"
    using ok1 PutZoneFile_spec [OF px ok1, of start O_WRONLY] by auto
  then show "zonefs_ok fdf b'" "same_mount b b'" by (simp_all add: same_mount_def)
  show "f \<noteq> LBAToZoneFile start b \<or> i < unat (zfs_zone_sz b) \<Longrightarrow> content (zos b') f i = content (zos b) f i"
    unfolding b'(2) by (rule tr(2))
qed

lemma ZoneFs_Close_spec:
  assumes "posix_files px fdf content" and "zonefs_ok fdf b" and "ZoneFs_Close px start b = (st, b')"
  shows "zonefs_ok fdf b'" and "same_mount b b'" and "content (zos b') = content (zos b)"
  using PutZoneFile_spec [OF assms(1,2), of start O_WRONLY] assms(3) by (auto simp: ZoneFs_Close_def)

lemma ZoneFs_Reset_spec:
  assumes px: "posix_files px fdf content" and ok: "zonefs_ok fdf b"
    and r: "ZoneFs_Reset px start b = (st, offline, cap, b')"
  shows "zonefs_ok fdf b'" and "same_mount b b'" and "cap \<le> zfs_zone_sz b"
    and "f \<noteq> LBAToZoneFile start b \<Longrightarrow> content (zos b') f = content (zos b) f"
proof -
  obtain ret os where t: "px_truncate px (LBAToZoneFile start b) 0 (zos b) = (ret, os)" by fastforce
  note tr = px_truncateD [OF px t]
  have ok1: "zonefs_ok fdf (b\<lparr>zos := os\<rparr>)" by (rule zonefs_ok_os [OF ok tr(1)])
  define b1 where "b1 = PutZoneFile px start O_WRONLY (b\<lparr>zos := os\<rparr>)"
  note p = PutZoneFile_spec [OF px ok1, of start O_WRONLY, folded b1_def]
  obtain z os2 where s: "px_stat px (LBAToZoneFile start b) (zos b1) = (z, os2)" by fastforce
  have q: "fdf os2 = fdf (zos b1)" "content os2 = content (zos b1)"
    using queriesD(1) [OF posix_queries(1) [OF px] s] queriesD(1) [OF posix_queries(2) [OF px] s] by auto
  have "b' = b\<lparr>zos := os\<rparr> \<or> b' = b1\<lparr>zos := os2\<rparr>" and cap: "cap = 0 \<or> cap = zfs_zone_sz b"
    using r t s by (auto simp: ZoneFs_Reset_def Let_def b1_def split: if_splits option.splits)
  then have b': "zonefs_ok fdf b'" "content (zos b') = content os" "same_mount (b\<lparr>zos := os\<rparr>) b'"
    using ok1 p q zonefs_ok_os [OF p(1) q(1)] by (auto simp: same_mount_def)
  then show "zonefs_ok fdf b'" "same_mount b b'" by (simp_all add: same_mount_def)
  show "cap \<le> zfs_zone_sz b" using cap by auto
  show "content (zos b') f = content (zos b) f" if "f \<noteq> LBAToZoneFile start b"
    unfolding b'(2) using tr(2) that by blast
qed

lemma ZoneFs_InvalidateCache_spec:
  assumes px: "posix_files px fdf content" and ok: "zonefs_ok fdf b" and r: "ZoneFs_InvalidateCache px pos n b = (ret, b')"
  shows "zonefs_ok fdf b'" and "same_mount b b'"
proof -
  obtain f b1 where g: "GetZoneFile px pos O_RDONLY b = (f, b1)" by fastforce
  note gs = GetZoneFile_spec [OF px ok g]
  have "zonefs_ok fdf b' \<and> same_mount b b'"
  proof (cases f)
    case None
    then show ?thesis using r g gs by (auto simp: ZoneFs_InvalidateCache_def)
  next
    case (Some fd)
    obtain os where a: "px_fadvise px fd (LBAToZoneOffset pos b) n (zos b1) = (ret, os)" and b': "b' = b1\<lparr>zos := os\<rparr>"
      using r g Some by (auto simp: ZoneFs_InvalidateCache_def split: prod.splits)
    have "fdf os = fdf (zos b1)" by (rule queriesD(6) [OF posix_queries(1) [OF px] a])
    then show ?thesis using gs(3) zonefs_ok_os [OF gs(1)] by (simp add: b' same_mount_def)
  qed
  then show "zonefs_ok fdf b'" "same_mount b b'" by auto
qed

lemma stat_zones_view:
  assumes "queries px view"
  shows "stat_zones px mp idxs os = (zs, os') \<Longrightarrow> view os' = view os"
proof (induction idxs arbitrary: os zs)
  case (Cons i idxs)
  obtain z os1 where s: "px_stat px (zone_file mp i) os = (z, os1)" by fastforce
  have v: "view os1 = view os" by (rule queriesD(1) [OF assms s])
  show ?case
  proof (cases z)
    case None
    with Cons.prems s v show ?thesis by simp
  next
    case (Some st)
    obtain zs1 os2 where t: "stat_zones px mp idxs os1 = (zs1, os2)" by fastforce
    have "os' = os2" using Cons.prems s Some t by (auto split: option.splits)
    with Cons.IH [of os1 zs1] t v show ?thesis by simp
  qed
qed simp

lemma ZoneFs_ListZones_spec:
  assumes px: "posix_files px fdf content" and ok: "zonefs_ok fdf b" and r: "ZoneFs_ListZones px b = (zs, b')"
  shows "zonefs_ok fdf b'" and "same_mount b b'"
proof -
  obtain l os where t: "stat_zones px (mountpoint b) [0..<unat (zfs_nr_zones b)] (zos b) = (l, os)" by fastforce
  then have b': "b' = b\<lparr>zos := os\<rparr>" using r by (auto simp: ZoneFs_ListZones_def)
  show "zonefs_ok fdf b'" "same_mount b b'"
    using zonefs_ok_os [OF ok stat_zones_view [OF posix_queries(1) [OF px] t]] by (simp_all add: b')
qed

text \<open>A backend that was opened has no files in its caches.\<close>

lemma ZoneFs_Open_files:
  assumes "ZoneFs_Open px readonly exclusive (new_ZoneFsBackend mp os) = (OK, info, b)"
  shows "all_files b = []" and "cache_inv (rd_fds b)" and "cache_inv (direct_rd_fds b)" and "cache_inv (wr_fds b)"
proof -
  have "\<exists>m os1 os2. rd_fds b = new_ZoneFsFileCache O_RDONLY \<and>
      direct_rd_fds b = new_ZoneFsFileCache (O_RDONLY OR O_DIRECT) \<and>
      Cache_Resize px m (new_ZoneFsFileCache (O_WRONLY OR O_DIRECT)) os1 = (wr_fds b, os2)"
    using assms
    by (auto simp: ZoneFs_Open_def new_ZoneFsBackend_def Let_def InvalidArgument_def OK_def
        split: prod.splits option.splits if_splits) blast
  then obtain m os1 os2 where c: "rd_fds b = new_ZoneFsFileCache O_RDONLY"
    "direct_rd_fds b = new_ZoneFsFileCache (O_RDONLY OR O_DIRECT)"
    "Cache_Resize px m (new_ZoneFsFileCache (O_WRONLY OR O_DIRECT)) os1 = (wr_fds b, os2)" by blast
  have "cache_inv (wr_fds b)" "entries (wr_fds b) = []"
    using Resize_spec [OF cache_inv_new, of px m "O_WRONLY OR O_DIRECT" os1] c(3) by auto
  with c(1,2) show "all_files b = []" "cache_inv (rd_fds b)" "cache_inv (direct_rd_fds b)" "cache_inv (wr_fds b)"
    by (simp_all add: all_files_def cache_inv_new)
qed

section \<open>Reachable states\<close>

inductive zonefs_reach :: "'o posix \<Rightarrow> 'o ZoneFsBackend \<Rightarrow> bool" for px where
  opened: "ZoneFs_Open px readonly exclusive (new_ZoneFsBackend mp os) = (OK, info, b) \<Longrightarrow> zonefs_reach px b"
| listed: "zonefs_reach px b \<Longrightarrow> zonefs_reach px (snd (ZoneFs_ListZones px b))"
| read: "zonefs_reach px b \<Longrightarrow> n < 2 ^ 31 \<Longrightarrow> zonefs_reach px (snd (ZoneFs_Read px n pos direct b))"
| written: "zonefs_reach px b \<Longrightarrow> length data < 2 ^ 31 \<Longrightarrow> zonefs_reach px (snd (ZoneFs_Write px data pos b))"
| reset: "zonefs_reach px b \<Longrightarrow> zonefs_reach px (snd (snd (snd (ZoneFs_Reset px start b))))"
| finished: "zonefs_reach px b \<Longrightarrow> zonefs_reach px (snd (ZoneFs_Finish px start b))"
| closed: "zonefs_reach px b \<Longrightarrow> zonefs_reach px (snd (ZoneFs_Close px start b))"
| invalidated: "zonefs_reach px b \<Longrightarrow> zonefs_reach px (snd (ZoneFs_InvalidateCache px pos sz b))"

definition fits_device :: "'o ZoneFsBackend \<Rightarrow> bool" where
  "fits_device b \<longleftrightarrow> 0 < zfs_zone_sz b \<and> unat (zfs_nr_zones b) * unat (zfs_zone_sz b) < 2 ^ 64"

lemma fits_same: "same_mount b b' \<Longrightarrow> fits_device b' \<longleftrightarrow> fits_device b"
  by (simp add: same_mount_def fits_device_def)

text \<open>Opening gives a state of the invariant, and every operation keeps it.\<close>

lemma GetZoneFile_mount: "same_mount b (snd (GetZoneFile px pos flags b))"
  by (simp add: GetZoneFile_def same_mount_def Let_def split: prod.split)

lemma PutZoneFile_mount: "same_mount b (PutZoneFile px pos flags b)"
  by (simp add: PutZoneFile_def same_mount_def split: prod.split)

lemma write_loop_mount: "same_mount b (snd (write_loop px fd pos data n off written b))"
proof (induction n arbitrary: data off written b rule: less_induct)
  case (less n)
  obtain r os1 where p: "px_pwrite px fd data n off (zos b) = (r, os1)" by fastforce
  show ?case
  proof (cases "n = 0 \<or> r \<le> 0")
    case True
    with p show ?thesis by (subst write_loop.simps) (auto simp: Let_def)
  next
    case False
    define m where "m = min (nat r) n"
    define b2 where "b2 = (if off + of_nat m = zfs_zone_sz b then PutZoneFile px pos O_WRONLY (b\<lparr>zos := os1\<rparr>) else b\<lparr>zos := os1\<rparr>)"
    have "same_mount b b2"
      using PutZoneFile_mount [of "b\<lparr>zos := os1\<rparr>" px pos O_WRONLY] by (auto simp: b2_def same_mount_def)
    moreover have "same_mount b2 (snd (write_loop px fd pos (drop m data) (n - m) (off + of_nat m) (written + int m) b2))"
      using False by (intro less.IH) (simp add: m_def)
    moreover have "write_loop px fd pos data n off written b
        = write_loop px fd pos (drop m data) (n - m) (off + of_nat m) (written + int m) b2"
      using False p by (subst write_loop.simps) (simp add: Let_def m_def b2_def)
    ultimately show ?thesis using same_mount_trans by metis
  qed
qed

lemma ops_mount:
  "same_mount b (snd (ZoneFs_ListZones px b))" "same_mount b (snd (ZoneFs_Read px n pos direct b))"
  "same_mount b (snd (ZoneFs_Write px data pos b))" "same_mount b (snd (snd (snd (ZoneFs_Reset px start b))))"
  "same_mount b (snd (ZoneFs_Finish px start b))" "same_mount b (snd (ZoneFs_Close px start b))"
  "same_mount b (snd (ZoneFs_InvalidateCache px pos sz b))"
proof -
  show "same_mount b (snd (ZoneFs_ListZones px b))"
    by (simp add: ZoneFs_ListZones_def split: prod.split)
  show "same_mount b (snd (ZoneFs_Read px n pos direct b))"
    using GetZoneFile_mount [of b px pos "if direct then O_RDONLY OR O_DIRECT else O_RDONLY"]
    by (auto simp: ZoneFs_Read_def Let_def same_mount_def split: prod.splits option.splits)
  show "same_mount b (snd (ZoneFs_Write px data pos b))"
  proof -
    obtain f b1 where g: "GetZoneFile px pos (O_WRONLY OR O_DIRECT) b = (f, b1)" by fastforce
    then have "same_mount b b1" using GetZoneFile_mount [of b px pos "O_WRONLY OR O_DIRECT"] by simp
    then have "same_mount b (snd (write_loop px fd pos data k off 0 b1))" for fd k off
      by (rule same_mount_trans [OF _ write_loop_mount])
    with g \<open>same_mount b b1\<close> show ?thesis
      by (cases f) (simp_all add: ZoneFs_Write_def Let_def)
  qed
  show "same_mount b (snd (snd (snd (ZoneFs_Reset px start b))))"
  proof -
    obtain ret os where t: "px_truncate px (LBAToZoneFile start b) 0 (zos b) = (ret, os)" by fastforce
    show ?thesis
      using t PutZoneFile_mount [of "b\<lparr>zos := os\<rparr>" px start O_WRONLY]
      by (auto simp: ZoneFs_Reset_def Let_def same_mount_def split: prod.splits option.splits)
  qed
  show "same_mount b (snd (ZoneFs_Finish px start b))"
  proof -
    obtain ret os where t: "px_truncate px (LBAToZoneFile start b) (zfs_zone_sz b) (zos b) = (ret, os)" by fastforce
    then show ?thesis
      using PutZoneFile_mount [of "b\<lparr>zos := os\<rparr>" px start O_WRONLY] by (simp add: ZoneFs_Finish_def same_mount_def)
  qed
  show "same_mount b (snd (ZoneFs_Close px start b))"
    by (simp add: ZoneFs_Close_def PutZoneFile_mount)
  show "same_mount b (snd (ZoneFs_InvalidateCache px pos sz b))"
    using GetZoneFile_mount [of b px pos O_RDONLY]
    by (auto simp: ZoneFs_InvalidateCache_def same_mount_def split: prod.splits option.splits)
qed

lemma zonefs_reach_ok:
  assumes px: "posix_files px fdf content" and "zonefs_reach px b"
  shows "fits_device b \<Longrightarrow> zonefs_ok fdf b"
  using assms(2)
proof (induction rule: zonefs_reach.induct)
  case (opened readonly exclusive mp os info b)
  then show ?case
    using ZoneFs_Open_files [OF opened(1)] by (simp add: zonefs_ok_def fits_device_def files_ok_def)
next
  case (listed b)
  then have "zonefs_ok fdf b" using fits_same [OF ops_mount(1) [of b px]] by blast
  then show ?case by (rule ZoneFs_ListZones_spec(1) [OF px _ prod.collapse [symmetric]])
next
  case (read b n pos direct)
  then have "zonefs_ok fdf b" using fits_same [OF ops_mount(2) [of b px n pos direct]] by blast
  then show ?case by (rule ZoneFs_Read_spec(1) [OF px _ read(2) prod.collapse [symmetric]])
next
  case (written b data pos)
  then have "zonefs_ok fdf b" using fits_same [OF ops_mount(3) [of b px data pos]] by blast
  then show ?case by (rule ZoneFs_Write_spec(1) [OF px _ written(2) prod.collapse [symmetric]])
next
  case (reset b start)
  then have "zonefs_ok fdf b" using fits_same [OF ops_mount(4) [of b px start]] by blast
  then show ?case using ZoneFs_Reset_spec(1) [OF px, of b start] by (metis prod.collapse)
next
  case (finished b start)
  then have "zonefs_ok fdf b" using fits_same [OF ops_mount(5) [of b px start]] by blast
  then show ?case by (rule ZoneFs_Finish_spec(1) [OF px _ prod.collapse [symmetric]])
next
  case (closed b start)
  then have "zonefs_ok fdf b" using fits_same [OF ops_mount(6) [of b px start]] by blast
  then show ?case by (rule ZoneFs_Close_spec(1) [OF px _ prod.collapse [symmetric]])
next
  case (invalidated b pos sz)
  then have "zonefs_ok fdf b" using fits_same [OF ops_mount(7) [of b px pos sz]] by blast
  then show ?case by (rule ZoneFs_InvalidateCache_spec(1) [OF px _ prod.collapse [symmetric]])
qed

lemma zmedia_at:
  "zmedia content b a = content (zos b) (LBAToZoneFile a b) (unat a mod unat (zfs_zone_sz b))"
  by (simp add: zmedia_def LBAToZoneFile_def zone_of)

lemma zmedia_mount:
  assumes "same_mount b b'"
  shows "zmedia content b' a
    = content (zos b') (zone_file (mountpoint b) (unat a div unat (zfs_zone_sz b))) (unat a mod unat (zfs_zone_sz b))"
  using assms by (simp add: zmedia_def same_mount_def)

lemma contract_write:
  assumes px: "posix_files px fdf content" and ok: "zonefs_ok fdf b"
    and pos: "unat pos < unat (zfs_nr_zones b) * unat (zfs_zone_sz b)" and len: "length data < 2 ^ 31"
    and w: "ZoneFs_Write px data pos b = (ret, b')"
  shows "data \<noteq> [] \<Longrightarrow> ret < 0 \<or> 0 < ret \<and> ret \<le> int (length data)"
    and "length data \<le> unat (a - pos) \<Longrightarrow> zmedia content b' a = zmedia content b a"
    and "i < nat ret \<Longrightarrow> zmedia content b' (pos + of_nat i) = data ! i"
proof -
  let ?sz = "unat (zfs_zone_sz b)" and ?f = "LBAToZoneFile pos b"
  have dev: "unat (zfs_nr_zones b) * ?sz < 2 ^ 64" and sz: "0 < ?sz"
    using ok by (simp_all add: zonefs_ok_def word_less_nat_alt)
  note m = zmedia_mount [OF ZoneFs_Write_spec(2) [OF px ok len w]]
  obtain n k where n: "n \<le> length data" "n \<le> ?sz - unat pos mod ?sz"
    and t: "transferred content ?f (unat pos mod ?sz) data n k (zos b) (zos b')"
    and ret: "ret < 0 \<or> ret = int k \<and> k \<le> n \<and> (data \<noteq> [] \<longrightarrow> 0 < k)"
    using ZoneFs_Write_spec(3) [OF px ok len w] by blast
  show "ret < 0 \<or> 0 < ret \<and> ret \<le> int (length data)" if "data \<noteq> []"
    using ret n(1) that by auto
  show "zmedia content b' a = zmedia content b a" if a: "length data \<le> unat (a - pos)"
  proof -
    have "zone_file (mountpoint b) (unat a div ?sz) \<noteq> ?f \<or> unat a mod ?sz < unat pos mod ?sz \<or>
        unat pos mod ?sz + n \<le> unat a mod ?sz"
      using addr_outside [OF le_trans [OF n(1) a]] by (auto simp: LBAToZoneFile_def zone_of)
    then show ?thesis
      unfolding m using t by (simp add: zmedia_def transferred_def)
  qed
  show "zmedia content b' (pos + of_nat i) = data ! i" if i: "i < nat ret"
  proof -
    have ik: "i < k" and "i < ?sz - unat pos mod ?sz"
      using ret i n(2) by auto
    note p = addr_in_zone [OF pos dev this(2)]
    show ?thesis
      unfolding m p using t ik by (simp add: transferred_def LBAToZoneFile_def zone_of)
  qed
qed

lemma contract_read:
  assumes px: "posix_files px fdf content" and ok: "zonefs_ok fdf b"
    and pos: "unat pos < unat (zfs_nr_zones b) * unat (zfs_zone_sz b)" and len: "n < 2 ^ 31"
    and r: "ZoneFs_Read px n pos direct b = (res, b')"
  shows "zmedia content b' = zmedia content b"
    and "res = ReadBytes bs \<Longrightarrow> length bs \<le> n"
    and "res = ReadBytes bs \<Longrightarrow> i < length bs \<Longrightarrow> bs ! i = zmedia content b (pos + of_nat i)"
proof -
  let ?sz = "unat (zfs_zone_sz b)"
  have dev: "unat (zfs_nr_zones b) * ?sz < 2 ^ 64"
    using ok by (simp add: zonefs_ok_def)
  note rs = ZoneFs_Read_spec [OF px ok len r]
  show "zmedia content b' = zmedia content b"
    using zmedia_mount [OF rs(3)] rs(2) by (intro ext) (simp add: zmedia_def)
  show "length bs \<le> n" if "res = ReadBytes bs"
    using rs(4) [OF that] by blast
  show "bs ! i = zmedia content b (pos + of_nat i)" if "res = ReadBytes bs" "i < length bs"
  proof -
    have "i < ?sz - unat pos mod ?sz" and e: "bs ! i = content (zos b) (LBAToZoneFile pos b) (unat pos mod ?sz + i)"
      using rs(4) [OF that(1)] that(2) by auto
    note p = addr_in_zone [OF pos dev this(1)]
    show ?thesis
      unfolding e zmedia_def p by (simp add: LBAToZoneFile_def zone_of)
  qed
qed

lemma contract_manage:
  assumes px: "posix_files px fdf content" and ok: "zonefs_ok fdf b" and k: "k < unat (zfs_nr_zones b)"
    and start: "start = of_nat k * zfs_zone_sz b"
  shows "zmedia content (snd (ZoneFs_Finish px start b)) = zmedia content b"
    and "zmedia content (snd (ZoneFs_Close px start b)) = zmedia content b"
    and "fst (snd (snd (ZoneFs_Reset px start b))) \<le> zfs_zone_sz b"
    and "unat (zfs_zone_sz b) \<le> unat (a - start) \<Longrightarrow>
      zmedia content (snd (snd (snd (ZoneFs_Reset px start b)))) a = zmedia content b a"
proof -
  let ?sz = "unat (zfs_zone_sz b)"
  have dev: "unat (zfs_nr_zones b) * ?sz < 2 ^ 64" and sz: "0 < ?sz"
    using ok by (simp_all add: zonefs_ok_def word_less_nat_alt)
  have "k * ?sz < 2 ^ 64" using k dev by (meson le_less_trans less_imp_le mult_le_mono1)
  moreover have "unat (of_nat k :: u64) = k"
    using k unat_u32_less [of "zfs_nr_zones b"] by (intro unat_of_nat_small) simp
  ultimately have us: "unat start = k * ?sz"
    unfolding start by (simp add: unat_mult_lem [THEN iffD1])
  obtain st b1 where f: "ZoneFs_Finish px start b = (st, b1)" by fastforce
  show "zmedia content (snd (ZoneFs_Finish px start b)) = zmedia content b"
    using ZoneFs_Finish_spec(2,3) [OF px ok f] sz by (intro ext) (simp add: f zmedia_def same_mount_def)
  obtain st2 b2 where c: "ZoneFs_Close px start b = (st2, b2)" by fastforce
  show "zmedia content (snd (ZoneFs_Close px start b)) = zmedia content b"
    using ZoneFs_Close_spec(3) [OF px ok c] ZoneFs_Close_spec(2) [OF px ok c]
    by (intro ext) (simp add: c zmedia_def same_mount_def)
  obtain st3 off cap b3 where r: "ZoneFs_Reset px start b = (st3, off, cap, b3)" by (metis prod.collapse)
  note rs = ZoneFs_Reset_spec [OF px ok r]
  show "fst (snd (snd (ZoneFs_Reset px start b))) \<le> zfs_zone_sz b" using rs(3) r by simp
  show "zmedia content (snd (snd (snd (ZoneFs_Reset px start b)))) a = zmedia content b a"
    if a: "?sz \<le> unat (a - start)"
  proof -
    have "unat a div ?sz \<noteq> unat start div ?sz"
    proof
      assume "unat a div ?sz = unat start div ?sz"
      from addr_outside [OF a this] show False
        using mod_less_divisor [OF sz, of "unat a"] us by simp
    qed
    then have "zone_file (mountpoint b) (unat a div ?sz) \<noteq> LBAToZoneFile start b"
      by (simp add: LBAToZoneFile_def zone_of)
    from rs(4) [OF this] show ?thesis
      using rs(2) by (simp add: r zmedia_def same_mount_def)
  qed
qed

section \<open>A file system in memory\<close>

text \<open>
  System calls on files in memory, for the examples: every file has the same attributes, descriptors are numbered
  from 3 on, and a transfer takes all bytes.
\<close>

record ramfs =
  r_next :: int
  r_fds :: "int \<Rightarrow> string option"
  r_data :: "string \<Rightarrow> nat \<Rightarrow> byte"

definition ram_stat :: file_stat where
  "ram_stat = \<lparr>st_size = 4, st_blocks = 2, st_blksize = 512, st_mode = 0x1A4\<rparr>"

definition ram_open :: "string \<Rightarrow> u32 \<Rightarrow> ramfs \<Rightarrow> int \<times> ramfs" where
  "ram_open f flags os =
     (if 0 \<le> r_next os \<and> r_fds os (r_next os) = None
      then (r_next os, os\<lparr>r_fds := (r_fds os)(r_next os \<mapsto> f), r_next := r_next os + 1\<rparr>)
      else (-1, os))"

definition ram_pread :: "int \<Rightarrow> nat \<Rightarrow> u64 \<Rightarrow> ramfs \<Rightarrow> read_result \<times> ramfs" where
  "ram_pread fd n off os =
     (case r_fds os fd of
        None \<Rightarrow> (ReadError 9, os)
      | Some f \<Rightarrow> (ReadBytes (map (\<lambda>i. r_data os f (unat off + i)) [0..<n]), os))"

definition ram_pwrite :: "int \<Rightarrow> bytes \<Rightarrow> nat \<Rightarrow> u64 \<Rightarrow> ramfs \<Rightarrow> int \<times> ramfs" where
  "ram_pwrite fd data n off os =
     (case r_fds os fd of
        None \<Rightarrow> (-1, os)
      | Some f \<Rightarrow>
          (int n, os\<lparr>r_data := (r_data os)(f := (\<lambda>i. if unat off \<le> i \<and> i < unat off + n then data ! (i - unat off)
                                                 else r_data os f i))\<rparr>))"

definition ram_posix :: "ramfs posix" where
  "ram_posix =
     \<lparr>px_open = ram_open, px_close = (\<lambda>fd os. os\<lparr>r_fds := (r_fds os)(fd := None)\<rparr>),
      px_flock = (\<lambda>fd os. (0, os)), px_stat = (\<lambda>f os. (Some ram_stat, os)),
      px_fstat = (\<lambda>fd os. (Some ram_stat, os)),
      px_truncate = (\<lambda>f n os. (0, os\<lparr>r_data := (r_data os)(f := (\<lambda>i. if i < unat n then r_data os f i else 0))\<rparr>)),
      px_pread = ram_pread, px_pwrite = ram_pwrite, px_fadvise = (\<lambda>fd off n os. (0, os)),
      px_mounts = (\<lambda>os. (Some [(''/mnt'', ''/dev/nvme0n1'')], os)), px_sysfs = (\<lambda>f os. (Some 2, os)),
      px_errno = (\<lambda>os. 2), px_strerror = (\<lambda>os. ''No such file or directory'')\<rparr>"

lemma ram_queries: "queries ram_posix view"
  by (simp add: ram_posix_def queries_def)

lemma ram_posix_files: "posix_files ram_posix r_fds r_data"
proof -
  have "opened_at r_fds r_data f os (px_open ram_posix f flags os)" for f flags os
    by (simp add: ram_posix_def ram_open_def opened_at_def)
  moreover have "closed_at r_fds r_data fd os (px_close ram_posix fd os)" for fd os
    by (simp add: ram_posix_def closed_at_def)
  moreover have "read_at r_fds r_data fd n off os (px_pread ram_posix fd n off os)" for fd n off os
    by (simp add: ram_posix_def ram_pread_def read_at_def split: option.split)
  moreover have "written_at r_fds r_data fd data n off os (px_pwrite ram_posix fd data n off os)" for fd data n off os
    by (auto simp: ram_posix_def ram_pwrite_def written_at_def)
  moreover have "truncated_at r_fds r_data f n os (px_truncate ram_posix f n os)" for f n os
    by (auto simp: ram_posix_def truncated_at_def)
  ultimately show ?thesis by (simp add: posix_files_def ram_queries)
qed

definition ram_os :: ramfs where
  "ram_os = \<lparr>r_next = 3, r_fds = (\<lambda>_. None), r_data = (\<lambda>_ _. 0)\<rparr>"

text \<open>The backend after opening the mount point for writing.\<close>

definition ram_backend_dev :: "ramfs ZoneFsBackend" where
  "ram_backend_dev = snd (snd (ZoneFs_Open ram_posix False True (new_ZoneFsBackend ''/mnt'' ram_os)))"

lemma ram_px [simp]:
  "px_open ram_posix = ram_open" "px_stat ram_posix f os = (Some ram_stat, os)"
  "px_fstat ram_posix fd os = (Some ram_stat, os)" "px_flock ram_posix fd os = (0, os)"
  "px_mounts ram_posix os = (Some [(''/mnt'', ''/dev/nvme0n1'')], os)" "px_sysfs ram_posix f os = (Some 2, os)"
  "px_close ram_posix fd os = os\<lparr>r_fds := (r_fds os)(fd := None)\<rparr>" "px_pread ram_posix = ram_pread"
  "px_pwrite ram_posix = ram_pwrite"
  by (simp_all add: ram_posix_def)

lemma ram_backend_opened:
  "fst (ZoneFs_Open ram_posix False True (new_ZoneFsBackend ''/mnt'' ram_os)) = OK"
  "zfs_zone_sz ram_backend_dev = 1024" "zfs_nr_zones ram_backend_dev = 4"
  by (simp_all add: ram_backend_dev_def ZoneFs_Open_def new_ZoneFsBackend_def Let_def ram_open_def ram_os_def
      ram_stat_def split: prod.split)

lemma ram_backend_reach: "zonefs_reach ram_posix ram_backend_dev"
  using zonefs_reach.opened [of ram_posix False True "''/mnt''" ram_os] ram_backend_opened(1)
  unfolding ram_backend_dev_def by (metis prod.collapse)

section \<open>Properties\<close>

lemma cache_run_refines:
  assumes "cache_inv (fst s)"
  shows "cache_inv (fst (fold (cache_step px) ops s)) \<and>
    lru_of (fold (cache_step px) ops s) = fold (lru_step px (c_flags (fst s))) ops (lru_of s)"
  using assms
proof (induction ops arbitrary: s)
  case (Cons op ops)
  show ?case
    using Cons.IH [OF cache_step_refines(1) [OF Cons.prems]] cache_step_refines(2,3) [OF Cons.prems] by simp
qed simp

lemma lru_put_length: "length (lru_put zone l) \<le> length l"
  by (simp add: lru_put_def)

lemma lru_put_hit: "map_of l zone = Some fd \<Longrightarrow> length (lru_put zone l) < length l"
  by (auto simp: lru_put_def dest!: map_of_SomeD intro!: length_filter_less)

lemma lru_step_bound:
  assumes "length l \<le> unat m" and "m \<noteq> 0" and "op \<noteq> ResizeOp 0" and "lru_step px flags op (m, l, os) = (m', l', os')"
  shows "length l' \<le> unat m' \<and> m' \<noteq> 0"
proof -
  have "0 < unat m" using assms(2) by (simp add: unat_gt_0)
  then have "unat (m - 1) < unat m"
    using unat_minus_one [OF assms(2)] by simp
  then have less: "Suc (unat (m - 1)) \<le> unat m" by simp
  show ?thesis
  proof (cases op)
    case (GetOp zone filename)
    show ?thesis
    proof (cases "map_of l zone")
      case None
      have "length (take (unat (m - 1)) l) \<le> unat (m - 1)" by simp
      then show ?thesis
        using None GetOp assms(1,2,4) less
        by (auto split: prod.splits if_splits)
    next
      case (Some fd)
      then show ?thesis
        using GetOp assms(1,2,4) lru_put_hit [OF Some] by auto
    qed
  next
    case (PutOp zone)
    then show ?thesis
      using assms(1,2,4) le_trans [OF lru_put_length [of zone l]] by auto
  next
    case (ResizeOp n)
    then have "n \<noteq> 0" using assms(3) by simp
    with ResizeOp show ?thesis
      using assms(1,4) by (auto simp: word_less_nat_alt not_less split: if_splits)
  qed
qed

lemma lru_run_bound:
  assumes "length l \<le> unat m" and "m \<noteq> 0" and "ResizeOp 0 \<notin> set ops"
    and "fold (lru_step px flags) ops (m, l, os) = (m', l', os')"
  shows "length l' \<le> unat m'"
  using assms
proof (induction ops arbitrary: m l os)
  case (Cons op ops)
  obtain m1 l1 os1 where s: "lru_step px flags op (m, l, os) = (m1, l1, os1)" by (metis prod.collapse)
  have "length l1 \<le> unat m1 \<and> m1 \<noteq> 0"
    using Cons.prems(3) by (intro lru_step_bound [OF Cons.prems(1,2) _ s]) auto
  with Cons.IH [of l1 m1 os1] Cons.prems(3,4) s show ?case by simp
qed simp

text \<open>
  (C6) A cache of open files does what a list in the order of use does, whatever is done with it: its \<^verbatim>\<open>map_\<close> and
  its \<^verbatim>\<open>list_\<close> agree, a zone is in it at most once, the file that is closed to make room is the least recently used
  one, and the cache never holds more files than its limit, unless it was resized to 0.
\<close>

theorem cache_is_lru:
  assumes "fold (cache_step px) ops (new_ZoneFsFileCache flags, os) = (c, os')"
  shows "(c_max c, entries c, os') = fold (lru_step px flags) ops (ZENFS_ZONEFS_DEFAULT_MAX_LIMIT, [], os) \<and>
    cache_inv c \<and> distinct (map fst (entries c)) \<and>
    (ResizeOp 0 \<notin> set ops \<longrightarrow> length (entries c) \<le> unat (c_max c))"
proof -
  let ?s = "(new_ZoneFsFileCache flags, os)"
  have n: "lru_of ?s = (ZENFS_ZONEFS_DEFAULT_MAX_LIMIT, [], os)" "c_flags (fst ?s) = flags"
    by (simp_all add: new_ZoneFsFileCache_def entries_def O_RDONLY_def)
  have r: "cache_inv c" "(c_max c, entries c, os') = fold (lru_step px flags) ops (ZENFS_ZONEFS_DEFAULT_MAX_LIMIT, [], os)"
    using cache_run_refines [of ?s px ops, unfolded n] assms by (simp_all add: cache_inv_new)
  have "length (entries c) \<le> unat (c_max c)" if "ResizeOp 0 \<notin> set ops"
    by (rule lru_run_bound [OF _ _ that r(2) [symmetric]]) (simp_all add: ZENFS_ZONEFS_DEFAULT_MAX_LIMIT_def)
  with r entries_distinct [OF r(1)] show ?thesis by (intro conjI impI)
qed

theorem cache_is_lru_witness:
  "entries (fst (fold (cache_step ram_posix) [ResizeOp 2, GetOp 0 ''a'', GetOp 1 ''b'', GetOp 0 ''a'', GetOp 2 ''c'']
     (new_ZoneFsFileCache 1, ram_os))) = [(2, 5), (0, 3)]"
  using cache_is_lru [of ram_posix "[ResizeOp 2, GetOp 0 ''a'', GetOp 1 ''b'', GetOp 0 ''a'', GetOp 2 ''c'']" 1 ram_os,
      OF prod.collapse [symmetric]]
  by (simp add: ZENFS_ZONEFS_DEFAULT_MAX_LIMIT_def ram_os_def ram_open_def lru_put_def close_all_def)

text \<open>
  (C5) In every state that it reaches from a successful \<^verbatim>\<open>Open\<close>, the backend on zonefs keeps the contract that the
  zones rely on, given system calls that behave as documented and a device whose addresses fit into 64 bits: a write
  makes progress or fails, what it reports as written is in place and nothing outside of the range is changed, a
  read gives bytes of the device, and resetting, finishing or closing a zone changes no other zone.
\<close>

theorem zonefs_keeps_contract:
  assumes "posix_files px fdf content" and "zonefs_reach px b" and "fits_device b"
  shows "contract_at (zonefs_backend px) (zmedia content) (zfs_zone_sz b) (unat (zfs_nr_zones b)) b"
proof -
  have ok: "zonefs_ok fdf b" by (rule zonefs_reach_ok [OF assms])
  let ?n = "unat (zfs_nr_zones b) * unat (zfs_zone_sz b)" and ?m = "zmedia content"
  have w: "(data \<noteq> [] \<longrightarrow> ret < 0 \<or> 0 < ret \<and> ret \<le> int (length data)) \<and>
      (\<forall>a. length data \<le> unat (a - pos) \<longrightarrow> ?m b' a = ?m b a) \<and> (\<forall>i < nat ret. ?m b' (pos + of_nat i) = data ! i)"
    if "unat pos < ?n \<and> length data < 2 ^ 31 \<and> ZoneFs_Write px data pos b = (ret, b')" for data pos ret b'
    using contract_write [OF assms(1) ok that [THEN conjunct1] that [THEN conjunct2, THEN conjunct1]
        that [THEN conjunct2, THEN conjunct2]] by blast
  have r: "?m b' = ?m b \<and> (\<forall>bs. res = ReadBytes bs \<longrightarrow>
        length bs \<le> n \<and> (\<forall>i < length bs. bs ! i = ?m b (pos + of_nat i)))"
    if "unat pos < ?n \<and> n < 2 ^ 31 \<and> ZoneFs_Read px n pos direct b = (res, b')" for n pos direct res b'
    using contract_read [OF assms(1) ok that [THEN conjunct1] that [THEN conjunct2, THEN conjunct1]
        that [THEN conjunct2, THEN conjunct2]] by blast
  have m: "?m (snd (ZoneFs_Finish px start b)) = ?m b \<and> ?m (snd (ZoneFs_Close px start b)) = ?m b \<and>
      fst (snd (snd (ZoneFs_Reset px start b))) \<le> zfs_zone_sz b \<and>
      (\<forall>a. unat (zfs_zone_sz b) \<le> unat (a - start) \<longrightarrow> ?m (snd (snd (snd (ZoneFs_Reset px start b)))) a = ?m b a)"
    if "k < unat (zfs_nr_zones b)" and "start = of_nat k * zfs_zone_sz b" for k start
    using contract_manage [OF assms(1) ok that] by blast
  show ?thesis
    unfolding contract_at_def zonefs_backend_def backend.simps Let_def
    by (rule conjI, intro allI impI, erule w, rule conjI, intro allI impI, erule r, intro allI impI, erule m) (rule refl)
qed

theorem zonefs_keeps_contract_witness:
  "contract_at (zonefs_backend ram_posix) (zmedia r_data) 1024 4
     (snd (ZoneFs_Write ram_posix [1, 2, 3] 1024 ram_backend_dev))"
proof -
  have r: "zonefs_reach ram_posix (snd (ZoneFs_Write ram_posix [1, 2, 3] 1024 ram_backend_dev))"
    by (rule zonefs_reach.written [OF ram_backend_reach]) simp
  have "same_mount ram_backend_dev (snd (ZoneFs_Write ram_posix [1, 2, 3] 1024 ram_backend_dev))"
    by (rule ops_mount(3))
  then have g: "zfs_zone_sz (snd (ZoneFs_Write ram_posix [1, 2, 3] 1024 ram_backend_dev)) = 1024"
    "zfs_nr_zones (snd (ZoneFs_Write ram_posix [1, 2, 3] 1024 ram_backend_dev)) = 4"
    using ram_backend_opened(2,3) by (simp_all add: same_mount_def)
  then have "fits_device (snd (ZoneFs_Write ram_posix [1, 2, 3] 1024 ram_backend_dev))"
    by (simp add: fits_device_def)
  from zonefs_keeps_contract [OF ram_posix_files r this] show ?thesis
    unfolding g by simp
qed

end
