(* ===== verification/Spec2Isabelle.thy ===== *)
theory Spec2Isabelle
  imports GarbageCollection NameSpace ZoneFs
begin

text \<open>
  A verification library for ZenFS, the file system of RocksDB for zoned block devices
  (\<^verbatim>\<open>src/rocksdb/plugin/zenfs\<close>), and for the encodings and checksums of \<^verbatim>\<open>src/rocksdb/util\<close> that its format on the
  device rests on. Paths in the theories are relative to \<^verbatim>\<open>src/rocksdb\<close>.

  \<^bold>\<open>The program.\<close> A zoned device is an array of zones that are written in sequence and reset as a whole. A backend
  (\<^verbatim>\<open>zonefs_zenfs.cc\<close>, \<^verbatim>\<open>zbdlib_zenfs.cc\<close>) reads, writes and manages the zones. \<^verbatim>\<open>zbd_zenfs.cc\<close> keeps a descriptor per
  zone, hands zones out and counts the open and the active ones with tokens. \<^verbatim>\<open>io_zenfs.cc\<close> makes files out of extents in
  the zones. \<^verbatim>\<open>fs_zenfs.cc\<close> keeps the name space, writes every change of it to a log in the metadata zones, rolls over to
  another metadata zone when the log is full, replays the log when the file system is mounted, and moves data
  out of zones that are mostly garbage.

  \<^bold>\<open>The theories.\<close>
  \<^item> \<^theory_text>\<open>Prelude\<close>, \<^theory_text>\<open>Status\<close>: machine types, generic lemmas, the status values of \<^verbatim>\<open>status.h\<close> and \<^verbatim>\<open>io_status.h\<close>.
  \<^item> \<^theory_text>\<open>Coding\<close>: \<^verbatim>\<open>coding_lean.h\<close>, \<^verbatim>\<open>coding.h\<close>, \<^verbatim>\<open>coding.cc\<close>. Decoders invert their encoders; a locale states what a codec
    promises, and every pair of functions is an instance of it.
  \<^item> \<^theory_text>\<open>Crc32c\<close>: the portable CRC32C of \<^verbatim>\<open>crc32c.cc\<close> with its tables, its masking and the combination of two
    checksums. The table-driven loop computes the bit by bit definition.
  \<^item> \<^theory_text>\<open>Zone\<close>: class \<^verbatim>\<open>Zone\<close> and the interface of the backends. Appending returns and puts exactly the accepted
    bytes on the device.
  \<^item> \<^theory_text>\<open>ZoneFs\<close>: the backend on zonefs over the system calls. Its caches of open files are lists in the order of use, and
    in every state that it reaches it keeps the contract that \<^theory_text>\<open>Zone\<close> states.
  \<^item> \<^theory_text>\<open>ZBD\<close>, \<^theory_text>\<open>ZoneTokens\<close>: class \<^verbatim>\<open>ZonedBlockDevice\<close>, and the accounting of its tokens: opening, allocating, finishing
    and resetting zones keep the counters equal to the number of active and open zones and within the limits.
  \<^item> \<^theory_text>\<open>ZoneFile\<close>, \<^theory_text>\<open>FileIO\<close>, \<^theory_text>\<open>FileWrites\<close>: class \<^verbatim>\<open>ZoneFile\<close>, its log records, and the reading and writing of its data. A locale
    states what the file relies on of the file system that persists its metadata; in it buffered appends are shown to
    add a prefix of the buffer to the content.
  \<^item> \<^theory_text>\<open>Superblock\<close>, \<^theory_text>\<open>MetaLog\<close>: the two classes of \<^verbatim>\<open>fs_zenfs.cc\<close> for the format of a metadata zone, with their
    round trips and the rejection of damaged records.
  \<^item> \<^theory_text>\<open>Paths\<close>: the lexical treatment of paths.
  \<^item> \<^theory_text>\<open>FileSystem\<close>, \<^theory_text>\<open>GarbageCollection\<close>: class \<^verbatim>\<open>ZenFS\<close>. The state is a record that extends that of the device; every
    operation is a function on it.
  \<^item> \<^theory_text>\<open>Journal\<close>: the file system provides what the locale of \<^theory_text>\<open>FileWrites\<close> asks for.
  \<^item> \<^theory_text>\<open>Replay\<close>, \<^theory_text>\<open>Recovery\<close>, \<^theory_text>\<open>CrashSafety\<close>, \<^theory_text>\<open>Remount\<close>, \<^theory_text>\<open>NameSpace\<close>: what a log means, that replaying computes it, that
    every operation on the name space keeps the log up to date, and that therefore a crash at any point between
    operations loses nothing that was reported as persisted, apart from the creation of a file that makes the log roll
    over. The operations implement those of a map from names to
    file identifiers. \<^theory_text>\<open>NameSpace\<close> also has the situations in which the code does lose or hide something.

  \<^bold>\<open>Conventions.\<close> Integers have the width of the sources and wrap around as there. An operation that may run forever
  or block returns an option. The theorems on appending to zones and files, on replaying a log and on mounting after
  a crash show that the operation returns; allocating a zone waits for tokens that others give up, so its theorems,
  and those on the steps of the name space, are about calls that have returned. There is no fuel. What is not part
  of the repository is a parameter with named hypotheses: the device behind a backend, the
  system calls, the auxiliary file system, the clock and the generator of identifiers. Operations run one after
  the other: locks and threads are left out, and what a lock protects is one step.

  \<^bold>\<open>Not modelled.\<close> The backend on libzbd, whose operations are single calls of that library. Logging, metrics and the
  output of JSON, which nothing reads. The factory, the registration and the command line tool, which are input and
  output around operations that are modelled. The processor-specific variants of the checksum. Operations that only call the
  auxiliary file system or are not supported. The rest of RocksDB, which is the client of the file system. The
  prototypes that accompany the papers, which are built apart from RocksDB and use functions that are not defined.
\<close>

end
